(* ===== verification/Prelude.thy ===== *)
theory Prelude
  imports Main "HOL-Library.Word"
begin

text \<open>
  Shared vocabulary of the development: bytes, fixed width integers, results
  with errors, byte buffers with positioned writes and reads, little-endian
  integers, and the lemmas on them that the component theories use.

  A C++ byte array (\<^verbatim>\<open>std::array<uint8_t, N>\<close>, \<^verbatim>\<open>uint8_t*\<close> with a
  size) is a list of 8-bit words; an unsigned integer of the source is a word of
  its width, so that additions wrap exactly where the source wraps.
\<close>

unbundle bit_operations_syntax

section \<open>Types\<close>

type_synonym byte = "8 word"
type_synonym u8 = "8 word"
type_synonym u16 = "16 word"
type_synonym u32 = "32 word"
type_synonym u64 = "64 word"
type_synonym bytes = "byte list"

text \<open>The error numbers the sources return.\<close>

datatype errno =
    EINVAL | EIO | EUCLEAN | ENOSPC | EBUSY | E2BIG | EOVERFLOW | ENOENT
  | EEXIST | EISDIR | ENOTDIR | EFBIG | EROFS | EBADF | ESTALE | ENOTSUP
  | EPERM | ENAMETOOLONG | EAGAIN | EINTR | ENOMEM | ENOTRECOVERABLE
  | EOPNOTSUPP | EACCES | ERANGE | EALREADY

section \<open>Results\<close>

text \<open>
  Fallible code returns a sum: \<^term>\<open>Inl e\<close> is the error path with the
  error, \<^term>\<open>Inr v\<close> the value.
\<close>

primrec bind_result :: "'e + 'a \<Rightarrow> ('a \<Rightarrow> 'e + 'b) \<Rightarrow> 'e + 'b" where
  "bind_result (Inl e) f = Inl e"
| "bind_result (Inr v) f = f v"

lemma guard_Inr [simp]: "(if c then Inl e else r) = Inr v \<longleftrightarrow> \<not> c \<and> r = Inr v"
  by simp

lemma bind_result_Inr_iff:
  "bind_result r f = Inr w \<longleftrightarrow> (\<exists>v. r = Inr v \<and> f v = Inr w)"
  by (cases r) auto

lemma bind_result_cong [fundef_cong]:
  "r = r' \<Longrightarrow> (\<And>v. r' = Inr v \<Longrightarrow> f v = f' v) \<Longrightarrow> bind_result r f = bind_result r' f'"
  by (cases r') auto

lemma bind_result_assoc: "bind_result (bind_result r f) g = bind_result r (\<lambda>v. bind_result (f v) g)"
  by (cases r) auto

lemma case_sum_Inr_iff:
  "(case x of Inl a \<Rightarrow> Inl (f a) | Inr b \<Rightarrow> g b) = Inr y \<longleftrightarrow> (\<exists>b. x = Inr b \<and> g b = Inr y)"
  by (cases x) auto

section \<open>Collections of facts\<close>

named_theorems byte_simps \<open>reads after positioned writes in a byte buffer\<close>
named_theorems codec_defs \<open>definitions unfolded when a codec is evaluated\<close>

section \<open>Byte buffers\<close>

text \<open>
  \<^term>\<open>put_bytes off bs d\<close> is the buffer \<open>d\<close> after a \<^verbatim>\<open>std::copy\<close> of \<open>bs\<close>
  to \<^verbatim>\<open>data() + off\<close>; \<^term>\<open>get_bytes off n d\<close> the \<open>n\<close> bytes at \<open>off\<close>.
  A buffer never changes its length; every write of the model stays inside it.
\<close>

definition put_bytes :: "nat \<Rightarrow> bytes \<Rightarrow> bytes \<Rightarrow> bytes" where
  "put_bytes off bs d = take (length d) (take off d @ bs @ drop (off + length bs) d)"

definition get_bytes :: "nat \<Rightarrow> nat \<Rightarrow> bytes \<Rightarrow> bytes" where
  "get_bytes off n d = take n (drop off d)"

lemma length_put_bytes [simp]: "length (put_bytes off bs d) = length d"
  by (simp add: put_bytes_def)

lemma length_get_bytes [simp]:
  "off + n \<le> length d \<Longrightarrow> length (get_bytes off n d) = n"
  by (simp add: get_bytes_def)

lemma nth_put_bytes:
  assumes "off + length bs \<le> length d" "i < length d"
  shows "put_bytes off bs d ! i =
    (if off \<le> i \<and> i < off + length bs then bs ! (i - off) else d ! i)"
  using assms by (auto simp: put_bytes_def nth_append min_def)

lemma nth_get_bytes:
  "off + n \<le> length d \<Longrightarrow> i < n \<Longrightarrow> get_bytes off n d ! i = d ! (off + i)"
  by (simp add: get_bytes_def)

lemma get_put_same [byte_simps]:
  "off + n \<le> length d \<Longrightarrow> length bs = n \<Longrightarrow> get_bytes off n (put_bytes off bs d) = bs"
  by (rule nth_equalityI) (auto simp: nth_get_bytes nth_put_bytes)

lemma get_put_other [byte_simps]:
  assumes "off' + length bs \<le> length d" "off + n \<le> length d"
    and "off + n \<le> off' \<or> off' + length bs \<le> off"
  shows "get_bytes off n (put_bytes off' bs d) = get_bytes off n d"
  using assms by (intro nth_equalityI) (auto simp: nth_get_bytes nth_put_bytes)

lemma put_put_same:
  assumes "off + length bs \<le> length d" "length bs' = length bs"
  shows "put_bytes off bs (put_bytes off bs' d) = put_bytes off bs d"
  using assms by (intro nth_equalityI) (auto simp: nth_put_bytes)

lemma put_get_id:
  assumes "off + length bs \<le> length d" "get_bytes off (length bs) d = bs"
  shows "put_bytes off bs d = d"
proof (rule nth_equalityI)
  fix i assume "i < length (put_bytes off bs d)"
  with assms(1) have i: "i < length d" by simp
  show "put_bytes off bs d ! i = d ! i"
  proof (cases "off \<le> i \<and> i < off + length bs")
    case True
    then have "bs ! (i - off) = get_bytes off (length bs) d ! (i - off)"
      using assms(2) by simp
    also have "\<dots> = d ! i" using True assms(1) by (auto simp: nth_get_bytes)
    finally show ?thesis using True assms(1) i by (simp add: nth_put_bytes)
  qed (use assms(1) i in \<open>auto simp: nth_put_bytes\<close>)
qed (use assms in simp)

lemma get_bytes_replicate [byte_simps]:
  "off + n \<le> m \<Longrightarrow> get_bytes off n (replicate m b) = replicate n b"
  by (simp add: get_bytes_def)

lemma get_put_within:
  assumes "o' \<le> off" "off + k \<le> o' + length bs" "o' + length bs \<le> length d"
  shows "get_bytes off k (put_bytes o' bs d) = get_bytes (off - o') k bs"
  using assms by (intro nth_equalityI) (auto simp: nth_get_bytes nth_put_bytes)

lemma get_bytes_append:
  assumes "get_bytes off n b = get_bytes off n b'" "get_bytes (off + n) k b = get_bytes (off + n) k b'"
  shows "get_bytes off (n + k) b = get_bytes off (n + k) b'"
proof -
  have "get_bytes off (n + k) d = get_bytes off n d @ get_bytes (off + n) k d" for d
    unfolding get_bytes_def take_add drop_drop by (simp add: add.commute)
  with assms show ?thesis by simp
qed

lemma get_bytes_records:
  assumes "\<And>i. i < n \<Longrightarrow> get_bytes (base + i * s) s b = get_bytes (base + i * s) s b'"
  shows "get_bytes base (n * s) b = get_bytes base (n * s) b'"
  using assms
proof (induction n)
  case (Suc n)
  then have "get_bytes base (n * s + s) b = get_bytes base (n * s + s) b'"
    by (intro get_bytes_append) auto
  then show ?case by (simp add: add.commute)
qed (simp add: get_bytes_def)

text \<open>
  Two buffers are equal when they agree on consecutive segments that cover them.
\<close>

fun same_segments :: "nat \<Rightarrow> nat list \<Rightarrow> bytes \<Rightarrow> bytes \<Rightarrow> bool" where
  "same_segments off [] b b' \<longleftrightarrow> True"
| "same_segments off (w # ws) b b' \<longleftrightarrow>
    get_bytes off w b = get_bytes off w b' \<and> same_segments (off + w) ws b b'"

lemma same_segments_get:
  "same_segments off ws b b' \<Longrightarrow> get_bytes off (sum_list ws) b = get_bytes off (sum_list ws) b'"
  by (induction off ws b b' rule: same_segments.induct)
    (simp add: get_bytes_def, simp, rule get_bytes_append, simp_all)

lemma same_segments_eq:
  assumes "same_segments 0 ws b b'" "length b = sum_list ws" "length b' = sum_list ws"
  shows "b = b'"
  using same_segments_get [OF assms(1)] assms(2,3) by (simp add: get_bytes_def)

lemma get_bytes_all [simp]: "get_bytes 0 (length d) d = d"
  by (simp add: get_bytes_def)

section \<open>Little-endian integers\<close>

definition le_bytes :: "nat \<Rightarrow> 'a::len word \<Rightarrow> bytes" where
  "le_bytes n w = map (\<lambda>i. ucast (drop_bit (i * 8) w)) [0..<n]"

definition le_word :: "bytes \<Rightarrow> 'a::len word" where
  "le_word bs = fold (\<lambda>i v. v OR push_bit (i * 8) (ucast (bs ! i))) [0..<length bs] 0"

lemma length_le_bytes [simp]: "length (le_bytes n w) = n"
  by (simp add: le_bytes_def)

lemma le_word_prefix:
  fixes w :: "'a::len word"
  assumes "n \<le> m"
  shows "fold (\<lambda>i v. v OR push_bit (i * 8) (ucast (le_bytes m w ! i))) [0..<n] 0
    = take_bit (n * 8) w"
  using assms
proof (induction n)
  case (Suc n)
  then have "le_bytes m w ! n = ucast (drop_bit (n * 8) w)"
    by (simp add: le_bytes_def)
  moreover have "take_bit (n * 8) w OR push_bit (n * 8) (ucast (ucast (drop_bit (n * 8) w) :: 8 word))
      = take_bit (Suc n * 8) w"
    by (rule bit_word_eqI) (auto simp: bit_simps)
  ultimately show ?case using Suc by simp
qed simp

lemma le_word_le_bytes:
  fixes w :: "'a::len word"
  assumes "LENGTH('a) \<le> n * 8"
  shows "le_word (le_bytes n w) = w"
  using le_word_prefix [of n n w] assms
  by (simp add: le_word_def take_bit_word_eq_self)

lemma le_word_zeros [simp]: "le_word (replicate n 0) = (0 :: 'a::len word)"
proof -
  have "fold (\<lambda>i v. v OR push_bit (i * 8) (ucast ((replicate n 0 :: bytes) ! i)))
      [0..<k] 0 = (0 :: 'a word)" if "k \<le> n" for k
    using that by (induction k) auto
  then show ?thesis by (simp add: le_word_def)
qed

lemma le_bytes_zero [simp]: "le_bytes n (0 :: 'a::len word) = replicate n 0"
  by (simp add: le_bytes_def map_replicate_const)

lemma bit_le_word_prefix:
  fixes bs :: bytes
  assumes "n \<le> length bs"
  shows "bit (fold (\<lambda>i v. v OR push_bit (i * 8) (ucast (bs ! i))) [0..<n] (0 :: 'a::len word)) k
    \<longleftrightarrow> k < LENGTH('a) \<and> k div 8 < n \<and> bit (bs ! (k div 8)) (k mod 8)"
  using assms
proof (induction n)
  case (Suc n)
  have "k div 8 = n \<and> bit (bs ! n) (k mod 8) \<longleftrightarrow> n * 8 \<le> k \<and> bit (bs ! n) (k - n * 8)"
  proof (cases "k div 8 = n")
    case True
    then have "k - n * 8 = k mod 8" "n * 8 \<le> k" by (auto simp: minus_div_mult_eq_mod)
    with True show ?thesis by simp
  next
    case False
    have "\<not> bit (bs ! n) (k - n * 8)" if "n * 8 \<le> k"
    proof -
      have "8 \<le> k - n * 8" using that False by (simp add: div_nat_eqI le_diff_conv2)
      then show ?thesis using bit_imp_le_length [of "bs ! n" "k - n * 8"] by auto
    qed
    with False show ?thesis by auto
  qed
  then show ?case using Suc by (auto simp: bit_simps less_Suc_eq)
qed simp

lemma bit_le_word:
  "bit (le_word bs :: 'a::len word) k
    \<longleftrightarrow> k < LENGTH('a) \<and> k div 8 < length bs \<and> bit (bs ! (k div 8)) (k mod 8)"
  unfolding le_word_def by (simp add: bit_le_word_prefix)

lemma le_bytes_le_word:
  assumes "length bs = n" "n * 8 \<le> LENGTH('a::len)"
  shows "le_bytes n (le_word bs :: 'a word) = bs"
proof (rule nth_equalityI)
  fix i assume i: "i < length (le_bytes n (le_word bs :: 'a word))"
  have "k div 8 = i \<and> k mod 8 = j" if "k = j + i * 8" "j < 8" for j k :: nat using that by simp
  then show "le_bytes n (le_word bs :: 'a word) ! i = bs ! i"
    using i assms by (intro bit_word_eqI) (auto simp: le_bytes_def bit_simps bit_le_word)
qed (use assms in simp)

lemma le_word_inject:
  assumes "length bs = length cs" "length bs * 8 \<le> LENGTH('a::len)"
  shows "(le_word bs :: 'a word) = le_word cs \<longleftrightarrow> bs = cs"
  using le_bytes_le_word [of bs "length bs", where 'a = 'a] le_bytes_le_word [of cs "length bs", where 'a = 'a] assms
  by metis

section \<open>Loops over consecutive records\<close>

text \<open>
  \<^term>\<open>writes_in lo hi g\<close>: the buffer operation \<open>g\<close> only changes bytes of
  the half-open range from \<open>lo\<close> to \<open>hi\<close>.  A loop of such operations over
  consecutive records changes each record once.
\<close>

definition writes_in :: "nat \<Rightarrow> nat \<Rightarrow> (bytes \<Rightarrow> bytes) \<Rightarrow> bool" where
  "writes_in lo hi g \<longleftrightarrow> (\<forall>d. length (g d) = length d \<and>
    (hi \<le> length d \<longrightarrow> (\<forall>off k. off + k \<le> length d \<longrightarrow> off + k \<le> lo \<or> hi \<le> off \<longrightarrow>
      get_bytes off k (g d) = get_bytes off k d)))"

lemma writes_inD:
  "writes_in lo hi g \<Longrightarrow> hi \<le> length d \<Longrightarrow> off + k \<le> length d \<Longrightarrow> off + k \<le> lo \<or> hi \<le> off \<Longrightarrow>
    get_bytes off k (g d) = get_bytes off k d"
  unfolding writes_in_def by blast

lemma writes_in_put [simp]:
  "lo \<le> off \<Longrightarrow> off + length bs \<le> hi \<Longrightarrow> writes_in lo hi (put_bytes off bs)"
  by (auto simp: writes_in_def intro!: get_put_other)

lemma writes_in_comp [simp]:
  "writes_in lo hi g \<Longrightarrow> writes_in lo hi h \<Longrightarrow> writes_in lo hi (g \<circ> h)"
  by (simp add: writes_in_def)

lemma length_fold_writes:
  assumes "\<And>i. i < n \<Longrightarrow> writes_in (lo i) (hi i) (g i)"
  shows "length (fold g [0..<n] d) = length d"
  using assms by (induction n) (auto simp: writes_in_def)

lemma get_fold_writes_other:
  assumes "\<And>i. i < n \<Longrightarrow> writes_in (base + i * s) (base + i * s + s) (g i)"
    and "base + n * s \<le> length d" "off + k \<le> length d"
    and "off + k \<le> base + m * s \<or> base + n * s \<le> off" "m \<le> n"
  shows "get_bytes off k (fold g [0..<n] d) = get_bytes off k (fold g [0..<m] d)"
  using assms
proof (induction n)
  case (Suc n)
  show ?case
  proof (cases "m = Suc n")
    case False
    let ?d = "fold g [0..<n] d"
    have len: "length ?d = length d"
      using Suc.prems(1) by (intro length_fold_writes [OF Suc.prems(1)]) simp
    have w: "writes_in (base + n * s) (base + n * s + s) (g n)" using Suc.prems(1) by simp
    have "m * s \<le> n * s" using Suc.prems(5) False by simp
    then have out: "off + k \<le> base + n * s \<or> base + n * s + s \<le> off"
      using Suc.prems(4) unfolding mult_Suc by linarith
    have "get_bytes off k (g n ?d) = get_bytes off k ?d"
      using writes_inD [OF w] len out Suc.prems(2,3) by simp
    moreover have "get_bytes off k ?d = get_bytes off k (fold g [0..<m] d)"
      using Suc.prems out False by (intro Suc.IH) auto
    ultimately show ?thesis by simp
  qed simp
qed simp

lemma get_fold_writes_before:
  assumes "\<And>i. i < n \<Longrightarrow> writes_in (base + i * s) (base + i * s + s) (g i)"
    and "base + n * s \<le> length d" "off + k \<le> length d"
    and "off + k \<le> base \<or> base + n * s \<le> off"
  shows "get_bytes off k (fold g [0..<n] d) = get_bytes off k d"
  using get_fold_writes_other [of n base s g d off k 0] assms by simp

lemma get_fold_writes_at:
  assumes "\<And>i. i < n \<Longrightarrow> writes_in (base + i * s) (base + i * s + s) (g i)"
    and "base + n * s \<le> length d" "i < n" "base + i * s \<le> off" "off + k \<le> base + i * s + s"
  shows "get_bytes off k (fold g [0..<n] d) = get_bytes off k (g i (fold g [0..<i] d))"
proof -
  have "base + i * s + s \<le> base + n * s" using assms(3) mult_le_mono1 [of "Suc i" n s] by simp
  then have "get_bytes off k (fold g [0..<n] d) = get_bytes off k (fold g [0..<Suc i] d)"
    using assms by (intro get_fold_writes_other) auto
  then show ?thesis by simp
qed

section \<open>Words\<close>

lemma xor_word_cancel [simp]:
  "x XOR z = y XOR z \<longleftrightarrow> x = (y :: 'a::len word)"
  "z XOR x = z XOR y \<longleftrightarrow> x = (y :: 'a::len word)"
proof -
  have "(v XOR z) XOR z = v" for v :: "'a word" by (simp add: xor.assoc)
  then show "x XOR z = y XOR z \<longleftrightarrow> x = y" by metis
  then show "z XOR x = z XOR y \<longleftrightarrow> x = y" by (simp add: xor.commute)
qed

lemma unat_ucast_u64 [simp]: "unat (ucast (w :: u32) :: u64) = unat w"
  using unsigned_less [of w, where 'a = nat]
  by (simp add: unsigned_ucast_eq take_bit_nat_eq_self_iff del: unsigned_less)

lemma unat_ucast_u32: "unat (w :: u64) < 2 ^ 32 \<Longrightarrow> unat (ucast w :: u32) = unat w"
  by (simp add: unsigned_ucast_eq take_bit_nat_eq_self_iff)

lemma u32_bound: "unat (w :: u32) < 4294967296"
  using unsigned_less [of w, where 'a = nat] by (simp del: unsigned_less)

lemma unat_add_u32: "unat (a :: u32) + unat b < 4294967296 \<Longrightarrow> unat (a + b) = unat a + unat b"
  by (simp add: unat_word_ariths)

lemma unat_add_ucast [simp]: "unat (ucast (a :: u32) + ucast (b :: u32) :: u64) = unat a + unat b"
  using u32_bound [of a] u32_bound [of b] by (simp add: unat_word_ariths)

lemma unat_of_nat_small: "n \<le> 65536 \<Longrightarrow> unat (of_nat n :: u32) = n"
  by (simp add: unat_of_nat)

section \<open>Concatenated records of one size\<close>

lemma div_mod_inside:
  fixes p i s :: nat
  assumes "p mod s + i < s"
  shows "(p + i) div s = p div s" "(p + i) mod s = p mod s + i"
proof -
  have e: "p + i = (p mod s + i) + s * (p div s)" by simp
  have "0 < s" using assms by simp
  then show "(p + i) div s = p div s" "(p + i) mod s = p mod s + i"
    using assms by (subst e, simp only: div_mult_self2 mod_mult_self2, simp)+
qed

lemma end_inside:
  fixes p k s :: nat
  assumes "p mod s + k \<le> s"
  shows "p + k \<le> (p div s + 1) * s"
proof -
  have "p + k = (p mod s + k) + p div s * s" by simp
  also have "\<dots> \<le> s + p div s * s" using assms by (rule add_right_mono)
  finally show ?thesis by simp
qed

lemma length_concat_equal:
  "(\<And>i. i < k \<Longrightarrow> length (f i) = s) \<Longrightarrow> length (concat (map f [0..<k])) = k * s"
  by (induction k) auto

lemma concat_equal_nth:
  assumes "\<And>i. i < k \<Longrightarrow> length (f i) = s" "n < k * s"
  shows "concat (map f [0..<k]) ! n = f (n div s) ! (n mod s)"
  using assms
proof (induction k)
  case (Suc k)
  have l: "length (concat (map f [0..<k])) = k * s" using Suc.prems(1) by (intro length_concat_equal) simp
  show ?case
  proof (cases "n < k * s")
    case True
    then show ?thesis using Suc l by (simp add: nth_append)
  next
    case False
    then have d: "n div s = k" using Suc.prems(2) by (auto simp: div_nat_eqI mult.commute)
    then have "n mod s = n - k * s" by (simp flip: minus_div_mult_eq_mod)
    with d show ?thesis using False l by (simp add: nth_append)
  qed
qed simp

lemma get_bytes_add: "get_bytes off (n + k) d = get_bytes off n d @ get_bytes (off + n) k d"
  unfolding get_bytes_def take_add drop_drop by (simp add: add.commute)

end
