(* ===== verification/OnDiskFormat.thy ===== *)
theory OnDiskFormat
  imports Prelude
begin

text \<open>
  The persistent format of \<^verbatim>\<open>src/src/metadata/ondisk_format.{h,cpp}\<close>: the
  CRC32C checksum, the superblock with its region layout, the 128-byte inode
  record and the variable length directory entry, each with its encoder and its
  decoder.  The lemmas show the round trips, that the layout the formatter
  builds is accepted, that the regions of an accepted layout are contiguous and
  disjoint, and that CRC32C detects every corruption of a single byte.

  A codec returns \<^term>\<open>Inl msg\<close> with the message of the source where the source
  returns false.  Null output pointers do not exist in the model.
\<close>

section \<open>Constants\<close>

definition kFormatVersion :: u32 where "kFormatVersion = 1"
definition kFeatureIncompatRequestLedger :: u64 where "kFeatureIncompatRequestLedger = 1"
definition kSupportedFeatureIncompat :: u64 where
  "kSupportedFeatureIncompat = kFeatureIncompatRequestLedger"

abbreviation (input) kBlockSize :: nat where "kBlockSize \<equiv> 4096"
abbreviation (input) kSuperblockHeaderSize :: nat where "kSuperblockHeaderSize \<equiv> 256"
abbreviation (input) kInodeRecordSize :: nat where "kInodeRecordSize \<equiv> 128"
abbreviation (input) kDirectBlockCount :: nat where "kDirectBlockCount \<equiv> 12"
abbreviation (input) kDirectoryEntryHeaderSize :: nat where "kDirectoryEntryHeaderSize \<equiv> 8"
abbreviation (input) kMaxNameLength :: nat where "kMaxNameLength \<equiv> 255"
abbreviation (input) kSuperblockChecksumOffset :: nat where "kSuperblockChecksumOffset \<equiv> 128"
abbreviation (input) kInodeChecksumOffset :: nat where "kInodeChecksumOffset \<equiv> 124"
abbreviation (input) kJournalControlBlockCount :: u32 where "kJournalControlBlockCount \<equiv> 2"
abbreviation (input) kMinimumJournalBlocks :: u32 where "kMinimumJournalBlocks \<equiv> 5"

definition kMaxFileSize :: u64 where
  "kMaxFileSize = (12 + 4096 div 4) * 4096"

definition kMagic :: bytes where
  "kMagic = [0x45, 0x55, 0x46, 0x53, 0x49, 0x4D, 0x47, 0x31]"

section \<open>Data\<close>

record Region =
  start_block :: u32
  block_count :: u32

record Superblock =
  total_blocks :: u32
  total_inodes :: u32
  root_inode :: u32
  inode_bitmap :: Region
  block_bitmap :: Region
  inode_table :: Region
  journal :: Region
  data :: Region
  feature_compat :: u64
  feature_ro_compat :: u64
  feature_incompat :: u64
  filesystem_uuid :: bytes
  created_time_ns :: u64

record InodeRecord =
  inode_number :: u32
  mode :: u32
  uid :: u32
  gid :: u32
  link_count :: u32
  file_size :: u64
  atime_ns :: u64
  mtime_ns :: u64
  ctime_ns :: u64
  flags :: u32
  generation :: u64
  direct_blocks :: "u32 list"
  indirect_block :: u32

text \<open>
  A C++ scoped enum over \<^verbatim>\<open>uint8_t\<close> holds every byte value: the values without a
  name are \<open>kOtherType\<close>.
\<close>

datatype DirectoryFileType = kUnknown | kRegular | kDirectory | kOtherType u8

record DirectoryEntry =
  entry_inode :: u32
  file_type :: DirectoryFileType
  entry_name :: bytes
  record_length :: u16

definition type_to_byte :: "DirectoryFileType \<Rightarrow> u8" where
  "type_to_byte t = (case t of kUnknown \<Rightarrow> 0 | kRegular \<Rightarrow> 1 | kDirectory \<Rightarrow> 2 | kOtherType b \<Rightarrow> b)"

definition byte_to_type :: "u8 \<Rightarrow> DirectoryFileType" where
  "byte_to_type b = (if b = 0 then kUnknown else if b = 1 then kRegular
    else if b = 2 then kDirectory else kOtherType b)"

section \<open>Byte level helpers\<close>

definition PutLe16 :: "nat \<Rightarrow> u16 \<Rightarrow> bytes \<Rightarrow> bytes" where
  "PutLe16 off v d = put_bytes off (le_bytes 2 v) d"

definition PutLe32 :: "nat \<Rightarrow> u32 \<Rightarrow> bytes \<Rightarrow> bytes" where
  "PutLe32 off v d = put_bytes off (le_bytes 4 v) d"

definition PutLe64 :: "nat \<Rightarrow> u64 \<Rightarrow> bytes \<Rightarrow> bytes" where
  "PutLe64 off v d = put_bytes off (le_bytes 8 v) d"

definition GetLe16 :: "nat \<Rightarrow> bytes \<Rightarrow> u16" where
  "GetLe16 off d = le_word (get_bytes off 2 d)"

definition GetLe32 :: "nat \<Rightarrow> bytes \<Rightarrow> u32" where
  "GetLe32 off d = le_word (get_bytes off 4 d)"

definition GetLe64 :: "nat \<Rightarrow> bytes \<Rightarrow> u64" where
  "GetLe64 off d = le_word (get_bytes off 8 d)"

definition BytesAreZero :: "nat \<Rightarrow> nat \<Rightarrow> bytes \<Rightarrow> bool" where
  "BytesAreZero off n d = list_all (\<lambda>b. b = 0) (get_bytes off n d)"

definition CeilDivide :: "u64 \<Rightarrow> u32 \<Rightarrow> u32" where
  "CeilDivide numerator denominator =
    ucast ((numerator + ucast denominator - 1) div ucast denominator)"

definition RegionEndsAt :: "Region \<Rightarrow> u32 \<Rightarrow> bool" where
  "RegionEndsAt region expected_end \<longleftrightarrow>
    (ucast (start_block region) + ucast (block_count region) :: u64) = ucast expected_end"

section \<open>Checksum\<close>

definition crc_bit :: "u32 \<Rightarrow> u32" where
  "crc_bit crc = (let mask = 0 - (crc AND 1) in drop_bit 1 crc XOR (0x82F63B78 AND mask))"

definition crc_byte :: "u32 \<Rightarrow> byte \<Rightarrow> u32" where
  "crc_byte crc b = (crc_bit ^^ 8) (crc XOR ucast b)"

definition Crc32c :: "bytes \<Rightarrow> u32" where
  "Crc32c d = NOT (foldl crc_byte 0xFFFFFFFF d)"

section \<open>Validation\<close>

definition ValidateSuperblock :: "Superblock \<Rightarrow> string + unit" where
  "ValidateSuperblock value =
    (if total_blocks value < 8 then Inl ''total_blocks is too small''
     else if total_inodes value = 0 \<or> root_inode value = 0 \<or> root_inode value > total_inodes value
       then Inl ''root inode is outside the inode range''
     else
       let required_inode_bitmap = CeilDivide (ucast (total_inodes value)) 32768;
           required_block_bitmap = CeilDivide (ucast (total_blocks value)) 32768;
           required_inode_table = CeilDivide (ucast (total_inodes value) * 128) 4096;
           journal_start = (ucast (start_block (inode_table value))
             + ucast (block_count (inode_table value)) :: u64);
           data_start = (ucast (start_block (journal value))
             + ucast (block_count (journal value)) :: u64)
       in
       if start_block (inode_bitmap value) \<noteq> 1
          \<or> block_count (inode_bitmap value) \<noteq> required_inode_bitmap
         then Inl ''inode bitmap does not match the v1 layout formula''
       else if start_block (block_bitmap value)
            \<noteq> start_block (inode_bitmap value) + block_count (inode_bitmap value)
          \<or> block_count (block_bitmap value) \<noteq> required_block_bitmap
         then Inl ''block bitmap does not match the v1 layout formula''
       else if start_block (inode_table value)
            \<noteq> start_block (block_bitmap value) + block_count (block_bitmap value)
          \<or> block_count (inode_table value) \<noteq> required_inode_table
         then Inl ''inode table does not match the v1 layout formula''
       else if journal_start > 0xFFFFFFFF
          \<or> ucast (start_block (journal value)) \<noteq> journal_start
          \<or> block_count (journal value) < kMinimumJournalBlocks
         then Inl ''journal must follow the inode table and reserve two controls plus at least three ring blocks''
       else if data_start > 0xFFFFFFFF
          \<or> ucast (start_block (data value)) \<noteq> data_start
          \<or> block_count (data value) = 0
          \<or> start_block (data value) \<ge> total_blocks value
          \<or> \<not> RegionEndsAt (data value) (total_blocks value)
         then Inl ''data region does not consume the remaining image blocks''
       else Inr ())"

definition IsKnownMode :: "u32 \<Rightarrow> bool" where
  "IsKnownMode m \<longleftrightarrow> (let type = m AND 0xF000 in type = 0x8000 \<or> type = 0x4000)"

definition IsKnownDirectoryFileType :: "DirectoryFileType \<Rightarrow> bool" where
  "IsKnownDirectoryFileType t \<longleftrightarrow> t = kRegular \<or> t = kDirectory"

definition IsValidName :: "bytes \<Rightarrow> bool" where
  "IsValidName name \<longleftrightarrow> name \<noteq> [] \<and> name \<noteq> [0x2E] \<and> name \<noteq> [0x2E, 0x2E]
    \<and> length name \<le> kMaxNameLength \<and> 0x2F \<notin> set name \<and> 0 \<notin> set name"

section \<open>Superblock layout and codec\<close>

definition BuildSuperblockLayout :: "u32 \<Rightarrow> u32 \<Rightarrow> u32 \<Rightarrow> string + Superblock" where
  "BuildSuperblockLayout total_blks total_inos journal_blocks =
    (if total_inos = 0 \<or> journal_blocks < kMinimumJournalBlocks
       then Inl ''inode count or journal size is invalid''
     else
       let ib = \<lparr>start_block = 1, block_count = CeilDivide (ucast total_inos) 32768\<rparr>;
           bb = \<lparr>start_block = start_block ib + block_count ib,
                 block_count = CeilDivide (ucast total_blks) 32768\<rparr>;
           it = \<lparr>start_block = start_block bb + block_count bb,
                 block_count = CeilDivide (ucast total_inos * 128) 4096\<rparr>;
           journal_start = (ucast (start_block it) + ucast (block_count it) :: u64);
           data_start = journal_start + ucast journal_blocks
       in
       if journal_start > 0xFFFFFFFF \<or> data_start \<ge> ucast total_blks
         then Inl ''image is too small for the requested metadata layout''
       else
         let value = \<lparr>total_blocks = total_blks, total_inodes = total_inos, root_inode = 1,
               inode_bitmap = ib, block_bitmap = bb, inode_table = it,
               journal = \<lparr>start_block = ucast journal_start, block_count = journal_blocks\<rparr>,
               data = \<lparr>start_block = ucast data_start,
                       block_count = total_blks - ucast data_start\<rparr>,
               feature_compat = 0, feature_ro_compat = 0, feature_incompat = 0,
               filesystem_uuid = replicate 16 0, created_time_ns = 0\<rparr>
         in bind_result (ValidateSuperblock value) (\<lambda>_. Inr value))"

definition EncodeSuperblockFields :: "Superblock \<Rightarrow> bytes" where
  "EncodeSuperblockFields value =
    (PutLe32 140 255 \<circ> PutLe32 136 1 \<circ> PutLe32 132 12
     \<circ> PutLe64 120 (created_time_ns value)
     \<circ> put_bytes 104 (filesystem_uuid value)
     \<circ> PutLe64 96 (feature_incompat value)
     \<circ> PutLe64 88 (feature_ro_compat value)
     \<circ> PutLe64 80 (feature_compat value)
     \<circ> PutLe32 76 (block_count (data value)) \<circ> PutLe32 72 (start_block (data value))
     \<circ> PutLe32 68 (block_count (journal value)) \<circ> PutLe32 64 (start_block (journal value))
     \<circ> PutLe32 60 (block_count (inode_table value)) \<circ> PutLe32 56 (start_block (inode_table value))
     \<circ> PutLe32 52 (block_count (block_bitmap value)) \<circ> PutLe32 48 (start_block (block_bitmap value))
     \<circ> PutLe32 44 (block_count (inode_bitmap value)) \<circ> PutLe32 40 (start_block (inode_bitmap value))
     \<circ> PutLe32 32 (root_inode value) \<circ> PutLe32 28 (total_inodes value)
     \<circ> PutLe32 24 (total_blocks value)
     \<circ> PutLe32 20 128 \<circ> PutLe32 16 4096 \<circ> PutLe32 12 256 \<circ> PutLe32 8 kFormatVersion
     \<circ> put_bytes 0 kMagic) (replicate kBlockSize 0)"

definition EncodeSuperblock :: "Superblock \<Rightarrow> string + bytes" where
  "EncodeSuperblock value = bind_result (ValidateSuperblock value) (\<lambda>_.
    let output = EncodeSuperblockFields value
    in Inr (PutLe32 kSuperblockChecksumOffset
         (Crc32c (get_bytes 0 kSuperblockHeaderSize output)) output))"

definition DecodeSuperblockFields :: "bytes \<Rightarrow> Superblock" where
  "DecodeSuperblockFields input =
    \<lparr>total_blocks = GetLe32 24 input, total_inodes = GetLe32 28 input,
     root_inode = GetLe32 32 input,
     inode_bitmap = \<lparr>start_block = GetLe32 40 input, block_count = GetLe32 44 input\<rparr>,
     block_bitmap = \<lparr>start_block = GetLe32 48 input, block_count = GetLe32 52 input\<rparr>,
     inode_table = \<lparr>start_block = GetLe32 56 input, block_count = GetLe32 60 input\<rparr>,
     journal = \<lparr>start_block = GetLe32 64 input, block_count = GetLe32 68 input\<rparr>,
     data = \<lparr>start_block = GetLe32 72 input, block_count = GetLe32 76 input\<rparr>,
     feature_compat = GetLe64 80 input, feature_ro_compat = GetLe64 88 input,
     feature_incompat = GetLe64 96 input, filesystem_uuid = get_bytes 104 16 input,
     created_time_ns = GetLe64 120 input\<rparr>"

definition DecodeSuperblock :: "bytes \<Rightarrow> string + Superblock" where
  "DecodeSuperblock input =
    (if get_bytes 0 8 input \<noteq> kMagic then Inl ''superblock magic mismatch''
     else if GetLe32 8 input \<noteq> kFormatVersion \<or> GetLe32 12 input \<noteq> 256
       \<or> GetLe32 16 input \<noteq> 4096 \<or> GetLe32 20 input \<noteq> 128
       \<or> GetLe32 132 input \<noteq> 12 \<or> GetLe32 136 input \<noteq> 1 \<or> GetLe32 140 input \<noteq> 255
       then Inl ''unsupported superblock format parameters''
     else if \<not> BytesAreZero 36 4 input
       \<or> \<not> BytesAreZero 144 (kSuperblockHeaderSize - 144) input
       \<or> \<not> BytesAreZero kSuperblockHeaderSize (length input - kSuperblockHeaderSize) input
       then Inl ''superblock reserved bytes are not zero''
     else
       let stored_checksum = GetLe32 kSuperblockChecksumOffset input;
           checksum_input = PutLe32 kSuperblockChecksumOffset 0 input
       in
       if Crc32c (get_bytes 0 kSuperblockHeaderSize checksum_input) \<noteq> stored_checksum
         then Inl ''superblock checksum mismatch''
       else
         let output = DecodeSuperblockFields input
         in bind_result (ValidateSuperblock output) (\<lambda>_. Inr output))"

section \<open>Inode codec\<close>

definition EncodeInodeFields :: "InodeRecord \<Rightarrow> bytes" where
  "EncodeInodeFields value =
    (PutLe32 112 (indirect_block value)
     \<circ> fold (\<lambda>index. PutLe32 (64 + index * 4) (direct_blocks value ! index)) [0..<kDirectBlockCount]
     \<circ> PutLe64 56 (generation value) \<circ> PutLe32 52 (inode_number value)
     \<circ> PutLe32 48 (flags value) \<circ> PutLe64 40 (ctime_ns value) \<circ> PutLe64 32 (mtime_ns value)
     \<circ> PutLe64 24 (atime_ns value) \<circ> PutLe64 16 (file_size value)
     \<circ> PutLe32 12 (link_count value) \<circ> PutLe32 8 (gid value) \<circ> PutLe32 4 (uid value)
     \<circ> PutLe32 0 (mode value)) (replicate kInodeRecordSize 0)"

definition EncodeInode :: "InodeRecord \<Rightarrow> string + bytes" where
  "EncodeInode value =
    (if inode_number value = 0 \<or> \<not> IsKnownMode (mode value)
       then Inl ''inode mode has an unsupported file type''
     else if file_size value > kMaxFileSize
       then Inl ''inode size exceeds the v1 direct/indirect limit''
     else
       let output = EncodeInodeFields value
       in Inr (PutLe32 kInodeChecksumOffset (Crc32c output) output))"

definition DecodeInodeFields :: "bytes \<Rightarrow> InodeRecord" where
  "DecodeInodeFields input =
    \<lparr>inode_number = GetLe32 52 input, mode = GetLe32 0 input, uid = GetLe32 4 input,
     gid = GetLe32 8 input, link_count = GetLe32 12 input, file_size = GetLe64 16 input,
     atime_ns = GetLe64 24 input, mtime_ns = GetLe64 32 input, ctime_ns = GetLe64 40 input,
     flags = GetLe32 48 input, generation = GetLe64 56 input,
     direct_blocks = map (\<lambda>index. GetLe32 (64 + index * 4) input) [0..<kDirectBlockCount],
     indirect_block = GetLe32 112 input\<rparr>"

definition DecodeInode :: "bytes \<Rightarrow> u32 \<Rightarrow> string + InodeRecord" where
  "DecodeInode input expected_inode_number =
    (let stored_checksum = GetLe32 kInodeChecksumOffset input;
         checksum_input = PutLe32 kInodeChecksumOffset 0 input
     in
     if Crc32c checksum_input \<noteq> stored_checksum then Inl ''inode checksum mismatch''
     else if \<not> BytesAreZero 116 8 input then Inl ''inode reserved bytes are not zero''
     else
       let output = DecodeInodeFields input
       in
       if expected_inode_number = 0 \<or> inode_number output \<noteq> expected_inode_number
         then Inl ''inode number does not match its table slot''
       else if \<not> IsKnownMode (mode output)
         then Inl ''inode mode has an unsupported file type''
       else if file_size output > kMaxFileSize
         then Inl ''inode size exceeds the v1 direct/indirect limit''
       else Inr output)"

section \<open>Directory entry codec\<close>

definition MinimumDirectoryRecordLength :: "nat \<Rightarrow> nat" where
  "MinimumDirectoryRecordLength name_length =
    (let unaligned = (8 + of_nat name_length :: u64)
     in unat ((unaligned + 3) AND NOT 3))"

definition EncodeDirectoryEntry :: "DirectoryEntry \<Rightarrow> u16 \<Rightarrow> bytes \<Rightarrow> string + bytes" where
  "EncodeDirectoryEntry value rec_len output =
    (if entry_inode value = 0 \<or> \<not> IsKnownDirectoryFileType (file_type value)
        \<or> \<not> IsValidName (entry_name value)
       then Inl ''directory entry fields are invalid''
     else
       let minimum = MinimumDirectoryRecordLength (length (entry_name value))
       in
       if unat rec_len < minimum \<or> unat rec_len > length output
          \<or> unat rec_len > kBlockSize \<or> rec_len mod 4 \<noteq> 0
         then Inl ''directory record length is invalid''
       else Inr ((put_bytes 8 (entry_name value)
              \<circ> put_bytes 7 [type_to_byte (file_type value)]
              \<circ> put_bytes 6 [of_nat (length (entry_name value))]
              \<circ> PutLe16 4 rec_len
              \<circ> PutLe32 0 (entry_inode value)
              \<circ> put_bytes 0 (replicate (unat rec_len) 0)) output))"

definition DecodeDirectoryEntry :: "bytes \<Rightarrow> string + DirectoryEntry" where
  "DecodeDirectoryEntry input =
    (if length input < kDirectoryEntryHeaderSize
       then Inl ''directory entry input is too small''
     else
       let rec_len = GetLe16 4 input;
           name_length = unat (input ! 6);
           ftype = byte_to_type (input ! 7)
       in
       if unat rec_len < kDirectoryEntryHeaderSize \<or> unat rec_len > length input
          \<or> unat rec_len > kBlockSize \<or> rec_len mod 4 \<noteq> 0
          \<or> name_length > unat rec_len - kDirectoryEntryHeaderSize
         then Inl ''directory record boundaries are invalid''
       else
         let inode = GetLe32 0 input
         in
         if inode = 0 then
           if name_length \<noteq> 0 \<or> ftype \<noteq> kUnknown
             then Inl ''free directory record contains active fields''
           else if \<not> BytesAreZero kDirectoryEntryHeaderSize
                  (unat rec_len - kDirectoryEntryHeaderSize) input
             then Inl ''free directory record contains non-zero payload''
           else Inr \<lparr>entry_inode = 0, file_type = kUnknown, entry_name = [], record_length = rec_len\<rparr>
         else
           let name = get_bytes 8 name_length input;
               name_end = kDirectoryEntryHeaderSize + name_length
           in
           if \<not> IsKnownDirectoryFileType ftype \<or> \<not> IsValidName name
             then Inl ''active directory record contains invalid fields''
           else if \<not> BytesAreZero name_end (unat rec_len - name_end) input
             then Inl ''directory record padding is not zero''
           else Inr \<lparr>entry_inode = inode, file_type = ftype, entry_name = name,
                     record_length = rec_len\<rparr>)"

section \<open>Vocabulary of the lemmas\<close>

definition region_start :: "Region \<Rightarrow> nat" where
  "region_start r = unat (start_block r)"

definition region_end :: "Region \<Rightarrow> nat" where
  "region_end r = unat (start_block r) + unat (block_count r)"

definition metadata_blocks :: "u32 \<Rightarrow> u32 \<Rightarrow> u32 \<Rightarrow> nat" where
  "metadata_blocks total_blks total_inos journal_blocks =
    1 + (unat total_inos + 32767) div 32768 + (unat total_blks + 32767) div 32768
    + (unat total_inos * 128 + 4095) div 4096 + unat journal_blocks"

text \<open>
  The checksum rule of the format: the CRC32C of the buffer with the checksum field
  zeroed is stored in the field.
\<close>

definition checksum_ok :: "nat \<Rightarrow> bytes \<Rightarrow> bool" where
  "checksum_ok off d \<longleftrightarrow> Crc32c (PutLe32 off 0 d) = GetLe32 off d"

text \<open>A concrete superblock and a concrete inode on which the properties are instantiated.\<close>

definition sample_superblock :: Superblock where
  "sample_superblock = \<lparr>total_blocks = 64, total_inodes = 16, root_inode = 1,
     inode_bitmap = \<lparr>start_block = 1, block_count = 1\<rparr>,
     block_bitmap = \<lparr>start_block = 2, block_count = 1\<rparr>,
     inode_table = \<lparr>start_block = 3, block_count = 1\<rparr>,
     journal = \<lparr>start_block = 4, block_count = 5\<rparr>,
     data = \<lparr>start_block = 9, block_count = 55\<rparr>,
     feature_compat = 0, feature_ro_compat = 0, feature_incompat = 0,
     filesystem_uuid = replicate 16 7, created_time_ns = 1\<rparr>"

definition sample_inode :: InodeRecord where
  "sample_inode = \<lparr>inode_number = 3, mode = 0x81A4, uid = 1000, gid = 1000, link_count = 1,
     file_size = 5000, atime_ns = 1, mtime_ns = 2, ctime_ns = 3, flags = 0, generation = 9,
     direct_blocks = [20, 21, 0, 0, 0, 0, 0, 0, 0, 0, 0, 0], indirect_block = 0\<rparr>"

section \<open>Little-endian fields of a buffer\<close>

lemmas get_le_defs = GetLe16_def GetLe32_def GetLe64_def

lemma length_PutLe [simp]:
  "length (PutLe16 off v16 d) = length d"
  "length (PutLe32 off v32 d) = length d"
  "length (PutLe64 off v64 d) = length d"
  by (simp_all add: PutLe16_def PutLe32_def PutLe64_def)

lemma get_PutLe_same [byte_simps]:
  "off + 2 \<le> length d \<Longrightarrow> get_bytes off 2 (PutLe16 off v16 d) = le_bytes 2 v16"
  "off + 4 \<le> length d \<Longrightarrow> get_bytes off 4 (PutLe32 off v32 d) = le_bytes 4 v32"
  "off + 8 \<le> length d \<Longrightarrow> get_bytes off 8 (PutLe64 off v64 d) = le_bytes 8 v64"
  by (simp_all add: PutLe16_def PutLe32_def PutLe64_def get_put_same)

lemma get_PutLe_other [byte_simps]:
  "off + n \<le> off' \<or> off' + 2 \<le> off \<Longrightarrow> off' + 2 \<le> length d \<Longrightarrow> off + n \<le> length d \<Longrightarrow>
    get_bytes off n (PutLe16 off' v16 d) = get_bytes off n d"
  "off + n \<le> off' \<or> off' + 4 \<le> off \<Longrightarrow> off' + 4 \<le> length d \<Longrightarrow> off + n \<le> length d \<Longrightarrow>
    get_bytes off n (PutLe32 off' v32 d) = get_bytes off n d"
  "off + n \<le> off' \<or> off' + 8 \<le> off \<Longrightarrow> off' + 8 \<le> length d \<Longrightarrow> off + n \<le> length d \<Longrightarrow>
    get_bytes off n (PutLe64 off' v64 d) = get_bytes off n d"
  by (simp_all add: PutLe16_def PutLe32_def PutLe64_def get_put_other)

lemma le_word_le_bytes_widths [simp]:
  "le_word (le_bytes 2 (v16 :: u16)) = v16"
  "le_word (le_bytes 4 (v32 :: u32)) = v32"
  "le_word (le_bytes 8 (v64 :: u64)) = v64"
  by (simp_all add: le_word_le_bytes)

lemma le_bytes_le_word_widths [simp]:
  "length bs = 2 \<Longrightarrow> le_bytes 2 (le_word bs :: u16) = bs"
  "length bs = 4 \<Longrightarrow> le_bytes 4 (le_word bs :: u32) = bs"
  "length bs = 8 \<Longrightarrow> le_bytes 8 (le_word bs :: u64) = bs"
  by (simp_all add: le_bytes_le_word)

lemma list_all_zero_iff: "list_all (\<lambda>b. b = 0) xs \<longleftrightarrow> xs = replicate (length xs) (0 :: byte)"
  by (induction xs) auto

lemma BytesAreZero_iff:
  "off + n \<le> length d \<Longrightarrow> BytesAreZero off n d \<longleftrightarrow> get_bytes off n d = replicate n 0"
  unfolding BytesAreZero_def by (subst list_all_zero_iff) simp

lemma PutLe32_restore:
  assumes "off + 4 \<le> length d"
  shows "PutLe32 off (GetLe32 off d) (PutLe32 off 0 d) = d"
  using assms by (simp add: PutLe32_def GetLe32_def put_put_same put_get_id)

lemma PutLe32_zero_again:
  assumes "off + 4 \<le> length d" "get_bytes off 4 d = replicate 4 0"
  shows "PutLe32 off 0 (PutLe32 off v d) = d"
  using assms by (simp add: PutLe32_def put_put_same put_get_id)

lemma list_all_zero_replicate [simp]: "list_all (\<lambda>b. b = 0) (replicate n (0::byte))"
  by (simp add: list_all_iff)

lemma writes_in_PutLe32 [simp]:
  "lo \<le> off \<Longrightarrow> off + 4 \<le> hi \<Longrightarrow> writes_in lo hi (PutLe32 off v)"
  unfolding PutLe32_def [abs_def] by simp

section \<open>CRC32C detects every single byte change\<close>

lemma crc_bit_alt: "crc_bit x = drop_bit 1 x XOR (if bit x 0 then 0x82F63B78 else 0)"
proof -
  have "x AND 1 = (if bit x 0 then 1 else 0)" by (simp add: and_one_eq bit_0 mod_2_eq_odd)
  then show ?thesis by (simp add: crc_bit_def Let_def)
qed

lemma crc_bit_top: "bit (crc_bit x) 31 \<longleftrightarrow> bit x 0"
  using bit_imp_le_length [of x 32] by (auto simp: crc_bit_alt bit_simps)

lemma crc_bit_inject: "crc_bit x = crc_bit y \<longleftrightarrow> x = y"
proof
  assume eq: "crc_bit x = crc_bit y"
  then have b0: "bit x 0 = bit y 0" using crc_bit_top by metis
  then have d: "drop_bit 1 x = drop_bit 1 y" using eq by (auto simp: crc_bit_alt split: if_splits)
  show "x = y"
  proof (rule bit_word_eqI)
    fix n show "bit x n = bit y n"
    proof (cases n)
      case 0 then show ?thesis using b0 by simp
    next
      case (Suc m)
      have "bit (drop_bit 1 x) m = bit (drop_bit 1 y) m" using d by simp
      then show ?thesis using Suc by (simp add: bit_drop_bit_eq)
    qed
  qed
qed simp

lemma crc_byte_inject: "crc_byte s b = crc_byte s' b' \<longleftrightarrow> s XOR ucast b = s' XOR ucast b'"
proof -
  have "inj (crc_bit ^^ n)" for n by (rule inj_fn) (simp add: inj_def crc_bit_inject)
  then show ?thesis by (auto simp: crc_byte_def dest: injD)
qed

lemma crc_fold_inject: "foldl crc_byte s d = foldl crc_byte s' d \<longleftrightarrow> s = s'"
  by (induction d arbitrary: s s') (simp_all add: crc_byte_inject)

lemma Crc32c_single_byte:
  assumes "i < length d" "b \<noteq> d ! i"
  shows "Crc32c (d[i := b]) \<noteq> Crc32c d"
proof -
  have "unat (ucast v :: u32) = unat v" for v :: byte
    using unsigned_less [of v, where 'a = nat]
    by (simp add: unsigned_ucast_eq take_bit_nat_eq_self_iff del: unsigned_less)
  then have "(ucast b :: u32) \<noteq> ucast (d ! i)"
    using assms(2) by (metis unsigned_word_eqI)
  then have "foldl crc_byte 0xFFFFFFFF (take i d @ b # drop (Suc i) d)
      \<noteq> foldl crc_byte 0xFFFFFFFF (take i d @ d ! i # drop (Suc i) d)"
    by (simp add: crc_fold_inject crc_byte_inject)
  then show ?thesis
    using id_take_nth_drop [OF assms(1)] upd_conv_take_nth_drop [OF assms(1)]
    by (simp add: Crc32c_def)
qed

lemma checksum_ok_single_byte:
  assumes "checksum_ok off d" "off + 4 \<le> length d" "i < length d" "b \<noteq> d ! i"
  shows "\<not> checksum_ok off (d[i := b])"
proof (cases "off \<le> i \<and> i < off + 4")
  case True
  have "PutLe32 off 0 (d[i := b]) = PutLe32 off 0 d"
    using True assms by (intro nth_equalityI) (auto simp: PutLe32_def nth_put_bytes)
  moreover have "get_bytes off 4 (d[i := b]) \<noteq> get_bytes off 4 d"
  proof
    assume "get_bytes off 4 (d[i := b]) = get_bytes off 4 d"
    then have "get_bytes off 4 (d[i := b]) ! (i - off) = get_bytes off 4 d ! (i - off)" by simp
    then show False using True assms by (auto simp: nth_get_bytes)
  qed
  then have "GetLe32 off (d[i := b]) \<noteq> GetLe32 off d"
    using assms(2) by (simp add: GetLe32_def le_word_inject)
  ultimately show ?thesis using assms(1) by (simp add: checksum_ok_def)
next
  case False
  then have "PutLe32 off 0 (d[i := b]) = (PutLe32 off 0 d)[i := b]" "PutLe32 off 0 d ! i = d ! i"
    using assms by (auto intro!: nth_equalityI simp: PutLe32_def nth_put_bytes nth_list_update)
  moreover have "get_bytes off 4 (d[i := b]) = get_bytes off 4 d"
    using False assms by (intro nth_equalityI) (auto simp: nth_get_bytes nth_list_update)
  ultimately show ?thesis
    using assms Crc32c_single_byte [of i "PutLe32 off 0 d" b]
    by (simp add: checksum_ok_def GetLe32_def PutLe32_def)
qed

section \<open>Region layout\<close>

lemma unat_CeilDivide:
  assumes "unat n + unat d < 2 ^ 64" "0 < unat d" "(unat n + unat d - 1) div unat d < 2 ^ 32"
  shows "unat (CeilDivide n d) = (unat n + unat d - 1) div unat d"
proof -
  have "unat (n + ucast d) = unat n + unat d"
    using assms(1) by (simp add: unat_word_ariths)
  moreover have "1 \<le> n + ucast d" 
    using assms calculation by (simp add: word_le_nat_alt)
  ultimately have "unat (n + ucast d - 1) = unat n + unat d - 1"
    by (simp add: unat_sub)
  then have "unat ((n + ucast d - 1) div ucast d) = (unat n + unat d - 1) div unat d"
    by (simp add: unat_div)
  with assms(3) show ?thesis by (simp add: CeilDivide_def unat_ucast_u32)
qed

lemma CeilDivide_bitmap: "unat (CeilDivide (ucast (w :: u32)) 32768) = (unat w + 32767) div 32768"
  using u32_bound [of w] by (subst unat_CeilDivide) auto

lemma CeilDivide_table: "unat (CeilDivide (ucast (w :: u32) * 128) 4096) = (unat w * 128 + 4095) div 4096"
proof -
  have "unat (ucast w * 128 :: u64) = unat w * 128"
    using u32_bound [of w] by (simp add: unat_word_ariths)
  then show ?thesis using u32_bound [of w] by (subst unat_CeilDivide) auto
qed

lemma bitmap_count_bound: "unat (CeilDivide (ucast (w :: u32)) 32768) \<le> 131072"
  using u32_bound [of w] by (simp add: CeilDivide_bitmap)

lemma ValidateSuperblock_layout_aux:
  assumes "ValidateSuperblock v = Inr ()"
  shows "region_start (inode_bitmap v) = 1"
    "region_end (inode_bitmap v) = region_start (block_bitmap v)"
    "region_end (block_bitmap v) = region_start (inode_table v)"
    "region_end (inode_table v) = region_start (journal v)"
    "region_end (journal v) = region_start (data v)"
    "region_end (data v) = unat (total_blocks v)"
    "unat (block_count (inode_bitmap v)) = (unat (total_inodes v) + 32767) div 32768"
    "unat (block_count (block_bitmap v)) = (unat (total_blocks v) + 32767) div 32768"
    "unat (block_count (inode_table v)) = (unat (total_inodes v) * 128 + 4095) div 4096"
    "5 \<le> unat (block_count (journal v))" "1 \<le> unat (block_count (data v))"
    "1 \<le> unat (root_inode v)" "unat (root_inode v) \<le> unat (total_inodes v)"
proof -
  have v: "8 \<le> total_blocks v" "total_inodes v \<noteq> 0" "root_inode v \<noteq> 0" "root_inode v \<le> total_inodes v"
    "start_block (inode_bitmap v) = 1"
    "block_count (inode_bitmap v) = CeilDivide (ucast (total_inodes v)) 32768"
    "start_block (block_bitmap v) = start_block (inode_bitmap v) + block_count (inode_bitmap v)"
    "block_count (block_bitmap v) = CeilDivide (ucast (total_blocks v)) 32768"
    "start_block (inode_table v) = start_block (block_bitmap v) + block_count (block_bitmap v)"
    "block_count (inode_table v) = CeilDivide (ucast (total_inodes v) * 128) 4096"
    "(ucast (start_block (journal v)) :: u64) = ucast (start_block (inode_table v)) + ucast (block_count (inode_table v))"
    "\<not> block_count (journal v) < 5"
    "(ucast (start_block (data v)) :: u64) = ucast (start_block (journal v)) + ucast (block_count (journal v))"
    "block_count (data v) \<noteq> 0" "RegionEndsAt (data v) (total_blocks v)"
    using assms by (auto simp: ValidateSuperblock_def Let_def not_less split: if_splits)
  show s1: "region_start (inode_bitmap v) = 1" using v(5) by (simp add: region_start_def)
  have b1: "unat (block_count (inode_bitmap v)) \<le> 131072" using v(6) bitmap_count_bound by simp
  have b2: "unat (block_count (block_bitmap v)) \<le> 131072" using v(8) bitmap_count_bound by simp
  have u1: "unat (start_block (block_bitmap v)) = 1 + unat (block_count (inode_bitmap v))"
    unfolding v(7) using b1 s1 v(5) by (subst unat_add_u32) (auto simp: region_start_def)
  then show s2: "region_end (inode_bitmap v) = region_start (block_bitmap v)"
    using s1 by (simp add: region_start_def region_end_def)
  show s3: "region_end (block_bitmap v) = region_start (inode_table v)"
    unfolding region_start_def region_end_def v(9) using b1 b2 u1 by (subst unat_add_u32) auto
  show "region_end (inode_table v) = region_start (journal v)"
    using arg_cong [OF v(11), of unat] by (simp add: region_start_def region_end_def)
  show "region_end (journal v) = region_start (data v)"
    using arg_cong [OF v(13), of unat] by (simp add: region_start_def region_end_def)
  show "region_end (data v) = unat (total_blocks v)"
    using v(15) unat_add_ucast [of "start_block (data v)" "block_count (data v)"]
    by (simp add: region_end_def RegionEndsAt_def)
  show "unat (block_count (inode_bitmap v)) = (unat (total_inodes v) + 32767) div 32768"
    "unat (block_count (block_bitmap v)) = (unat (total_blocks v) + 32767) div 32768"
    "unat (block_count (inode_table v)) = (unat (total_inodes v) * 128 + 4095) div 4096"
    using v(6,8,10) by (simp_all add: CeilDivide_bitmap CeilDivide_table)
  show "5 \<le> unat (block_count (journal v))" using v(12) by (simp add: word_less_nat_alt)
  show "1 \<le> unat (block_count (data v))" using v(14) by (simp add: unat_gt_0 Suc_le_eq)
  show "1 \<le> unat (root_inode v)" using v(3) by (simp add: unat_gt_0 Suc_le_eq)
  show "unat (root_inode v) \<le> unat (total_inodes v)" using v(4) by (simp add: word_le_nat_alt)
qed

section \<open>Superblock codec\<close>

lemma length_EncodeSuperblockFields [simp]: "length (EncodeSuperblockFields v) = kBlockSize"
  by (simp add: EncodeSuperblockFields_def)

lemma length_kMagic [simp]: "length kMagic = 8"
  by (simp add: kMagic_def)

text \<open>A field of the buffer that the encoder leaves at zero or has written reads back.\<close>

lemma EncodeSuperblockFields_get:
  assumes "length (filesystem_uuid v) = 16"
  shows "DecodeSuperblockFields (PutLe32 128 c (EncodeSuperblockFields v)) = v"
  using assms
  by (simp add: DecodeSuperblockFields_def EncodeSuperblockFields_def get_le_defs byte_simps)

lemma superblock_roundtrip:
  assumes "ValidateSuperblock v = Inr ()" "length (filesystem_uuid v) = 16"
  shows "\<exists>block. EncodeSuperblock v = Inr block \<and> length block = kBlockSize \<and> DecodeSuperblock block = Inr v"
proof -
  let ?f = "EncodeSuperblockFields v"
  let ?b = "PutLe32 128 (Crc32c (get_bytes 0 256 ?f)) ?f"
  have "get_bytes 128 4 ?f = replicate 4 0"
    using assms(2) by (simp add: EncodeSuperblockFields_def byte_simps)
  then have z: "PutLe32 128 0 ?b = ?f"
    by (simp add: PutLe32_zero_again)
  have hd: "get_bytes 0 8 ?b = kMagic" "GetLe32 8 ?b = kFormatVersion" "GetLe32 12 ?b = 256"
    "GetLe32 16 ?b = 4096" "GetLe32 20 ?b = 128" "GetLe32 132 ?b = 12" "GetLe32 136 ?b = 1"
    "GetLe32 140 ?b = 255" "GetLe32 128 ?b = Crc32c (get_bytes 0 256 ?f)"
    "BytesAreZero 36 4 ?b" "BytesAreZero 144 112 ?b" "BytesAreZero 256 3840 ?b"
    using assms(2)
    by (simp_all add: EncodeSuperblockFields_def BytesAreZero_def get_le_defs byte_simps)
  then show ?thesis using assms z EncodeSuperblockFields_get [OF assms(2)]
    by (simp add: EncodeSuperblock_def DecodeSuperblock_def Let_def)
qed

lemma EncodeSuperblockFields_decode:
  assumes "length b = 4096" "get_bytes 0 8 b = kMagic"
    and "GetLe32 8 b = kFormatVersion" "GetLe32 12 b = 256" "GetLe32 16 b = 4096" "GetLe32 20 b = 128"
    "GetLe32 132 b = 12" "GetLe32 136 b = 1" "GetLe32 140 b = 255"
    and "BytesAreZero 36 4 b" "BytesAreZero 144 112 b" "BytesAreZero 256 3840 b"
  shows "EncodeSuperblockFields (DecodeSuperblockFields b) = PutLe32 128 0 b" (is "?e = ?b")
proof -
  have ks: "le_bytes 4 kFormatVersion = get_bytes 8 4 b" "le_bytes 4 (256 :: u32) = get_bytes 12 4 b"
    "le_bytes 4 (4096 :: u32) = get_bytes 16 4 b" "le_bytes 4 (128 :: u32) = get_bytes 20 4 b"
    "le_bytes 4 (12 :: u32) = get_bytes 132 4 b" "le_bytes 4 (1 :: u32) = get_bytes 136 4 b"
    "le_bytes 4 (255 :: u32) = get_bytes 140 4 b"
    unfolding assms(3-9) [symmetric] using assms(1) by (simp_all add: get_le_defs)
  have "same_segments 0 [8,4,4,4,4,4,4,4,4,4,4,4,4,4,4,4,4,4,4,8,8,8,16,8,4,4,4,4,112,3840] ?e ?b"
    using assms(1,2,10-) ks
    by (simp add: EncodeSuperblockFields_def DecodeSuperblockFields_def GetLe32_def GetLe64_def
        byte_simps BytesAreZero_iff)
  then show ?thesis by (rule same_segments_eq) (use assms in simp_all)
qed

lemma superblock_codec_bijective:
  assumes "length block = kBlockSize" "length (filesystem_uuid v) = 16"
  shows "DecodeSuperblock block = Inr v \<longleftrightarrow> EncodeSuperblock v = Inr block"
proof
  assume dec: "DecodeSuperblock block = Inr v"
  have hd: "get_bytes 0 8 block = kMagic"
    "GetLe32 8 block = kFormatVersion" "GetLe32 12 block = 256" "GetLe32 16 block = 4096"
    "GetLe32 20 block = 128" "GetLe32 132 block = 12" "GetLe32 136 block = 1" "GetLe32 140 block = 255"
    "BytesAreZero 36 4 block" "BytesAreZero 144 112 block" "BytesAreZero 256 3840 block"
    and v: "v = DecodeSuperblockFields block" "ValidateSuperblock v = Inr ()"
    and crc: "Crc32c (get_bytes 0 256 (PutLe32 128 0 block)) = GetLe32 128 block"
    using dec assms(1) by (auto simp: DecodeSuperblock_def Let_def bind_result_Inr_iff)
  have f: "EncodeSuperblockFields v = PutLe32 128 0 block"
    unfolding v(1) using assms(1) hd by (rule EncodeSuperblockFields_decode)
  show "EncodeSuperblock v = Inr block"
    using v(2) crc assms(1) by (simp add: EncodeSuperblock_def f PutLe32_restore)
next
  assume "EncodeSuperblock v = Inr block"
  moreover from this have "ValidateSuperblock v = Inr ()"
    by (auto simp: EncodeSuperblock_def bind_result_Inr_iff)
  ultimately show "DecodeSuperblock block = Inr v"
    using superblock_roundtrip [of v] assms(2) by auto
qed

section \<open>Inode codec lemmas\<close>

lemma direct_fold_other [byte_simps]:
  assumes "112 \<le> length d" "off + k \<le> length d" "off + k \<le> 64 \<or> 112 \<le> off"
  shows "get_bytes off k (fold (\<lambda>i. PutLe32 (64 + i * 4) (xs ! i)) [0..<12] d) = get_bytes off k d"
  using assms by (intro get_fold_writes_before [where base = 64 and s = 4]) auto

lemma direct_fold_at [byte_simps]:
  assumes "112 \<le> length d" "i < 12"
  shows "get_bytes (64 + i * 4) 4 (fold (\<lambda>i. PutLe32 (64 + i * 4) (xs ! i)) [0..<12] d)
    = le_bytes 4 (xs ! i)"
proof -
  have "length (fold (\<lambda>i. PutLe32 (64 + i * 4) (xs ! i)) [0..<i] d) = length d"
    using assms(2) by (intro length_fold_writes [where lo = "\<lambda>i. 64 + i * 4" and hi = "\<lambda>i. 64 + i * 4 + 4"]) auto
  then show ?thesis using assms
    by (subst get_fold_writes_at [where base = 64 and s = 4 and i = i])
      (auto simp: PutLe32_def get_put_same)
qed

lemma length_direct_fold [simp]:
  "length (fold (\<lambda>i. PutLe32 (64 + i * 4) (xs ! i)) [0..<12] d) = length d"
  by (intro length_fold_writes [where lo = "\<lambda>i. 64 + i * 4" and hi = "\<lambda>i. 64 + i * 4 + 4"]) auto

lemma length_EncodeInodeFields [simp]: "length (EncodeInodeFields v) = 128"
  by (simp add: EncodeInodeFields_def)

lemma DecodeInodeFields_encode:
  assumes "length (direct_blocks v) = 12"
  shows "DecodeInodeFields (PutLe32 124 c (EncodeInodeFields v)) = v"
proof -
  let ?b = "PutLe32 124 c (EncodeInodeFields v)"
  have "GetLe32 (64 + i * 4) ?b = direct_blocks v ! i" if "i < 12" for i
    using that by (simp add: EncodeInodeFields_def get_le_defs byte_simps)
  then have "map (\<lambda>i. GetLe32 (64 + i * 4) ?b) [0..<12] = map ((!) (direct_blocks v)) [0..<12]"
    by (intro map_cong) simp_all
  also have "\<dots> = direct_blocks v" using map_nth [of "direct_blocks v"] assms by simp
  finally show ?thesis
    unfolding DecodeInodeFields_def
    by (simp del: upt_rec_numeral add: EncodeInodeFields_def get_le_defs byte_simps)
qed

lemma inode_roundtrip:
  assumes "inode_number v \<noteq> 0" "IsKnownMode (mode v)" "file_size v \<le> kMaxFileSize"
    and "length (direct_blocks v) = 12"
  shows "\<exists>bs. EncodeInode v = Inr bs \<and> length bs = 128 \<and> DecodeInode bs (inode_number v) = Inr v"
proof -
  let ?f = "EncodeInodeFields v"
  let ?b = "PutLe32 124 (Crc32c ?f) ?f"
  have "get_bytes 124 4 ?f = replicate 4 0"
    by (simp add: EncodeInodeFields_def byte_simps)
  then have z: "PutLe32 124 0 ?b = ?f" by (simp add: PutLe32_zero_again)
  have "BytesAreZero 116 8 ?b" "GetLe32 124 ?b = Crc32c ?f"
    by (simp_all add: BytesAreZero_def EncodeInodeFields_def get_le_defs byte_simps)
  then show ?thesis
    using assms z DecodeInodeFields_encode [OF assms(4)]
    by (simp add: EncodeInode_def DecodeInode_def Let_def)
qed

lemma EncodeInodeFields_decode:
  assumes "length bs = 128" "BytesAreZero 116 8 bs"
  shows "EncodeInodeFields (DecodeInodeFields bs) = PutLe32 124 0 bs" (is "?e = ?b")
proof -
  note eq = EncodeInodeFields_def DecodeInodeFields_def get_le_defs byte_simps
  have "get_bytes (64 + i * 4) 4 ?e = get_bytes (64 + i * 4) 4 ?b" if "i < 12" for i
    using assms that by (simp add: eq del: upt_rec_numeral)
  then have "get_bytes 64 (12 * 4) ?e = get_bytes 64 (12 * 4) ?b" by (rule get_bytes_records)
  then have d: "get_bytes 64 48 ?e = get_bytes 64 48 ?b" by simp
  have "same_segments 0 [4,4,4,4,8,8,8,8,4,4,8,48,4,8,4] ?e ?b"
    using assms d by (simp add: eq BytesAreZero_iff del: upt_rec_numeral)
  then show ?thesis by (rule same_segments_eq) (use assms in simp_all)
qed

lemma inode_codec_bijective:
  assumes "length bs = kInodeRecordSize" "length (direct_blocks v) = kDirectBlockCount"
  shows "DecodeInode bs n = Inr v \<longleftrightarrow> EncodeInode v = Inr bs \<and> inode_number v = n"
proof
  assume dec: "DecodeInode bs n = Inr v"
  then have v: "v = DecodeInodeFields bs" "BytesAreZero 116 8 bs" "n \<noteq> 0" "inode_number v = n"
      "IsKnownMode (mode v)" "\<not> kMaxFileSize < file_size v"
    and crc: "Crc32c (PutLe32 124 0 bs) = GetLe32 124 bs"
    by (auto simp: DecodeInode_def Let_def split: if_splits)
  have f: "EncodeInodeFields v = PutLe32 124 0 bs"
    unfolding v(1) using assms(1) v(2) by (rule EncodeInodeFields_decode)
  show "EncodeInode v = Inr bs \<and> inode_number v = n"
    using v(3-) crc assms(1) by (simp add: EncodeInode_def f PutLe32_restore)
next
  assume enc: "EncodeInode v = Inr bs \<and> inode_number v = n"
  then have "inode_number v \<noteq> 0" "IsKnownMode (mode v)" "file_size v \<le> kMaxFileSize"
    by (auto simp: EncodeInode_def Let_def split: if_splits)
  then show "DecodeInode bs n = Inr v"
    using inode_roundtrip [of v] assms(2) enc by auto
qed
section \<open>Directory entry codec\<close>

lemma type_byte_roundtrip:
  "IsKnownDirectoryFileType t \<Longrightarrow> byte_to_type (type_to_byte t) = t"
  by (auto simp: IsKnownDirectoryFileType_def type_to_byte_def byte_to_type_def)

lemma and_not_3: "unat ((w :: u64) AND NOT 3) = unat w div 4 * 4"
proof -
  have three: "(3 :: u64) = mask 2" by (simp add: mask_eq_exp_minus_1)
  have two: "Suc (Suc (n - 2)) = n" if "\<not> n < 2" for n :: nat using that by simp
  have "w AND NOT 3 = push_bit 2 (drop_bit 2 w)"
    unfolding three by (rule bit_word_eqI) (auto simp: bit_simps two)
  moreover have "unat (drop_bit 2 w) = unat w div 4"
    by (simp add: drop_bit_eq_div unat_div)
  moreover have "unat w div 4 * 4 < 2 ^ 64"
    using unsigned_less [of w, where 'a = nat] by (simp del: unsigned_less)
  ultimately show ?thesis
    by (simp add: push_bit_eq_mult unat_word_ariths)
qed

lemma MinimumDirectoryRecordLength_eq:
  assumes "n < 2 ^ 63"
  shows "MinimumDirectoryRecordLength n = (n + 11) div 4 * 4"
proof -
  have "unat (8 + of_nat n + 3 :: u64) = n + 11"
    using assms by (simp add: unat_word_ariths unat_of_nat)
  then show ?thesis by (simp only: MinimumDirectoryRecordLength_def Let_def and_not_3)
qed

lemma directory_entry_codec:
  assumes enc: "EncodeDirectoryEntry v len out = Inr out'"
  shows "DecodeDirectoryEntry out' = Inr (v\<lparr>record_length := len\<rparr>)
    \<and> length out' = length out \<and> drop (unat len) out' = drop (unat len) out"
proof -
  let ?n = "length (entry_name v)"
  let ?r = "unat len"
  have v: "entry_inode v \<noteq> 0" "IsKnownDirectoryFileType (file_type v)" "IsValidName (entry_name v)"
    and r: "MinimumDirectoryRecordLength ?n \<le> ?r" "?r \<le> length out" "?r \<le> 4096" "len mod 4 = 0"
    and o: "out' = put_bytes 8 (entry_name v) (put_bytes 7 [type_to_byte (file_type v)]
       (put_bytes 6 [of_nat ?n] (PutLe16 4 len (PutLe32 0 (entry_inode v)
          (put_bytes 0 (replicate ?r 0) out)))))"
    using enc by (auto simp: EncodeDirectoryEntry_def Let_def split: if_splits)
  have n: "?n \<le> 255" using v(3) by (simp add: IsValidName_def)
  have nr: "8 + ?n \<le> ?r" using r(1) n by (simp add: MinimumDirectoryRecordLength_eq)
  have mn: "unat (of_nat ?n :: u8) = ?n" using n by (simp add: unat_of_nat)
  have name: "get_bytes 8 ?n out' = entry_name v" and len: "GetLe16 4 out' = len"
    and ino: "GetLe32 0 out' = entry_inode v"
    using nr r(2) by (simp_all add: o get_le_defs byte_simps)
  have six: "out' ! 6 = of_nat ?n" and seven: "out' ! 7 = type_to_byte (file_type v)"
    using nr r(2) by (simp_all add: o nth_put_bytes)
  have zero: "BytesAreZero (8 + ?n) (?r - (8 + ?n)) out'"
    using nr r(2) by (simp add: o BytesAreZero_def byte_simps get_put_within)
  have l: "length out' = length out" by (simp add: o)
  have "get_bytes ?r (length out - ?r) out' = get_bytes ?r (length out - ?r) out"
    using nr r(2) by (simp add: o byte_simps)
  then have "drop ?r out' = drop ?r out" by (simp add: get_bytes_def l)
  then show ?thesis
    using v r nr l name len ino six seven zero mn
    by (simp add: DecodeDirectoryEntry_def Let_def type_byte_roundtrip)
qed

section \<open>Properties\<close>

lemma sample_superblock_valid: "ValidateSuperblock sample_superblock = Inr ()"
  by code_simp

lemma sample_inode_valid: "inode_number sample_inode \<noteq> 0" "IsKnownMode (mode sample_inode)"
  "file_size sample_inode \<le> kMaxFileSize" "length (direct_blocks sample_inode) = 12"
  by code_simp+

text \<open>
  C19: every superblock that passes validation has exactly one encoding: the encoder
  succeeds with a block of 4096 bytes, and a block decodes to that superblock if
  and only if it is the encoded block.
\<close>

theorem superblock_codec:
  assumes "ValidateSuperblock v = Inr ()" "length (filesystem_uuid v) = 16"
  shows "\<exists>block. EncodeSuperblock v = Inr block \<and> length block = kBlockSize
    \<and> (\<forall>b. length b = kBlockSize \<longrightarrow> (DecodeSuperblock b = Inr v \<longleftrightarrow> b = block))"
proof -
  obtain block where "EncodeSuperblock v = Inr block" "length block = kBlockSize"
    using superblock_roundtrip [OF assms] by blast
  with superblock_codec_bijective [OF _ assms(2)] show ?thesis by auto
qed

theorem superblock_codec_witness:
  "\<exists>block. EncodeSuperblock sample_superblock = Inr block \<and> length block = kBlockSize
    \<and> (\<forall>b. length b = kBlockSize \<longrightarrow> (DecodeSuperblock b = Inr sample_superblock \<longleftrightarrow> b = block))"
  by (rule superblock_codec [OF sample_superblock_valid]) (simp add: sample_superblock_def)

text \<open>
  C20: an inode record with a number, a known type and an admissible size has
  exactly one 128-byte encoding, and decoding accepts it only for its own inode
  table slot.
\<close>

theorem inode_codec:
  assumes "inode_number v \<noteq> 0" "IsKnownMode (mode v)" "file_size v \<le> kMaxFileSize"
    and "length (direct_blocks v) = kDirectBlockCount"
  shows "\<exists>bs. EncodeInode v = Inr bs \<and> length bs = kInodeRecordSize
    \<and> (\<forall>b n. length b = kInodeRecordSize \<longrightarrow>
         (DecodeInode b n = Inr v \<longleftrightarrow> b = bs \<and> n = inode_number v))"
proof -
  obtain bs where "EncodeInode v = Inr bs" "length bs = kInodeRecordSize"
    using inode_roundtrip [OF assms] by blast
  with inode_codec_bijective [OF _ assms(4)] show ?thesis by auto
qed

theorem inode_codec_witness:
  "\<exists>bs. EncodeInode sample_inode = Inr bs \<and> length bs = kInodeRecordSize
    \<and> (\<forall>b n. length b = kInodeRecordSize \<longrightarrow>
         (DecodeInode b n = Inr sample_inode \<longleftrightarrow> b = bs \<and> n = inode_number sample_inode))"
  by (rule inode_codec [OF sample_inode_valid])

text \<open>
  C21: the regions of an accepted superblock follow each other without gap or
  overlap from block 1 to the end of the image, and the bitmaps and the inode
  table are large enough for the inodes and blocks they describe.
\<close>

theorem ValidateSuperblock_regions:
  assumes "ValidateSuperblock v = Inr ()"
  shows "map region_start [inode_bitmap v, block_bitmap v, inode_table v, journal v, data v]
      = 1 # map region_end [inode_bitmap v, block_bitmap v, inode_table v, journal v]
    \<and> region_end (data v) = unat (total_blocks v)
    \<and> unat (total_inodes v) \<le> unat (block_count (inode_bitmap v)) * (kBlockSize * 8)
    \<and> unat (total_blocks v) \<le> unat (block_count (block_bitmap v)) * (kBlockSize * 8)
    \<and> unat (total_inodes v) * kInodeRecordSize \<le> unat (block_count (inode_table v)) * kBlockSize
    \<and> 5 \<le> unat (block_count (journal v)) \<and> 1 \<le> unat (block_count (data v))"
  using ValidateSuperblock_layout_aux [OF assms] by auto

theorem ValidateSuperblock_regions_witness:
  "map region_start [inode_bitmap sample_superblock, block_bitmap sample_superblock,
       inode_table sample_superblock, journal sample_superblock, data sample_superblock]
     = 1 # map region_end [inode_bitmap sample_superblock, block_bitmap sample_superblock,
       inode_table sample_superblock, journal sample_superblock]"
  using ValidateSuperblock_regions [OF sample_superblock_valid] by simp

lemma BuildSuperblockLayout_start:
  "unat (ucast (1 + CeilDivide (ucast ti) 32768 + CeilDivide (ucast tb) 32768)
      + ucast (CeilDivide (ucast ti * 128) 4096) + ucast jb :: u64) = metadata_blocks tb ti jb"
proof -
  let ?ib = "CeilDivide (ucast ti) 32768" and ?bb = "CeilDivide (ucast tb) 32768" and ?it = "CeilDivide (ucast ti * 128) 4096"
  note bnd = bitmap_count_bound [of ti] bitmap_count_bound [of tb] u32_bound [of jb] u32_bound [of tb] u32_bound [of ?it]
  have s: "unat (1 + ?ib + ?bb) = 1 + unat ?ib + unat ?bb"
    using bnd by (simp add: unat_word_ariths)
  have "unat (ucast (1 + ?ib + ?bb) + ucast ?it :: u64) = 1 + unat ?ib + unat ?bb + unat ?it"
    by (simp only: unat_add_ucast s)
  then show ?thesis
    using bnd by (simp add: metadata_blocks_def unat_word_ariths CeilDivide_bitmap CeilDivide_table)
qed

lemma BuildSuperblockLayout_needs:
  assumes "BuildSuperblockLayout tb ti jb = Inr v"
  shows "ti \<noteq> 0" "5 \<le> jb" "metadata_blocks tb ti jb < unat tb"
proof -
  let ?ds = "ucast (1 + CeilDivide (ucast ti) 32768 + CeilDivide (ucast tb) 32768)
      + ucast (CeilDivide (ucast ti * 128) 4096) + ucast jb :: u64"
  have c: "ti \<noteq> 0" "5 \<le> jb" "\<not> ucast tb \<le> ?ds"
    using assms by (auto simp: BuildSuperblockLayout_def Let_def not_less split: if_splits)
  then show "ti \<noteq> 0" "5 \<le> jb" by simp_all
  show "metadata_blocks tb ti jb < unat tb"
    using c(3) unfolding word_le_nat_alt BuildSuperblockLayout_start by simp
qed

lemma BuildSuperblockLayout_succeeds:
  assumes "ti \<noteq> 0" "5 \<le> jb" "metadata_blocks tb ti jb < unat tb"
  shows "\<exists>v. BuildSuperblockLayout tb ti jb = Inr v \<and> ValidateSuperblock v = Inr ()
    \<and> total_blocks v = tb \<and> total_inodes v = ti \<and> block_count (journal v) = jb \<and> root_inode v = 1
    \<and> region_start (data v) = metadata_blocks tb ti jb"
proof -
  let ?ib = "CeilDivide (ucast ti) 32768"
  let ?bb = "CeilDivide (ucast tb) 32768"
  let ?it = "CeilDivide (ucast ti * 128) 4096"
  let ?js = "ucast (1 + ?ib + ?bb) + ucast ?it :: u64"
  let ?ds = "?js + ucast jb"
  note bnd = bitmap_count_bound [of ti] bitmap_count_bound [of tb] u32_bound [of jb] u32_bound [of tb]
  have s: "unat (1 + ?ib + ?bb) = 1 + unat ?ib + unat ?bb"
    using bnd by (simp add: unat_word_ariths)
  have js: "unat ?js = 1 + unat ?ib + unat ?bb + unat ?it"
    by (simp only: unat_add_ucast s)
  have ds: "unat ?ds = metadata_blocks tb ti jb"
    using js bnd u32_bound [of ?it]
    by (simp add: metadata_blocks_def unat_word_ariths CeilDivide_bitmap CeilDivide_table)
  have m: "metadata_blocks tb ti jb = unat ?js + unat jb"
    unfolding js by (simp add: metadata_blocks_def CeilDivide_bitmap CeilDivide_table)
  have jl: "unat (ucast ?js :: u32) = unat ?js" and dl: "unat (ucast ?ds :: u32) = unat ?ds"
    using assms(3) bnd m ds by (intro unat_ucast_u32; simp)+
  have ti: "1 \<le> unat ti" using assms(1) by (simp add: unat_gt_0 Suc_le_eq)
  have jb: "5 \<le> unat jb" using assms(2) by (simp add: word_le_nat_alt)
  have t: "8 \<le> unat tb" 
    using assms(3) jb div_le_mono [of 32768 "unat ti + 32767" 32768]
      div_le_mono [of 4096 "unat ti * 128 + 4095" 4096] ti
    unfolding metadata_blocks_def by simp
  have up: "(ucast (ucast ?js :: u32) :: u64) = ?js" "(ucast (ucast ?ds :: u32) :: u64) = ?ds"
    using jl dl by (auto intro!: unsigned_word_eqI [where 'a = nat])
  have jmax: "\<not> 0xFFFFFFFF < ?js" and dmax: "\<not> 0xFFFFFFFF < ?ds" and dt: "\<not> ucast tb \<le> ?ds"
    using assms(3) bnd m ds by (auto simp: word_less_nat_alt word_le_nat_alt)
  have dsub: "unat (tb - ucast ?ds) = unat tb - unat ?ds"
    using assms(3) ds dl by (subst unat_sub) (auto simp: word_le_nat_alt)
  have dpos: "tb - ucast ?ds \<noteq> 0" "\<not> tb \<le> ucast ?ds"
    using dsub assms(3) ds dl by (auto simp: word_le_nat_alt)
  have ends: "RegionEndsAt \<lparr>start_block = ucast ?ds, block_count = tb - ucast ?ds\<rparr> tb"
    unfolding RegionEndsAt_def using dsub dl ds assms(3)
    by (intro unsigned_word_eqI [where 'a = nat]) (simp only: unat_add_ucast Region.select_convs unat_ucast_u64)
  have small: "\<not> tb < 8" "1 \<le> ti" "\<not> jb < 5"
    using t ti jb by (auto simp: word_less_nat_alt word_le_nat_alt)
  show ?thesis
    using assms(1) jmax dmax dt dpos ends small up ds dl
    by (simp add: BuildSuperblockLayout_def ValidateSuperblock_def Let_def region_start_def not_le not_less)
qed

text \<open>
  C22: the layout builder succeeds exactly when there is an inode, the journal has its
  minimal size and the metadata leaves at least one data block: its own final validation
  never fails and 32-bit sums never wrap.  The result is valid, has the requested sizes, and
  its data region starts right after the metadata.
\<close>

theorem BuildSuperblockLayout_total:
  "(\<exists>v. BuildSuperblockLayout tb ti jb = Inr v) = (ti \<noteq> 0 \<and> 5 \<le> jb \<and> metadata_blocks tb ti jb < unat tb)
    \<and> (\<forall>v. BuildSuperblockLayout tb ti jb = Inr v \<longrightarrow> ValidateSuperblock v = Inr ()
      \<and> total_blocks v = tb \<and> total_inodes v = ti \<and> block_count (journal v) = jb \<and> root_inode v = 1
      \<and> region_start (data v) = metadata_blocks tb ti jb)"
proof (cases "\<exists>v. BuildSuperblockLayout tb ti jb = Inr v")
  case True
  then obtain v where v: "BuildSuperblockLayout tb ti jb = Inr v" by blast
  note needs = BuildSuperblockLayout_needs [OF v]
  with BuildSuperblockLayout_succeeds [OF needs] v show ?thesis by auto
next
  case False
  with BuildSuperblockLayout_succeeds [of ti jb tb] show ?thesis by blast
qed

theorem BuildSuperblockLayout_total_witness:
  "(\<exists>v. BuildSuperblockLayout 64 16 5 = Inr v \<and> ValidateSuperblock v = Inr () \<and> total_blocks v = 64
      \<and> region_start (data v) = 9)
    \<and> (\<nexists>v. BuildSuperblockLayout 9 16 5 = Inr v)"
proof -
  have m: "metadata_blocks 64 16 5 = 9" "metadata_blocks 9 16 5 = 9" by (simp_all add: metadata_blocks_def)
  show ?thesis using BuildSuperblockLayout_total [of 64 16 5] BuildSuperblockLayout_total [of 9 16 5] m by auto
qed

text \<open>
  C23: a stored inode record in which any single byte was changed is rejected with
  a checksum error, whatever slot it is read for.
\<close>

theorem DecodeInode_detects_byte:
  assumes "DecodeInode bs n = Inr v" "length bs = 128" "i < 128" "b \<noteq> bs ! i"
  shows "DecodeInode (bs[i := b]) m = Inl ''inode checksum mismatch''"
proof -
  have "checksum_ok 124 bs"
    using assms(1) by (auto simp: DecodeInode_def checksum_ok_def Let_def split: if_splits)
  then have "\<not> checksum_ok 124 (bs[i := b])"
    using assms by (intro checksum_ok_single_byte) auto
  then show ?thesis by (simp add: DecodeInode_def checksum_ok_def)
qed

theorem DecodeInode_detects_byte_witness:
  "\<exists>bs. EncodeInode sample_inode = Inr bs
    \<and> DecodeInode (bs[40 := bs ! 40 + 1]) 3 = Inl ''inode checksum mismatch''"
proof -
  obtain bs where bs: "EncodeInode sample_inode = Inr bs" "length bs = 128"
    "DecodeInode bs (inode_number sample_inode) = Inr sample_inode"
    using inode_roundtrip [OF sample_inode_valid] by blast
  show ?thesis using bs DecodeInode_detects_byte [OF bs(3,2), of 40 "bs ! 40 + 1" 3] by simp
qed

text \<open>
  C24: an encoded directory entry decodes to the same entry with the chosen record
  length, and encoding changes no byte after the record.
\<close>

theorem directory_entry_roundtrip:
  assumes enc: "EncodeDirectoryEntry v len out = Inr out'"
  shows "DecodeDirectoryEntry out' = Inr (v\<lparr>record_length := len\<rparr>)
    \<and> length out' = length out \<and> drop (unat len) out' = drop (unat len) out"
  using assms by (rule directory_entry_codec)

theorem directory_entry_roundtrip_witness:
  "let v = \<lparr>entry_inode = 5, file_type = kRegular, entry_name = [0x61, 0x62], record_length = 0\<rparr>;
       out = replicate 64 (9 :: byte) in
   \<exists>out'. EncodeDirectoryEntry v 16 out = Inr out' \<and>
     DecodeDirectoryEntry out' = Inr (v\<lparr>record_length := 16\<rparr>)
     \<and> length out' = length out \<and> drop 16 out' = drop 16 out"
proof -
  let ?v = "\<lparr>entry_inode = 5, file_type = kRegular, entry_name = [0x61, 0x62], record_length = 0\<rparr>"
  let ?o = "replicate 64 (9 :: byte)"
  obtain out' where o: "EncodeDirectoryEntry ?v 16 ?o = Inr out'"
    by (cases "EncodeDirectoryEntry ?v 16 ?o")
      (simp_all add: EncodeDirectoryEntry_def IsKnownDirectoryFileType_def IsValidName_def
        MinimumDirectoryRecordLength_eq Let_def)
  then show ?thesis using directory_entry_roundtrip [OF o] by (auto simp: Let_def)
qed
end
