(* ===== verification/OnDiskJournal.thy ===== *)
theory OnDiskJournal
  imports OnDiskFormat
begin

text \<open>
  The journal records of \<^verbatim>\<open>src/src/journal/ondisk_journal.{h,cpp}\<close>: the A/B
  control blocks with their selection rule, the transaction descriptor and the
  COMMIT record.  The lemmas show the round trips of the three codecs, that
  the three kinds of record exclude each other, that single byte corruption is
  detected, and what \<^verbatim>\<open>SelectControl\<close> guarantees about the copy it picks.
\<close>

section \<open>Constants\<close>

definition kDescriptorMagic :: bytes where
  "kDescriptorMagic = [0x45, 0x55, 0x46, 0x53, 0x4A, 0x44, 0x53, 0x31]"

definition kCommitMagic :: bytes where
  "kCommitMagic = [0x45, 0x55, 0x46, 0x53, 0x4A, 0x43, 0x4D, 0x31]"

definition kControlMagic :: bytes where
  "kControlMagic = [0x45, 0x55, 0x46, 0x53, 0x4A, 0x43, 0x54, 0x31]"

abbreviation (input) kJournalFormatVersion :: u32 where "kJournalFormatVersion \<equiv> 1"
abbreviation (input) kRecordChecksumOffset :: nat where "kRecordChecksumOffset \<equiv> 60"
abbreviation (input) kControlChecksumOffset :: nat where "kControlChecksumOffset \<equiv> 124"
abbreviation (input) kMaxDescriptorEntries :: nat where "kMaxDescriptorEntries \<equiv> 252"
abbreviation (input) kMinimumJournalRingBlocks :: u32 where "kMinimumJournalRingBlocks \<equiv> 3"

section \<open>Data\<close>

datatype ControlCopy = kA | kB

datatype GenerationComparison = kEqual | kFirstNewer | kSecondNewer | kAmbiguous

record JournalControl =
  ring_blocks :: u32
  control_uuid :: bytes
  control_generation :: u64
  head :: u32
  tail :: u32
  used_blocks :: u32
  state_flags :: u32
  next_transaction_id :: u64
  control_feature_compat :: u64
  control_feature_ro_compat :: u64
  control_feature_incompat :: u64
  control_checksum :: u32

record DescriptorEntry =
  home_block :: u32
  payload_ring_index :: u32
  payload_crc32c :: u32
  entry_flags :: u32

record DescriptorRecord =
  descriptor_transaction_id :: u64
  descriptor_uuid :: bytes
  descriptor_block_count :: u32
  descriptor_flags :: u32
  descriptor_checksum :: u32
  entries :: "DescriptorEntry list"

record CommitRecord =
  commit_transaction_id :: u64
  commit_uuid :: bytes
  entry_count :: u32
  commit_block_count :: u32
  descriptor_ring_index :: u32
  descriptor_crc32c :: u32
  commit_checksum :: u32

section \<open>Helpers\<close>

definition IsZeroRange :: "bytes \<Rightarrow> nat \<Rightarrow> bool" where
  "IsZeroRange block first = BytesAreZero first (length block - first) block"

definition ComputeBlockChecksum :: "bytes \<Rightarrow> nat \<Rightarrow> u32" where
  "ComputeBlockChecksum block checksum_offset = Crc32c (PutLe32 checksum_offset 0 block)"

definition ValidateControlFields :: "JournalControl \<Rightarrow> string + unit" where
  "ValidateControlFields value =
    (if ring_blocks value < kMinimumJournalRingBlocks
        \<or> head value \<ge> ring_blocks value
        \<or> tail value \<ge> ring_blocks value
        \<or> used_blocks value > ring_blocks value
        \<or> (used_blocks value \<noteq> 0 \<and> used_blocks value < kMinimumJournalRingBlocks)
        \<or> next_transaction_id value = 0
       then Inl ''journal control positions or counters are invalid''
     else
       let expected_head = (ucast ((ucast (tail value) + ucast (used_blocks value) :: u64)
             mod ucast (ring_blocks value)) :: u32)
       in
       if head value \<noteq> expected_head
         then Inl ''journal control head, tail, and used count disagree''
       else if state_flags value \<noteq> 0 \<or> control_feature_compat value \<noteq> 0
          \<or> control_feature_ro_compat value \<noteq> 0 \<or> control_feature_incompat value \<noteq> 0
         then Inl ''journal control requires unsupported v1 flags''
       else Inr ())"

definition ControlsEquivalent :: "JournalControl \<Rightarrow> JournalControl \<Rightarrow> bool" where
  "ControlsEquivalent first second \<longleftrightarrow>
    ring_blocks first = ring_blocks second
    \<and> control_uuid first = control_uuid second
    \<and> control_generation first = control_generation second
    \<and> head first = head second \<and> tail first = tail second
    \<and> used_blocks first = used_blocks second
    \<and> state_flags first = state_flags second
    \<and> next_transaction_id first = next_transaction_id second
    \<and> control_feature_compat first = control_feature_compat second
    \<and> control_feature_ro_compat first = control_feature_ro_compat second
    \<and> control_feature_incompat first = control_feature_incompat second"

fun ValidateEntryList ::
  "u32 list \<Rightarrow> u32 list \<Rightarrow> DescriptorEntry list \<Rightarrow> string + unit" where
  "ValidateEntryList home_blocks payload_positions [] = Inr ()"
| "ValidateEntryList home_blocks payload_positions (entry # rest) =
    (if home_block entry = 0 \<or> entry_flags entry \<noteq> 0
       then Inl ''descriptor entry has an invalid home block or flags''
     else if home_block entry \<in> set home_blocks
       then Inl ''descriptor contains a duplicate home block''
     else if payload_ring_index entry \<in> set payload_positions
       then Inl ''descriptor contains a duplicate payload position''
     else ValidateEntryList (home_block entry # home_blocks)
            (payload_ring_index entry # payload_positions) rest)"

definition ValidateDescriptorEntries :: "DescriptorEntry list \<Rightarrow> string + unit" where
  "ValidateDescriptorEntries es =
    (if es = [] \<or> length es > kMaxDescriptorEntries
       then Inl ''descriptor entry count is outside the v1 range''
     else ValidateEntryList [] [] es)"

section \<open>Control blocks\<close>

definition EncodeControlFields :: "JournalControl \<Rightarrow> bytes" where
  "EncodeControlFields value =
    (PutLe64 88 (control_feature_incompat value)
     \<circ> PutLe64 80 (control_feature_ro_compat value)
     \<circ> PutLe64 72 (control_feature_compat value)
     \<circ> PutLe64 64 (next_transaction_id value)
     \<circ> PutLe32 60 (state_flags value)
     \<circ> PutLe32 56 (used_blocks value)
     \<circ> PutLe32 52 (tail value)
     \<circ> PutLe32 48 (head value)
     \<circ> PutLe64 40 (control_generation value)
     \<circ> put_bytes 24 (control_uuid value)
     \<circ> PutLe32 20 (ring_blocks value)
     \<circ> PutLe32 16 4096 \<circ> PutLe32 12 128 \<circ> PutLe32 8 kJournalFormatVersion
     \<circ> put_bytes 0 kControlMagic) (replicate kBlockSize 0)"

definition EncodeControl :: "JournalControl \<Rightarrow> string + bytes \<times> u32" where
  "EncodeControl value = bind_result (ValidateControlFields value) (\<lambda>_.
    let output = EncodeControlFields value;
        computed = ComputeBlockChecksum output kControlChecksumOffset
    in Inr (PutLe32 kControlChecksumOffset computed output, computed))"

definition DecodeControlFields :: "bytes \<Rightarrow> JournalControl" where
  "DecodeControlFields input =
    \<lparr>ring_blocks = GetLe32 20 input, control_uuid = get_bytes 24 16 input,
     control_generation = GetLe64 40 input, head = GetLe32 48 input, tail = GetLe32 52 input,
     used_blocks = GetLe32 56 input, state_flags = GetLe32 60 input,
     next_transaction_id = GetLe64 64 input, control_feature_compat = GetLe64 72 input,
     control_feature_ro_compat = GetLe64 80 input, control_feature_incompat = GetLe64 88 input,
     control_checksum = GetLe32 kControlChecksumOffset input\<rparr>"

definition DecodeControl :: "bytes \<Rightarrow> string + JournalControl" where
  "DecodeControl input =
    (if get_bytes 0 8 input \<noteq> kControlMagic \<or> GetLe32 8 input \<noteq> kJournalFormatVersion
        \<or> GetLe32 12 input \<noteq> 128 \<or> GetLe32 16 input \<noteq> 4096
       then Inl ''journal control header does not match the v1 format''
     else if GetLe32 kControlChecksumOffset input
          \<noteq> ComputeBlockChecksum input kControlChecksumOffset
       then Inl ''journal control checksum mismatch''
     else if \<not> BytesAreZero 96 28 input \<or> \<not> IsZeroRange input 128
       then Inl ''journal control reserved bytes are not zero''
     else
       let decoded = DecodeControlFields input
       in bind_result (ValidateControlFields decoded) (\<lambda>_. Inr decoded))"

definition CompareGenerations :: "u64 \<Rightarrow> u64 \<Rightarrow> GenerationComparison" where
  "CompareGenerations first second =
    (if first = second then kEqual
     else
       let kHalfRange = push_bit 63 1;
           difference = first - second
       in
       if difference = kHalfRange then kAmbiguous
       else if difference < kHalfRange then kFirstNewer else kSecondNewer)"

definition valid_copy :: "bytes \<Rightarrow> bytes \<Rightarrow> u32 \<Rightarrow> JournalControl option" where
  "valid_copy control expected_uuid expected_ring_blocks =
    (case DecodeControl control of
       Inl _ \<Rightarrow> None
     | Inr decoded \<Rightarrow>
         if control_uuid decoded = expected_uuid \<and> ring_blocks decoded = expected_ring_blocks
         then Some decoded else None)"

definition SelectControl ::
  "bytes \<Rightarrow> bytes \<Rightarrow> bytes \<Rightarrow> u32 \<Rightarrow> string + JournalControl \<times> ControlCopy" where
  "SelectControl control_a control_b expected_uuid expected_ring_blocks =
    (if expected_ring_blocks < kMinimumJournalRingBlocks
       then Inl ''journal control selection arguments are invalid''
     else
       case (valid_copy control_a expected_uuid expected_ring_blocks,
             valid_copy control_b expected_uuid expected_ring_blocks) of
         (None, None) \<Rightarrow> Inl ''both journal control copies are invalid''
       | (Some decoded_a, None) \<Rightarrow> Inr (decoded_a, kA)
       | (None, Some decoded_b) \<Rightarrow> Inr (decoded_b, kB)
       | (Some decoded_a, Some decoded_b) \<Rightarrow>
           (case CompareGenerations (control_generation decoded_a) (control_generation decoded_b) of
              kAmbiguous \<Rightarrow> Inl ''journal control generations are half-range ambiguous''
            | kEqual \<Rightarrow>
                if \<not> ControlsEquivalent decoded_a decoded_b
                then Inl ''equal journal generations contain different states''
                else Inr (decoded_a, kA)
            | kFirstNewer \<Rightarrow> Inr (decoded_a, kA)
            | kSecondNewer \<Rightarrow> Inr (decoded_b, kB)))"

section \<open>Descriptor\<close>

definition EncodeEntryAt :: "DescriptorEntry list \<Rightarrow> nat \<Rightarrow> bytes \<Rightarrow> bytes" where
  "EncodeEntryAt es index =
    (let entry = es ! index; encoded = 64 + index * 16
     in PutLe32 (encoded + 12) (entry_flags entry)
        \<circ> PutLe32 (encoded + 8) (payload_crc32c entry)
        \<circ> PutLe32 (encoded + 4) (payload_ring_index entry)
        \<circ> PutLe32 encoded (home_block entry))"

definition EncodeDescriptorFields :: "DescriptorRecord \<Rightarrow> bytes" where
  "EncodeDescriptorFields value =
    (fold (EncodeEntryAt (entries value)) [0..<length (entries value)]
     \<circ> PutLe32 56 (descriptor_flags value)
     \<circ> PutLe32 52 64
     \<circ> PutLe32 48 (descriptor_block_count value)
     \<circ> put_bytes 32 (descriptor_uuid value)
     \<circ> PutLe64 24 (descriptor_transaction_id value)
     \<circ> PutLe32 20 (of_nat (length (entries value)))
     \<circ> PutLe32 16 1 \<circ> PutLe32 12 64 \<circ> PutLe32 8 kJournalFormatVersion
     \<circ> put_bytes 0 kDescriptorMagic) (replicate kBlockSize 0)"

text \<open>
  For a zero transaction id or non-zero flags the source returns false and leaves
  the caller's message as it was: the empty message here.
\<close>

definition EncodeDescriptor :: "DescriptorRecord \<Rightarrow> string + bytes \<times> u32" where
  "EncodeDescriptor value =
    (if descriptor_transaction_id value = 0 \<or> descriptor_flags value \<noteq> 0 then Inl ''''
     else bind_result (ValidateDescriptorEntries (entries value)) (\<lambda>_.
       if descriptor_block_count value \<noteq> of_nat (length (entries value) + 2)
         then Inl ''descriptor transaction block count is inconsistent''
       else
         let output = EncodeDescriptorFields value;
             computed = ComputeBlockChecksum output kRecordChecksumOffset
         in Inr (PutLe32 kRecordChecksumOffset computed output, computed)))"

definition DecodeEntryAt :: "bytes \<Rightarrow> nat \<Rightarrow> DescriptorEntry" where
  "DecodeEntryAt input index =
    (let encoded = 64 + index * 16
     in \<lparr>home_block = GetLe32 encoded input, payload_ring_index = GetLe32 (encoded + 4) input,
         payload_crc32c = GetLe32 (encoded + 8) input, entry_flags = GetLe32 (encoded + 12) input\<rparr>)"

definition DecodeDescriptor :: "bytes \<Rightarrow> string + DescriptorRecord" where
  "DecodeDescriptor input =
    (if get_bytes 0 8 input \<noteq> kDescriptorMagic \<or> GetLe32 8 input \<noteq> kJournalFormatVersion
        \<or> GetLe32 12 input \<noteq> 64 \<or> GetLe32 16 input \<noteq> 1 \<or> GetLe32 52 input \<noteq> 64
       then Inl ''descriptor header does not match the v1 format''
     else if GetLe32 kRecordChecksumOffset input
          \<noteq> ComputeBlockChecksum input kRecordChecksumOffset
       then Inl ''descriptor checksum mismatch''
     else
       let count = GetLe32 20 input
       in
       if count = 0 \<or> unat count > kMaxDescriptorEntries
         then Inl ''descriptor entry count is outside the v1 range''
       else if GetLe64 24 input = 0
         then Inl ''descriptor transaction id is invalid''
       else if GetLe32 56 input \<noteq> 0 \<or> GetLe32 48 input \<noteq> count + 2
         then Inl ''descriptor flags or block count are invalid''
       else
         let decoded = \<lparr>descriptor_transaction_id = GetLe64 24 input,
               descriptor_uuid = get_bytes 32 16 input,
               descriptor_block_count = GetLe32 48 input,
               descriptor_flags = GetLe32 56 input,
               descriptor_checksum = GetLe32 kRecordChecksumOffset input,
               entries = map (DecodeEntryAt input) [0..<unat count]\<rparr>;
             used = 64 + unat count * 16
         in
         if \<not> IsZeroRange input used then Inl ''descriptor reserved bytes are not zero''
         else bind_result (ValidateDescriptorEntries (entries decoded)) (\<lambda>_. Inr decoded))"

section \<open>COMMIT\<close>

definition EncodeCommitFields :: "CommitRecord \<Rightarrow> bytes" where
  "EncodeCommitFields value =
    (PutLe32 56 (descriptor_crc32c value)
     \<circ> PutLe32 52 (descriptor_ring_index value)
     \<circ> PutLe32 48 (commit_block_count value)
     \<circ> put_bytes 32 (commit_uuid value)
     \<circ> PutLe64 24 (commit_transaction_id value)
     \<circ> PutLe32 20 (entry_count value)
     \<circ> PutLe32 16 2 \<circ> PutLe32 12 64 \<circ> PutLe32 8 kJournalFormatVersion
     \<circ> put_bytes 0 kCommitMagic) (replicate kBlockSize 0)"

definition commit_fields_bad :: "CommitRecord \<Rightarrow> bool" where
  "commit_fields_bad value \<longleftrightarrow> commit_transaction_id value = 0 \<or> entry_count value = 0
    \<or> unat (entry_count value) > kMaxDescriptorEntries
    \<or> commit_block_count value \<noteq> entry_count value + 2"

definition EncodeCommit :: "CommitRecord \<Rightarrow> string + bytes" where
  "EncodeCommit value =
    (if commit_fields_bad value
       then Inl ''commit fields do not describe a valid v1 transaction''
     else
       let output = EncodeCommitFields value;
           computed = ComputeBlockChecksum output kRecordChecksumOffset
       in Inr (PutLe32 kRecordChecksumOffset computed output))"

definition DecodeCommit :: "bytes \<Rightarrow> string + CommitRecord" where
  "DecodeCommit input =
    (if get_bytes 0 8 input \<noteq> kCommitMagic \<or> GetLe32 8 input \<noteq> kJournalFormatVersion
        \<or> GetLe32 12 input \<noteq> 64 \<or> GetLe32 16 input \<noteq> 2
       then Inl ''commit header does not match the v1 format''
     else if GetLe32 kRecordChecksumOffset input
          \<noteq> ComputeBlockChecksum input kRecordChecksumOffset
       then Inl ''commit checksum mismatch''
     else if \<not> IsZeroRange input 64 then Inl ''commit reserved bytes are not zero''
     else
       let decoded = \<lparr>commit_transaction_id = GetLe64 24 input,
             commit_uuid = get_bytes 32 16 input,
             entry_count = GetLe32 20 input,
             commit_block_count = GetLe32 48 input,
             descriptor_ring_index = GetLe32 52 input,
             descriptor_crc32c = GetLe32 56 input,
             commit_checksum = GetLe32 kRecordChecksumOffset input\<rparr>
       in
       if commit_fields_bad decoded
         then Inl ''commit fields do not describe a valid v1 transaction''
       else Inr decoded)"

definition CommitMatchesDescriptor :: "DescriptorRecord \<Rightarrow> u32 \<Rightarrow> CommitRecord \<Rightarrow> bool" where
  "CommitMatchesDescriptor descriptor ring_index commit \<longleftrightarrow>
    descriptor_transaction_id descriptor = commit_transaction_id commit
    \<and> descriptor_uuid descriptor = commit_uuid commit
    \<and> length (entries descriptor) = unat (entry_count commit)
    \<and> descriptor_block_count descriptor = commit_block_count commit
    \<and> ring_index = descriptor_ring_index commit
    \<and> descriptor_checksum descriptor = descriptor_crc32c commit"

section \<open>Control codec lemmas\<close>

lemma length_magics [simp]:
  "length kDescriptorMagic = 8" "length kCommitMagic = 8" "length kControlMagic = 8"
  by (simp_all add: kDescriptorMagic_def kCommitMagic_def kControlMagic_def)

lemma length_EncodeControlFields [simp]: "length (EncodeControlFields v) = 4096"
  by (simp add: EncodeControlFields_def)

lemma ComputeBlockChecksum_put [simp]:
  assumes "off + 4 \<le> length d" "get_bytes off 4 d = replicate 4 0"
  shows "ComputeBlockChecksum (PutLe32 off v d) off = ComputeBlockChecksum d off"
  using assms by (simp add: ComputeBlockChecksum_def PutLe32_def put_put_same)

text \<open>The fields of an encoded control block.\<close>

lemma EncodeControl_fields:
  assumes "length (control_uuid v) = 16"
  shows "DecodeControlFields (PutLe32 124 c (EncodeControlFields v)) = v\<lparr>control_checksum := c\<rparr>"
    "get_bytes 0 8 (PutLe32 124 c (EncodeControlFields v)) = kControlMagic"
    "GetLe32 8 (PutLe32 124 c (EncodeControlFields v)) = 1"
    "GetLe32 12 (PutLe32 124 c (EncodeControlFields v)) = 128"
    "GetLe32 16 (PutLe32 124 c (EncodeControlFields v)) = 4096"
    "GetLe32 124 (PutLe32 124 c (EncodeControlFields v)) = c"
    "BytesAreZero 96 28 (PutLe32 124 c (EncodeControlFields v))"
    "IsZeroRange (PutLe32 124 c (EncodeControlFields v)) 128"
    "get_bytes 124 4 (EncodeControlFields v) = replicate 4 0"
  using assms
  by (simp_all add: DecodeControlFields_def EncodeControlFields_def IsZeroRange_def BytesAreZero_def
      get_le_defs byte_simps)

lemma ValidateControlFields_checksum [simp]:
  "ValidateControlFields (v\<lparr>control_checksum := c\<rparr>) = ValidateControlFields v"
  by (simp add: ValidateControlFields_def)

lemma control_roundtrip:
  assumes "ValidateControlFields v = Inr ()" "length (control_uuid v) = 16"
  obtains block c where "EncodeControl v = Inr (block, c)" "length block = 4096"
    "DecodeControl block = Inr (v\<lparr>control_checksum := c\<rparr>)"
proof -
  let ?f = "EncodeControlFields v"
  let ?c = "ComputeBlockChecksum ?f 124"
  have "EncodeControl v = Inr (PutLe32 124 ?c ?f, ?c)"
    using assms by (simp add: EncodeControl_def Let_def)
  moreover have "DecodeControl (PutLe32 124 ?c ?f) = Inr (v\<lparr>control_checksum := ?c\<rparr>)"
    using assms by (simp add: DecodeControl_def EncodeControl_fields)
  ultimately show ?thesis using that by simp
qed

section \<open>COMMIT codec lemmas\<close>

lemma length_EncodeCommitFields [simp]: "length (EncodeCommitFields v) = 4096"
  by (simp add: EncodeCommitFields_def)

lemma EncodeCommit_fields:
  assumes "length (commit_uuid v) = 16"
  shows "get_bytes 0 8 (PutLe32 60 c (EncodeCommitFields v)) = kCommitMagic"
    "GetLe32 8 (PutLe32 60 c (EncodeCommitFields v)) = 1"
    "GetLe32 12 (PutLe32 60 c (EncodeCommitFields v)) = 64"
    "GetLe32 16 (PutLe32 60 c (EncodeCommitFields v)) = 2"
    "GetLe32 20 (PutLe32 60 c (EncodeCommitFields v)) = entry_count v"
    "GetLe64 24 (PutLe32 60 c (EncodeCommitFields v)) = commit_transaction_id v"
    "get_bytes 32 16 (PutLe32 60 c (EncodeCommitFields v)) = commit_uuid v"
    "GetLe32 48 (PutLe32 60 c (EncodeCommitFields v)) = commit_block_count v"
    "GetLe32 52 (PutLe32 60 c (EncodeCommitFields v)) = descriptor_ring_index v"
    "GetLe32 56 (PutLe32 60 c (EncodeCommitFields v)) = descriptor_crc32c v"
    "GetLe32 60 (PutLe32 60 c (EncodeCommitFields v)) = c"
    "IsZeroRange (PutLe32 60 c (EncodeCommitFields v)) 64"
    "get_bytes 60 4 (EncodeCommitFields v) = replicate 4 0"
  using assms
  by (simp_all add: EncodeCommitFields_def IsZeroRange_def BytesAreZero_def get_le_defs byte_simps)

lemma commit_roundtrip:
  assumes "\<not> commit_fields_bad v" "length (commit_uuid v) = 16"
  obtains block c where "EncodeCommit v = Inr block" "length block = 4096"
    "DecodeCommit block = Inr (v\<lparr>commit_checksum := c\<rparr>)"
proof -
  let ?f = "EncodeCommitFields v"
  let ?c = "ComputeBlockChecksum ?f 60"
  have "EncodeCommit v = Inr (PutLe32 60 ?c ?f)"
    using assms by (simp add: EncodeCommit_def Let_def)
  moreover have "DecodeCommit (PutLe32 60 ?c ?f) = Inr (v\<lparr>commit_checksum := ?c\<rparr>)"
    using assms by (simp add: DecodeCommit_def EncodeCommit_fields commit_fields_bad_def)
  ultimately show ?thesis using that by simp
qed

section \<open>Descriptor codec lemmas\<close>

lemma writes_in_EncodeEntryAt [simp]:
  "writes_in (64 + i * 16) (64 + i * 16 + 16) (EncodeEntryAt es i)"
  unfolding EncodeEntryAt_def Let_def by (intro writes_in_comp writes_in_PutLe32) auto

lemma length_entry_fold [simp]:
  "length (fold (EncodeEntryAt es) [0..<n] d) = length d"
  by (rule length_fold_writes) (rule writes_in_EncodeEntryAt)

lemma get_entry_fold_other [byte_simps]:
  assumes "64 + n * 16 \<le> length d" "off + k \<le> length d" "off + k \<le> 64 \<or> 64 + n * 16 \<le> off"
  shows "get_bytes off k (fold (EncodeEntryAt es) [0..<n] d) = get_bytes off k d"
  by (rule get_fold_writes_before [OF writes_in_EncodeEntryAt]) (use assms in auto)

lemma get_entry_fold_at:
  assumes "64 + n * 16 \<le> length d" "i < n"
  shows "get_bytes (64 + i * 16) 4 (fold (EncodeEntryAt es) [0..<n] d) = le_bytes 4 (home_block (es ! i))"
    "get_bytes (64 + i * 16 + 4) 4 (fold (EncodeEntryAt es) [0..<n] d) = le_bytes 4 (payload_ring_index (es ! i))"
    "get_bytes (64 + i * 16 + 8) 4 (fold (EncodeEntryAt es) [0..<n] d) = le_bytes 4 (payload_crc32c (es ! i))"
    "get_bytes (64 + i * 16 + 12) 4 (fold (EncodeEntryAt es) [0..<n] d) = le_bytes 4 (entry_flags (es ! i))"
proof -
  let ?d = "fold (EncodeEntryAt es) [0..<i] d"
  have at: "get_bytes off k (fold (EncodeEntryAt es) [0..<n] d) = get_bytes off k (EncodeEntryAt es i ?d)"
    if "64 + i * 16 \<le> off" "off + k \<le> 64 + i * 16 + 16" for off k
    by (rule get_fold_writes_at [OF writes_in_EncodeEntryAt]) (use that assms in auto)
  have l: "64 + i * 16 + 16 \<le> length ?d" using assms by simp
  show "get_bytes (64 + i * 16) 4 (fold (EncodeEntryAt es) [0..<n] d) = le_bytes 4 (home_block (es ! i))"
    "get_bytes (64 + i * 16 + 4) 4 (fold (EncodeEntryAt es) [0..<n] d) = le_bytes 4 (payload_ring_index (es ! i))"
    "get_bytes (64 + i * 16 + 8) 4 (fold (EncodeEntryAt es) [0..<n] d) = le_bytes 4 (payload_crc32c (es ! i))"
    "get_bytes (64 + i * 16 + 12) 4 (fold (EncodeEntryAt es) [0..<n] d) = le_bytes 4 (entry_flags (es ! i))"
    using l by (simp_all add: at EncodeEntryAt_def Let_def byte_simps)
qed

lemma length_EncodeDescriptorFields [simp]: "length (EncodeDescriptorFields v) = 4096"
  by (simp add: EncodeDescriptorFields_def)

lemma EncodeDescriptor_fields:
  assumes "length (descriptor_uuid v) = 16" "length (entries v) \<le> 252"
  shows "get_bytes 0 8 (PutLe32 60 c (EncodeDescriptorFields v)) = kDescriptorMagic"
    "GetLe32 8 (PutLe32 60 c (EncodeDescriptorFields v)) = 1"
    "GetLe32 12 (PutLe32 60 c (EncodeDescriptorFields v)) = 64"
    "GetLe32 16 (PutLe32 60 c (EncodeDescriptorFields v)) = 1"
    "GetLe32 20 (PutLe32 60 c (EncodeDescriptorFields v)) = of_nat (length (entries v))"
    "GetLe64 24 (PutLe32 60 c (EncodeDescriptorFields v)) = descriptor_transaction_id v"
    "get_bytes 32 16 (PutLe32 60 c (EncodeDescriptorFields v)) = descriptor_uuid v"
    "GetLe32 48 (PutLe32 60 c (EncodeDescriptorFields v)) = descriptor_block_count v"
    "GetLe32 52 (PutLe32 60 c (EncodeDescriptorFields v)) = 64"
    "GetLe32 56 (PutLe32 60 c (EncodeDescriptorFields v)) = descriptor_flags v"
    "GetLe32 60 (PutLe32 60 c (EncodeDescriptorFields v)) = c"
    "IsZeroRange (PutLe32 60 c (EncodeDescriptorFields v)) (64 + length (entries v) * 16)"
    "get_bytes 60 4 (EncodeDescriptorFields v) = replicate 4 0"
  using assms
  by (simp_all add: EncodeDescriptorFields_def IsZeroRange_def BytesAreZero_def get_le_defs byte_simps)

lemma EncodeDescriptor_entries:
  assumes "length (entries v) \<le> 252"
  shows "map (DecodeEntryAt (PutLe32 60 c (EncodeDescriptorFields v))) [0..<length (entries v)] = entries v"
proof (rule nth_equalityI)
  fix i assume "i < length (map (DecodeEntryAt (PutLe32 60 c (EncodeDescriptorFields v))) [0..<length (entries v)])"
  then have i: "i < length (entries v)" by simp
  with assms have "DecodeEntryAt (PutLe32 60 c (EncodeDescriptorFields v)) i = entries v ! i"
    by (simp add: DecodeEntryAt_def EncodeDescriptorFields_def GetLe32_def byte_simps
        get_entry_fold_at [simplified] Let_def)
  then show "map (DecodeEntryAt (PutLe32 60 c (EncodeDescriptorFields v))) [0..<length (entries v)] ! i = entries v ! i"
    using i by simp
qed simp

lemma descriptor_roundtrip:
  assumes "descriptor_transaction_id v \<noteq> 0" "descriptor_flags v = 0"
    and "ValidateDescriptorEntries (entries v) = Inr ()"
    and "descriptor_block_count v = of_nat (length (entries v) + 2)" "length (descriptor_uuid v) = 16"
  obtains block c where "EncodeDescriptor v = Inr (block, c)" "length block = 4096"
    "DecodeDescriptor block = Inr (v\<lparr>descriptor_checksum := c\<rparr>)"
proof -
  let ?f = "EncodeDescriptorFields v"
  let ?c = "ComputeBlockChecksum ?f 60"
  have n: "length (entries v) \<le> 252" "entries v \<noteq> []"
    using assms(3) by (auto simp: ValidateDescriptorEntries_def split: if_splits)
  then have u: "unat (of_nat (length (entries v)) :: u32) = length (entries v)"
    by (simp add: unat_of_nat)
  then have z: "(of_nat (length (entries v)) :: u32) \<noteq> 0" using n(2)
    by (metis length_0_conv unat_0)
  have "EncodeDescriptor v = Inr (PutLe32 60 ?c ?f, ?c)"
    using assms by (simp add: EncodeDescriptor_def Let_def)
  moreover have "DecodeDescriptor (PutLe32 60 ?c ?f) = Inr (v\<lparr>descriptor_checksum := ?c\<rparr>)"
    using assms n u z
    by (simp add: DecodeDescriptor_def EncodeDescriptor_fields EncodeDescriptor_entries Let_def)
  ultimately show ?thesis using that by simp
qed

section \<open>Generations and the selection of a control copy\<close>

lemma CompareGenerations_successor: "CompareGenerations (g + 1) g = kFirstNewer"
  by (simp add: CompareGenerations_def Let_def)

lemma complement_mod:
  assumes "(a + b) mod m = 0" "0 < b" "a < m" "b < (m :: nat)"
  shows "a = m - b"
proof (cases "a + b < m")
  case False
  then have "(a + b) mod m = a + b - m" using assms by (simp add: le_mod_geq)
  with assms False show ?thesis by simp
qed (use assms in simp)

lemma CompareGenerations_flip:
  "CompareGenerations b a = (case CompareGenerations a b of kEqual \<Rightarrow> kEqual | kFirstNewer \<Rightarrow> kSecondNewer
     | kSecondNewer \<Rightarrow> kFirstNewer | kAmbiguous \<Rightarrow> kAmbiguous)"
proof (cases "a = b")
  case False
  define d where "d = a - b"
  then have "b - a = - d" and d0: "d \<noteq> 0" using False by simp_all
  have "(unat (- d) + unat d) mod 2 ^ 64 = 0"
    using unat_word_ariths(1) [of "- d" d] by simp
  moreover have "0 < unat d" using d0 by (simp add: unat_gt_0)
  moreover have "unat (- d) < 2 ^ 64" "unat d < 2 ^ 64"
    using unsigned_less [of d, where 'a = nat] unsigned_less [of "- d", where 'a = nat]
    by (simp_all del: unsigned_less)
  ultimately have neg: "unat (- d) = 2 ^ 64 - unat d"
    by (rule complement_mod)
  have h: "unat (push_bit 63 1 :: u64) = 2 ^ 63" by simp
  have eq: "- d = push_bit 63 1 \<longleftrightarrow> d = push_bit 63 1"
    using neg h unsigned_less [of d, where 'a = nat] by (auto simp: word_unat_eq_iff simp del: unsigned_less)
  have lt: "- d < push_bit 63 1 \<longleftrightarrow> push_bit 63 1 < d"
    using neg h unsigned_less [of d, where 'a = nat] by (auto simp: word_less_nat_alt simp del: unsigned_less)
  show ?thesis
    unfolding CompareGenerations_def Let_def \<open>b - a = - d\<close> d_def [symmetric] eq lt
    using False by (auto simp: not_less)
qed (simp add: CompareGenerations_def)

lemma CompareGenerations_predecessor: "CompareGenerations g (g + 1) = kSecondNewer"
  using CompareGenerations_flip [of g "g + 1"] by (simp add: CompareGenerations_successor)

lemma CompareGenerations_swap:
  "CompareGenerations a b = kSecondNewer \<Longrightarrow> CompareGenerations b a = kFirstNewer"
  using CompareGenerations_flip [of b a] by simp

lemma valid_copy_Some:
  "valid_copy blk u r = Some c \<longleftrightarrow> DecodeControl blk = Inr c \<and> control_uuid c = u \<and> ring_blocks c = r"
  by (auto simp: valid_copy_def split: sum.splits)

text \<open>The copy a selection names, and the other one.\<close>

lemma SelectControl_sound:
  assumes "SelectControl a b u r = Inr (c, copy)"
  shows "valid_copy (case copy of kA \<Rightarrow> a | kB \<Rightarrow> b) u r = Some c
    \<and> (\<forall>c'. valid_copy (case copy of kA \<Rightarrow> b | kB \<Rightarrow> a) u r = Some c' \<longrightarrow>
         CompareGenerations (control_generation c) (control_generation c') = kFirstNewer
         \<or> ControlsEquivalent c c')"
  using assms
  by (auto simp: SelectControl_def dest: CompareGenerations_swap
      split: if_splits option.splits GenerationComparison.splits)

lemma SelectControl_torn_copy:
  assumes "3 \<le> r" "valid_copy a u r = Some c" "valid_copy b u r = None"
  shows "SelectControl a b u r = Inr (c, kA)" "SelectControl b a u r = Inr (c, kB)"
  using assms by (auto simp: SelectControl_def)

lemma SelectControl_successor:
  assumes "3 \<le> r" "valid_copy a u r = Some c" "valid_copy b u r = Some c'"
    and "control_generation c' = control_generation c + 1"
  shows "SelectControl a b u r = Inr (c', kB)" "SelectControl b a u r = Inr (c', kA)"
  using assms by (auto simp: SelectControl_def CompareGenerations_successor CompareGenerations_predecessor)

section \<open>Kinds of records\<close>

lemma record_kinds_exclusive:
  "DecodeCommit b = Inr c \<Longrightarrow> DecodeDescriptor b \<noteq> Inr d \<and> DecodeControl b \<noteq> Inr j"
  "DecodeDescriptor b = Inr d \<Longrightarrow> DecodeControl b \<noteq> Inr j"
  by (auto simp: DecodeCommit_def DecodeDescriptor_def DecodeControl_def kCommitMagic_def
      kDescriptorMagic_def kControlMagic_def)

section \<open>Corruption of a record\<close>

lemma decoded_checksum_ok:
  "DecodeControl b = Inr c \<Longrightarrow> checksum_ok 124 b"
  "DecodeDescriptor b = Inr d \<Longrightarrow> checksum_ok 60 b"
  "DecodeCommit b = Inr m \<Longrightarrow> checksum_ok 60 b"
  by (auto simp: DecodeControl_def DecodeDescriptor_def DecodeCommit_def checksum_ok_def
      ComputeBlockChecksum_def)

lemma decode_rejects_byte_change:
  assumes "length b = kBlockSize" "i < kBlockSize" "x \<noteq> b ! i"
  shows "DecodeControl b = Inr c \<Longrightarrow> DecodeControl (b[i := x]) \<noteq> Inr c'"
    "DecodeDescriptor b = Inr d \<Longrightarrow> DecodeDescriptor (b[i := x]) \<noteq> Inr d'"
    "DecodeCommit b = Inr m \<Longrightarrow> DecodeCommit (b[i := x]) \<noteq> Inr m'"
  using checksum_ok_single_byte [of 124 b i x] checksum_ok_single_byte [of 60 b i x] assms
  by (auto dest: decoded_checksum_ok)

section \<open>Properties\<close>

definition sample_control :: JournalControl where
  "sample_control = \<lparr>ring_blocks = 8, control_uuid = replicate 16 7, control_generation = 1,
     head = 6, tail = 6, used_blocks = 0, state_flags = 0, next_transaction_id = 5,
     control_feature_compat = 0, control_feature_ro_compat = 0, control_feature_incompat = 0,
     control_checksum = 0\<rparr>"

definition sample_descriptor :: DescriptorRecord where
  "sample_descriptor = \<lparr>descriptor_transaction_id = 5, descriptor_uuid = replicate 16 7,
     descriptor_block_count = 4, descriptor_flags = 0, descriptor_checksum = 0,
     entries = [\<lparr>home_block = 2, payload_ring_index = 7, payload_crc32c = 11, entry_flags = 0\<rparr>,
                \<lparr>home_block = 3, payload_ring_index = 0, payload_crc32c = 12, entry_flags = 0\<rparr>]\<rparr>"

definition sample_commit :: CommitRecord where
  "sample_commit = \<lparr>commit_transaction_id = 5, commit_uuid = replicate 16 7, entry_count = 2,
     commit_block_count = 4, descriptor_ring_index = 6, descriptor_crc32c = 99, commit_checksum = 0\<rparr>"

lemma sample_control_valid: "ValidateControlFields sample_control = Inr ()"
  "length (control_uuid sample_control) = 16"
  by (code_simp, simp add: sample_control_def)

text \<open>
  C25: a control with consistent positions encodes to one block that decodes to the
  same control with its checksum filled in, and every single byte change of the
  block makes the decoder refuse it.
\<close>

theorem control_codec:
  assumes "ValidateControlFields v = Inr ()" "length (control_uuid v) = 16"
  shows "\<exists>block c. EncodeControl v = Inr (block, c) \<and> length block = kBlockSize
    \<and> DecodeControl block = Inr (v\<lparr>control_checksum := c\<rparr>)
    \<and> (\<forall>i x c'. i < kBlockSize \<longrightarrow> x \<noteq> block ! i \<longrightarrow> DecodeControl (block[i := x]) \<noteq> Inr c')"
proof -
  obtain block c where "EncodeControl v = Inr (block, c)" "length block = kBlockSize"
    "DecodeControl block = Inr (v\<lparr>control_checksum := c\<rparr>)"
    using control_roundtrip [OF assms] by blast
  then show ?thesis using decode_rejects_byte_change(1) by blast
qed

theorem control_codec_witness:
  "\<exists>block c. EncodeControl sample_control = Inr (block, c)
    \<and> DecodeControl block = Inr (sample_control\<lparr>control_checksum := c\<rparr>)"
  using control_codec [OF sample_control_valid] by blast

text \<open>
  C26: a descriptor with one to 252 entries whose home blocks and ring positions are
  distinct encodes to a block that decodes to the same descriptor with its
  checksum filled in, and every single byte change of the block is refused.
\<close>

theorem descriptor_codec:
  assumes "descriptor_transaction_id v \<noteq> 0" "descriptor_flags v = 0"
    and "ValidateDescriptorEntries (entries v) = Inr ()"
    and "descriptor_block_count v = of_nat (length (entries v) + 2)" "length (descriptor_uuid v) = 16"
  shows "\<exists>block c. EncodeDescriptor v = Inr (block, c) \<and> length block = kBlockSize
    \<and> DecodeDescriptor block = Inr (v\<lparr>descriptor_checksum := c\<rparr>)
    \<and> (\<forall>i x d. i < kBlockSize \<longrightarrow> x \<noteq> block ! i \<longrightarrow> DecodeDescriptor (block[i := x]) \<noteq> Inr d)"
proof -
  obtain block c where "EncodeDescriptor v = Inr (block, c)" "length block = kBlockSize"
    "DecodeDescriptor block = Inr (v\<lparr>descriptor_checksum := c\<rparr>)"
    using descriptor_roundtrip [OF assms] by blast
  then show ?thesis using decode_rejects_byte_change(2) by blast
qed

theorem descriptor_codec_witness:
  "\<exists>block c. EncodeDescriptor sample_descriptor = Inr (block, c)
    \<and> DecodeDescriptor block = Inr (sample_descriptor\<lparr>descriptor_checksum := c\<rparr>)"
proof -
  have "descriptor_transaction_id sample_descriptor \<noteq> 0" "descriptor_flags sample_descriptor = 0"
    "ValidateDescriptorEntries (entries sample_descriptor) = Inr ()"
    "descriptor_block_count sample_descriptor = of_nat (length (entries sample_descriptor) + 2)"
    "length (descriptor_uuid sample_descriptor) = 16"
    by (simp_all add: sample_descriptor_def ValidateDescriptorEntries_def)
  from descriptor_codec [OF this] show ?thesis by blast
qed

text \<open>
  C27: a COMMIT record with admissible fields encodes to a block that decodes to the
  same record with its checksum filled in; such a block is neither a descriptor nor
  a control block, and every single byte change of it is refused.
\<close>

theorem commit_codec:
  assumes "\<not> commit_fields_bad v" "length (commit_uuid v) = 16"
  shows "\<exists>block c. EncodeCommit v = Inr block \<and> length block = kBlockSize
    \<and> DecodeCommit block = Inr (v\<lparr>commit_checksum := c\<rparr>)
    \<and> (\<forall>d. DecodeDescriptor block \<noteq> Inr d) \<and> (\<forall>j. DecodeControl block \<noteq> Inr j)
    \<and> (\<forall>i x m. i < kBlockSize \<longrightarrow> x \<noteq> block ! i \<longrightarrow> DecodeCommit (block[i := x]) \<noteq> Inr m)"
proof -
  obtain block c where b: "EncodeCommit v = Inr block" "length block = kBlockSize"
    "DecodeCommit block = Inr (v\<lparr>commit_checksum := c\<rparr>)"
    using commit_roundtrip [OF assms] by blast
  then show ?thesis using decode_rejects_byte_change(3) record_kinds_exclusive(1) [OF b(3)] by blast
qed

theorem commit_codec_witness:
  "\<exists>block c. EncodeCommit sample_commit = Inr block
    \<and> DecodeCommit block = Inr (sample_commit\<lparr>commit_checksum := c\<rparr>)"
proof -
  have "\<not> commit_fields_bad sample_commit" "length (commit_uuid sample_commit) = 16"
    by (simp_all add: sample_commit_def commit_fields_bad_def)
  from commit_codec [OF this] show ?thesis by blast
qed

text \<open>
  The comparison of generations is antisymmetric, the successor of a generation
  is newer than it even where the counter wraps through zero, and the predecessor is
  older.
\<close>

lemma generations_ordered:
  "CompareGenerations (g + 1) g = kFirstNewer \<and> CompareGenerations g (g + 1) = kSecondNewer
    \<and> CompareGenerations g g = kEqual
    \<and> (CompareGenerations a b = kFirstNewer \<longleftrightarrow> CompareGenerations b a = kSecondNewer)
    \<and> (CompareGenerations a b = kAmbiguous \<longleftrightarrow> CompareGenerations b a = kAmbiguous)"
  using CompareGenerations_flip [of b a]
  by (auto simp: CompareGenerations_successor CompareGenerations_predecessor
      CompareGenerations_def [of g g] split: GenerationComparison.splits)

text \<open>
  C18: the control that selection returns is the decoded content of the copy it
  names, belongs to this file system and ring, and the other copy is unusable, older
  or equivalent.
\<close>

theorem SelectControl_newest:
  assumes "SelectControl a b u r = Inr (c, copy)"
  shows "valid_copy (case copy of kA \<Rightarrow> a | kB \<Rightarrow> b) u r = Some c
    \<and> control_uuid c = u \<and> ring_blocks c = r
    \<and> (\<forall>c'. valid_copy (case copy of kA \<Rightarrow> b | kB \<Rightarrow> a) u r = Some c' \<longrightarrow>
         CompareGenerations (control_generation c) (control_generation c') = kFirstNewer
         \<or> ControlsEquivalent c c')"
  using SelectControl_sound [OF assms] by (auto simp: valid_copy_Some)

theorem SelectControl_newest_witness:
  "\<exists>a b c. SelectControl a b (replicate 16 7) 8 = Inr (c, kA) \<and> valid_copy a (replicate 16 7) 8 = Some c"
proof -
  obtain block c where b: "DecodeControl block = Inr (sample_control\<lparr>control_checksum := c\<rparr>)"
    using control_roundtrip [OF sample_control_valid] by blast
  let ?c = "sample_control\<lparr>control_checksum := c\<rparr>"
  have v: "valid_copy block (replicate 16 7) 8 = Some ?c"
    using b by (simp add: valid_copy_Some sample_control_def)
  have "valid_copy [] (replicate 16 7) 8 = None"
    by (simp add: valid_copy_def DecodeControl_def get_bytes_def kControlMagic_def)
  then have "SelectControl block [] (replicate 16 7) 8 = Inr (?c, kA)"
    using SelectControl_torn_copy(1) [OF _ v] by simp
  with SelectControl_newest [OF this] show ?thesis by auto
qed

end
