(* ===== verification/ImageReader.thy ===== *)
theory ImageReader
  imports OnDiskJournal
begin

text \<open>
  The read-only view of an image (\<^verbatim>\<open>src/src/storage/image_reader.{h,cpp}\<close>): opening
  with the checks of the superblock, the journal control and the two bitmaps, inodes,
  the logical to physical block mapping, directories, paths and file contents.

  The open file is the parameter \<open>reader_pread\<close>: what reading a whole block of the
  image yields, the block or an error.  An answer does not change during the life of a
  reader.  Requests of the source never cross a block.  Names and paths are byte lists;
  47 is the slash, 46 the dot.
\<close>

section \<open>Data\<close>

record ImageReader =
  reader_pread :: "nat \<Rightarrow> errno + bytes"
  reader_image_size :: nat
  superblock :: Superblock
  journal_control :: JournalControl
  journal_control_copy :: ControlCopy
  inode_bitmap_bytes :: bytes
  block_bitmap_bytes :: bytes

section \<open>Helpers\<close>

definition BitmapBit :: "bytes \<Rightarrow> nat \<Rightarrow> bool" where
  "BitmapBit bitmap n \<longleftrightarrow> (bitmap ! (n div 8)) AND push_bit (n mod 8) 1 \<noteq> 0"

definition S_ISREG :: "u32 \<Rightarrow> bool" where
  "S_ISREG m \<longleftrightarrow> m AND 0xF000 = 0x8000"

definition S_ISDIR :: "u32 \<Rightarrow> bool" where
  "S_ISDIR m \<longleftrightarrow> m AND 0xF000 = 0x4000"

definition IsDirectoryType :: "DirectoryFileType \<Rightarrow> u32 \<Rightarrow> bool" where
  "IsDirectoryType type m \<longleftrightarrow>
    (if type = kRegular then S_ISREG m else if type = kDirectory then S_ISDIR m else False)"

section \<open>Blocks\<close>

definition IsInodeAllocated :: "ImageReader \<Rightarrow> u32 \<Rightarrow> bool" where
  "IsInodeAllocated r number \<longleftrightarrow> number \<ge> 1 \<and> number \<le> total_inodes (superblock r)
    \<and> BitmapBit (inode_bitmap_bytes r) (unat (number - 1))"

definition IsBlockAllocated :: "ImageReader \<Rightarrow> u32 \<Rightarrow> bool" where
  "IsBlockAllocated r block_number \<longleftrightarrow> block_number < total_blocks (superblock r)
    \<and> BitmapBit (block_bitmap_bytes r) (unat block_number)"

definition ReadExact :: "ImageReader \<Rightarrow> nat \<Rightarrow> nat \<Rightarrow> errno + bytes" where
  "ReadExact r offset count =
    (if offset > reader_image_size r \<or> count > reader_image_size r - offset then Inl EUCLEAN
     else bind_result (reader_pread r (offset div kBlockSize))
       (\<lambda>block. if length block < offset mod kBlockSize + count then Inl EIO
         else Inr (get_bytes (offset mod kBlockSize) count block)))"

lemma ReadExact_length: "ReadExact r offset count = Inr bs \<Longrightarrow> length bs = count"
  by (auto simp: ReadExact_def bind_result_Inr_iff)

definition ReadBlock :: "ImageReader \<Rightarrow> u32 \<Rightarrow> errno + bytes" where
  "ReadBlock r block_number =
    (if block_number \<ge> total_blocks (superblock r) then Inl EINVAL
     else ReadExact r (unat block_number * kBlockSize) kBlockSize)"

definition ValidateAllocatedDataBlock :: "ImageReader \<Rightarrow> u32 \<Rightarrow> errno + unit" where
  "ValidateAllocatedDataBlock r block_number =
    (if block_number < start_block (data (superblock r))
        \<or> block_number \<ge> total_blocks (superblock r)
        \<or> \<not> IsBlockAllocated r block_number
     then Inl EUCLEAN else Inr ())"

definition indirect_pointer :: "bytes \<Rightarrow> nat \<Rightarrow> u32" where
  "indirect_pointer indirect index = GetLe32 (index * 4) indirect"

definition MapLogicalBlock :: "ImageReader \<Rightarrow> InodeRecord \<Rightarrow> u32 \<Rightarrow> errno + u32" where
  "MapLogicalBlock r inode logical_block =
    bind_result
      (if logical_block < 12 then Inr (direct_blocks inode ! unat logical_block)
       else
         let indirect_index = logical_block - 12
         in
         if indirect_index \<ge> 1024 \<or> indirect_block inode = 0 then Inl EUCLEAN
         else bind_result (ValidateAllocatedDataBlock r (indirect_block inode)) (\<lambda>_.
              bind_result (ReadExact r (unat (indirect_block inode) * kBlockSize) kBlockSize) (\<lambda>indirect.
              Inr (indirect_pointer indirect (unat indirect_index)))))
      (\<lambda>physical_block.
        if physical_block = 0 then Inl EUCLEAN
        else bind_result (ValidateAllocatedDataBlock r physical_block) (\<lambda>_. Inr physical_block))"

section \<open>Inodes\<close>

text \<open>
  The two pointer loops of \<^verbatim>\<open>ReadInode\<close>: pointers inside the file are allocated
  data blocks, pointers beyond its end are zero.
\<close>

fun CheckPointers :: "ImageReader \<Rightarrow> nat \<Rightarrow> u32 list \<Rightarrow> errno + unit" where
  "CheckPointers r required [] = Inr ()"
| "CheckPointers r required (block # rest) =
    (if required > 0 then
       if block = 0 then Inl EUCLEAN
       else bind_result (ValidateAllocatedDataBlock r block) (\<lambda>_. CheckPointers r (required - 1) rest)
     else if block \<noteq> 0 then Inl EUCLEAN
     else CheckPointers r 0 rest)"

definition RequiredBlocks :: "InodeRecord \<Rightarrow> u32" where
  "RequiredBlocks inode = ucast ((file_size inode + 4096 - 1) div 4096)"

definition ReadInode :: "ImageReader \<Rightarrow> u32 \<Rightarrow> errno + InodeRecord" where
  "ReadInode r number =
    (if number = 0 \<or> number > total_inodes (superblock r) then Inl EINVAL
     else if \<not> IsInodeAllocated r number then Inl ENOENT
     else
       let offset = unat (start_block (inode_table (superblock r))) * kBlockSize
             + unat (number - 1) * kInodeRecordSize
       in
       bind_result (ReadExact r offset kInodeRecordSize) (\<lambda>raw.
       case DecodeInode raw number of
         Inl _ \<Rightarrow> Inl EUCLEAN
       | Inr output \<Rightarrow>
         let required_blocks = RequiredBlocks output
         in
         if S_ISDIR (mode output) \<and> file_size output mod 4096 \<noteq> 0 then Inl EUCLEAN
         else bind_result (CheckPointers r (min (unat required_blocks) kDirectBlockCount) (direct_blocks output)) (\<lambda>_.
           if required_blocks \<le> 12 then
             if indirect_block output \<noteq> 0 then Inl EUCLEAN else Inr output
           else if indirect_block output = 0 then Inl EUCLEAN
           else
             bind_result (ValidateAllocatedDataBlock r (indirect_block output)) (\<lambda>_.
             bind_result (ReadExact r (unat (indirect_block output) * kBlockSize) kBlockSize) (\<lambda>indirect.
             bind_result (CheckPointers r (unat (required_blocks - 12))
                 (map (indirect_pointer indirect) [0..<1024])) (\<lambda>_. Inr output))))))"

section \<open>Directories\<close>

text \<open>
  One directory block: every record is decoded, active entries are checked against
  their inode and appended.  \<open>names\<close> is the set of active names seen so far in the
  directory.
\<close>

function ScanDirectoryBlock ::
  "ImageReader \<Rightarrow> bytes \<Rightarrow> nat \<Rightarrow> bytes set \<Rightarrow> DirectoryEntry list \<Rightarrow> errno + bytes set \<times> DirectoryEntry list" where
  "ScanDirectoryBlock r block offset names output =
    (if offset \<ge> length block then Inr (names, output)
     else case DecodeDirectoryEntry (drop offset block) of
       Inl _ \<Rightarrow> Inl EUCLEAN
     | Inr entry \<Rightarrow>
       if record_length entry = 0 then Inl EUCLEAN
       else
         let offset = offset + unat (record_length entry)
         in
         if entry_inode entry = 0 then ScanDirectoryBlock r block offset names output
         else if entry_name entry \<in> names then Inl EUCLEAN
         else case ReadInode r (entry_inode entry) of
           Inl e \<Rightarrow> Inl (if e = ENOENT then EUCLEAN else e)
         | Inr child \<Rightarrow>
           if \<not> IsDirectoryType (file_type entry) (mode child) then Inl EUCLEAN
           else ScanDirectoryBlock r block offset (insert (entry_name entry) names) (output @ [entry]))"
  by pat_completeness auto
termination
  by (relation "measure (\<lambda>(r, block, offset, names, output). length block - offset)")
    (auto simp: unat_gt_0 intro!: diff_less_mono2)

fun ScanDirectory ::
  "ImageReader \<Rightarrow> InodeRecord \<Rightarrow> nat list \<Rightarrow> bytes set \<Rightarrow> DirectoryEntry list \<Rightarrow> errno + DirectoryEntry list" where
  "ScanDirectory r directory [] names output = Inr output"
| "ScanDirectory r directory (logical # rest) names output =
    bind_result (MapLogicalBlock r directory (of_nat logical)) (\<lambda>physical.
    bind_result (ReadExact r (unat physical * kBlockSize) kBlockSize) (\<lambda>block.
    bind_result (ScanDirectoryBlock r block 0 names output) (\<lambda>(names, output).
    ScanDirectory r directory rest names output)))"

definition ListDirectory :: "ImageReader \<Rightarrow> u32 \<Rightarrow> errno + DirectoryEntry list" where
  "ListDirectory r number =
    bind_result (ReadInode r number) (\<lambda>directory.
      if \<not> S_ISDIR (mode directory) then Inl ENOTDIR
      else ScanDirectory r directory [0..<unat (ucast (file_size directory div 4096) :: u32)] {} [])"

section \<open>Paths\<close>

function ResolveComponents :: "ImageReader \<Rightarrow> u32 \<Rightarrow> bytes \<Rightarrow> errno + u32" where
  "ResolveComponents r current_inode rest =
    (if rest = [] then Inr current_inode
     else
       let component = takeWhile (\<lambda>c. c \<noteq> 47) rest;
           after = dropWhile (\<lambda>c. c \<noteq> 47) rest
       in
       if component = [] \<or> component = [46] \<or> component = [46, 46] then Inl EINVAL
       else bind_result (ListDirectory r current_inode) (\<lambda>dir_entries.
         case find (\<lambda>entry. entry_name entry = component) dir_entries of
           None \<Rightarrow> Inl ENOENT
         | Some found \<Rightarrow>
           if after = [] then Inr (entry_inode found)
           else ResolveComponents r (entry_inode found) (tl after)))"
  by pat_completeness auto
termination
proof (relation "measure (\<lambda>(r, cur, rest). length rest)", goal_cases)
  case (2 r cur rest component after)
  have "0 < length rest" "length after \<le> length rest" using 2 by (simp_all add: length_dropWhile_le)
  then have "length after - Suc 0 < length rest" by linarith
  then show ?case by simp
qed simp

definition ResolvePath :: "ImageReader \<Rightarrow> bytes \<Rightarrow> errno + u32 \<times> InodeRecord" where
  "ResolvePath r path =
    (if path = [] \<or> hd path \<noteq> 47 then Inl EINVAL
     else if path = [47] then
       bind_result (ReadInode r (root_inode (superblock r))) (\<lambda>inode. Inr (root_inode (superblock r), inode))
     else if last path = 47 then Inl EINVAL
     else bind_result (ResolveComponents r (root_inode (superblock r)) (tl path)) (\<lambda>number.
       bind_result (ReadInode r number) (\<lambda>inode. Inr (number, inode))))"

section \<open>File contents\<close>

function ReadFileLoop ::
  "ImageReader \<Rightarrow> InodeRecord \<Rightarrow> u64 \<Rightarrow> nat \<Rightarrow> bytes \<Rightarrow> errno + bytes" where
  "ReadFileLoop r inode offset total_bytes output =
    (if length output \<ge> total_bytes then Inr output
     else
       let current_offset = offset + of_nat (length output);
           logical = ucast (current_offset div 4096) :: u32;
           inside = unat (current_offset mod 4096)
       in
       bind_result (MapLogicalBlock r inode logical) (\<lambda>physical.
       bind_result (ReadExact r (unat physical * kBlockSize) kBlockSize) (\<lambda>block.
         let chunk = min (total_bytes - length output) (kBlockSize - inside)
         in ReadFileLoop r inode offset total_bytes (output @ get_bytes inside chunk block))))"
  by pat_completeness auto
termination
proof (relation "measure (\<lambda>(r, inode, offset, total_bytes, acc). total_bytes - length acc)", goal_cases)
  case (2 r inode offset total_bytes acc current_offset logical inside physical block chunk)
  have "inside < 4096"
    using 2 unat_mono [OF word_mod_less_divisor [of 4096 current_offset]] by simp
  with 2 ReadExact_length show ?case by (fastforce simp: get_bytes_def)
qed simp

definition ReadFile :: "ImageReader \<Rightarrow> u32 \<Rightarrow> u64 \<Rightarrow> nat \<Rightarrow> errno + bytes" where
  "ReadFile r number offset requested =
    bind_result (ReadInode r number) (\<lambda>inode.
      if \<not> S_ISREG (mode inode) then Inl EISDIR
      else if offset \<ge> file_size inode \<or> requested = 0 then Inr []
      else ReadFileLoop r inode offset (min requested (unat (file_size inode - offset))) [])"

section \<open>Opening\<close>

text \<open>The bitmap regions are read block by block; the first error ends the loop.\<close>

fun ReadRegionBlocks :: "(nat \<Rightarrow> errno + bytes) \<Rightarrow> nat \<Rightarrow> nat \<Rightarrow> errno + bytes" where
  "ReadRegionBlocks pread first 0 = Inr []"
| "ReadRegionBlocks pread first (Suc n) =
    bind_result (pread first) (\<lambda>block.
    if length block < kBlockSize then Inl EIO
    else bind_result (ReadRegionBlocks pread (first + 1) n) (\<lambda>rest. Inr (take kBlockSize block @ rest)))"

definition ReadRegion :: "(nat \<Rightarrow> errno + bytes) \<Rightarrow> Region \<Rightarrow> errno + bytes" where
  "ReadRegion pread region = ReadRegionBlocks pread (unat (start_block region)) (unat (block_count region))"

definition ReadWholeBlock :: "(nat \<Rightarrow> errno + bytes) \<Rightarrow> nat \<Rightarrow> errno + bytes" where
  "ReadWholeBlock pread n = bind_result (pread n) (\<lambda>block.
     if length block < kBlockSize then Inl EIO else Inr (take kBlockSize block))"

text \<open>
  \<open>getfl\<close> is the answer of \<^verbatim>\<open>fcntl(F_GETFL)\<close>, whether the file is write-only;
  \<open>st_size\<close> the answer of \<^verbatim>\<open>fstat\<close>.
\<close>

definition ReaderAdoptLockedFd ::
  "errno + bool \<Rightarrow> errno + nat \<Rightarrow> (nat \<Rightarrow> errno + bytes) \<Rightarrow> errno + ImageReader" where
  "ReaderAdoptLockedFd getfl st_size pread =
    bind_result getfl (\<lambda>write_only.
    if write_only then Inl EACCES else
    bind_result st_size (\<lambda>bytes_count.
    if bytes_count < kBlockSize \<or> bytes_count mod kBlockSize \<noteq> 0 then Inl EUCLEAN else
    bind_result (ReadWholeBlock pread 0) (\<lambda>superblock_bytes.
    case DecodeSuperblock superblock_bytes of
      Inl _ \<Rightarrow> Inl EUCLEAN
    | Inr sb \<Rightarrow>
      if feature_incompat sb AND NOT kSupportedFeatureIncompat \<noteq> 0 then Inl EOPNOTSUPP
      else if unat (total_blocks sb) * kBlockSize \<noteq> bytes_count then Inl EUCLEAN
      else
        bind_result (ReadWholeBlock pread (unat (start_block (journal sb)))) (\<lambda>control_a.
        bind_result (ReadWholeBlock pread (unat (start_block (journal sb)) + 1)) (\<lambda>control_b.
        case SelectControl control_a control_b (filesystem_uuid sb)
            (block_count (journal sb) - kJournalControlBlockCount) of
          Inl _ \<Rightarrow> Inl EUCLEAN
        | Inr (control, copy) \<Rightarrow>
          bind_result (ReadRegion pread (inode_bitmap sb)) (\<lambda>inode_bits.
          bind_result (ReadRegion pread (block_bitmap sb)) (\<lambda>block_bits.
          if \<not> BitmapBit inode_bits (unat (root_inode sb - 1)) then Inl EUCLEAN
          else if \<not> list_all (BitmapBit block_bits) [0..<unat (start_block (data sb))] then Inl EUCLEAN
          else if \<not> list_all (BitmapBit inode_bits) [unat (total_inodes sb)..<length inode_bits * 8]
            then Inl EUCLEAN
          else if \<not> list_all (BitmapBit block_bits) [unat (total_blocks sb)..<length block_bits * 8]
            then Inl EUCLEAN
          else
            let reader = \<lparr>reader_pread = pread, reader_image_size = bytes_count, superblock = sb,
                  journal_control = control, journal_control_copy = copy,
                  inode_bitmap_bytes = inode_bits, block_bitmap_bytes = block_bits\<rparr>
            in
            case ReadInode reader (root_inode sb) of
              Inl e \<Rightarrow> Inl (if e = ENOENT then EUCLEAN else e)
            | Inr root \<Rightarrow> if \<not> S_ISDIR (mode root) then Inl EUCLEAN else Inr reader)))))))"

text \<open>\<^verbatim>\<open>open\<close> and a shared \<^verbatim>\<open>flock\<close> are arguments.\<close>

definition ReaderOpen ::
  "bytes \<Rightarrow> (bytes \<Rightarrow> errno + 'fd) \<Rightarrow> ('fd \<Rightarrow> errno option) \<Rightarrow> ('fd \<Rightarrow> errno + ImageReader) \<Rightarrow> errno + ImageReader" where
  "ReaderOpen path open_call flock_call adopt =
    (if path = [] then Inl EINVAL
     else bind_result (open_call path) (\<lambda>fd.
       case flock_call fd of Some e \<Rightarrow> Inl e | None \<Rightarrow> adopt fd))"

declare ScanDirectoryBlock.simps [simp del] ResolveComponents.simps [simp del] ReadFileLoop.simps [simp del]

section \<open>Pointers of an inode\<close>

lemma ValidateAllocatedDataBlock_Inr:
  "ValidateAllocatedDataBlock r b = Inr u \<longleftrightarrow> start_block (data (superblock r)) \<le> b
    \<and> b < total_blocks (superblock r) \<and> IsBlockAllocated r b"
  by (auto simp: ValidateAllocatedDataBlock_def)

definition file_block_ok :: "ImageReader \<Rightarrow> u32 \<Rightarrow> bool" where
  "file_block_ok r b \<longleftrightarrow> b \<noteq> 0 \<and> start_block (data (superblock r)) \<le> b
    \<and> b < total_blocks (superblock r) \<and> IsBlockAllocated r b"

lemma all_less_Suc_length: "(\<forall>i < Suc n. P i) \<longleftrightarrow> P 0 \<and> (\<forall>i < n. P (Suc i))"
  by (auto simp: less_Suc_eq_0_disj)

lemma CheckPointers_Inr:
  "CheckPointers r required blocks = Inr () \<longleftrightarrow>
    (\<forall>i < length blocks. if i < required then file_block_ok r (blocks ! i) else blocks ! i = 0)"
proof (induction blocks arbitrary: required)
  case (Cons block rest)
  have "CheckPointers r required (block # rest) = Inr () \<longleftrightarrow>
      (if required > 0 then file_block_ok r block \<and> CheckPointers r (required - 1) rest = Inr ()
       else block = 0 \<and> CheckPointers r 0 rest = Inr ())"
    by (auto simp: bind_result_Inr_iff ValidateAllocatedDataBlock_Inr file_block_ok_def)
  then show ?case
    by (cases required) (simp_all only: Cons.IH all_less_Suc_length list.size add_Suc_right add_0_right
        nth_Cons_0 nth_Cons_Suc, simp_all)
qed simp

lemma CheckPointers_map_Inr:
  "CheckPointers r required (map f [0..<n]) = Inr () \<longleftrightarrow>
    (\<forall>i < n. if i < required then file_block_ok r (f i) else f i = 0)"
  unfolding CheckPointers_Inr by (simp cong: if_cong)

lemma file_block_ok_validate:
  "file_block_ok r b \<Longrightarrow> ValidateAllocatedDataBlock r b = Inr ()" "file_block_ok r b \<Longrightarrow> b \<noteq> 0"
  by (auto simp: file_block_ok_def ValidateAllocatedDataBlock_def)

lemma unat_RequiredBlocks:
  assumes "file_size inode \<le> kMaxFileSize"
  shows "unat (RequiredBlocks inode) = (unat (file_size inode) + 4095) div 4096"
    "unat (RequiredBlocks inode) \<le> 1036"
proof -
  have s: "unat (file_size inode) \<le> 4243456" using assms by (simp add: kMaxFileSize_def word_le_nat_alt)
  have "unat (file_size inode + 4096 - 1) = unat (file_size inode) + 4095"
    using s by (simp add: unat_word_ariths)
  then have "unat ((file_size inode + 4096 - 1) div 4096) = (unat (file_size inode) + 4095) div 4096"
    by (simp add: unat_div)
  then show "unat (RequiredBlocks inode) = (unat (file_size inode) + 4095) div 4096"
    using s unfolding RequiredBlocks_def by (subst unat_ucast_u32) auto
  then show "unat (RequiredBlocks inode) \<le> 1036" using s by simp
qed

definition file_pointer :: "ImageReader \<Rightarrow> InodeRecord \<Rightarrow> nat \<Rightarrow> u32" where
  "file_pointer r inode l = (if l < 12 then direct_blocks inode ! l
     else case ReadExact r (unat (indirect_block inode) * kBlockSize) kBlockSize of
       Inl _ \<Rightarrow> 0 | Inr indirect \<Rightarrow> indirect_pointer indirect (l - 12))"

definition inode_ok :: "ImageReader \<Rightarrow> InodeRecord \<Rightarrow> bool" where
  "inode_ok r inode \<longleftrightarrow> file_size inode \<le> kMaxFileSize \<and> length (direct_blocks inode) = 12
    \<and> (S_ISDIR (mode inode) \<longrightarrow> file_size inode mod 4096 = 0)
    \<and> (\<forall>l < unat (RequiredBlocks inode). file_block_ok r (file_pointer r inode l))
    \<and> (if RequiredBlocks inode \<le> 12 then indirect_block inode = 0
       else file_block_ok r (indirect_block inode)
         \<and> (\<exists>b. ReadExact r (unat (indirect_block inode) * kBlockSize) kBlockSize = Inr b))"

lemma DecodeInode_Inr_facts:
  assumes "DecodeInode raw n = Inr inode"
  shows "inode_number inode = n" "n \<noteq> 0" "IsKnownMode (mode inode)" "file_size inode \<le> kMaxFileSize"
    "length (direct_blocks inode) = 12"
  using assms by (auto simp: DecodeInode_def Let_def DecodeInodeFields_def)

lemma ReadInode_ok:
  assumes "ReadInode r n = Inr inode"
  shows "inode_ok r inode" "IsInodeAllocated r n" "inode_number inode = n" "IsKnownMode (mode inode)"
proof -
  from assms obtain raw where d: "DecodeInode raw n = Inr inode"
    and dir: "S_ISDIR (mode inode) \<longrightarrow> file_size inode mod 4096 = 0" and al: "IsInodeAllocated r n"
    and dp: "CheckPointers r (min (unat (RequiredBlocks inode)) 12) (direct_blocks inode) = Inr ()"
    and small: "RequiredBlocks inode \<le> 12 \<Longrightarrow> indirect_block inode = 0"
    and large: "\<not> RequiredBlocks inode \<le> 12 \<Longrightarrow> \<exists>indirect. indirect_block inode \<noteq> 0
      \<and> ValidateAllocatedDataBlock r (indirect_block inode) = Inr ()
      \<and> ReadExact r (unat (indirect_block inode) * kBlockSize) kBlockSize = Inr indirect
      \<and> CheckPointers r (unat (RequiredBlocks inode - 12)) (map (indirect_pointer indirect) [0..<1024]) = Inr ()"
    by (auto simp: ReadInode_def Let_def bind_result_Inr_iff case_sum_Inr_iff split: if_splits
        del: mod_0_imp_dvd)
  note f = DecodeInode_Inr_facts [OF d]
  note rb = unat_RequiredBlocks [OF f(4)]
  have direct: "file_block_ok r (file_pointer r inode l)" if "l < unat (RequiredBlocks inode)" "l < 12" for l
    using dp that f(5) by (simp add: CheckPointers_Inr file_pointer_def)
  have indirect: "file_block_ok r (file_pointer r inode l)" if l: "l < unat (RequiredBlocks inode)" "\<not> l < 12" for l
  proof -
    have big: "\<not> RequiredBlocks inode \<le> 12" using l by (auto simp: word_le_nat_alt)
    then have "unat (RequiredBlocks inode - 12) = unat (RequiredBlocks inode) - 12"
      by (subst unat_sub) (auto simp: word_le_nat_alt)
    with large [OF big] obtain ind where
      "ReadExact r (unat (indirect_block inode) * kBlockSize) kBlockSize = Inr ind"
      "\<forall>i < 1024. if i < unat (RequiredBlocks inode) - 12 then file_block_ok r (indirect_pointer ind i)
         else indirect_pointer ind i = 0"
      by (auto simp: CheckPointers_map_Inr)
    with l rb(2) show ?thesis by (simp add: file_pointer_def)
  qed
  show "inode_ok r inode"
    using f dir direct indirect small large
    by (auto simp: inode_ok_def file_block_ok_def ValidateAllocatedDataBlock_Inr del: mod_0_imp_dvd)
  show "IsInodeAllocated r n" "inode_number inode = n" "IsKnownMode (mode inode)" using al f by auto
qed

lemma ReadInode_intro:
  assumes "IsInodeAllocated r n"
    and "ReadExact r (unat (start_block (inode_table (superblock r))) * kBlockSize + unat (n - 1) * kInodeRecordSize)
      kInodeRecordSize = Inr raw"
    and "DecodeInode raw n = Inr inode" "inode_ok r inode"
    and "\<And>i. unat (RequiredBlocks inode) \<le> i \<Longrightarrow> i < 12 \<Longrightarrow> direct_blocks inode ! i = 0"
    and "\<And>b i. ReadExact r (unat (indirect_block inode) * kBlockSize) kBlockSize = Inr b \<Longrightarrow>
      unat (RequiredBlocks inode) - 12 \<le> i \<Longrightarrow> i < 1024 \<Longrightarrow> \<not> RequiredBlocks inode \<le> 12 \<Longrightarrow> indirect_pointer b i = 0"
  shows "ReadInode r n = Inr inode"
proof -
  have n: "n \<noteq> 0" "\<not> total_inodes (superblock r) < n" using assms(1) by (auto simp: IsInodeAllocated_def not_less)
  have len: "length (direct_blocks inode) = 12" and dir: "S_ISDIR (mode inode) \<longrightarrow> file_size inode mod 4096 = 0"
    and sz: "file_size inode \<le> kMaxFileSize"
    and ptr: "\<And>l. l < unat (RequiredBlocks inode) \<Longrightarrow> file_block_ok r (file_pointer r inode l)"
    using assms(4) by (simp_all add: inode_ok_def)
  have direct: "CheckPointers r (min (unat (RequiredBlocks inode)) 12) (direct_blocks inode) = Inr ()"
    unfolding CheckPointers_Inr using len ptr assms(5) by (force simp: file_pointer_def not_less)
  show ?thesis
  proof (cases "RequiredBlocks inode \<le> 12")
    case True
    then have "indirect_block inode = 0" using assms(4) by (simp add: inode_ok_def)
    then show ?thesis
      using n assms(1-3) dir direct True by (auto simp: ReadInode_def Let_def simp del: mod_0_imp_dvd)
  next
    case False
    then obtain b where b: "ReadExact r (unat (indirect_block inode) * 4096) 4096 = Inr b"
      and ind: "file_block_ok r (indirect_block inode)" using assms(4) by (auto simp: inode_ok_def)
    have "unat (RequiredBlocks inode - 12) = unat (RequiredBlocks inode) - 12"
      using False by (subst unat_sub) (auto simp: word_le_nat_alt)
    moreover have "file_block_ok r (indirect_pointer b i)" if "i < unat (RequiredBlocks inode) - 12" for i
      using ptr [of "i + 12"] that b by (simp add: file_pointer_def less_diff_conv)
    ultimately have "CheckPointers r (unat (RequiredBlocks inode - 12)) (map (indirect_pointer b) [0..<1024]) = Inr ()"
      unfolding CheckPointers_map_Inr using assms(6) [OF b] False by (simp add: not_less)
    then show ?thesis
      using n assms(1-3) dir direct False b file_block_ok_validate [OF ind]
      by (auto simp: ReadInode_def Let_def simp del: mod_0_imp_dvd)
  qed
qed

lemma MapLogicalBlock_ok:
  assumes "inode_ok r inode" "l < unat (RequiredBlocks inode)"
  shows "MapLogicalBlock r inode (of_nat l) = Inr (file_pointer r inode l)"
proof -
  have s: "file_size inode \<le> kMaxFileSize" using assms(1) by (simp add: inode_ok_def)
  have l: "l < 1036" using assms(2) unat_RequiredBlocks(2) [OF s] by simp
  then have ul: "unat (of_nat l :: u32) = l" by (intro unat_of_nat_small) simp
  have p: "file_block_ok r (file_pointer r inode l)" using assms by (simp add: inode_ok_def)
  show ?thesis
  proof (cases "l < 12")
    case True
    then have "(of_nat l :: u32) < 12" using ul by (simp add: word_less_nat_alt)
    then show ?thesis using file_block_ok_validate [OF p] True ul
      by (simp add: MapLogicalBlock_def file_pointer_def)
  next
    case False
    have big: "\<not> RequiredBlocks inode \<le> 12" using assms(2) False by (auto simp: word_le_nat_alt)
    have "unat (of_nat l - 12 :: u32) = l - 12"
      using False ul by (subst unat_sub) (auto simp: word_le_nat_alt)
    moreover have "\<not> (of_nat l :: u32) < 12" using False ul by (simp add: word_less_nat_alt)
    moreover have "\<not> (1024 :: u32) \<le> of_nat l - 12" using calculation l by (simp add: word_le_nat_alt)
    moreover obtain ind where
      "ReadExact r (unat (indirect_block inode) * kBlockSize) kBlockSize = Inr ind" "file_block_ok r (indirect_block inode)"
      using assms(1) big by (auto simp: inode_ok_def)
    ultimately show ?thesis using file_block_ok_validate [OF p] False
      by (simp add: MapLogicalBlock_def file_pointer_def file_block_ok_validate Let_def)
  qed
qed

section \<open>Indirect blocks\<close>

lemma indirect_pointer_put:
  assumes "length d = 4096" "i < 1024" "j < 1024"
  shows "indirect_pointer (PutLe32 (j * 4) v d) i = (if i = j then v else indirect_pointer d i)"
proof -
  have "i * 4 + 4 \<le> 4096" "j * 4 + 4 \<le> 4096" using assms by linarith+
  moreover have "i \<noteq> j \<Longrightarrow> i * 4 + 4 \<le> j * 4 \<or> j * 4 + 4 \<le> i * 4" by linarith
  ultimately show ?thesis
    using assms(1) by (auto simp: indirect_pointer_def get_le_defs byte_simps)
qed

lemma indirect_pointer_zeros [simp]: "i < 1024 \<Longrightarrow> indirect_pointer (replicate 4096 0) i = 0"
  by (simp add: indirect_pointer_def get_le_defs byte_simps)

lemma length_fold_PutLe32 [simp]: "length (fold (\<lambda>l. PutLe32 (f l) (p l)) ls d) = length d"
  by (induction ls arbitrary: d) auto

lemma indirect_fold:
  assumes "n \<le> 1036" "i < 1024"
  shows "indirect_pointer (fold (\<lambda>l. PutLe32 ((l - 12) * 4) (p l)) [12..<n] (replicate 4096 0)) i
    = (if i + 12 < n then p (i + 12) else 0)"
  using assms(1)
proof (induction n)
  case 0
  then show ?case using assms(2) by simp
next
  case (Suc n)
  show ?case
  proof (cases "12 \<le> n")
    case True
    then show ?thesis using Suc assms(2)
      by (simp add: indirect_pointer_put del: upt_conv_Cons) (auto simp: less_Suc_eq)
  next
    case False
    then show ?thesis using assms(2) by simp
  qed
qed

section \<open>Contents of a file\<close>

text \<open>
  The reference: the contents of a file are its blocks one after the other, cut at its
  size.
\<close>

definition block_content :: "ImageReader \<Rightarrow> InodeRecord \<Rightarrow> nat \<Rightarrow> bytes" where
  "block_content r inode l = (case ReadExact r (unat (file_pointer r inode l) * kBlockSize) kBlockSize of
     Inl _ \<Rightarrow> [] | Inr b \<Rightarrow> b)"

definition file_readable :: "ImageReader \<Rightarrow> InodeRecord \<Rightarrow> bool" where
  "file_readable r inode \<longleftrightarrow> list_all (\<lambda>l. \<not> isl (ReadExact r (unat (file_pointer r inode l) * kBlockSize) kBlockSize))
     [0..<unat (RequiredBlocks inode)]"

definition file_contents :: "ImageReader \<Rightarrow> InodeRecord \<Rightarrow> bytes" where
  "file_contents r inode = take (unat (file_size inode))
     (concat (map (block_content r inode) [0..<unat (RequiredBlocks inode)]))"

lemma block_content_ok:
  assumes "file_readable r inode" "l < unat (RequiredBlocks inode)"
  shows "ReadExact r (unat (file_pointer r inode l) * kBlockSize) kBlockSize = Inr (block_content r inode l)"
    "length (block_content r inode l) = kBlockSize"
proof -
  have "\<not> isl (ReadExact r (unat (file_pointer r inode l) * kBlockSize) kBlockSize)"
    using assms by (simp add: file_readable_def list_all_iff)
  then obtain b where "ReadExact r (unat (file_pointer r inode l) * kBlockSize) kBlockSize = Inr b"
    by (cases "ReadExact r (unat (file_pointer r inode l) * kBlockSize) kBlockSize") auto
  with ReadExact_length [OF this] show
    "ReadExact r (unat (file_pointer r inode l) * kBlockSize) kBlockSize = Inr (block_content r inode l)"
    "length (block_content r inode l) = kBlockSize" by (simp_all add: block_content_def)
qed

lemma block_content_get:
  assumes "file_readable r inode" "p div 4096 < unat (RequiredBlocks inode)" "p mod 4096 + k \<le> 4096"
  shows "get_bytes (p mod 4096) k (block_content r inode (p div 4096))
    = get_bytes p k (concat (map (block_content r inode) [0..<unat (RequiredBlocks inode)]))"
proof -
  let ?C = "concat (map (block_content r inode) [0..<unat (RequiredBlocks inode)])"
  note b = block_content_ok(2) [OF assms(1)]
  have lC: "length ?C = unat (RequiredBlocks inode) * 4096" using b by (intro length_concat_equal)
  have "p + k \<le> (p div 4096 + 1) * 4096" using assms(3) by (rule end_inside)
  also have "\<dots> \<le> unat (RequiredBlocks inode) * 4096" using assms(2) by (intro mult_le_mono1) simp
  finally have pk: "p + k \<le> length ?C" using lC by simp
  show ?thesis
  proof (rule nth_equalityI)
    show "length (get_bytes (p mod 4096) k (block_content r inode (p div 4096))) = length (get_bytes p k ?C)"
      using assms b pk by simp
    fix i assume "i < length (get_bytes (p mod 4096) k (block_content r inode (p div 4096)))"
    then have i: "i < k" using assms b by simp
    have "p mod 4096 + i < 4096" using i assms(3) by simp
    note d = div_mod_inside [OF this]
    have "?C ! (p + i) = block_content r inode ((p + i) div 4096) ! ((p + i) mod 4096)"
      using i pk lC b by (intro concat_equal_nth) simp_all
    then show "get_bytes (p mod 4096) k (block_content r inode (p div 4096)) ! i = get_bytes p k ?C ! i"
      using i pk assms b by (simp add: nth_get_bytes d)
  qed
qed

lemma ReadFileLoop_contents:
  assumes "inode_ok r inode" "file_readable r inode" "unat offset + total_bytes \<le> unat (file_size inode)"
    and "get_bytes (unat offset) (length acc)
      (concat (map (block_content r inode) [0..<unat (RequiredBlocks inode)])) = acc" "length acc \<le> total_bytes"
  shows "ReadFileLoop r inode offset total_bytes acc = Inr (get_bytes (unat offset) total_bytes
      (concat (map (block_content r inode) [0..<unat (RequiredBlocks inode)])))"
    (is "_ = Inr (get_bytes _ _ ?C)")
  using assms
proof (induction r inode offset total_bytes acc rule: ReadFileLoop.induct)
  case (1 r inode offset total_bytes acc)
  let ?C = "concat (map (block_content r inode) [0..<unat (RequiredBlocks inode)])"
  show ?case
  proof (cases "length acc < total_bytes")
    case False
    then have "length acc = total_bytes" using 1(6) by simp
    then show ?thesis using 1(5) by (subst ReadFileLoop.simps) simp
  next
    case True
    define p where "p = unat offset + length acc"
    have sz: "file_size inode \<le> kMaxFileSize" using 1(2) by (simp add: inode_ok_def)
    then have "unat (file_size inode) \<le> 4243456" by (simp add: kMaxFileSize_def word_le_nat_alt)
    then have p: "p < unat (file_size inode)" "p < 4243456" using 1(4) True by (simp_all add: p_def)
    have up: "unat (offset + of_nat (length acc)) = p"
      using p(2) by (simp add: p_def unat_word_ariths unat_of_nat)
    have l: "p div 4096 < unat (RequiredBlocks inode)" using p(1) unat_RequiredBlocks(1) [OF sz] by simp
    have ul: "(ucast ((offset + of_nat (length acc)) div 4096) :: u32) = of_nat (p div 4096)"
      using up p(2) by (simp add: word_unat_eq_iff unat_div unat_ucast_u32 unat_of_nat)
    have ui: "unat ((offset + of_nat (length acc)) mod 4096) = p mod 4096" using up by (simp add: unat_mod)
    define chunk where "chunk = min (total_bytes - length acc) (4096 - p mod 4096)"
    note m = MapLogicalBlock_ok [OF 1(2) l] and b = block_content_ok [OF 1(3) l]
    have g: "get_bytes (p mod 4096) chunk (block_content r inode (p div 4096)) = get_bytes p chunk ?C"
      using 1(3) l by (rule block_content_get) (simp add: chunk_def)
    have lc: "length (get_bytes (p mod 4096) chunk (block_content r inode (p div 4096))) = chunk"
      using b(2) by (simp add: chunk_def)
    have a: "get_bytes (unat offset) (length (acc @ get_bytes p chunk ?C)) ?C = acc @ get_bytes p chunk ?C"
      using 1(5) lc [unfolded g] get_bytes_add [of "unat offset" "length acc" chunk ?C] by (simp add: p_def)
    have le: "length (acc @ get_bytes p chunk ?C) \<le> total_bytes"
    proof -
      have "chunk \<le> total_bytes - length acc" by (simp add: chunk_def)
      then show ?thesis using True lc [unfolded g] by simp
    qed
    have "ReadFileLoop r inode offset total_bytes (acc @ get_bytes p chunk ?C) = Inr (get_bytes (unat offset) total_bytes ?C)"
      using 1(1) [OF _ refl refl refl, of "file_pointer r inode (p div 4096)" "block_content r inode (p div 4096)" chunk]
        True m b 1(2-4) a le g by (simp only: ul ui chunk_def not_le)
    then show ?thesis using True m b(1) g
      by (subst ReadFileLoop.simps) (simp add: ul ui Let_def chunk_def)
  qed
qed

section \<open>Directory entries\<close>

definition entry_ok :: "ImageReader \<Rightarrow> DirectoryEntry \<Rightarrow> bool" where
  "entry_ok r entry \<longleftrightarrow> entry_inode entry \<noteq> 0 \<and> IsValidName (entry_name entry)
    \<and> (case ReadInode r (entry_inode entry) of
         Inl _ \<Rightarrow> False | Inr child \<Rightarrow> IsDirectoryType (file_type entry) (mode child))"

definition entries_ok :: "ImageReader \<Rightarrow> bytes set \<Rightarrow> DirectoryEntry list \<Rightarrow> bool" where
  "entries_ok r names es \<longleftrightarrow> names = entry_name ` set es \<and> distinct (map entry_name es)
    \<and> (\<forall>e \<in> set es. entry_ok r e)"

lemma DecodeDirectoryEntry_active:
  "DecodeDirectoryEntry b = Inr e \<Longrightarrow> entry_inode e \<noteq> 0 \<Longrightarrow> IsValidName (entry_name e)"
  by (auto simp: DecodeDirectoryEntry_def Let_def split: if_splits)

lemma ScanDirectoryBlock_ok:
  assumes "ScanDirectoryBlock r block off names es = Inr (names', es')" "entries_ok r names es"
  shows "entries_ok r names' es'"
  using assms
proof (induction r block off names es rule: ScanDirectoryBlock.induct)
  case (1 r block off names es)
  show ?case
  proof (cases "off \<ge> length block")
    case True
    then show ?thesis using 1(3,4) by (simp add: ScanDirectoryBlock.simps)
  next
    case False
    then obtain e where e: "DecodeDirectoryEntry (drop off block) = Inr e" "record_length e \<noteq> 0"
      using 1(3) by (auto simp: ScanDirectoryBlock.simps [of r block off names es] split: sum.splits if_splits)
    show ?thesis
    proof (cases "entry_inode e = 0")
      case True
      then show ?thesis using 1 False e by (simp add: ScanDirectoryBlock.simps [of r block off names es])
    next
      case active: False
      obtain child where c: "ReadInode r (entry_inode e) = Inr child" "IsDirectoryType (file_type e) (mode child)"
        "entry_name e \<notin> names"
        "ScanDirectoryBlock r block (off + unat (record_length e)) (insert (entry_name e) names) (es @ [e]) = Inr (names', es')"
        using 1(3) False e active
        by (auto simp: ScanDirectoryBlock.simps [of r block off names es] split: sum.splits if_splits)
      have "entries_ok r (insert (entry_name e) names) (es @ [e])"
        using 1(4) c active DecodeDirectoryEntry_active [OF e(1) active] by (auto simp: entries_ok_def entry_ok_def)
      then show ?thesis using 1(2) [OF False e(1,2) refl active c(3,1)] c(2,4) by blast
    qed
  qed
qed

lemma ScanDirectory_ok:
  assumes "ScanDirectory r directory ls names es = Inr es'" "entries_ok r names es"
  shows "\<exists>names'. entries_ok r names' es'"
  using assms
proof (induction ls arbitrary: names es)
  case (Cons l ls)
  then obtain block names1 es1 where "ScanDirectoryBlock r block 0 names es = Inr (names1, es1)"
    "ScanDirectory r directory ls names1 es1 = Inr es'"
    by (auto simp: bind_result_Inr_iff)
  then show ?case using Cons.IH ScanDirectoryBlock_ok Cons.prems(2) by blast
qed auto

lemma ListDirectory_ok:
  assumes "ListDirectory r n = Inr es"
  shows "distinct (map entry_name es)" "\<And>e. e \<in> set es \<Longrightarrow> entry_ok r e"
    "\<exists>directory. ReadInode r n = Inr directory \<and> S_ISDIR (mode directory)"
proof -
  obtain directory ls where d: "ReadInode r n = Inr directory" "S_ISDIR (mode directory)"
    "ScanDirectory r directory ls {} [] = Inr es"
    using assms by (auto simp: ListDirectory_def bind_result_Inr_iff)
  have "entries_ok r {} []" by (simp add: entries_ok_def)
  then obtain names where "entries_ok r names es" using ScanDirectory_ok [OF d(3)] by blast
  with d show "distinct (map entry_name es)" "\<And>e. e \<in> set es \<Longrightarrow> entry_ok r e"
    "\<exists>directory. ReadInode r n = Inr directory \<and> S_ISDIR (mode directory)" by (auto simp: entries_ok_def)
qed

section \<open>An opened image\<close>

definition reader_ok :: "ImageReader \<Rightarrow> bool" where
  "reader_ok r \<longleftrightarrow> ValidateSuperblock (superblock r) = Inr ()
    \<and> reader_image_size r = unat (total_blocks (superblock r)) * kBlockSize
    \<and> length (inode_bitmap_bytes r) = unat (block_count (inode_bitmap (superblock r))) * kBlockSize
    \<and> length (block_bitmap_bytes r) = unat (block_count (block_bitmap (superblock r))) * kBlockSize
    \<and> (\<forall>b < start_block (data (superblock r)). IsBlockAllocated r b)
    \<and> (\<forall>i. unat (total_inodes (superblock r)) \<le> i \<and> i < 8 * length (inode_bitmap_bytes r)
         \<longrightarrow> BitmapBit (inode_bitmap_bytes r) i)
    \<and> (\<forall>i. unat (total_blocks (superblock r)) \<le> i \<and> i < 8 * length (block_bitmap_bytes r)
         \<longrightarrow> BitmapBit (block_bitmap_bytes r) i)
    \<and> (\<exists>root. ReadInode r (root_inode (superblock r)) = Inr root \<and> S_ISDIR (mode root))"

lemma ReadRegionBlocks_length: "ReadRegionBlocks pread first n = Inr bs \<Longrightarrow> length bs = n * kBlockSize"
  by (induction n arbitrary: first bs) (auto simp: bind_result_Inr_iff)

lemma ReaderAdoptLockedFd_ok:
  assumes "ReaderAdoptLockedFd getfl st_size pread = Inr r"
  shows "reader_ok r" "reader_pread r = pread" "SelectControl
      (projr (ReadWholeBlock pread (unat (start_block (journal (superblock r))))))
      (projr (ReadWholeBlock pread (unat (start_block (journal (superblock r))) + 1)))
      (filesystem_uuid (superblock r)) (block_count (journal (superblock r)) - kJournalControlBlockCount)
      = Inr (journal_control r, journal_control_copy r)"
proof -
  from assms obtain bytes_count raw sb a b control copy ib bb root where
    sb: "DecodeSuperblock raw = Inr sb" "unat (total_blocks sb) * kBlockSize = bytes_count"
    and ab: "ReadWholeBlock pread (unat (start_block (journal sb))) = Inr a"
      "ReadWholeBlock pread (unat (start_block (journal sb)) + 1) = Inr b"
      "SelectControl a b (filesystem_uuid sb) (block_count (journal sb) - 2) = Inr (control, copy)"
    and bits: "ReadRegion pread (inode_bitmap sb) = Inr ib" "ReadRegion pread (block_bitmap sb) = Inr bb"
      "list_all (BitmapBit bb) [0..<unat (start_block (data sb))]"
      "list_all (BitmapBit ib) [unat (total_inodes sb)..<length ib * 8]"
      "list_all (BitmapBit bb) [unat (total_blocks sb)..<length bb * 8]"
    and r: "r = \<lparr>reader_pread = pread, reader_image_size = bytes_count, superblock = sb,
                  journal_control = control, journal_control_copy = copy,
                  inode_bitmap_bytes = ib, block_bitmap_bytes = bb\<rparr>"
    and root: "ReadInode r (root_inode sb) = Inr root" "S_ISDIR (mode root)"
    by (auto simp: ReaderAdoptLockedFd_def bind_result_Inr_iff case_sum_Inr_iff Let_def split: prod.splits)
  have v: "ValidateSuperblock sb = Inr ()"
    using sb(1) by (auto simp: DecodeSuperblock_def Let_def bind_result_Inr_iff)
  have data: "start_block (data sb) < total_blocks sb"
    using ValidateSuperblock_layout_aux(5,6,11) [OF v]
    by (simp add: word_less_nat_alt region_start_def region_end_def)
  show "reader_ok r"
    using v sb bits root data ReadRegionBlocks_length
    by (auto simp: reader_ok_def r ReadRegion_def IsBlockAllocated_def list_all_iff word_less_nat_alt)
  show "reader_pread r = pread" "SelectControl
      (projr (ReadWholeBlock pread (unat (start_block (journal (superblock r))))))
      (projr (ReadWholeBlock pread (unat (start_block (journal (superblock r))) + 1)))
      (filesystem_uuid (superblock r)) (block_count (journal (superblock r)) - kJournalControlBlockCount)
      = Inr (journal_control r, journal_control_copy r)"
    using ab by (simp_all add: r)
qed

section \<open>A sample image\<close>

definition sample_table_block :: bytes where
  "sample_table_block = put_bytes 256 (projr (EncodeInode sample_inode)) (replicate 4096 0)"

definition sample_reader :: ImageReader where
  "sample_reader = \<lparr>reader_pread = (\<lambda>n. if n = 3 then Inr sample_table_block else Inr (replicate 4096 (of_nat n))),
     reader_image_size = 64 * 4096, superblock = sample_superblock,
     journal_control = sample_control, journal_control_copy = kA,
     inode_bitmap_bytes = replicate 4096 0xFF, block_bitmap_bytes = replicate 4096 0xFF\<rparr>"

lemma BitmapBit_iff: "BitmapBit bm i \<longleftrightarrow> bit (bm ! (i div 8)) (i mod 8)"
  unfolding BitmapBit_def by (simp add: bit_iff_and_push_bit_not_eq_0)

lemma BitmapBit_full: "n < 32768 \<Longrightarrow> BitmapBit (replicate 4096 0xFF) n"
proof -
  assume "n < 32768"
  then have "replicate 4096 (0xFF :: byte) ! (n div 8) = - 1" by simp
  then show ?thesis by (simp only: BitmapBit_iff) simp
qed

lemma sample_reader_block_ok: "9 \<le> b \<Longrightarrow> b < 64 \<Longrightarrow> file_block_ok sample_reader b"
  using BitmapBit_full [of "unat b"]
  by (auto simp: file_block_ok_def IsBlockAllocated_def sample_reader_def sample_superblock_def word_less_nat_alt word_le_nat_alt)

lemma sample_reader_inode: "ReadInode sample_reader 3 = Inr sample_inode"
proof -
  obtain bs where e: "EncodeInode sample_inode = Inr bs" "length bs = 128" "DecodeInode bs 3 = Inr sample_inode"
    using inode_roundtrip [OF sample_inode_valid] by (auto simp: sample_inode_def)
  have a: "IsInodeAllocated sample_reader 3"
    using BitmapBit_full [of 2] by (simp add: IsInodeAllocated_def sample_reader_def sample_superblock_def)
  have r: "ReadExact sample_reader 12544 128 = Inr bs"
    using e by (simp add: ReadExact_def sample_reader_def sample_table_block_def byte_simps)
  have p: "CheckPointers sample_reader 2 (direct_blocks sample_inode) = Inr ()"
    using file_block_ok_validate(1) [OF sample_reader_block_ok]
    by (simp add: sample_inode_def word_le_nat_alt word_less_nat_alt)
  have q: "RequiredBlocks sample_inode = 2" by (simp add: RequiredBlocks_def sample_inode_def)
  have f: "\<not> S_ISDIR (mode sample_inode)" "indirect_block sample_inode = 0"
    by (simp_all add: S_ISDIR_def sample_inode_def)
  have sb: "total_inodes (superblock sample_reader) = 16" "start_block (inode_table (superblock sample_reader)) = 3"
    by (simp_all add: sample_reader_def sample_superblock_def)
  show ?thesis using a r p e(3) f by (simp add: ReadInode_def sb q)
qed

section \<open>Properties\<close>

text \<open>
  C35: an inode that is read without an error maps completely: every logical block below
  the end of the file has a physical block, which lies in the data region of the image
  and is marked allocated.
\<close>

theorem ReadInode_maps_file:
  assumes "ReadInode r n = Inr inode" "l * 4096 < unat (file_size inode)"
  shows "\<exists>physical. MapLogicalBlock r inode (of_nat l) = Inr physical
    \<and> start_block (data (superblock r)) \<le> physical \<and> physical < total_blocks (superblock r)
    \<and> IsBlockAllocated r physical"
proof -
  note i = ReadInode_ok(1) [OF assms(1)]
  have "file_size inode \<le> kMaxFileSize" using i by (simp add: inode_ok_def)
  then have l: "l < unat (RequiredBlocks inode)" using assms(2) by (simp add: unat_RequiredBlocks)
  then have "file_block_ok r (file_pointer r inode l)" using i by (simp add: inode_ok_def)
  with MapLogicalBlock_ok [OF i l] show ?thesis by (auto simp: file_block_ok_def)
qed

theorem ReadInode_maps_file_witness:
  "\<exists>physical. MapLogicalBlock sample_reader sample_inode 1 = Inr physical
    \<and> start_block (data sample_superblock) \<le> physical \<and> physical < 64"
  using ReadInode_maps_file [OF sample_reader_inode, of 1]
  by (simp add: sample_inode_def) (auto simp: sample_reader_def sample_superblock_def)

lemma ReadFile_cut:
  assumes "ReadInode r n = Inr inode" "S_ISREG (mode inode)" "file_readable r inode"
  shows "ReadFile r n offset requested = Inr (take requested (drop (unat offset) (file_contents r inode)))"
proof (cases "offset \<ge> file_size inode \<or> requested = 0")
  case True
  have "take requested (drop (unat offset) (file_contents r inode)) = []"
    using True by (auto simp: file_contents_def word_le_nat_alt)
  then show ?thesis using True assms by (auto simp: ReadFile_def)
next
  case False
  note i = ReadInode_ok(1) [OF assms(1)]
  let ?C = "concat (map (block_content r inode) [0..<unat (RequiredBlocks inode)])"
  let ?n = "min requested (unat (file_size inode - offset))"
  have d: "unat (file_size inode - offset) = unat (file_size inode) - unat offset" "unat offset < unat (file_size inode)"
    using False unat_sub [of offset "file_size inode"] by (simp_all add: word_less_nat_alt word_le_nat_alt not_le)
  have "ReadFileLoop r inode offset ?n [] = Inr (get_bytes (unat offset) ?n ?C)"
    using d by (intro ReadFileLoop_contents i assms(3)) (simp_all add: get_bytes_def)
  moreover have "get_bytes (unat offset) ?n ?C = take requested (drop (unat offset) (file_contents r inode))"
    using d by (simp add: get_bytes_def file_contents_def drop_take min.commute)
  ultimately show ?thesis using False assms by (simp add: ReadFile_def)
qed

text \<open>
  C12: reading a file returns exactly the requested part of its contents: with readable
  blocks, \<open>ReadFile\<close> agrees for every offset and length with cutting the
  concatenated blocks, and returns nothing at or behind the end of the file.
\<close>

theorem ReadFile_contents:
  assumes "ReadInode r n = Inr inode" "S_ISREG (mode inode)" "file_readable r inode"
  shows "ReadFile r n offset requested = Inr (take requested (drop (unat offset) (file_contents r inode)))"
  using assms by (rule ReadFile_cut)

theorem ReadFile_contents_witness:
  "ReadFile sample_reader 3 4090 10 = Inr (replicate 6 20 @ replicate 4 21)"
proof -
  have q: "RequiredBlocks sample_inode = 2" by (simp add: RequiredBlocks_def sample_inode_def)
  have b: "ReadExact sample_reader (20 * 4096) 4096 = Inr (replicate 4096 20)"
    "ReadExact sample_reader (21 * 4096) 4096 = Inr (replicate 4096 21)"
    by (simp_all add: ReadExact_def sample_reader_def byte_simps)
  have p: "file_pointer sample_reader sample_inode 0 = 20" "file_pointer sample_reader sample_inode 1 = 21"
    by (simp_all add: file_pointer_def sample_inode_def)
  have "file_readable sample_reader sample_inode" using b p by (simp add: file_readable_def q upt_rec)
  moreover have "file_contents sample_reader sample_inode = take 5000 (replicate 4096 20 @ replicate 4096 21)"
    using b p by (simp add: file_contents_def q upt_rec block_content_def) (simp add: sample_inode_def)
  moreover have "S_ISREG (mode sample_inode)" by (simp add: S_ISREG_def sample_inode_def)
  ultimately show ?thesis using ReadFile_contents [OF sample_reader_inode, of 4090 10] by simp
qed

end
