(* ===== verification/ReaderFrame.thy ===== *)
theory ReaderFrame
  imports ImageReader
begin

text \<open>
  Reading an image after some of its blocks have changed: two readers of the same volume
  agree on every inode, directory, path and file whose blocks were not written.  The
  planners and the request ledger use these lemmas to show what a transaction leaves alone.
\<close>

section \<open>Inodes\<close>

definition inode_offset :: "ImageReader \<Rightarrow> u32 \<Rightarrow> nat" where
  "inode_offset r n = unat (start_block (inode_table (superblock r))) * kBlockSize + unat (n - 1) * kInodeRecordSize"

definition inode_closed :: "ImageReader \<Rightarrow> InodeRecord \<Rightarrow> bool" where
  "inode_closed r inode \<longleftrightarrow> (\<forall>i. unat (RequiredBlocks inode) \<le> i \<and> i < 12 \<longrightarrow> direct_blocks inode ! i = 0)
    \<and> (\<forall>b i. ReadExact r (unat (indirect_block inode) * kBlockSize) kBlockSize = Inr b
         \<and> unat (RequiredBlocks inode) - 12 \<le> i \<and> i < 1024 \<and> \<not> RequiredBlocks inode \<le> 12
         \<longrightarrow> indirect_pointer b i = 0)"

lemma ReadInode_raw:
  assumes "ReadInode r n = Inr inode"
  shows "\<exists>raw. ReadExact r (inode_offset r n) kInodeRecordSize = Inr raw \<and> DecodeInode raw n = Inr inode"
  using assms unfolding ReadInode_def Let_def inode_offset_def
  by (auto simp: bind_result_Inr_iff case_sum_Inr_iff split: if_splits simp del: mod_0_imp_dvd)

lemma ReadInode_closed:
  assumes "ReadInode r n = Inr inode"
  shows "inode_closed r inode"
proof -
  from assms have dp: "CheckPointers r (min (unat (RequiredBlocks inode)) 12) (direct_blocks inode) = Inr ()"
    and large: "\<not> RequiredBlocks inode \<le> 12 \<Longrightarrow> \<exists>indirect.
      ReadExact r (unat (indirect_block inode) * kBlockSize) kBlockSize = Inr indirect
      \<and> CheckPointers r (unat (RequiredBlocks inode - 12)) (map (indirect_pointer indirect) [0..<1024]) = Inr ()"
    by (auto simp: ReadInode_def Let_def bind_result_Inr_iff case_sum_Inr_iff split: if_splits simp del: mod_0_imp_dvd)
  have "length (direct_blocks inode) = 12" using ReadInode_ok(1) [OF assms] by (simp add: inode_ok_def)
  then have "direct_blocks inode ! i = 0" if "unat (RequiredBlocks inode) \<le> i" "i < 12" for i
    using dp that unfolding CheckPointers_Inr by (auto dest!: spec [of _ i])
  moreover have "indirect_pointer b i = 0"
    if "ReadExact r (unat (indirect_block inode) * kBlockSize) kBlockSize = Inr b"
      "unat (RequiredBlocks inode) - 12 \<le> i" "i < 1024" "\<not> RequiredBlocks inode \<le> 12" for b i
  proof -
    have "unat (RequiredBlocks inode - 12) = unat (RequiredBlocks inode) - 12"
      using that(4) by (subst unat_sub) (auto simp: word_le_nat_alt)
    then show ?thesis using large [OF that(4)] that by (auto simp: CheckPointers_map_Inr dest!: spec [of _ i])
  qed
  ultimately show ?thesis unfolding inode_closed_def by blast
qed

lemma ReadInode_iff:
  "ReadInode r n = Inr inode \<longleftrightarrow> IsInodeAllocated r n
    \<and> (\<exists>raw. ReadExact r (inode_offset r n) kInodeRecordSize = Inr raw \<and> DecodeInode raw n = Inr inode)
    \<and> inode_ok r inode \<and> inode_closed r inode"
proof
  assume "ReadInode r n = Inr inode"
  then show "IsInodeAllocated r n
    \<and> (\<exists>raw. ReadExact r (inode_offset r n) kInodeRecordSize = Inr raw \<and> DecodeInode raw n = Inr inode)
    \<and> inode_ok r inode \<and> inode_closed r inode"
    using ReadInode_ok ReadInode_raw ReadInode_closed by blast
next
  assume a: "IsInodeAllocated r n
    \<and> (\<exists>raw. ReadExact r (inode_offset r n) kInodeRecordSize = Inr raw \<and> DecodeInode raw n = Inr inode)
    \<and> inode_ok r inode \<and> inode_closed r inode"
  then obtain raw where "ReadExact r (inode_offset r n) kInodeRecordSize = Inr raw" "DecodeInode raw n = Inr inode"
    by blast
  with a show "ReadInode r n = Inr inode"
    by (intro ReadInode_intro [of r n raw inode]) (auto simp: inode_offset_def inode_closed_def)
qed

section \<open>Readers of the same volume\<close>

text \<open>
  \<^term>\<open>later W D r r'\<close>: the second reader reads the same volume after the blocks \<^term>\<open>W\<close>
  were written and the blocks \<^term>\<open>D\<close> were released.
\<close>

definition later :: "nat set \<Rightarrow> nat set \<Rightarrow> ImageReader \<Rightarrow> ImageReader \<Rightarrow> bool" where
  "later W D r r' \<longleftrightarrow> superblock r' = superblock r \<and> reader_image_size r' = reader_image_size r
    \<and> (\<forall>n. n \<notin> W \<longrightarrow> reader_pread r' n = reader_pread r n)
    \<and> (\<forall>n. IsInodeAllocated r n \<longrightarrow> IsInodeAllocated r' n)
    \<and> (\<forall>b. IsBlockAllocated r b \<and> unat b \<notin> D \<longrightarrow> IsBlockAllocated r' b)"

lemma later_superblock: "later W D r r' \<Longrightarrow> superblock r' = superblock r"
  by (simp add: later_def)

lemma ReadExact_later:
  assumes "later W D r r'" "offset div 4096 \<notin> W"
  shows "ReadExact r' offset count = ReadExact r offset count"
  using assms by (simp add: ReadExact_def later_def)

lemma ReadBlock_later:
  assumes "later W D r r'" "unat b \<notin> W"
  shows "ReadBlock r' b = ReadBlock r b"
  using assms ReadExact_later [OF assms(1), of "unat b * 4096" 4096] by (simp add: ReadBlock_def later_def)

lemma file_block_ok_later:
  assumes "later W D r r'" "file_block_ok r b" "unat b \<notin> D"
  shows "file_block_ok r' b"
  using assms by (simp add: file_block_ok_def later_def)

lemma inode_offset_later: "later W D r r' \<Longrightarrow> inode_offset r' n = inode_offset r n"
  by (simp add: later_def inode_offset_def)

text \<open>
  The blocks an inode is mapped by, beside its record: its indirect block, if any.  The
  blocks that hold a file: its data and its indirect block.
\<close>

definition map_blocks :: "InodeRecord \<Rightarrow> nat set" where
  "map_blocks inode = (if indirect_block inode = 0 then {} else {unat (indirect_block inode)})"

definition file_blocks :: "ImageReader \<Rightarrow> InodeRecord \<Rightarrow> nat set" where
  "file_blocks r inode = map_blocks inode
    \<union> {unat (file_pointer r inode l) | l. l < unat (RequiredBlocks inode)}"

lemma map_blocks_file_blocks: "file_blocks r inode \<inter> W = {} \<Longrightarrow> map_blocks inode \<inter> W = {}"
  by (auto simp: file_blocks_def)

lemma file_pointer_later:
  assumes "later W D r r'" "inode_ok r inode" "map_blocks inode \<inter> W = {}" "l < unat (RequiredBlocks inode)"
  shows "file_pointer r' inode l = file_pointer r inode l"
proof (cases "l < 12")
  case False
  then have "\<not> RequiredBlocks inode \<le> 12" using assms(4) by (simp add: word_le_nat_alt)
  then have "indirect_block inode \<noteq> 0" using assms(2) by (auto simp: inode_ok_def file_block_ok_def)
  then show ?thesis
    using assms(3) ReadExact_later [OF assms(1), of "unat (indirect_block inode) * 4096" 4096]
    by (simp add: file_pointer_def map_blocks_def)
qed (simp add: file_pointer_def)

lemma file_blocks_later:
  assumes "later W D r r'" "inode_ok r inode" "map_blocks inode \<inter> W = {}"
  shows "file_blocks r' inode = file_blocks r inode"
  using file_pointer_later [OF assms] unfolding file_blocks_def by metis

lemma inode_later:
  assumes "later W D r r'" "inode_ok r inode" "inode_closed r inode" "map_blocks inode \<inter> W = {}"
    and "file_blocks r inode \<inter> D = {}"
  shows "inode_ok r' inode" "inode_closed r' inode"
proof -
  have ind: "ReadExact r' (unat (indirect_block inode) * 4096) 4096 = ReadExact r (unat (indirect_block inode) * 4096) 4096"
    if "indirect_block inode \<noteq> 0"
    using that assms(4) ReadExact_later [OF assms(1), of "unat (indirect_block inode) * 4096" 4096]
    by (simp add: map_blocks_def)
  have nz: "\<not> RequiredBlocks inode \<le> 12 \<Longrightarrow> indirect_block inode \<noteq> 0"
    using assms(2) by (auto simp: inode_ok_def file_block_ok_def)
  then show "inode_closed r' inode" using assms(3) ind unfolding inode_closed_def by auto
  have "file_block_ok r' (file_pointer r inode l)" if "l < unat (RequiredBlocks inode)" for l
  proof (rule file_block_ok_later [OF assms(1)])
    show "file_block_ok r (file_pointer r inode l)" using assms(2) that by (simp add: inode_ok_def)
    show "unat (file_pointer r inode l) \<notin> D" using assms(5) that by (auto simp: file_blocks_def)
  qed
  moreover have "\<not> RequiredBlocks inode \<le> 12 \<Longrightarrow> file_block_ok r' (indirect_block inode)"
    using nz assms(2,5) by (intro file_block_ok_later [OF assms(1)]) (auto simp: inode_ok_def file_blocks_def map_blocks_def)
  ultimately show "inode_ok r' inode"
    using assms(2) ind nz file_pointer_later [OF assms(1,2,4)]
    by (simp add: inode_ok_def file_block_ok_validate(2) del: mod_0_imp_dvd)
qed

lemma ReadInode_later_record:
  assumes "later W D r r'" "ReadInode r n = Inr inode" "map_blocks inode \<inter> W = {}" "file_blocks r inode \<inter> D = {}"
    and "ReadExact r' (inode_offset r n) kInodeRecordSize = ReadExact r (inode_offset r n) kInodeRecordSize"
  shows "ReadInode r' n = Inr inode"
  using assms(2,5) inode_later [OF assms(1) _ _ assms(3,4)] assms(1)
  unfolding ReadInode_iff inode_offset_later [OF assms(1)] by (auto simp: later_def)

lemma ReadInode_later:
  assumes "later W D r r'" "ReadInode r n = Inr inode" "map_blocks inode \<inter> W = {}" "file_blocks r inode \<inter> D = {}"
    and "inode_offset r n div 4096 \<notin> W"
  shows "ReadInode r' n = Inr inode"
  using ReadInode_later_record [OF assms(1-4)] ReadExact_later [OF assms(1,5)] by simp

section \<open>Files\<close>

lemma block_content_later:
  assumes "later W D r r'" "inode_ok r inode" "file_blocks r inode \<inter> W = {}" "l < unat (RequiredBlocks inode)"
  shows "ReadExact r' (unat (file_pointer r' inode l) * 4096) 4096 = ReadExact r (unat (file_pointer r inode l) * 4096) 4096"
    "block_content r' inode l = block_content r inode l"
proof -
  have m: "map_blocks inode \<inter> W = {}" "unat (file_pointer r inode l) \<notin> W"
    using assms(3,4) by (auto simp: file_blocks_def)
  show e: "ReadExact r' (unat (file_pointer r' inode l) * 4096) 4096 = ReadExact r (unat (file_pointer r inode l) * 4096) 4096"
    using file_pointer_later [OF assms(1,2) m(1) assms(4)] m(2)
      ReadExact_later [OF assms(1), of "unat (file_pointer r inode l) * 4096" 4096] by simp
  show "block_content r' inode l = block_content r inode l" using e by (simp add: block_content_def)
qed

lemma file_contents_later:
  assumes "later W D r r'" "inode_ok r inode" "file_blocks r inode \<inter> W = {}"
  shows "file_contents r' inode = file_contents r inode" "file_readable r' inode = file_readable r inode"
proof -
  have "map (block_content r' inode) [0..<unat (RequiredBlocks inode)]
      = map (block_content r inode) [0..<unat (RequiredBlocks inode)]"
    using block_content_later(2) [OF assms] by simp
  then show "file_contents r' inode = file_contents r inode" unfolding file_contents_def by (rule arg_cong)
  show "file_readable r' inode = file_readable r inode"
    using block_content_later(1) [OF assms] by (simp add: file_readable_def list_all_iff)
qed

section \<open>Directories\<close>

text \<open>An inode keeps its type: it can still be read and has the same mode.\<close>

definition kept :: "ImageReader \<Rightarrow> ImageReader \<Rightarrow> u32 \<Rightarrow> bool" where
  "kept r r' n \<longleftrightarrow> (\<forall>c. ReadInode r n = Inr c \<longrightarrow> (\<exists>c'. ReadInode r' n = Inr c' \<and> mode c' = mode c))"

lemma ScanDirectoryBlock_grows:
  "ScanDirectoryBlock r block off names es = Inr (names', es') \<Longrightarrow> set es \<subseteq> set es'"
proof (induction r block off names es rule: ScanDirectoryBlock.induct)
  case (1 r block off names es)
  from 1(3) show ?case
    by (subst (asm) ScanDirectoryBlock.simps) (fastforce simp: Let_def split: if_splits sum.splits dest: 1(1,2))
qed

lemma ScanDirectoryBlock_later:
  assumes "ScanDirectoryBlock r block off names es = Inr (names', es')" "\<forall>e \<in> set es'. kept r r' (entry_inode e)"
  shows "ScanDirectoryBlock r' block off names es = Inr (names', es')"
  using assms
proof (induction r block off names es rule: ScanDirectoryBlock.induct)
  case (1 r block off names es)
  show ?case
  proof (cases "off \<ge> length block")
    case True
    then show ?thesis using 1(3) by (simp add: ScanDirectoryBlock.simps)
  next
    case False
    then obtain e where e: "DecodeDirectoryEntry (drop off block) = Inr e" "record_length e \<noteq> 0"
      using 1(3) by (auto simp: ScanDirectoryBlock.simps [of r block off names es] split: sum.splits if_splits)
    show ?thesis
    proof (cases "entry_inode e = 0")
      case True
      then show ?thesis using 1 False e
        by (simp add: ScanDirectoryBlock.simps [of r block off names es] ScanDirectoryBlock.simps [of r' block off names es])
    next
      case active: False
      obtain child where c: "ReadInode r (entry_inode e) = Inr child" "IsDirectoryType (file_type e) (mode child)"
        "entry_name e \<notin> names"
        "ScanDirectoryBlock r block (off + unat (record_length e)) (insert (entry_name e) names) (es @ [e]) = Inr (names', es')"
        using 1(3) False e active
        by (auto simp: ScanDirectoryBlock.simps [of r block off names es] split: sum.splits if_splits)
      have "kept r r' (entry_inode e)" using ScanDirectoryBlock_grows [OF c(4)] 1(4) by auto
      then obtain child' where c': "ReadInode r' (entry_inode e) = Inr child'" "mode child' = mode child"
        using c(1) by (auto simp: kept_def)
      have "ScanDirectoryBlock r' block (off + unat (record_length e)) (insert (entry_name e) names) (es @ [e]) = Inr (names', es')"
        using 1(2) [OF False e(1,2) refl active c(3,1)] c(2,4) 1(4) by simp
      then show ?thesis using False e active c(2,3) c'
        by (simp add: ScanDirectoryBlock.simps [of r' block off names es])
    qed
  qed
qed

lemma ScanDirectory_grows: "ScanDirectory r d ls names es = Inr es' \<Longrightarrow> set es \<subseteq> set es'"
  by (induction ls arbitrary: names es) (auto simp: bind_result_Inr_iff dest!: ScanDirectoryBlock_grows)

lemma ScanDirectory_later:
  assumes "ScanDirectory r d ls names es = Inr es'" "\<forall>e \<in> set es'. kept r r' (entry_inode e)"
    and "\<And>l. l \<in> set ls \<Longrightarrow> MapLogicalBlock r' d (of_nat l) = MapLogicalBlock r d (of_nat l)"
    and "\<And>l b. l \<in> set ls \<Longrightarrow> MapLogicalBlock r d (of_nat l) = Inr b \<Longrightarrow>
      ReadExact r' (unat b * kBlockSize) kBlockSize = ReadExact r (unat b * kBlockSize) kBlockSize"
  shows "ScanDirectory r' d ls names es = Inr es'"
  using assms(1,3,4)
proof (induction ls arbitrary: names es)
  case (Cons l ls)
  from Cons.prems(1) obtain b block names1 es1 where m: "MapLogicalBlock r d (of_nat l) = Inr b"
    "ReadExact r (unat b * kBlockSize) kBlockSize = Inr block"
    and s: "ScanDirectoryBlock r block 0 names es = Inr (names1, es1)" "ScanDirectory r d ls names1 es1 = Inr es'"
    by (auto simp: bind_result_Inr_iff)
  have "ScanDirectoryBlock r' block 0 names es = Inr (names1, es1)"
    using ScanDirectoryBlock_later [OF s(1)] ScanDirectory_grows [OF s(2)] assms(2) by blast
  moreover have "ScanDirectory r' d ls names1 es1 = Inr es'"
    using Cons.prems(2,3) by (intro Cons.IH [OF s(2)]) auto
  ultimately show ?case using m Cons.prems(2) [of l] Cons.prems(3) [of l b] by simp
qed simp

lemma directory_block_count:
  assumes "inode_ok r d" "S_ISDIR (mode d)"
  shows "unat (ucast (file_size d div 4096) :: u32) = unat (RequiredBlocks d)"
    "unat (file_size d) = unat (RequiredBlocks d) * 4096"
proof -
  have s: "unat (file_size d) \<le> 4243456" "file_size d \<le> kMaxFileSize" "unat (file_size d) mod 4096 = 0"
    using assms unat_mod [of "file_size d" 4096]
    by (auto simp: inode_ok_def kMaxFileSize_def word_le_nat_alt simp del: mod_0_imp_dvd)
  have "unat (file_size d div 4096) = unat (file_size d) div 4096" by (simp add: unat_div)
  then have u: "unat (ucast (file_size d div 4096) :: u32) = unat (file_size d) div 4096"
    using s(1) by (subst unat_ucast_u32) auto
  obtain q where "unat (file_size d) = 4096 * q" using s(3) mod_0_imp_dvd [of "unat (file_size d)" 4096] by (auto elim: dvdE)
  then have "(unat (file_size d) + 4095) div 4096 = unat (file_size d) div 4096" by simp
  then show "unat (ucast (file_size d div 4096) :: u32) = unat (RequiredBlocks d)"
    unfolding u unat_RequiredBlocks(1) [OF s(2)] ..
  then show "unat (file_size d) = unat (RequiredBlocks d) * 4096"
    using u s(3) div_mult_mod_eq [of "unat (file_size d)" 4096] by simp
qed

lemma MapLogicalBlock_later:
  assumes "later W D r r'" "inode_ok r d" "inode_closed r d" "map_blocks d \<inter> W = {}" "file_blocks r d \<inter> D = {}"
    and "l < unat (RequiredBlocks d)"
  shows "MapLogicalBlock r' d (of_nat l) = MapLogicalBlock r d (of_nat l)"
  using MapLogicalBlock_ok [OF assms(2,6)] MapLogicalBlock_ok [OF inode_later(1) [OF assms(1-5)] assms(6)]
    file_pointer_later [OF assms(1,2,4,6)] by simp

lemma ListDirectory_later:
  assumes "later W D r r'" "ListDirectory r n = Inr es" "ReadInode r n = Inr d" "ReadInode r' n = Inr d"
    and "file_blocks r d \<inter> W = {}" "file_blocks r d \<inter> D = {}" "\<forall>e \<in> set es. kept r r' (entry_inode e)"
  shows "ListDirectory r' n = Inr es"
proof -
  have dir: "S_ISDIR (mode d)" and s: "ScanDirectory r d [0..<unat (ucast (file_size d div 4096) :: u32)] {} [] = Inr es"
    using assms(2,3) by (auto simp: ListDirectory_def split: if_splits)
  note ok = ReadInode_ok(1) [OF assms(3)] and cl = ReadInode_closed [OF assms(3)]
  note cnt = directory_block_count(1) [OF ok dir]
  have m: "map_blocks d \<inter> W = {}" using assms(5) by (auto simp: file_blocks_def)
  have "ScanDirectory r' d [0..<unat (ucast (file_size d div 4096) :: u32)] {} [] = Inr es"
  proof (rule ScanDirectory_later [OF s assms(7)])
    fix l assume "l \<in> set [0..<unat (ucast (file_size d div 4096) :: u32)]"
    then have l: "l < unat (RequiredBlocks d)" using cnt by simp
    show "MapLogicalBlock r' d (of_nat l) = MapLogicalBlock r d (of_nat l)"
      using MapLogicalBlock_later [OF assms(1) ok cl m assms(6) l] .
    fix b assume "MapLogicalBlock r d (of_nat l) = Inr b"
    then have "b = file_pointer r d l" using MapLogicalBlock_ok [OF ok l] by simp
    then have "unat b \<notin> W" using assms(5) l by (auto simp: file_blocks_def)
    then show "ReadExact r' (unat b * kBlockSize) kBlockSize = ReadExact r (unat b * kBlockSize) kBlockSize"
      using ReadExact_later [OF assms(1), of "unat b * 4096" 4096] by simp
  qed
  then show ?thesis using assms(4) dir by (simp add: ListDirectory_def)
qed

section \<open>Paths below the root\<close>

text \<open>A name without a slash that can stand directly below the root.\<close>

definition root_name :: "bytes \<Rightarrow> bool" where
  "root_name name \<longleftrightarrow> name \<noteq> [] \<and> 47 \<notin> set name \<and> name \<noteq> [46] \<and> name \<noteq> [46, 46]"

lemma ResolvePath_root_name:
  assumes "root_name name"
  shows "ResolvePath r (47 # name) = bind_result (ListDirectory r (root_inode (superblock r))) (\<lambda>es.
    case find (\<lambda>e. entry_name e = name) es of None \<Rightarrow> Inl ENOENT
    | Some e \<Rightarrow> bind_result (ReadInode r (entry_inode e)) (\<lambda>inode. Inr (entry_inode e, inode)))"
proof -
  have n: "takeWhile (\<lambda>c. c \<noteq> 47) name = name" "dropWhile (\<lambda>c. c \<noteq> 47) name = []" "name \<noteq> []" "last name \<noteq> 47"
    "name \<noteq> [46]" "name \<noteq> [46, 46]"
    using assms by (auto simp: root_name_def takeWhile_eq_all_conv dropWhile_eq_Nil_conv)
      (metis last_in_set)+
  have "ResolveComponents r (root_inode (superblock r)) name = bind_result (ListDirectory r (root_inode (superblock r)))
      (\<lambda>es. case find (\<lambda>e. entry_name e = name) es of None \<Rightarrow> Inl ENOENT | Some e \<Rightarrow> Inr (entry_inode e))"
    using n(3,5,6) unfolding ResolveComponents.simps [of r "root_inode (superblock r)" name] n(1,2) Let_def
    by (simp cong: option.case_cong)
  then show ?thesis
    using n(3,4) by (simp add: ResolvePath_def bind_result_def split: sum.split option.split)
qed

lemma find_entry:
  assumes "distinct (map entry_name es)"
  shows "find (\<lambda>e. entry_name e = name) es = Some e \<longleftrightarrow> e \<in> set es \<and> entry_name e = name"
    "find (\<lambda>e. entry_name e = name) es = None \<longleftrightarrow> name \<notin> entry_name ` set es"
  using assms by (induction es) (auto simp: find_None_iff)

lemma ResolvePath_root_entry:
  assumes "root_name name" "ListDirectory r (root_inode (superblock r)) = Inr es"
  shows "ResolvePath r (47 # name) = Inr (n, inode) \<longleftrightarrow>
      (\<exists>e \<in> set es. entry_name e = name \<and> entry_inode e = n) \<and> ReadInode r n = Inr inode"
    "name \<notin> entry_name ` set es \<Longrightarrow> ResolvePath r (47 # name) = Inl ENOENT"
proof -
  have dis: "distinct (map entry_name es)" by (rule ListDirectory_ok(1) [OF assms(2)])
  note d = find_entry [OF dis, of name]
  have same: "e = e'" if "e \<in> set es" "e' \<in> set es" "entry_name e = entry_name e'" for e e'
    using that dis by (auto simp: distinct_map inj_on_def)
  show "ResolvePath r (47 # name) = Inr (n, inode) \<longleftrightarrow>
      (\<exists>e \<in> set es. entry_name e = name \<and> entry_inode e = n) \<and> ReadInode r n = Inr inode"
    using d unfolding ResolvePath_root_name [OF assms(1)]
    by (cases "find (\<lambda>e. entry_name e = name) es") (auto simp: assms(2) bind_result_Inr_iff dest: same)
  show "name \<notin> entry_name ` set es \<Longrightarrow> ResolvePath r (47 # name) = Inl ENOENT"
    using d unfolding ResolvePath_root_name [OF assms(1)] by (simp add: assms(2))
qed

section \<open>Consistent volumes\<close>

text \<open>
  The invariant of a mounted image: every block can be read, the bitmaps in memory are
  those on disk, every allocated inode and every directory can be read, and no data or
  indirect block has two owners.
\<close>

definition inode_distinct :: "ImageReader \<Rightarrow> InodeRecord \<Rightarrow> bool" where
  "inode_distinct r inode \<longleftrightarrow>
    distinct (indirect_block inode # map (file_pointer r inode) [0..<unat (RequiredBlocks inode)])"

definition blocks_readable :: "ImageReader \<Rightarrow> bool" where
  "blocks_readable r \<longleftrightarrow> (\<forall>n < unat (total_blocks (superblock r)). \<exists>b. reader_pread r n = Inr b \<and> length b = kBlockSize)"

definition bitmaps_synced :: "ImageReader \<Rightarrow> bool" where
  "bitmaps_synced r \<longleftrightarrow> ReadRegion (reader_pread r) (inode_bitmap (superblock r)) = Inr (inode_bitmap_bytes r)
    \<and> ReadRegion (reader_pread r) (block_bitmap (superblock r)) = Inr (block_bitmap_bytes r)"

definition volume_ok :: "ImageReader \<Rightarrow> bool" where
  "volume_ok r \<longleftrightarrow> reader_ok r \<and> blocks_readable r \<and> bitmaps_synced r
    \<and> (\<forall>n. IsInodeAllocated r n \<longrightarrow> (\<exists>i. ReadInode r n = Inr i))
    \<and> (\<forall>n i. ReadInode r n = Inr i \<longrightarrow> inode_distinct r i)
    \<and> (\<forall>n m i j. ReadInode r n = Inr i \<and> ReadInode r m = Inr j \<and> n \<noteq> m \<longrightarrow> file_blocks r i \<inter> file_blocks r j = {})
    \<and> (\<forall>n i. ReadInode r n = Inr i \<and> S_ISDIR (mode i) \<longrightarrow> (\<exists>es. ListDirectory r n = Inr es))"

lemma volume_okD:
  assumes "volume_ok r"
  shows "reader_ok r" "blocks_readable r" "bitmaps_synced r"
    "\<And>n. IsInodeAllocated r n \<Longrightarrow> \<exists>i. ReadInode r n = Inr i"
    "\<And>n i. ReadInode r n = Inr i \<Longrightarrow> inode_distinct r i"
    "\<And>n m i j. ReadInode r n = Inr i \<Longrightarrow> ReadInode r m = Inr j \<Longrightarrow> n \<noteq> m \<Longrightarrow> file_blocks r i \<inter> file_blocks r j = {}"
    "\<And>n i. ReadInode r n = Inr i \<Longrightarrow> S_ISDIR (mode i) \<Longrightarrow> \<exists>es. ListDirectory r n = Inr es"
  using assms unfolding volume_ok_def by blast+

lemma reader_ok_facts:
  assumes "reader_ok r"
  shows "ValidateSuperblock (superblock r) = Inr ()"
    "reader_image_size r = unat (total_blocks (superblock r)) * 4096"
    "length (inode_bitmap_bytes r) = unat (block_count (inode_bitmap (superblock r))) * 4096"
    "length (block_bitmap_bytes r) = unat (block_count (block_bitmap (superblock r))) * 4096"
  using assms by (simp_all add: reader_ok_def)

lemma ReadExact_block:
  assumes "reader_ok r" "blocks_readable r" "n < unat (total_blocks (superblock r))" "q + k \<le> 4096" "q < 4096"
  obtains b where "reader_pread r n = Inr b" "length b = 4096" "ReadExact r (n * 4096 + q) k = Inr (get_bytes q k b)"
proof -
  obtain b where b: "reader_pread r n = Inr b" "length b = 4096" using assms(2,3) by (auto simp: blocks_readable_def)
  have sz: "n * 4096 + 4096 \<le> reader_image_size r"
    using assms(3) reader_ok_facts(2) [OF assms(1)] by simp
  have "(n * 4096 + q) div 4096 = n" "(n * 4096 + q) mod 4096 = q" using assms(5) by simp_all
  then show ?thesis using that [OF b] b sz assms(4) by (simp add: ReadExact_def)
qed

section \<open>Keeping a volume consistent\<close>

text \<open>
  A step that changes the inodes \<^term>\<open>C\<close> only: all other inodes keep their record and their
  blocks.
\<close>

definition changes_only :: "u32 set \<Rightarrow> nat set \<Rightarrow> nat set \<Rightarrow> ImageReader \<Rightarrow> ImageReader \<Rightarrow> bool" where
  "changes_only C W D r r' \<longleftrightarrow> later W D r r'
    \<and> (\<forall>n. IsInodeAllocated r' n \<longrightarrow> IsInodeAllocated r n \<or> n \<in> C)
    \<and> (\<forall>n i. n \<notin> C \<and> ReadInode r n = Inr i \<longrightarrow> file_blocks r i \<inter> W = {} \<and> file_blocks r i \<inter> D = {}
         \<and> ReadExact r' (inode_offset r n) kInodeRecordSize = ReadExact r (inode_offset r n) kInodeRecordSize)"

lemma changes_only_inode:
  assumes "changes_only C W D r r'" "n \<notin> C" "ReadInode r n = Inr i"
  shows "ReadInode r' n = Inr i" "file_blocks r' i = file_blocks r i" "file_blocks r i \<inter> W = {}" "file_blocks r i \<inter> D = {}"
    "file_contents r' i = file_contents r i"
proof -
  have l: "later W D r r'" and b: "file_blocks r i \<inter> W = {}" "file_blocks r i \<inter> D = {}"
    "ReadExact r' (inode_offset r n) kInodeRecordSize = ReadExact r (inode_offset r n) kInodeRecordSize"
    using assms unfolding changes_only_def by blast+
  note ok = ReadInode_ok(1) [OF assms(3)]
  show "ReadInode r' n = Inr i" by (rule ReadInode_later_record [OF l assms(3) map_blocks_file_blocks [OF b(1)] b(2,3)])
  show "file_blocks r' i = file_blocks r i" by (rule file_blocks_later [OF l ok map_blocks_file_blocks [OF b(1)]])
  show "file_blocks r i \<inter> W = {}" "file_blocks r i \<inter> D = {}" by fact+
  show "file_contents r' i = file_contents r i" by (rule file_contents_later(1) [OF l ok b(1)])
qed

lemma inode_distinct_later:
  assumes "later W D r r'" "inode_ok r i" "map_blocks i \<inter> W = {}"
  shows "inode_distinct r' i = inode_distinct r i"
proof -
  have "map (file_pointer r' i) [0..<unat (RequiredBlocks i)] = map (file_pointer r i) [0..<unat (RequiredBlocks i)]"
    using file_pointer_later [OF assms] by simp
  then show ?thesis unfolding inode_distinct_def by (rule arg_cong)
qed

text \<open>What is left to show of the changed inodes.\<close>

definition change_ok :: "u32 set \<Rightarrow> ImageReader \<Rightarrow> ImageReader \<Rightarrow> bool" where
  "change_ok C r r' \<longleftrightarrow>
    (\<forall>n \<in> C. \<exists>i. ReadInode r' n = Inr i \<and> inode_distinct r' i
       \<and> (\<forall>m j. m \<notin> C \<and> ReadInode r m = Inr j \<longrightarrow> file_blocks r' i \<inter> file_blocks r j = {})
       \<and> (\<forall>m j. m \<in> C \<and> m \<noteq> n \<and> ReadInode r' m = Inr j \<longrightarrow> file_blocks r' i \<inter> file_blocks r' j = {})
       \<and> (S_ISDIR (mode i) \<longrightarrow> (\<exists>es. ListDirectory r' n = Inr es))
       \<and> (\<forall>c. ReadInode r n = Inr c \<longrightarrow> mode c = mode i))"

lemma change_kept:
  assumes "changes_only C W D r r'" "change_ok C r r'"
  shows "kept r r' n"
  using assms changes_only_inode(1) [OF assms(1)] unfolding kept_def change_ok_def
  by (cases "n \<in> C") fastforce+

lemma change_lists:
  assumes "changes_only C W D r r'" "change_ok C r r'" "n \<notin> C" "ListDirectory r n = Inr es"
  shows "ListDirectory r' n = Inr es"
proof -
  obtain d where d: "ReadInode r n = Inr d" "S_ISDIR (mode d)" using ListDirectory_ok(3) [OF assms(4)] by blast
  note c = changes_only_inode [OF assms(1,3) d(1)]
  have "later W D r r'" using assms(1) by (simp add: changes_only_def)
  from ListDirectory_later [OF this assms(4) d(1) c(1,3,4)] show ?thesis using change_kept [OF assms(1,2)] by blast
qed

lemma volume_ok_step:
  assumes "volume_ok r" "reader_ok r'" "blocks_readable r'" "bitmaps_synced r'"
    and "changes_only C W D r r'" "change_ok C r r'"
  shows "volume_ok r'"
proof -
  note v = volume_okD [OF assms(1)] and c = changes_only_inode [OF assms(5)]
  have lt: "later W D r r'" using assms(5) by (simp add: changes_only_def)
  have old: "ReadInode r n = Inr i" if "ReadInode r' n = Inr i" "n \<notin> C" for n i
  proof -
    have "IsInodeAllocated r n" using ReadInode_ok(2) [OF that(1)] that(2) assms(5) by (auto simp: changes_only_def)
    then obtain j where j: "ReadInode r n = Inr j" using v(4) by blast
    then show ?thesis using c(1) [OF that(2) j] that(1) by simp
  qed
  have 1: "\<exists>i. ReadInode r' n = Inr i" if "IsInodeAllocated r' n" for n
  proof (cases "n \<in> C")
    case False
    then have "IsInodeAllocated r n" using that assms(5) by (auto simp: changes_only_def)
    then show ?thesis using v(4) c(1) [OF False] by blast
  qed (use assms(6) in \<open>auto simp: change_ok_def\<close>)
  have 2: "inode_distinct r' i" if "ReadInode r' n = Inr i" for n i
  proof (cases "n \<in> C")
    case False
    note b = old [OF that False]
    show ?thesis using v(5) [OF b] inode_distinct_later [OF lt ReadInode_ok(1) [OF b] map_blocks_file_blocks [OF c(3) [OF False b]]] by simp
  qed (use that assms(6) in \<open>auto simp: change_ok_def\<close>)
  have x: "file_blocks r' i \<inter> file_blocks r' j = {}"
    if "ReadInode r' n = Inr i" "ReadInode r' m = Inr j" "n \<in> C" "m \<notin> C" for n m i j
    using assms(6) that(1,3) old [OF that(2,4)] c(2) [OF that(4) old [OF that(2,4)]] that(4)
    unfolding change_ok_def by fastforce
  have 3: "file_blocks r' i \<inter> file_blocks r' j = {}"
    if nm: "ReadInode r' n = Inr i" "ReadInode r' m = Inr j" "n \<noteq> m" for n m i j
  proof -
    consider "n \<in> C" "m \<in> C" | "n \<in> C" "m \<notin> C" | "n \<notin> C" "m \<in> C" | "n \<notin> C" "m \<notin> C" by blast
    then show ?thesis
    proof cases
      case 1
      then show ?thesis using assms(6) nm unfolding change_ok_def by fastforce
    next
      case 2
      then show ?thesis using x nm by blast
    next
      case 3
      then show ?thesis using x [OF nm(2,1)] by blast
    next
      case 4
      then show ?thesis using v(6) [OF old [OF nm(1)] old [OF nm(2)] nm(3)] c(2) old nm by blast
    qed
  qed
  have 4: "\<exists>es. ListDirectory r' n = Inr es" if "ReadInode r' n = Inr i" "S_ISDIR (mode i)" for n i
  proof (cases "n \<in> C")
    case False
    then show ?thesis using v(7) [OF old [OF that(1) False] that(2)] change_lists [OF assms(5,6) False] by blast
  qed (use that assms(6) in \<open>auto simp: change_ok_def\<close>)
  show ?thesis unfolding volume_ok_def using assms(2-4) 1 2 3 4 by blast
qed

end
