(* ===== verification/BitmapAllocator.thy ===== *)
theory BitmapAllocator
  imports Prelude
begin

text \<open>
  The in-memory bitmap allocator of \<^verbatim>\<open>src/src/storage/bitmap_allocator.{h,cpp}\<close>
  with its self-rolling-back reservations.  The allocator refines a set of
  allocated bits: the locale \<open>bit_allocator\<close> states the contract its clients (the
  planners) rely on, derives what a client gets from a sequence of reservations, and
  is interpreted on the model's operations.

  The mutex that serialises the methods is not modelled: each method is one step.
  The allocator works on the caller's vector, which the model carries in its state.
\<close>

section \<open>State and operations\<close>

record AllocatorState =
  bitmap_of :: bytes
  valid_bits :: u32
  first_allocatable_bit :: u32

text \<open>A reservation is active while it holds its allocator pointer.\<close>

record BitmapReservation =
  active :: bool
  reserved_bit :: u32

definition empty_reservation :: BitmapReservation where
  "empty_reservation = \<lparr>active = False, reserved_bit = 0\<rparr>"

definition TestBit :: "bytes \<Rightarrow> nat \<Rightarrow> bool" where
  "TestBit bitmap i \<longleftrightarrow> bitmap ! (i div 8) AND push_bit (i mod 8) 1 \<noteq> 0"

definition SetBit :: "bytes \<Rightarrow> nat \<Rightarrow> bytes" where
  "SetBit bitmap i = bitmap[i div 8 := bitmap ! (i div 8) OR push_bit (i mod 8) 1]"

definition ClearBit :: "bytes \<Rightarrow> nat \<Rightarrow> bytes" where
  "ClearBit bitmap i = bitmap[i div 8 := bitmap ! (i div 8) AND NOT (push_bit (i mod 8) 1)]"

definition AllocatorValidate :: "AllocatorState \<Rightarrow> string + unit" where
  "AllocatorValidate s =
    (if valid_bits s = 0 \<or> first_allocatable_bit s > valid_bits s
       then Inl ''bitmap allocator geometry is invalid''
     else
       let capacity_bits = length (bitmap_of s) * 8
       in
       if capacity_bits < unat (valid_bits s)
         then Inl ''bitmap storage is smaller than its valid range''
       else if \<not> list_all (TestBit (bitmap_of s)) [0..<unat (first_allocatable_bit s)]
         then Inl ''reserved bitmap prefix contains a free bit''
       else if \<not> list_all (\<lambda>i. TestBit (bitmap_of s) (i mod 2 ^ 32))
              [unat (valid_bits s)..<capacity_bits]
         then Inl ''bitmap tail contains an allocatable bit''
       else Inr ())"

definition Reserve ::
  "AllocatorState \<Rightarrow> BitmapReservation \<Rightarrow> errno + AllocatorState \<times> BitmapReservation" where
  "Reserve s reservation =
    (if active reservation then Inl EINVAL
     else if length (bitmap_of s) * 8 < unat (valid_bits s)
        \<or> first_allocatable_bit s > valid_bits s then Inl EINVAL
     else
       case find (\<lambda>i. \<not> TestBit (bitmap_of s) i)
              [unat (first_allocatable_bit s)..<unat (valid_bits s)] of
         Some i \<Rightarrow> Inr (s\<lparr>bitmap_of := SetBit (bitmap_of s) i\<rparr>,
                        \<lparr>active = True, reserved_bit = of_nat i\<rparr>)
       | None \<Rightarrow> Inl ENOSPC)"

definition ReleaseAllocated :: "AllocatorState \<Rightarrow> u32 \<Rightarrow> errno + AllocatorState" where
  "ReleaseAllocated s i =
    (if length (bitmap_of s) * 8 < unat (valid_bits s)
        \<or> first_allocatable_bit s > valid_bits s
        \<or> i < first_allocatable_bit s \<or> i \<ge> valid_bits s then Inl EINVAL
     else if \<not> TestBit (bitmap_of s) (unat i) then Inl EUCLEAN
     else Inr (s\<lparr>bitmap_of := ClearBit (bitmap_of s) (unat i)\<rparr>))"

definition IsAllocated :: "AllocatorState \<Rightarrow> u32 \<Rightarrow> bool" where
  "IsAllocated s i \<longleftrightarrow> i < valid_bits s \<and> TestBit (bitmap_of s) (unat i)"

definition Snapshot :: "AllocatorState \<Rightarrow> bytes" where
  "Snapshot s = bitmap_of s"

definition RollbackReservation :: "AllocatorState \<Rightarrow> u32 \<Rightarrow> AllocatorState" where
  "RollbackReservation s i =
    (if i \<ge> first_allocatable_bit s \<and> i < valid_bits s \<and> TestBit (bitmap_of s) (unat i)
     then s\<lparr>bitmap_of := ClearBit (bitmap_of s) (unat i)\<rparr> else s)"

definition KeepReserved :: "BitmapReservation \<Rightarrow> BitmapReservation" where
  "KeepReserved r = r\<lparr>active := False\<rparr>"

definition RollbackIfActive ::
  "AllocatorState \<Rightarrow> BitmapReservation \<Rightarrow> AllocatorState \<times> BitmapReservation" where
  "RollbackIfActive s r =
    (if active r then (RollbackReservation s (reserved_bit r), empty_reservation) else (s, r))"

text \<open>Move assignment from another reservation: the results are the allocator, the target and the source.\<close>

definition MoveAssign ::
  "AllocatorState \<Rightarrow> BitmapReservation \<Rightarrow> BitmapReservation
    \<Rightarrow> AllocatorState \<times> BitmapReservation \<times> BitmapReservation" where
  "MoveAssign s self other =
    (let (s', self') = RollbackIfActive s self
     in (s', self'\<lparr>active := active other, reserved_bit := reserved_bit other\<rparr>, empty_reservation))"

section \<open>Vocabulary of the lemmas\<close>

definition allocated_bits :: "AllocatorState \<Rightarrow> nat set" where
  "allocated_bits s = {i. i < unat (valid_bits s) \<and> TestBit (bitmap_of s) i}"

definition allocator_inv :: "AllocatorState \<Rightarrow> bool" where
  "allocator_inv s \<longleftrightarrow> unat (valid_bits s) \<le> length (bitmap_of s) * 8
    \<and> first_allocatable_bit s \<le> valid_bits s"

definition allocatable_bits :: "AllocatorState \<Rightarrow> nat set" where
  "allocatable_bits s = {unat (first_allocatable_bit s)..<unat (valid_bits s)}"

definition allocator_frame :: "AllocatorState \<Rightarrow> u32 \<times> u32 \<times> nat \<times> nat set" where
  "allocator_frame s = (valid_bits s, first_allocatable_bit s, length (bitmap_of s),
     {i. unat (valid_bits s) \<le> i \<and> i < length (bitmap_of s) * 8 \<and> TestBit (bitmap_of s) i})"

definition reserve_bit :: "AllocatorState \<Rightarrow> (AllocatorState \<times> nat) option" where
  "reserve_bit s = (case Reserve s empty_reservation of
     Inl _ \<Rightarrow> None | Inr (s', r) \<Rightarrow> Some (s', unat (reserved_bit r)))"

definition rollback_bit :: "AllocatorState \<Rightarrow> nat \<Rightarrow> AllocatorState" where
  "rollback_bit s i = RollbackReservation s (of_nat i)"

text \<open>A client that reserves several bits in a row and gives up at the first failure.\<close>

primrec reserve_many :: "('s \<Rightarrow> ('s \<times> nat) option) \<Rightarrow> nat \<Rightarrow> 's \<Rightarrow> ('s \<times> nat list) option" where
  "reserve_many reserve 0 s = Some (s, [])"
| "reserve_many reserve (Suc n) s = (case reserve s of
     None \<Rightarrow> None
   | Some (s1, i) \<Rightarrow> (case reserve_many reserve n s1 of
       None \<Rightarrow> None
     | Some (s2, is) \<Rightarrow> Some (s2, i # is)))"

section \<open>The contract of an allocator\<close>

locale bit_allocator =
  fixes inv :: "'s \<Rightarrow> bool"
    and allocated :: "'s \<Rightarrow> nat set"
    and allocatable :: "'s \<Rightarrow> nat set"
    and reserve :: "'s \<Rightarrow> ('s \<times> nat) option"
    and rollback :: "'s \<Rightarrow> nat \<Rightarrow> 's"
    and frame :: "'s \<Rightarrow> 'f"
  assumes reserve_Some: "inv s \<Longrightarrow> reserve s = Some (s', i) \<Longrightarrow>
      inv s' \<and> i \<in> allocatable s \<and> i \<notin> allocated s \<and> allocated s' = insert i (allocated s)
      \<and> allocatable s' = allocatable s \<and> frame s' = frame s"
    and reserve_None: "inv s \<Longrightarrow> reserve s = None \<Longrightarrow> allocatable s \<subseteq> allocated s"
    and rollback_law: "inv s \<Longrightarrow> i \<in> allocatable s \<Longrightarrow>
      inv (rollback s i) \<and> allocated (rollback s i) = allocated s - {i}
      \<and> allocatable (rollback s i) = allocatable s \<and> frame (rollback s i) = frame s"
    and determined: "inv s \<Longrightarrow> inv t \<Longrightarrow> frame s = frame t \<Longrightarrow> allocated s = allocated t \<Longrightarrow> s = t"
begin

lemma reserve_many_sound:
  assumes "inv s" "reserve_many reserve n s = Some (s', is)"
  shows "inv s' \<and> length is = n \<and> distinct is \<and> set is \<subseteq> allocatable s
    \<and> set is \<inter> allocated s = {} \<and> allocated s' = allocated s \<union> set is
    \<and> allocatable s' = allocatable s \<and> frame s' = frame s"
  using assms
proof (induction n arbitrary: s s' "is")
  case (Suc n)
  then obtain s1 i js where 1: "reserve s = Some (s1, i)" "reserve_many reserve n s1 = Some (s', js)"
    "is = i # js" by (auto split: option.splits prod.splits)
  note h = reserve_Some [OF Suc.prems(1) 1(1)]
  with Suc.IH [of s1 s' js] 1(2) show ?case unfolding 1(3) by auto
qed simp

lemma reserve_many_complete:
  assumes "inv s" "finite (allocatable s)" "n \<le> card (allocatable s - allocated s)"
  shows "\<exists>s' is. reserve_many reserve n s = Some (s', is)"
  using assms
proof (induction n arbitrary: s)
  case (Suc n)
  have "allocatable s - allocated s \<noteq> {}"
  proof
    assume "allocatable s - allocated s = {}"
    then have "card (allocatable s - allocated s) = 0" by (simp only: card.empty)
    with Suc.prems(3) show False by simp
  qed
  with reserve_None [OF Suc.prems(1)] obtain s1 i where r: "reserve s = Some (s1, i)"
    by (cases "reserve s") auto
  note h = reserve_Some [OF Suc.prems(1) r]
  have "allocatable s1 - allocated s1 = (allocatable s - allocated s) - {i}" using h by auto
  moreover have "i \<in> allocatable s - allocated s" using h by auto
  ultimately have "card (allocatable s1 - allocated s1) = card (allocatable s - allocated s) - 1"
    using Suc.prems(2) by simp
  then have "\<exists>s' is. reserve_many reserve n s1 = Some (s', is)" using Suc h by (intro Suc.IH) auto
  then show ?case using r by auto
qed simp

lemma rollback_all:
  assumes "inv s" "set js \<subseteq> allocatable s"
  shows "inv (foldl rollback s js) \<and> allocated (foldl rollback s js) = allocated s - set js
    \<and> frame (foldl rollback s js) = frame s"
  using assms
proof (induction js arbitrary: s)
  case (Cons i js)
  have "inv (rollback s i) \<and> allocated (rollback s i) = allocated s - {i}
      \<and> allocatable (rollback s i) = allocatable s \<and> frame (rollback s i) = frame s"
    using Cons.prems by (intro rollback_law) auto
  then show ?case using Cons.IH [of "rollback s i"] Cons.prems(2) by auto
qed simp

text \<open>Dropping the reservations in any order restores the state exactly.\<close>

lemma reserve_many_rollback:
  assumes "inv s" "reserve_many reserve n s = Some (s', is)" "set js = set is"
  shows "foldl rollback s' js = s"
proof -
  note r = reserve_many_sound [OF assms(1,2)]
  have "inv (foldl rollback s' js) \<and> allocated (foldl rollback s' js) = allocated s' - set js
    \<and> frame (foldl rollback s' js) = frame s'"
    using r assms(3) by (intro rollback_all) auto
  then show ?thesis using r assms(1,3) by (intro determined) auto
qed

end

section \<open>Bits of a bitmap\<close>

lemma TestBit_iff: "TestBit bm i \<longleftrightarrow> bit (bm ! (i div 8)) (i mod 8)"
  unfolding TestBit_def by (simp add: bit_iff_and_push_bit_not_eq_0)

lemma length_SetBit_ClearBit [simp]:
  "length (SetBit bm i) = length bm" "length (ClearBit bm i) = length bm"
  by (simp_all add: SetBit_def ClearBit_def)

lemma div_mod_8: "j div 8 = i div 8 \<Longrightarrow> j mod 8 = i mod 8 \<longleftrightarrow> j = (i :: nat)"
  by (metis div_mult_mod_eq)

lemma TestBit_SetBit:
  assumes "i < length bm * 8"
  shows "TestBit (SetBit bm i) j \<longleftrightarrow> j = i \<or> TestBit bm j"
proof (cases "j div 8 = i div 8")
  case True
  have "i div 8 < length bm" using assms by (simp add: div_less_iff_less_mult)
  then show ?thesis using True div_mod_8 [OF True]
    by (auto simp: TestBit_iff SetBit_def bit_simps)
qed (auto simp: TestBit_iff SetBit_def)

lemma TestBit_ClearBit:
  assumes "i < length bm * 8"
  shows "TestBit (ClearBit bm i) j \<longleftrightarrow> j \<noteq> i \<and> TestBit bm j"
proof (cases "j div 8 = i div 8")
  case True
  have "i div 8 < length bm" using assms by (simp add: div_less_iff_less_mult)
  then show ?thesis using True div_mod_8 [OF True]
    by (auto simp: TestBit_iff ClearBit_def bit_simps)
qed (auto simp: TestBit_iff ClearBit_def)

lemma bitmap_eqI:
  assumes "length bm = length bm'" "\<And>i. i < length bm * 8 \<Longrightarrow> TestBit bm i = TestBit bm' i"
  shows "bm = bm'"
proof (rule nth_equalityI [OF assms(1)])
  fix k assume k: "k < length bm"
  show "bm ! k = bm' ! k"
  proof (rule bit_word_eqI)
    fix j assume "j < LENGTH(8)"
    then have "(k * 8 + j) div 8 = k" "(k * 8 + j) mod 8 = j" "k * 8 + j < length bm * 8"
      using k by auto
    with assms(2) [of "k * 8 + j"] show "bit (bm ! k) j = bit (bm' ! k) j"
      by (simp add: TestBit_iff)
  qed
qed

section \<open>The allocator implements the contract\<close>

lemma find_upt_Some:
  "find P [a..<b] = Some i \<longleftrightarrow> a \<le> i \<and> i < b \<and> P i \<and> (\<forall>j. a \<le> j \<longrightarrow> j < i \<longrightarrow> \<not> P j)"
proof
  assume "find P [a..<b] = Some i"
  then obtain k where k: "k < b - a" "P (a + k)" "i = a + k" "\<forall>j<k. \<not> P (a + j)"
    by (auto simp: find_Some_iff)
  have "\<not> P j" if "a \<le> j" "j < i" for j
    using k(4) [rule_format, of "j - a"] k(3) that by simp
  with k show "a \<le> i \<and> i < b \<and> P i \<and> (\<forall>j. a \<le> j \<longrightarrow> j < i \<longrightarrow> \<not> P j)" by auto
next
  assume i: "a \<le> i \<and> i < b \<and> P i \<and> (\<forall>j. a \<le> j \<longrightarrow> j < i \<longrightarrow> \<not> P j)"
  then show "find P [a..<b] = Some i"
    unfolding find_Some_iff by (intro exI [of _ "i - a"]) auto
qed

lemma find_upt_None: "find P [a..<b] = None \<longleftrightarrow> (\<forall>i. a \<le> i \<longrightarrow> i < b \<longrightarrow> \<not> P i)"
  by (auto simp: find_None_iff)

lemma reserve_bit_eq:
  assumes "allocator_inv s"
  shows "reserve_bit s = map_option (\<lambda>i. (s\<lparr>bitmap_of := SetBit (bitmap_of s) i\<rparr>, i))
    (find (\<lambda>i. \<not> TestBit (bitmap_of s) i) [unat (first_allocatable_bit s)..<unat (valid_bits s)])"
proof (cases "find (\<lambda>i. \<not> TestBit (bitmap_of s) i)
    [unat (first_allocatable_bit s)..<unat (valid_bits s)]")
  case (Some i)
  then have "i < unat (valid_bits s)" by (simp add: find_upt_Some)
  then have "unat (of_nat i :: u32) = i"
    using u32_bound [of "valid_bits s"] by (simp add: unat_of_nat)
  with Some assms show ?thesis
    by (simp add: reserve_bit_def Reserve_def empty_reservation_def allocator_inv_def not_less)
qed (use assms in \<open>simp add: reserve_bit_def Reserve_def empty_reservation_def allocator_inv_def not_less\<close>)

lemma reserve_bit_Some:
  assumes "allocator_inv s"
  shows "reserve_bit s = Some (s', i) \<longleftrightarrow>
    s' = s\<lparr>bitmap_of := SetBit (bitmap_of s) i\<rparr>
    \<and> i \<in> allocatable_bits s \<and> i \<notin> allocated_bits s
    \<and> (\<forall>j \<in> allocatable_bits s. j < i \<longrightarrow> j \<in> allocated_bits s)"
  by (auto simp: reserve_bit_eq [OF assms] find_upt_Some allocatable_bits_def allocated_bits_def)

lemma rollback_bit_eq:
  assumes "allocator_inv s" "i \<in> allocatable_bits s"
  shows "rollback_bit s i = s\<lparr>bitmap_of := ClearBit (bitmap_of s) i\<rparr>"
proof -
  have i: "unat (first_allocatable_bit s) \<le> i" "i < unat (valid_bits s)"
    using assms(2) by (auto simp: allocatable_bits_def)
  then have u: "unat (of_nat i :: u32) = i"
    using u32_bound [of "valid_bits s"] by (simp add: unat_of_nat)
  have il: "i < length (bitmap_of s) * 8" using i(2) assms(1) by (simp add: allocator_inv_def)
  have "ClearBit (bitmap_of s) i = bitmap_of s" if "\<not> TestBit (bitmap_of s) i"
    using that il by (intro bitmap_eqI) (auto simp: TestBit_ClearBit)
  then show ?thesis
    using i u by (auto simp: rollback_bit_def RollbackReservation_def word_le_nat_alt word_less_nat_alt)
qed

interpretation bitmap: bit_allocator allocator_inv allocated_bits allocatable_bits
  reserve_bit rollback_bit allocator_frame
proof
  fix s s' :: AllocatorState and i
  assume inv: "allocator_inv s"
  {
    assume r: "reserve_bit s = Some (s', i)"
    then have i: "i < unat (valid_bits s)" "i < length (bitmap_of s) * 8"
      using inv by (auto simp: reserve_bit_Some allocatable_bits_def allocator_inv_def)
    show "allocator_inv s' \<and> i \<in> allocatable_bits s \<and> i \<notin> allocated_bits s
      \<and> allocated_bits s' = insert i (allocated_bits s) \<and> allocatable_bits s' = allocatable_bits s
      \<and> allocator_frame s' = allocator_frame s"
      using r i inv
      by (auto simp: reserve_bit_Some allocated_bits_def allocatable_bits_def allocator_inv_def
          allocator_frame_def TestBit_SetBit)
  }
  {
    assume "reserve_bit s = None"
    then show "allocatable_bits s \<subseteq> allocated_bits s"
      using inv by (auto simp: reserve_bit_eq find_upt_None allocatable_bits_def allocated_bits_def)
  }
  {
    assume i: "i \<in> allocatable_bits s"
    then have "i < unat (valid_bits s)" "i < length (bitmap_of s) * 8"
      using inv by (auto simp: allocatable_bits_def allocator_inv_def)
    then show "allocator_inv (rollback_bit s i) \<and> allocated_bits (rollback_bit s i) = allocated_bits s - {i}
      \<and> allocatable_bits (rollback_bit s i) = allocatable_bits s
      \<and> allocator_frame (rollback_bit s i) = allocator_frame s"
      using inv
      by (auto simp: rollback_bit_eq [OF inv i] allocated_bits_def allocatable_bits_def
          allocator_inv_def allocator_frame_def TestBit_ClearBit)
  }
next
  fix s t :: AllocatorState
  assume f: "allocator_frame s = allocator_frame t" and al: "allocated_bits s = allocated_bits t"
  have v: "valid_bits s = valid_bits t" "length (bitmap_of s) = length (bitmap_of t)"
    using f by (simp_all add: allocator_frame_def)
  define T where "T u = {i. unat (valid_bits u) \<le> i \<and> i < length (bitmap_of u) * 8 \<and> TestBit (bitmap_of u) i}"
    for u :: AllocatorState
  have T: "T s = T t" using f unfolding allocator_frame_def prod.inject T_def by (elim conjE)
  have "TestBit (bitmap_of s) i = TestBit (bitmap_of t) i" if i: "i < length (bitmap_of s) * 8" for i
  proof (cases "i < unat (valid_bits s)")
    case True
    have "i \<in> allocated_bits s \<longleftrightarrow> i \<in> allocated_bits t" using al by simp
    then show ?thesis using True v by (simp add: allocated_bits_def)
  next
    case False
    have "i \<in> T s \<longleftrightarrow> i \<in> T t" using T by simp
    then show ?thesis using False i v by (simp add: T_def)
  qed
  then have "bitmap_of s = bitmap_of t"
    using f by (intro bitmap_eqI) (auto simp: allocator_frame_def)
  then show "s = t" using f by (simp add: allocator_frame_def)
qed

section \<open>Validation\<close>

lemma AllocatorValidate_iff:
  "AllocatorValidate s = Inr () \<longleftrightarrow>
    0 < unat (valid_bits s) \<and> allocator_inv s
    \<and> (\<forall>i < unat (first_allocatable_bit s). TestBit (bitmap_of s) i)
    \<and> (\<forall>i. unat (valid_bits s) \<le> i \<longrightarrow> i < length (bitmap_of s) * 8 \<longrightarrow> TestBit (bitmap_of s) (i mod 2 ^ 32))"
  by (auto simp: AllocatorValidate_def allocator_inv_def Let_def list_all_iff not_less unat_gt_0)

lemma Reserve_empty:
  assumes "allocator_inv s"
  shows "Reserve s empty_reservation = (case reserve_bit s of
     None \<Rightarrow> Inl ENOSPC | Some (s', i) \<Rightarrow> Inr (s', \<lparr>active = True, reserved_bit = of_nat i\<rparr>))"
  using assms
  by (simp add: reserve_bit_eq Reserve_def empty_reservation_def allocator_inv_def not_less split: option.split)

lemma unat_allocatable:
  "i \<in> allocatable_bits s \<Longrightarrow> unat (of_nat i :: u32) = i"
  using u32_bound [of "valid_bits s"] by (auto simp: allocatable_bits_def unat_of_nat)

section \<open>Properties\<close>

definition sample_allocator :: AllocatorState where
  "sample_allocator = \<lparr>bitmap_of = [0x0B, 0xF0], valid_bits = 12, first_allocatable_bit = 2\<rparr>"

lemma sample_allocator_valid: "AllocatorValidate sample_allocator = Inr ()"
  by (simp add: AllocatorValidate_def sample_allocator_def TestBit_def upt_conv_Cons)

text \<open>
  C31: on a validated bitmap a reservation takes the lowest free allocatable bit and
  sets exactly that bit, the bitmap stays valid, and the only failure is ENOSPC when
  every allocatable bit is taken.
\<close>

theorem Reserve_first_fit:
  assumes "AllocatorValidate s = Inr ()"
  shows "case Reserve s empty_reservation of
      Inl e \<Rightarrow> e = ENOSPC \<and> allocatable_bits s \<subseteq> allocated_bits s
    | Inr (s', r) \<Rightarrow> active r \<and> unat (reserved_bit r) \<in> allocatable_bits s - allocated_bits s
        \<and> (\<forall>j \<in> allocatable_bits s. j < unat (reserved_bit r) \<longrightarrow> j \<in> allocated_bits s)
        \<and> (\<forall>j. TestBit (bitmap_of s') j \<longleftrightarrow> j = unat (reserved_bit r) \<or> TestBit (bitmap_of s) j)
        \<and> AllocatorValidate s' = Inr ()"
proof -
  have inv: "allocator_inv s" using assms by (simp add: AllocatorValidate_iff)
  show ?thesis
  proof (cases "reserve_bit s")
    case None
    with bitmap.reserve_None [OF inv] show ?thesis by (simp add: Reserve_empty [OF inv])
  next
    case (Some p)
    obtain s' i where p: "p = (s', i)" by (cases p)
    have r: "s' = s\<lparr>bitmap_of := SetBit (bitmap_of s) i\<rparr>" "i \<in> allocatable_bits s" "i \<notin> allocated_bits s"
      "\<forall>j \<in> allocatable_bits s. j < i \<longrightarrow> j \<in> allocated_bits s"
      using Some p reserve_bit_Some [OF inv] by auto
    have i: "i < length (bitmap_of s) * 8"
      using r(2) inv by (auto simp: allocatable_bits_def allocator_inv_def)
    have "AllocatorValidate s' = Inr ()"
      using assms i by (auto simp: r(1) AllocatorValidate_iff TestBit_SetBit allocator_inv_def)
    then show ?thesis
      using Some p r i by (simp add: Reserve_empty [OF inv] unat_allocatable TestBit_SetBit)
  qed
qed

theorem Reserve_first_fit_witness:
  "\<exists>s' r. Reserve sample_allocator empty_reservation = Inr (s', r) \<and> reserved_bit r = 2
     \<and> AllocatorValidate s' = Inr ()"
proof -
  have "Reserve sample_allocator empty_reservation
      = Inr (sample_allocator\<lparr>bitmap_of := [0x0F, 0xF0]\<rparr>, \<lparr>active = True, reserved_bit = 2\<rparr>)"
    by code_simp
  with Reserve_first_fit [OF sample_allocator_valid] show ?thesis by simp
qed

text \<open>
  C32: reservations taken one after the other are distinct, were all free before, and
  dropping them in any order gives back exactly the bitmap from before the first one.
\<close>

theorem reservations_roll_back:
  assumes "allocator_inv s" "reserve_many reserve_bit n s = Some (s', is)" "set js = set is"
  shows "length is = n \<and> distinct is \<and> set is \<inter> allocated_bits s = {}
    \<and> allocated_bits s' = allocated_bits s \<union> set is \<and> foldl rollback_bit s' js = s"
  using bitmap.reserve_many_sound [OF assms(1,2)] bitmap.reserve_many_rollback [OF assms] by blast

theorem reservations_roll_back_witness:
  "\<exists>s'. reserve_many reserve_bit 3 sample_allocator = Some (s', [2, 4, 5])
     \<and> foldl rollback_bit s' [4, 5, 2] = sample_allocator"
proof -
  have inv: "allocator_inv sample_allocator" by code_simp
  have r: "reserve_many reserve_bit 3 sample_allocator
      = Some (sample_allocator\<lparr>bitmap_of := [0x3F, 0xF0]\<rparr>, [2, 4, 5])" by code_simp
  have "foldl rollback_bit (sample_allocator\<lparr>bitmap_of := [0x3F, 0xF0]\<rparr>) [4, 5, 2] = sample_allocator"
    using reservations_roll_back [OF inv r, of "[4, 5, 2]"] by auto
  with r show ?thesis by blast
qed

text \<open>
  C33: exactly as many reservations succeed in a row as there are free allocatable bits.  They
  return distinct bits that were free, and set exactly these.
\<close>

theorem reservations_complete:
  assumes "allocator_inv s"
  shows "(\<exists>s' is. reserve_many reserve_bit n s = Some (s', is)) = (n \<le> card (allocatable_bits s - allocated_bits s))
    \<and> (\<forall>s' is. reserve_many reserve_bit n s = Some (s', is) \<longrightarrow> length is = n \<and> distinct is
      \<and> set is \<subseteq> allocatable_bits s - allocated_bits s \<and> allocated_bits s' = allocated_bits s \<union> set is)"
proof -
  have fin: "finite (allocatable_bits s)" by (simp add: allocatable_bits_def)
  have all: "length is = n \<and> distinct is \<and> set is \<subseteq> allocatable_bits s - allocated_bits s
      \<and> allocated_bits s' = allocated_bits s \<union> set is" if "reserve_many reserve_bit n s = Some (s', is)" for s' "is"
    using bitmap.reserve_many_sound [OF assms that] by blast
  have "n \<le> card (allocatable_bits s - allocated_bits s)" if "reserve_many reserve_bit n s = Some (s', is)" for s' "is"
    using all [OF that] card_mono [of "allocatable_bits s - allocated_bits s" "set is"] fin distinct_card [of "is"] by auto
  then show ?thesis using all bitmap.reserve_many_complete [OF assms fin] by blast
qed

theorem reservations_complete_witness:
  "\<exists>s' is. reserve_many reserve_bit 1 sample_allocator = Some (s', is) \<and> distinct is \<and> length is = 1
    \<and> allocated_bits s' = allocated_bits sample_allocator \<union> set is"
proof -
  have inv: "allocator_inv sample_allocator" by code_simp
  let ?F = "allocatable_bits sample_allocator - allocated_bits sample_allocator"
  have "2 \<in> ?F" by (simp add: allocatable_bits_def allocated_bits_def sample_allocator_def TestBit_def)
  moreover have "finite ?F" by (simp add: allocatable_bits_def)
  ultimately have "1 \<le> card ?F" by (simp add: Suc_le_eq card_gt_0_iff) blast
  then show ?thesis using reservations_complete [OF inv, of 1] by blast
qed

text \<open>
  C34: releasing a bit succeeds exactly for an allocated bit of the allocatable range, clears
  only that bit and keeps the bitmap valid.  A bit outside the range is refused with EINVAL, a
  free one with EUCLEAN, and so is a second release of the same bit.
\<close>

theorem ReleaseAllocated_once:
  assumes "AllocatorValidate s = Inr ()" "length (bitmap_of s) * 8 \<le> 2 ^ 32"
  shows "if unat i \<notin> allocatable_bits s then ReleaseAllocated s i = Inl EINVAL
    else if \<not> IsAllocated s i then ReleaseAllocated s i = Inl EUCLEAN
    else \<exists>s'. ReleaseAllocated s i = Inr s' \<and> allocated_bits s' = allocated_bits s - {unat i} \<and> \<not> IsAllocated s' i
      \<and> AllocatorValidate s' = Inr () \<and> ReleaseAllocated s' i = Inl EUCLEAN"
proof -
  have v: "0 < unat (valid_bits s)" "allocator_inv s"
    "\<And>j. j < unat (first_allocatable_bit s) \<Longrightarrow> TestBit (bitmap_of s) j"
    "\<And>j. unat (valid_bits s) \<le> j \<Longrightarrow> j < length (bitmap_of s) * 8 \<Longrightarrow> TestBit (bitmap_of s) j"
    using assms unfolding AllocatorValidate_iff by auto
  have inside: "unat i \<in> allocatable_bits s \<longleftrightarrow> first_allocatable_bit s \<le> i \<and> i < valid_bits s"
    by (auto simp: allocatable_bits_def word_le_nat_alt word_less_nat_alt)
  show ?thesis
  proof (cases "unat i \<in> allocatable_bits s \<and> IsAllocated s i")
    case False
    then show ?thesis using v(2) by (auto simp: inside ReleaseAllocated_def IsAllocated_def allocator_inv_def not_less not_le)
  next
    case True
    then have i: "first_allocatable_bit s \<le> i" "i < valid_bits s" "TestBit (bitmap_of s) (unat i)"
      using inside by (simp_all add: IsAllocated_def)
    then have n: "unat (first_allocatable_bit s) \<le> unat i" "unat i < unat (valid_bits s)"
      by (simp_all add: word_le_nat_alt word_less_nat_alt)
    have il: "unat i < length (bitmap_of s) * 8" using n(2) v(2) by (simp add: allocator_inv_def)
    define s' where "s' = s\<lparr>bitmap_of := ClearBit (bitmap_of s) (unat i)\<rparr>"
    have "ReleaseAllocated s i = Inr s'" "ReleaseAllocated s' i = Inl EUCLEAN"
      using v(2) i il by (simp_all add: ReleaseAllocated_def s'_def TestBit_ClearBit allocator_inv_def not_less not_le)
    moreover have "AllocatorValidate s' = Inr ()"
      unfolding AllocatorValidate_iff using v n il assms(2) by (auto simp: s'_def TestBit_ClearBit allocator_inv_def)
    moreover have "allocated_bits s' = allocated_bits s - {unat i}" "\<not> IsAllocated s' i"
      using il by (auto simp: s'_def allocated_bits_def IsAllocated_def TestBit_ClearBit)
    ultimately show ?thesis using True by auto
  qed
qed

theorem ReleaseAllocated_once_witness:
  "\<exists>s'. ReleaseAllocated sample_allocator 3 = Inr s' \<and> ReleaseAllocated s' 3 = Inl EUCLEAN
    \<and> ReleaseAllocated sample_allocator 2 = Inl EUCLEAN \<and> ReleaseAllocated sample_allocator 1 = Inl EINVAL"
proof -
  have l: "length (bitmap_of sample_allocator) * 8 \<le> 2 ^ 32" by (simp add: sample_allocator_def)
  have "unat (3 :: u32) \<in> allocatable_bits sample_allocator" "unat (2 :: u32) \<in> allocatable_bits sample_allocator"
    "unat (1 :: u32) \<notin> allocatable_bits sample_allocator" by (simp_all add: allocatable_bits_def sample_allocator_def)
  moreover have "IsAllocated sample_allocator 3" "\<not> IsAllocated sample_allocator 2" by code_simp+
  ultimately show ?thesis
    using ReleaseAllocated_once [OF sample_allocator_valid l, of 1] ReleaseAllocated_once [OF sample_allocator_valid l, of 2]
      ReleaseAllocated_once [OF sample_allocator_valid l, of 3] by auto
qed

end
