(* ===== verification/RingReservation.thy ===== *)
theory RingReservation
  imports OnDiskJournal
begin

text \<open>
  The planner of \<^verbatim>\<open>src/src/journal/ring_reservation.{h,cpp}\<close>: it assigns ring
  positions to the descriptor, the payloads and the COMMIT of one transaction and
  computes the control that exposes them.  The lemmas show that the positions are
  distinct positions of the ring, that the plan's control is always valid, and
  exactly when a reservation succeeds.
\<close>

record RingReservationPlan =
  plan_transaction_id :: u64
  plan_descriptor_ring_index :: u32
  payload_ring_indices :: "u32 list"
  commit_ring_index :: u32
  exposed_control :: JournalControl

definition Advance :: "u32 \<Rightarrow> nat \<Rightarrow> u32 \<Rightarrow> u32" where
  "Advance start distance ring = ucast ((ucast start + of_nat distance :: u64) mod ucast ring)"

definition PlanRingReservation :: "JournalControl \<Rightarrow> nat \<Rightarrow> errno + RingReservationPlan" where
  "PlanRingReservation current metadata_payload_count =
    (case EncodeControl current of
       Inl _ \<Rightarrow> Inl EINVAL
     | Inr _ \<Rightarrow>
       if used_blocks current \<noteq> 0 then Inl EBUSY
       else if metadata_payload_count = 0 then Inl EINVAL
       else if metadata_payload_count > kMaxDescriptorEntries then Inl E2BIG
       else
         let transaction_blocks = metadata_payload_count + 2
         in
         if transaction_blocks > unat (ring_blocks current) then Inl ENOSPC
         else if next_transaction_id current = 0xFFFFFFFFFFFFFFFF then Inl EOVERFLOW
         else
           let candidate = \<lparr>plan_transaction_id = next_transaction_id current,
                 plan_descriptor_ring_index = head current,
                 payload_ring_indices = map (\<lambda>index. Advance (head current) (index + 1) (ring_blocks current))
                   [0..<metadata_payload_count],
                 commit_ring_index = Advance (head current) (metadata_payload_count + 1) (ring_blocks current),
                 exposed_control = current\<lparr>control_generation := control_generation current + 1,
                   head := Advance (head current) transaction_blocks (ring_blocks current),
                   used_blocks := of_nat transaction_blocks,
                   next_transaction_id := next_transaction_id current + 1,
                   control_checksum := 0\<rparr>\<rparr>
           in
           (case EncodeControl (exposed_control candidate) of
              Inl _ \<Rightarrow> Inl EINVAL
            | Inr _ \<Rightarrow> Inr candidate))"

text \<open>The ring positions of a plan in the order in which the transaction uses them.\<close>

definition plan_positions :: "RingReservationPlan \<Rightarrow> u32 list" where
  "plan_positions p = plan_descriptor_ring_index p # payload_ring_indices p @ [commit_ring_index p]"

section \<open>Lemmas\<close>

lemma EncodeControl_ok_iff: "(\<exists>x. EncodeControl v = Inr x) \<longleftrightarrow> ValidateControlFields v = Inr ()"
  by (cases "ValidateControlFields v") (auto simp: EncodeControl_def Let_def)

lemma EncodeControl_cases:
  "(case EncodeControl v of Inl e \<Rightarrow> f e | Inr x \<Rightarrow> r)
    = (if ValidateControlFields v = Inr () then r else f (projl (EncodeControl v)))"
  by (cases "ValidateControlFields v") (simp_all add: EncodeControl_def Let_def)

lemma unat_Advance:
  assumes "0 < unat r" "n \<le> 65536"
  shows "unat (Advance s n r) = (unat s + n) mod unat r"
proof -
  have "unat (ucast s + of_nat n :: u64) = unat s + n"
    using assms(2) u32_bound [of s] by (simp add: unat_word_ariths unat_of_nat)
  then have "unat ((ucast s + of_nat n :: u64) mod ucast r) = (unat s + n) mod unat r"
    by (simp add: unat_mod)
  moreover have "(unat s + n) mod unat r < 2 ^ 32"
    using mod_less_divisor [OF assms(1), of "unat s + n"] u32_bound [of r] by simp
  ultimately show ?thesis by (simp add: Advance_def unat_ucast_u32)
qed

lemma mod_shift_inject:
  assumes "(h + i) mod r = (h + j) mod r" "i < r" "j < (r :: nat)"
  shows "i = j"
proof -
  have "i = j" if "(h + j) mod r = (h + i) mod r" "i \<le> j" "j < r" for i j
  proof -
    have "r dvd (h + j) - (h + i)" using that mod_eq_dvd_iff_nat [of "h + i" "h + j" r] by simp
    then have "r dvd j - i" by simp
    then show ?thesis using that by (auto dest: dvd_imp_le)
  qed
  from this [of j i] this [of i j] show ?thesis using assms by (cases "i \<le> j") auto
qed

lemma ValidateControlFields_nat:
  "ValidateControlFields v = Inr () \<longleftrightarrow>
    3 \<le> unat (ring_blocks v) \<and> unat (head v) < unat (ring_blocks v)
    \<and> unat (tail v) < unat (ring_blocks v) \<and> unat (used_blocks v) \<le> unat (ring_blocks v)
    \<and> (used_blocks v = 0 \<or> 3 \<le> unat (used_blocks v)) \<and> next_transaction_id v \<noteq> 0
    \<and> unat (head v) = (unat (tail v) + unat (used_blocks v)) mod unat (ring_blocks v)
    \<and> state_flags v = 0 \<and> control_feature_compat v = 0 \<and> control_feature_ro_compat v = 0
    \<and> control_feature_incompat v = 0"
proof -
  let ?m = "(ucast (tail v) + ucast (used_blocks v) :: u64) mod ucast (ring_blocks v)"
  have h: "unat (ucast ?m :: u32) = (unat (tail v) + unat (used_blocks v)) mod unat (ring_blocks v)"
    if "0 < unat (ring_blocks v)"
  proof -
    have "unat ?m = (unat (tail v) + unat (used_blocks v)) mod unat (ring_blocks v)"
      by (simp add: unat_mod)
    moreover have "\<dots> < 2 ^ 32"
      using mod_less_divisor [OF that, of "unat (tail v) + unat (used_blocks v)"] u32_bound [of "ring_blocks v"]
      by simp
    ultimately show ?thesis by (simp add: unat_ucast_u32)
  qed
  show ?thesis
  proof (cases "0 < unat (ring_blocks v)")
    case True
    define m where "m = (unat (tail v) + unat (used_blocks v)) mod unat (ring_blocks v)"
    have "m < unat (ring_blocks v)" unfolding m_def using True by (rule mod_less_divisor)
    then show ?thesis unfolding m_def [symmetric]
      by (auto simp: ValidateControlFields_def Let_def word_less_nat_alt word_le_nat_alt
          word_unat_eq_iff [of "head v"] h [OF True] m_def [symmetric] not_less)
  qed (simp add: ValidateControlFields_def word_less_nat_alt)
qed

lemma plan_positions_nth:
  assumes p: "PlanRingReservation current n = Inr p" and i: "i < n + 2"
  shows "unat (plan_positions p ! i) = (unat (head current) + i) mod unat (ring_blocks current)"
proof -
  have v: "ValidateControlFields current = Inr ()" and n: "n \<noteq> 0" "n \<le> 252"
    and pd: "plan_descriptor_ring_index p = head current"
      "payload_ring_indices p = map (\<lambda>index. Advance (head current) (index + 1) (ring_blocks current)) [0..<n]"
      "commit_ring_index p = Advance (head current) (n + 1) (ring_blocks current)"
    using p by (auto simp: PlanRingReservation_def EncodeControl_cases Let_def split: if_splits)
  have r: "unat (head current) < unat (ring_blocks current)"
    using v by (simp add: ValidateControlFields_nat)
  show ?thesis
  proof (cases i)
    case (Suc j)
    with i n r show ?thesis
      by (auto simp: plan_positions_def pd nth_append unat_Advance less_Suc_eq)
  qed (use r in \<open>simp add: plan_positions_def pd\<close>)
qed

lemma exposed_control_valid:
  assumes "ValidateControlFields c = Inr ()" "used_blocks c = 0" "0 < n" "n \<le> 252"
    and "n + 2 \<le> unat (ring_blocks c)" "next_transaction_id c \<noteq> 0xFFFFFFFFFFFFFFFF"
  shows "ValidateControlFields (c\<lparr>control_generation := g,
      head := Advance (head c) (n + 2) (ring_blocks c), used_blocks := of_nat (n + 2),
      next_transaction_id := next_transaction_id c + 1, control_checksum := k\<rparr>) = Inr ()"
proof -
  have "next_transaction_id c + 1 \<noteq> 0"
    using assms(6) by (auto simp flip: eq_neg_iff_add_eq_0)
  moreover have "unat (of_nat (n + 2) :: u32) = n + 2"
    using assms(4) by (intro unat_of_nat_small) simp
  ultimately show ?thesis using assms
    by (simp add: ValidateControlFields_nat unat_Advance del: of_nat_add)
qed

lemma PlanRingReservation_Inr:
  "PlanRingReservation c n = Inr p \<longleftrightarrow>
    ValidateControlFields c = Inr () \<and> used_blocks c = 0 \<and> 0 < n \<and> n \<le> 252
    \<and> n + 2 \<le> unat (ring_blocks c) \<and> next_transaction_id c \<noteq> 0xFFFFFFFFFFFFFFFF
    \<and> p = \<lparr>plan_transaction_id = next_transaction_id c, plan_descriptor_ring_index = head c,
         payload_ring_indices = map (\<lambda>i. Advance (head c) (i + 1) (ring_blocks c)) [0..<n],
         commit_ring_index = Advance (head c) (n + 1) (ring_blocks c),
         exposed_control = c\<lparr>control_generation := control_generation c + 1,
           head := Advance (head c) (n + 2) (ring_blocks c), used_blocks := of_nat (n + 2),
           next_transaction_id := next_transaction_id c + 1, control_checksum := 0\<rparr>\<rparr>"
  using exposed_control_valid [of c n]
  by (auto simp: PlanRingReservation_def EncodeControl_cases Let_def split: if_splits)

lemma plan_positions_distinct:
  assumes "PlanRingReservation current n = Inr p"
  shows "distinct (plan_positions p)"
proof -
  have p: "n + 2 \<le> unat (ring_blocks current)" "length (plan_positions p) = n + 2"
    using assms by (auto simp: PlanRingReservation_Inr plan_positions_def)
  note nth = plan_positions_nth [OF assms]
  show ?thesis
    unfolding distinct_conv_nth p(2)
  proof (intro allI impI notI)
    fix i j assume ij: "i < n + 2" "j < n + 2" "i \<noteq> j" and eq: "plan_positions p ! i = plan_positions p ! j"
    have "(unat (head current) + i) mod unat (ring_blocks current)
        = (unat (head current) + j) mod unat (ring_blocks current)"
      using nth [OF ij(1)] nth [OF ij(2)] eq by simp
    then have "i = j" by (rule mod_shift_inject) (use ij p in auto)
    with ij show False by simp
  qed
qed

section \<open>Properties\<close>

text \<open>
  C28: the positions of a successful reservation are distinct positions of the ring
  that follow the head one by one with wrap-around: first the descriptor, then the
  payloads, last the COMMIT.
\<close>

theorem reservation_positions:
  assumes "PlanRingReservation current n = Inr p"
  shows "length (plan_positions p) = n + 2 \<and> distinct (plan_positions p)
    \<and> (\<forall>i < n + 2. unat (plan_positions p ! i) = (unat (head current) + i) mod unat (ring_blocks current)
         \<and> plan_positions p ! i < ring_blocks current)"
proof -
  have p: "n + 2 \<le> unat (ring_blocks current)" "length (plan_positions p) = n + 2"
    using assms by (auto simp: PlanRingReservation_Inr plan_positions_def)
  note nth = plan_positions_nth [OF assms]
  have "plan_positions p ! i < ring_blocks current" if "i < n + 2" for i
    using nth [OF that] p(1) by (simp add: word_less_nat_alt)
  then show ?thesis using p nth plan_positions_distinct [OF assms] by blast
qed

theorem reservation_positions_witness:
  "\<exists>p. PlanRingReservation sample_control 2 = Inr p \<and> distinct (plan_positions p)
     \<and> map unat (plan_positions p) = [6, 7, 0, 1]"
proof -
  have "\<exists>p. PlanRingReservation sample_control 2 = Inr p"
    by (simp add: PlanRingReservation_Inr sample_control_valid) (simp add: sample_control_def)
  then obtain p where p: "PlanRingReservation sample_control 2 = Inr p" ..
  note r = reservation_positions [OF p]
  have "map unat (plan_positions p) = map (\<lambda>i. (6 + i) mod 8) [0..<4]"
    using r by (intro nth_equalityI) (auto simp: sample_control_def)
  also have "\<dots> = [6, 7, 0, 1]" by (simp add: upt_conv_Cons)
  finally have "map unat (plan_positions p) = [6, 7, 0, 1]" .
  with p conjunct1 [OF conjunct2 [OF r]] show ?thesis by (intro exI [of _ p] conjI)
qed

text \<open>
  C29: a reservation succeeds exactly when the control is valid and clean, there are
  one to 252 payloads, the whole transaction fits in the ring and the transaction
  identifiers are not exhausted: the second validation of the source never fails.
\<close>

theorem reservation_succeeds_iff:
  "(\<exists>p. PlanRingReservation c n = Inr p) \<longleftrightarrow>
    ValidateControlFields c = Inr () \<and> used_blocks c = 0 \<and> 0 < n \<and> n \<le> kMaxDescriptorEntries
    \<and> n + 2 \<le> unat (ring_blocks c) \<and> next_transaction_id c \<noteq> 0xFFFFFFFFFFFFFFFF"
  by (simp add: PlanRingReservation_Inr)

text \<open>
  C30: the control that a reservation plans to expose is valid, is one generation
  newer than the current one and is told from it by selection, covers exactly the
  reserved blocks from the unchanged tail, and hands out a fresh transaction id.
\<close>

theorem reservation_exposes:
  assumes "PlanRingReservation c n = Inr p"
  shows "ValidateControlFields (exposed_control p) = Inr ()
    \<and> CompareGenerations (control_generation (exposed_control p)) (control_generation c) = kFirstNewer
    \<and> tail (exposed_control p) = plan_descriptor_ring_index p
    \<and> unat (used_blocks (exposed_control p)) = n + 2
    \<and> plan_transaction_id p = next_transaction_id c
    \<and> next_transaction_id c < next_transaction_id (exposed_control p)"
proof -
  have p: "ValidateControlFields c = Inr ()" "used_blocks c = 0" "0 < n" "n \<le> 252"
    "n + 2 \<le> unat (ring_blocks c)" "next_transaction_id c \<noteq> 0xFFFFFFFFFFFFFFFF"
    using assms by (auto simp: PlanRingReservation_Inr)
  have "unat (head c) = unat (tail c)" using p(1,2) by (simp add: ValidateControlFields_nat)
  then have ht: "tail c = head c" by (simp add: word_unat_eq_iff)
  have "next_transaction_id c < next_transaction_id c + 1"
    using p(6) unsigned_less [of "next_transaction_id c", where 'a = nat]
    by (simp add: word_less_nat_alt word_unat_eq_iff unat_word_ariths del: unsigned_less)
  moreover have "unat (of_nat (n + 2) :: u32) = n + 2"
    using p(4) by (intro unat_of_nat_small) simp
  ultimately show ?thesis
    using assms exposed_control_valid [OF p] ht
    by (simp add: PlanRingReservation_Inr CompareGenerations_successor del: of_nat_add)
qed

theorem reservation_exposes_witness:
  "\<exists>p. PlanRingReservation sample_control 2 = Inr p
     \<and> ValidateControlFields (exposed_control p) = Inr () \<and> unat (used_blocks (exposed_control p)) = 4"
proof -
  have "\<exists>p. PlanRingReservation sample_control 2 = Inr p"
    by (simp add: PlanRingReservation_Inr sample_control_valid) (simp add: sample_control_def)
  then obtain p where p: "PlanRingReservation sample_control 2 = Inr p" ..
  with reservation_exposes [OF p] show ?thesis by simp
qed

end
