(* ===== verification/BlockDevice.thy ===== *)
theory BlockDevice
  imports OnDiskFormat
begin

text \<open>
  The image file under the journal.  The first part models the transfer loops
  \<^verbatim>\<open>PreadAll\<close> and \<^verbatim>\<open>PwriteAll\<close> of \<^verbatim>\<open>src/src/journal/journal_control_store.cpp\<close>
  (and their copies in \<^verbatim>\<open>journal_recovery.cpp\<close>) against a list of kernel answers:
  they retry interrupted calls, continue after short transfers and stop at the first
  error, so that a completed write stored the whole buffer and a failed one a prefix
  of it.

  The second part is the block view of the image the other theories use.  A
  \<open>device\<close> has its current contents, its size, the history of the writes and of the
  successful \<^verbatim>\<open>fdatasync\<close> calls, and a script of the outcomes of the next calls, so
  that every pattern of I/O errors is covered.  After a crash each byte that was
  written since the last \<^verbatim>\<open>fdatasync\<close> may have its old or any of its new values.
\<close>

section \<open>Transfer loops\<close>

text \<open>An answer of the kernel: a transferred length or an error number.\<close>

datatype sys_result = SysRet nat | SysErr errno

text \<open>
  \<^term>\<open>PwriteAll answers input offset completed file\<close> is the loop with \<open>completed\<close>
  bytes done.  A positive answer \<open>n\<close> means that the first \<open>n\<close> bytes of the request
  are in the file.  With no answer left the loop is still waiting: \<^term>\<open>None\<close>.
\<close>

fun PwriteAll :: "sys_result list \<Rightarrow> bytes \<Rightarrow> nat \<Rightarrow> nat \<Rightarrow> bytes \<Rightarrow> ((errno + unit) \<times> bytes) option" where
  "PwriteAll answers input offset completed file =
    (if completed \<ge> length input then Some (Inr (), file)
     else case answers of
       [] \<Rightarrow> None
     | SysErr e # rest \<Rightarrow>
         if e = EINTR then PwriteAll rest input offset completed file else Some (Inl e, file)
     | SysRet n # rest \<Rightarrow>
         if n = 0 then Some (Inl EIO, file)
         else if n > length input - completed then Some (Inl EIO, file)
         else PwriteAll rest input offset (completed + n)
                (put_bytes (offset + completed) (take n (drop completed input)) file))"

text \<open>The read loop: a zero length answer is the unexpected end of the file.\<close>

fun PreadAll :: "sys_result list \<Rightarrow> bytes \<Rightarrow> nat \<Rightarrow> nat \<Rightarrow> nat \<Rightarrow> bytes \<Rightarrow> ((errno + unit) \<times> bytes) option" where
  "PreadAll answers file offset len completed output =
    (if completed \<ge> len then Some (Inr (), output)
     else case answers of
       [] \<Rightarrow> None
     | SysErr e # rest \<Rightarrow>
         if e = EINTR then PreadAll rest file offset len completed output else Some (Inl e, output)
     | SysRet n # rest \<Rightarrow>
         if n = 0 then Some (Inl EIO, output)
         else PreadAll rest file offset len (completed + n)
                (put_bytes completed (get_bytes (offset + completed) n file) output))"

declare PwriteAll.simps [simp del] PreadAll.simps [simp del]

section \<open>Block view\<close>

datatype dev_op = DWrite nat bytes | DSync

text \<open>A failing write has stored a prefix of the given length.\<close>

datatype io_outcome = IoOk | IoFail errno nat

record device =
  dev_blocks :: "nat \<Rightarrow> bytes"
  dev_size :: nat
  dev_rdwr :: bool
  dev_log :: "dev_op list"
  dev_script :: "io_outcome list"

definition next_outcome :: "device \<Rightarrow> io_outcome \<times> device" where
  "next_outcome dev = (case dev_script dev of
     [] \<Rightarrow> (IoOk, dev) | x # xs \<Rightarrow> (x, dev\<lparr>dev_script := xs\<rparr>))"

definition store_block :: "nat \<Rightarrow> bytes \<Rightarrow> device \<Rightarrow> device" where
  "store_block n content dev = dev\<lparr>dev_blocks := (dev_blocks dev)(n := content),
     dev_log := dev_log dev @ [DWrite n content]\<rparr>"

definition Fstat :: "device \<Rightarrow> (errno + nat) \<times> device" where
  "Fstat dev = (case next_outcome dev of
     (IoOk, dev') \<Rightarrow> (Inr (dev_size dev), dev') | (IoFail e _, dev') \<Rightarrow> (Inl e, dev'))"

definition Fcntl :: "device \<Rightarrow> (errno + bool) \<times> device" where
  "Fcntl dev = (case next_outcome dev of
     (IoOk, dev') \<Rightarrow> (Inr (dev_rdwr dev), dev') | (IoFail e _, dev') \<Rightarrow> (Inl e, dev'))"

definition PreadBlock :: "nat \<Rightarrow> device \<Rightarrow> (errno + bytes) \<times> device" where
  "PreadBlock n dev = (case next_outcome dev of
     (IoOk, dev') \<Rightarrow> (if (n + 1) * kBlockSize \<le> dev_size dev then Inr (dev_blocks dev n) else Inl EIO, dev')
   | (IoFail e _, dev') \<Rightarrow> (Inl e, dev'))"

definition PwriteBlock :: "nat \<Rightarrow> bytes \<Rightarrow> device \<Rightarrow> (errno + unit) \<times> device" where
  "PwriteBlock n input dev = (case next_outcome dev of
     (IoOk, dev') \<Rightarrow> (Inr (), store_block n input dev')
   | (IoFail e k, dev') \<Rightarrow> (Inl e, store_block n (put_bytes 0 (take k input) (dev_blocks dev n)) dev'))"

definition Fdatasync :: "device \<Rightarrow> (errno + unit) \<times> device" where
  "Fdatasync dev = (case next_outcome dev of
     (IoOk, dev') \<Rightarrow> (Inr (), dev'\<lparr>dev_log := dev_log dev' @ [DSync]\<rparr>)
   | (IoFail e _, dev') \<Rightarrow> (Inl e, dev'))"

fun PwriteBlocks :: "(nat \<times> bytes) list \<Rightarrow> device \<Rightarrow> (errno + unit) \<times> device" where
  "PwriteBlocks [] dev = (Inr (), dev)"
| "PwriteBlocks ((n, content) # rest) dev = (case PwriteBlock n content dev of
     (Inl e, dev') \<Rightarrow> (Inl e, dev')
   | (Inr _, dev') \<Rightarrow> PwriteBlocks rest dev')"

section \<open>Crashes\<close>

type_synonym disk = "nat \<Rightarrow> bytes"

text \<open>The durable contents and the writes that are not yet durable after a history.\<close>

fun apply_writes :: "(nat \<times> bytes) list \<Rightarrow> disk \<Rightarrow> disk" where
  "apply_writes [] d = d"
| "apply_writes ((n, b) # rest) d = apply_writes rest (d(n := b))"

fun run_log :: "dev_op list \<Rightarrow> disk \<times> (nat \<times> bytes) list \<Rightarrow> disk \<times> (nat \<times> bytes) list" where
  "run_log [] st = st"
| "run_log (DWrite n b # rest) (d, pending) = run_log rest (d, pending @ [(n, b)])"
| "run_log (DSync # rest) (d, pending) = run_log rest (apply_writes pending d, [])"

definition crash_image :: "disk \<Rightarrow> (nat \<times> bytes) list \<Rightarrow> disk \<Rightarrow> bool" where
  "crash_image d pending img \<longleftrightarrow> (\<forall>n. length (img n) = length (d n) \<and>
     (\<forall>i < length (d n). img n ! i = d n ! i \<or> (\<exists>b. (n, b) \<in> set pending \<and> img n ! i = b ! i)))"

definition crash_after :: "disk \<Rightarrow> dev_op list \<Rightarrow> disk \<Rightarrow> bool" where
  "crash_after d ops img = (case run_log ops (d, []) of (durable, pending) \<Rightarrow> crash_image durable pending img)"

text \<open>The effect of successful writes and syncs on a device.\<close>

definition wlog :: "(nat \<times> bytes) list \<Rightarrow> dev_op list" where
  "wlog ws = map (\<lambda>(n, b). DWrite n b) ws"

definition dev_write :: "(nat \<times> bytes) list \<Rightarrow> device \<Rightarrow> device" where
  "dev_write ws dev = dev\<lparr>dev_blocks := apply_writes ws (dev_blocks dev), dev_log := dev_log dev @ wlog ws\<rparr>"

definition dev_sync :: "device \<Rightarrow> device" where
  "dev_sync dev = dev\<lparr>dev_log := dev_log dev @ [DSync]\<rparr>"

section \<open>Transfer loop lemmas\<close>

lemma put_bytes_append:
  assumes "off + length xs + length ys \<le> length d"
  shows "put_bytes (off + length xs) ys (put_bytes off xs d) = put_bytes off (xs @ ys) d"
  using assms by (intro nth_equalityI) (auto simp: nth_put_bytes nth_append)

lemma take_drop_append: "take a xs @ take n (drop a xs) = take (a + n) xs"
  by (simp add: take_add)

lemma PwriteAll_step:
  "length input \<le> completed \<Longrightarrow> PwriteAll answers input offset completed img = Some (Inr (), img)"
  "completed < length input \<Longrightarrow> PwriteAll [] input offset completed img = None"
  "completed < length input \<Longrightarrow> PwriteAll (SysErr e # rest) input offset completed img =
     (if e = EINTR then PwriteAll rest input offset completed img else Some (Inl e, img))"
  "completed < length input \<Longrightarrow> PwriteAll (SysRet n # rest) input offset completed img =
     (if n = 0 \<or> n > length input - completed then Some (Inl EIO, img)
      else PwriteAll rest input offset (completed + n)
             (put_bytes (offset + completed) (take n (drop completed input)) img))"
  by (simp_all add: PwriteAll.simps [of "_ # _"] PwriteAll.simps [of "[]"] PwriteAll.simps [of answers])

lemma PwriteAll_result:
  assumes "PwriteAll answers input offset completed (put_bytes offset (take completed input) img) = Some (r, img')"
    and "completed \<le> length input" "offset + length input \<le> length img"
  shows "(case r of Inr _ \<Rightarrow> img' = put_bytes offset input img
    | Inl e \<Rightarrow> \<exists>k < length input. img' = put_bytes offset (take k input) img)"
  using assms
proof (induction answers arbitrary: completed)
  case Nil
  then show ?case by (cases "completed < length input") (auto simp: PwriteAll_step)
next
  case (Cons a rest)
  show ?case
  proof (cases "completed < length input")
    case True
    show ?thesis
    proof (cases a)
      case (SysErr e)
      with Cons True show ?thesis
        by (cases "e = EINTR") (auto simp: PwriteAll_step intro!: exI [of _ completed])
    next
      case (SysRet n)
      have "put_bytes (offset + completed) (take n (drop completed input))
          (put_bytes offset (take completed input) img) = put_bytes offset (take (completed + n) input) img"
        if "n \<le> length input - completed"
        using that Cons.prems(2,3) put_bytes_append [of offset "take completed input" "take n (drop completed input)" img]
        by (simp add: take_drop_append)
      with Cons True SysRet show ?thesis
        by (cases "n = 0 \<or> n > length input - completed")
          (auto simp: PwriteAll_step intro!: exI [of _ completed])
    qed
  qed (use Cons.prems in \<open>auto simp: PwriteAll_step\<close>)
qed

lemma PreadAll_step:
  "len \<le> completed \<Longrightarrow> PreadAll answers src offset len completed out = Some (Inr (), out)"
  "completed < len \<Longrightarrow> PreadAll [] src offset len completed out = None"
  "completed < len \<Longrightarrow> PreadAll (SysErr e # rest) src offset len completed out =
     (if e = EINTR then PreadAll rest src offset len completed out else Some (Inl e, out))"
  "completed < len \<Longrightarrow> PreadAll (SysRet n # rest) src offset len completed out =
     (if n = 0 then Some (Inl EIO, out)
      else PreadAll rest src offset len (completed + n)
             (put_bytes completed (get_bytes (offset + completed) n src) out))"
  by (simp_all add: PreadAll.simps [of "_ # _"] PreadAll.simps [of "[]"] PreadAll.simps [of answers])

text \<open>
  The kernel never returns more bytes than requested: the answers of a read respect
  the size of the request.
\<close>

fun answers_fit :: "nat \<Rightarrow> sys_result list \<Rightarrow> bool" where
  "answers_fit remaining [] = True"
| "answers_fit remaining (SysErr e # rest) = answers_fit remaining rest"
| "answers_fit remaining (SysRet n # rest) = (n \<le> remaining \<and> answers_fit (remaining - n) rest)"

lemma PreadAll_result:
  assumes "PreadAll answers src offset len completed out = Some (Inr (), out')"
    and "answers_fit (len - completed) answers" "completed \<le> len" "length out = len"
    and "offset + len \<le> length src" "take completed out = get_bytes offset completed src"
  shows "out' = get_bytes offset len src"
  using assms
proof (induction answers arbitrary: completed out)
  case Nil
  then show ?case by (cases "completed < len") (auto simp: PreadAll_step)
next
  case (Cons a rest)
  show ?case
  proof (cases "completed < len")
    case True
    show ?thesis
    proof (cases a)
      case (SysErr e)
      with Cons True show ?thesis by (cases "e = EINTR") (auto simp: PreadAll_step)
    next
      case (SysRet n)
      let ?out = "put_bytes completed (get_bytes (offset + completed) n src) out"
      have n: "n \<noteq> 0" "n \<le> len - completed" using Cons.prems SysRet True by (auto simp: PreadAll_step split: if_splits)
      have "take (completed + n) ?out = get_bytes offset (completed + n) src"
      proof (rule nth_equalityI)
        show "length (take (completed + n) ?out) = length (get_bytes offset (completed + n) src)"
          using n Cons.prems by simp
        fix i assume "i < length (take (completed + n) ?out)"
        then have i: "i < completed + n" "i < len" using n Cons.prems by auto
        show "take (completed + n) ?out ! i = get_bytes offset (completed + n) src ! i"
        proof (cases "i < completed")
          case True
          have "out ! i = take completed out ! i" using True by simp
          also have "\<dots> = src ! (offset + i)"
            using True Cons.prems by (simp add: nth_get_bytes)
          finally show ?thesis using True i n Cons.prems by (simp add: nth_put_bytes nth_get_bytes)
        qed (use i n Cons.prems in \<open>simp add: nth_put_bytes nth_get_bytes\<close>)
      qed
      moreover have "answers_fit (len - (completed + n)) rest"
        using Cons.prems(2) SysRet by (simp add: diff_diff_left)
      ultimately show ?thesis
        using Cons SysRet True n by (auto simp: PreadAll_step)
    qed
  qed (use Cons.prems in \<open>auto simp: PreadAll_step\<close>)
qed

section \<open>Devices without faults\<close>

lemma dev_write_sync_fields [simp]:
  "dev_script (dev_write ws dev) = dev_script dev" "dev_size (dev_write ws dev) = dev_size dev"
  "dev_rdwr (dev_write ws dev) = dev_rdwr dev" "dev_blocks (dev_write ws dev) = apply_writes ws (dev_blocks dev)"
  "dev_log (dev_write ws dev) = dev_log dev @ wlog ws"
  "dev_script (dev_sync dev) = dev_script dev" "dev_size (dev_sync dev) = dev_size dev"
  "dev_rdwr (dev_sync dev) = dev_rdwr dev" "dev_blocks (dev_sync dev) = dev_blocks dev"
  "dev_log (dev_sync dev) = dev_log dev @ [DSync]"
  by (simp_all add: dev_write_def dev_sync_def)

lemma wlog_append [simp]: "wlog (xs @ ys) = wlog xs @ wlog ys" "wlog [] = []"
  "wlog ((n, b) # xs) = DWrite n b # wlog xs"
  by (simp_all add: wlog_def)

lemma apply_writes_append: "apply_writes (xs @ ys) d = apply_writes ys (apply_writes xs d)"
proof (induction xs arbitrary: d)
  case (Cons x xs)
  then show ?case by (cases x) (simp only: append_Cons apply_writes.simps)
qed simp

lemma dev_write_append: "dev_write ys (dev_write xs dev) = dev_write (xs @ ys) dev"
  by (simp add: dev_write_def apply_writes_append)

lemma dev_write_Nil [simp]: "dev_write [] dev = dev"
  by (simp add: dev_write_def)

lemma quiet_io:
  assumes "dev_script dev = []"
  shows "next_outcome dev = (IoOk, dev)"
    "Fstat dev = (Inr (dev_size dev), dev)"
    "Fcntl dev = (Inr (dev_rdwr dev), dev)"
    "PreadBlock n dev = (if (n + 1) * kBlockSize \<le> dev_size dev then Inr (dev_blocks dev n) else Inl EIO, dev)"
    "PwriteBlock n b dev = (Inr (), dev_write [(n, b)] dev)"
    "Fdatasync dev = (Inr (), dev_sync dev)"
  using assms
  by (simp_all add: next_outcome_def Fstat_def Fcntl_def PreadBlock_def PwriteBlock_def Fdatasync_def
      store_block_def dev_write_def dev_sync_def)

lemma quiet_PwriteBlocks:
  "dev_script dev = [] \<Longrightarrow> PwriteBlocks ws dev = (Inr (), dev_write ws dev)"
  by (induction ws dev rule: PwriteBlocks.induct) (simp_all add: quiet_io dev_write_append)

lemma apply_writes_other: "n \<notin> fst ` set ws \<Longrightarrow> apply_writes ws d n = d n"
  by (induction ws d rule: apply_writes.induct) auto

lemma apply_writes_distinct:
  "distinct (map fst ws) \<Longrightarrow> (n, b) \<in> set ws \<Longrightarrow> apply_writes ws d n = b"
  by (induction ws d rule: apply_writes.induct) (auto simp: apply_writes_other rev_image_eqI)

end
