(* ===== verification/JournalStore.thy ===== *)
theory JournalStore
  imports RingReservation BlockDevice
begin

text \<open>
  The online half of \<^verbatim>\<open>JournalControlStore\<close>
  (\<^verbatim>\<open>src/src/journal/journal_control_store.{h,cpp}\<close>): loading the current control,
  writing ordered data and the unexposed journal body, exposing it through the other
  control copy, writing COMMIT, replaying the home blocks and the checkpoint.

  A \<^verbatim>\<open>std::map<uint32_t, Block>\<close> is a list of pairs in increasing key order, the order
  in which the source iterates over it.  Every operation returns its result and the
  store after it, also when it fails.  The durable stages an observer is told about
  are collected in \<open>stages\<close>.
\<close>

section \<open>Data\<close>

type_synonym block_map = "(u32 \<times> bytes) list"

definition keys :: "block_map \<Rightarrow> u32 set" where
  "keys m = set (map fst m)"

record DurableJournalBody =
  reservation :: RingReservationPlan
  body_entry_count :: u32
  body_descriptor_crc32c :: u32

datatype RecoveryState = kRecoveryEmpty | kUncommitted | kCommitted

datatype RecoveryAction = kNoAction | kDiscarded | kReplayedAndCheckpointed

datatype DurableStage =
  kOrderedData | kJournalBody | kControlExposure | kCommit | kHomeBlocks | kCheckpoint

record ValidatedTransaction =
  validated_transaction_id :: u64
  validated_descriptor_ring_index :: u32
  validated_commit_ring_index :: u32
  validated_after_images :: block_map

record JournalStore =
  store_device :: device
  store_superblock :: Superblock
  current :: JournalControl
  current_copy :: ControlCopy
  durable_body :: "DurableJournalBody option"
  metadata_after_images :: block_map
  validated_transaction :: "ValidatedTransaction option"
  commit_durable :: bool
  checkpointed :: bool
  reload_required :: bool
  stages :: "DurableStage list"

section \<open>Helpers\<close>

definition HasSameIdentity :: "JournalControl \<Rightarrow> JournalControl \<Rightarrow> bool" where
  "HasSameIdentity first second \<longleftrightarrow>
    ring_blocks first = ring_blocks second
    \<and> control_uuid first = control_uuid second
    \<and> state_flags first = state_flags second
    \<and> control_feature_compat first = control_feature_compat second
    \<and> control_feature_ro_compat first = control_feature_ro_compat second
    \<and> control_feature_incompat first = control_feature_incompat second"

definition SameControlState :: "JournalControl \<Rightarrow> JournalControl \<Rightarrow> bool" where
  "SameControlState first second \<longleftrightarrow>
    HasSameIdentity first second
    \<and> control_uuid first = control_uuid second
    \<and> control_generation first = control_generation second
    \<and> head first = head second \<and> tail first = tail second
    \<and> used_blocks first = used_blocks second
    \<and> next_transaction_id first = next_transaction_id second"

definition SameReservation :: "RingReservationPlan \<Rightarrow> RingReservationPlan \<Rightarrow> bool" where
  "SameReservation first second \<longleftrightarrow>
    plan_transaction_id first = plan_transaction_id second
    \<and> plan_descriptor_ring_index first = plan_descriptor_ring_index second
    \<and> payload_ring_indices first = payload_ring_indices second
    \<and> commit_ring_index first = commit_ring_index second
    \<and> SameControlState (exposed_control first) (exposed_control second)"

definition BlockIsInRegion :: "u32 \<Rightarrow> Region \<Rightarrow> bool" where
  "BlockIsInRegion block region \<longleftrightarrow> block \<ge> start_block region
    \<and> (ucast block :: u64) < ucast (start_block region) + ucast (block_count region)"

definition IsValidMetadataTarget :: "Superblock \<Rightarrow> u32 \<Rightarrow> bool" where
  "IsValidMetadataTarget sb block \<longleftrightarrow> block \<noteq> 0 \<and> block < total_blocks sb
    \<and> \<not> BlockIsInRegion block (journal sb)"

text \<open>The physical block of a ring position; the byte offset of the source is 4096 times it.\<close>

definition RingOffset :: "Superblock \<Rightarrow> u32 \<Rightarrow> u64 option" where
  "RingOffset sb ring_index =
    (let ring_blks = block_count (journal sb) - kJournalControlBlockCount;
         physical_block = (ucast (start_block (journal sb)) + 2 + ucast ring_index :: u64);
         journal_end = ucast (start_block (journal sb)) + ucast (block_count (journal sb))
     in if ring_index \<ge> ring_blks then None
        else if physical_block \<ge> journal_end \<or> physical_block \<ge> ucast (total_blocks sb) then None
        else Some physical_block)"

section \<open>Opening\<close>

definition LoadControlStateFromFd ::
  "device \<Rightarrow> (errno + Superblock \<times> JournalControl \<times> ControlCopy) \<times> device" where
  "LoadControlStateFromFd dev =
    (case Fstat dev of
       (Inl e, dev) \<Rightarrow> (Inl e, dev)
     | (Inr st_size, dev) \<Rightarrow>
       if st_size < kBlockSize \<or> st_size mod kBlockSize \<noteq> 0 then (Inl EUCLEAN, dev)
       else case PreadBlock 0 dev of
         (Inl e, dev) \<Rightarrow> (Inl e, dev)
       | (Inr superblock_bytes, dev) \<Rightarrow>
         (case DecodeSuperblock superblock_bytes of
            Inl _ \<Rightarrow> (Inl EUCLEAN, dev)
          | Inr sb \<Rightarrow>
            if feature_incompat sb AND NOT kSupportedFeatureIncompat \<noteq> 0 then (Inl EOPNOTSUPP, dev)
            else if unat (total_blocks sb) * kBlockSize \<noteq> st_size then (Inl EUCLEAN, dev)
            else case PreadBlock (unat (start_block (journal sb))) dev of
              (Inl e, dev) \<Rightarrow> (Inl e, dev)
            | (Inr control_a, dev) \<Rightarrow>
              (case PreadBlock (unat (start_block (journal sb)) + 1) dev of
                 (Inl e, dev) \<Rightarrow> (Inl e, dev)
               | (Inr control_b, dev) \<Rightarrow>
                 (case SelectControl control_a control_b (filesystem_uuid sb)
                     (block_count (journal sb) - kJournalControlBlockCount) of
                    Inl _ \<Rightarrow> (Inl EUCLEAN, dev)
                  | Inr (cur, copy) \<Rightarrow> (Inr (sb, cur, copy), dev)))))"

definition MakeStore :: "device \<Rightarrow> Superblock \<Rightarrow> JournalControl \<Rightarrow> ControlCopy \<Rightarrow> JournalStore" where
  "MakeStore dev sb cur copy = \<lparr>store_device = dev, store_superblock = sb, current = cur,
     current_copy = copy, durable_body = None, metadata_after_images = [],
     validated_transaction = None, commit_durable = False, checkpointed = False,
     reload_required = False, stages = []\<rparr>"

text \<open>
  \<^verbatim>\<open>open\<close> and \<^verbatim>\<open>flock\<close> are system calls: their answers are arguments.  A lock that is
  held elsewhere is EAGAIN.
\<close>

definition StoreOpen ::
  "string \<Rightarrow> (string \<Rightarrow> errno + device) \<Rightarrow> (device \<Rightarrow> errno option) \<Rightarrow> errno + JournalStore" where
  "StoreOpen image_path open_call flock_call =
    (if image_path = [] then Inl EINVAL
     else case open_call image_path of
       Inl e \<Rightarrow> Inl e
     | Inr dev \<Rightarrow>
       (case flock_call dev of
          Some e \<Rightarrow> Inl (if e = EAGAIN then EBUSY else e)
        | None \<Rightarrow>
          (case LoadControlStateFromFd dev of
             (Inl e, _) \<Rightarrow> Inl e
           | (Inr (sb, cur, copy), dev') \<Rightarrow> Inr (MakeStore dev' sb cur copy))))"

definition AdoptLockedFd :: "device \<Rightarrow> (errno + JournalStore) \<times> device" where
  "AdoptLockedFd dev =
    (case Fcntl dev of
       (Inl e, dev) \<Rightarrow> (Inl e, dev)
     | (Inr rdwr, dev) \<Rightarrow>
       if \<not> rdwr then (Inl EACCES, dev)
       else case LoadControlStateFromFd dev of
         (Inl e, dev) \<Rightarrow> (Inl e, dev)
       | (Inr (sb, cur, copy), dev) \<Rightarrow> (Inr (MakeStore dev sb cur copy), dev))"

section \<open>I/O steps of a store\<close>

text \<open>A failed write or sync leaves the store unusable until it is reopened.\<close>

definition StoreWrite :: "(nat \<times> bytes) list \<Rightarrow> JournalStore \<Rightarrow> (errno + unit) \<times> JournalStore" where
  "StoreWrite ws s = (case PwriteBlocks ws (store_device s) of
     (Inl e, dev) \<Rightarrow> (Inl e, s\<lparr>store_device := dev, reload_required := True\<rparr>)
   | (Inr _, dev) \<Rightarrow> (Inr (), s\<lparr>store_device := dev\<rparr>))"

definition StoreSync :: "JournalStore \<Rightarrow> (errno + unit) \<times> JournalStore" where
  "StoreSync s = (case Fdatasync (store_device s) of
     (Inl e, dev) \<Rightarrow> (Inl e, s\<lparr>store_device := dev, reload_required := True\<rparr>)
   | (Inr _, dev) \<Rightarrow> (Inr (), s\<lparr>store_device := dev\<rparr>))"

definition WriteAndSync :: "(nat \<times> bytes) list \<Rightarrow> JournalStore \<Rightarrow> (errno + unit) \<times> JournalStore" where
  "WriteAndSync ws s = (case StoreWrite ws s of
     (Inl e, s) \<Rightarrow> (Inl e, s) | (Inr _, s) \<Rightarrow> StoreSync s)"

definition Observe :: "DurableStage \<Rightarrow> JournalStore \<Rightarrow> JournalStore" where
  "Observe stage s = s\<lparr>stages := stages s @ [stage]\<rparr>"

section \<open>Control updates\<close>

definition other_copy :: "ControlCopy \<Rightarrow> ControlCopy" where
  "other_copy copy = (if copy = kA then kB else kA)"

definition control_block :: "Superblock \<Rightarrow> ControlCopy \<Rightarrow> nat" where
  "control_block sb copy = unat (start_block (journal sb) + (if copy = kA then 0 else 1))"

definition PersistNext :: "JournalControl \<Rightarrow> JournalStore \<Rightarrow> (errno + unit) \<times> JournalStore" where
  "PersistNext next s =
    (if reload_required s then (Inl EIO, s)
     else if \<not> HasSameIdentity (current s) next
        \<or> control_uuid next \<noteq> filesystem_uuid (store_superblock s)
        \<or> ring_blocks next \<noteq> block_count (journal (store_superblock s)) - kJournalControlBlockCount
       then (Inl EINVAL, s)
     else if control_generation next \<noteq> control_generation (current s) + 1 then (Inl EINVAL, s)
     else case EncodeControl next of
       Inl _ \<Rightarrow> (Inl EINVAL, s)
     | Inr (encoded, checksum) \<Rightarrow>
       let target_copy = other_copy (current_copy s);
           target = control_block (store_superblock s) target_copy
       in
       (case WriteAndSync [(target, encoded)] s of
          (Inl e, s) \<Rightarrow> (Inl e, s)
        | (Inr _, s) \<Rightarrow>
            (Inr (), s\<lparr>current := next\<lparr>control_checksum := checksum\<rparr>, current_copy := target_copy\<rparr>)))"

text \<open>The control that ends a transaction: the tail catches up with the head.\<close>

definition clean_control :: "JournalControl \<Rightarrow> JournalControl" where
  "clean_control c = c\<lparr>control_generation := control_generation c + 1, tail := head c,
     used_blocks := 0, control_checksum := 0\<rparr>"

section \<open>The journal body\<close>

definition make_descriptor :: "Superblock \<Rightarrow> RingReservationPlan \<Rightarrow> block_map \<Rightarrow> DescriptorRecord" where
  "make_descriptor sb plan images = \<lparr>descriptor_transaction_id = plan_transaction_id plan,
     descriptor_uuid = filesystem_uuid sb,
     descriptor_block_count = of_nat (length images + 2), descriptor_flags = 0,
     descriptor_checksum = 0,
     entries = map (\<lambda>(index, home, payload).
         \<lparr>home_block = home, payload_ring_index = payload_ring_indices plan ! index,
          payload_crc32c = Crc32c payload, entry_flags = 0\<rparr>)
       (zip [0..<length images] images)\<rparr>"

text \<open>
  The payload loop: a position outside the ring also makes the store unusable, because
  the descriptor is already written.
\<close>

fun WritePayloads ::
  "u32 list \<Rightarrow> block_map \<Rightarrow> JournalStore \<Rightarrow> (errno + unit) \<times> JournalStore" where
  "WritePayloads (index # indices) ((home, payload) # rest) s =
    (case RingOffset (store_superblock s) index of
       None \<Rightarrow> (Inl EINVAL, s\<lparr>reload_required := True\<rparr>)
     | Some n \<Rightarrow>
       (case StoreWrite [(unat n, payload)] s of
          (Inl e, s) \<Rightarrow> (Inl e, s)
        | (Inr _, s) \<Rightarrow> WritePayloads indices rest s))"
| "WritePayloads _ _ s = (Inr (), s)"

definition WriteUnexposedBody ::
  "RingReservationPlan \<Rightarrow> block_map \<Rightarrow> JournalStore
    \<Rightarrow> (errno + DurableJournalBody) \<times> JournalStore" where
  "WriteUnexposedBody plan images s =
    (if reload_required s then (Inl EIO, s)
     else if used_blocks (current s) \<noteq> 0 \<or> durable_body s \<noteq> None then (Inl EBUSY, s)
     else case PlanRingReservation (current s) (length images) of
       Inl e \<Rightarrow> (Inl e, s)
     | Inr expected \<Rightarrow>
       if \<not> SameReservation plan expected then (Inl ESTALE, s)
       else if \<not> list_all (\<lambda>(home, _). IsValidMetadataTarget (store_superblock s) home) images
         then (Inl EINVAL, s)
       else case EncodeDescriptor (make_descriptor (store_superblock s) plan images) of
         Inl _ \<Rightarrow> (Inl EINVAL, s)
       | Inr (descriptor_bytes, checksum) \<Rightarrow>
         (case RingOffset (store_superblock s) (plan_descriptor_ring_index plan) of
            None \<Rightarrow> (Inl EINVAL, s)
          | Some n \<Rightarrow>
            (case StoreWrite [(unat n, descriptor_bytes)] s of
               (Inl e, s) \<Rightarrow> (Inl e, s)
             | (Inr _, s) \<Rightarrow>
               (case WritePayloads (payload_ring_indices plan) images s of
                  (Inl e, s) \<Rightarrow> (Inl e, s)
                | (Inr _, s) \<Rightarrow>
                  (case StoreSync s of
                     (Inl e, s) \<Rightarrow> (Inl e, s)
                   | (Inr _, s) \<Rightarrow>
                     let candidate = \<lparr>reservation = plan, body_entry_count = of_nat (length images),
                           body_descriptor_crc32c = checksum\<rparr>
                     in (Inr candidate, (Observe kJournalBody s)\<lparr>durable_body := Some candidate,
                           metadata_after_images := images\<rparr>))))))"

text \<open>The comparison of the before-images with the image, in key order.\<close>

fun CheckBeforeImages :: "block_map \<Rightarrow> JournalStore \<Rightarrow> (errno + unit) \<times> JournalStore" where
  "CheckBeforeImages [] s = (Inr (), s)"
| "CheckBeforeImages ((block, expected) # rest) s =
    (if block \<ge> total_blocks (store_superblock s) then (Inl EINVAL, s)
     else case PreadBlock (unat block) (store_device s) of
       (Inl e, dev) \<Rightarrow> (Inl e, s\<lparr>store_device := dev\<rparr>)
     | (Inr content, dev) \<Rightarrow>
       if content \<noteq> expected then (Inl ESTALE, s\<lparr>store_device := dev\<rparr>)
       else CheckBeforeImages rest (s\<lparr>store_device := dev\<rparr>))"

definition home_writes :: "block_map \<Rightarrow> (nat \<times> bytes) list" where
  "home_writes images = map (\<lambda>(home, content). (unat home, content)) images"

definition WriteOrderedDataAndUnexposedBody ::
  "u32 \<Rightarrow> bytes \<Rightarrow> block_map \<Rightarrow> block_map \<Rightarrow> block_map \<Rightarrow> JournalStore
    \<Rightarrow> (errno + DurableJournalBody) \<times> JournalStore" where
  "WriteOrderedDataAndUnexposedBody expected_total_blocks expected_uuid before_images
      ordered_images metadata_images s =
    (let sb = store_superblock s;
         expected_before_blocks = remdups (map fst ordered_images @ map fst metadata_images)
     in
     if metadata_images = [] then (Inl EINVAL, s)
     else if reload_required s then (Inl EIO, s)
     else if used_blocks (current s) \<noteq> 0 \<or> durable_body s \<noteq> None then (Inl EBUSY, s)
     else if expected_total_blocks \<noteq> total_blocks sb \<or> expected_uuid \<noteq> filesystem_uuid sb
       then (Inl ESTALE, s)
     else if \<not> list_all (\<lambda>(block, _). BlockIsInRegion block (data sb)
          \<and> block \<in> keys before_images \<and> block \<notin> keys metadata_images) ordered_images
       then (Inl EINVAL, s)
     else if \<not> list_all (\<lambda>(block, _). IsValidMetadataTarget sb block
          \<and> block \<in> keys before_images) metadata_images
       then (Inl EINVAL, s)
     else if length before_images \<noteq> length expected_before_blocks then (Inl EINVAL, s)
     else if \<not> list_all (\<lambda>(block, _). block \<in> set expected_before_blocks) before_images
       then (Inl EINVAL, s)
     else case PlanRingReservation (current s) (length metadata_images) of
       Inl e \<Rightarrow> (Inl e, s)
     | Inr plan \<Rightarrow>
       (case CheckBeforeImages before_images s of
          (Inl e, s) \<Rightarrow> (Inl e, s)
        | (Inr _, s) \<Rightarrow>
          if ordered_images = [] then WriteUnexposedBody plan metadata_images s
          else case WriteAndSync (home_writes ordered_images) s of
            (Inl e, s) \<Rightarrow> (Inl e, s)
          | (Inr _, s) \<Rightarrow> WriteUnexposedBody plan metadata_images (Observe kOrderedData s)))"

section \<open>Exposure, COMMIT and checkpoint\<close>

definition ExposeDurableBody :: "JournalStore \<Rightarrow> (errno + unit) \<times> JournalStore" where
  "ExposeDurableBody s =
    (if reload_required s then (Inl EIO, s)
     else if used_blocks (current s) \<noteq> 0 then (Inl EBUSY, s)
     else case durable_body s of
       None \<Rightarrow> (Inl EPERM, s)
     | Some body \<Rightarrow>
       (case PersistNext (exposed_control (reservation body)) s of
          (Inl e, s) \<Rightarrow> (Inl e, s)
        | (Inr _, s) \<Rightarrow> (Inr (), Observe kControlExposure s)))"

definition make_commit :: "Superblock \<Rightarrow> DurableJournalBody \<Rightarrow> CommitRecord" where
  "make_commit sb body = \<lparr>commit_transaction_id = plan_transaction_id (reservation body),
     commit_uuid = filesystem_uuid sb, entry_count = body_entry_count body,
     commit_block_count = body_entry_count body + 2,
     descriptor_ring_index = plan_descriptor_ring_index (reservation body),
     descriptor_crc32c = body_descriptor_crc32c body, commit_checksum = 0\<rparr>"

definition WriteCommit :: "JournalStore \<Rightarrow> (errno + unit) \<times> JournalStore" where
  "WriteCommit s =
    (if reload_required s then (Inl EIO, s)
     else case durable_body s of
       None \<Rightarrow> (Inl EPERM, s)
     | Some body \<Rightarrow>
       if commit_durable s then (Inl EALREADY, s)
       else if \<not> SameControlState (current s) (exposed_control (reservation body)) then (Inl EPERM, s)
       else case EncodeCommit (make_commit (store_superblock s) body) of
         Inl _ \<Rightarrow> (Inl EINVAL, s)
       | Inr encoded \<Rightarrow>
         (case RingOffset (store_superblock s) (commit_ring_index (reservation body)) of
            None \<Rightarrow> (Inl EINVAL, s)
          | Some n \<Rightarrow>
            (case WriteAndSync [(unat n, encoded)] s of
               (Inl e, s) \<Rightarrow> (Inl e, s)
             | (Inr _, s) \<Rightarrow> (Inr (), (Observe kCommit s)\<lparr>commit_durable := True\<rparr>))))"

text \<open>The replay loop: each target is checked again right before its write.\<close>

fun WriteHomeBlocks :: "block_map \<Rightarrow> JournalStore \<Rightarrow> (errno + unit) \<times> JournalStore" where
  "WriteHomeBlocks [] s = (Inr (), s)"
| "WriteHomeBlocks ((home, after_image) # rest) s =
    (if \<not> IsValidMetadataTarget (store_superblock s) home then (Inl EUCLEAN, s)
     else case StoreWrite [(unat home, after_image)] s of
       (Inl e, s) \<Rightarrow> (Inl e, s)
     | (Inr _, s) \<Rightarrow> WriteHomeBlocks rest s)"

definition CompleteCommittedTransaction :: "JournalStore \<Rightarrow> (errno + unit) \<times> JournalStore" where
  "CompleteCommittedTransaction s =
    (if reload_required s then (Inl EIO, s)
     else if durable_body s = None \<or> \<not> commit_durable s \<or> metadata_after_images s = []
       then (Inl EPERM, s)
     else if checkpointed s then (Inl EALREADY, s)
     else case WriteHomeBlocks (metadata_after_images s) s of
       (Inl e, s) \<Rightarrow> (Inl e, s)
     | (Inr _, s) \<Rightarrow>
       (case StoreSync s of
          (Inl e, s) \<Rightarrow> (Inl e, s)
        | (Inr _, s) \<Rightarrow>
          let s = Observe kHomeBlocks s
          in (case PersistNext (clean_control (current s)) s of
                (Inl e, s) \<Rightarrow> (Inl e, s)
              | (Inr _, s) \<Rightarrow> (Inr (), (Observe kCheckpoint s)\<lparr>checkpointed := True\<rparr>))))"

section \<open>Stores on a device without faults\<close>

definition ring_phys :: "Superblock \<Rightarrow> u32 \<Rightarrow> nat" where
  "ring_phys sb i = unat (start_block (journal sb)) + 2 + unat i"

definition ring_size :: "Superblock \<Rightarrow> u32" where
  "ring_size sb = block_count (journal sb) - kJournalControlBlockCount"

lemma quiet_store_io:
  assumes "dev_script (store_device s) = []"
  shows "StoreWrite ws s = (Inr (), s\<lparr>store_device := dev_write ws (store_device s)\<rparr>)"
    "StoreSync s = (Inr (), s\<lparr>store_device := dev_sync (store_device s)\<rparr>)"
    "WriteAndSync ws s = (Inr (), s\<lparr>store_device := dev_sync (dev_write ws (store_device s))\<rparr>)"
  using assms by (simp_all add: StoreWrite_def StoreSync_def WriteAndSync_def quiet_PwriteBlocks quiet_io)

lemma quiet_WriteHomeBlocks:
  assumes "dev_script (store_device s) = []"
    "list_all (\<lambda>(home, _). IsValidMetadataTarget (store_superblock s) home) images"
  shows "WriteHomeBlocks images s = (Inr (), s\<lparr>store_device := dev_write (home_writes images) (store_device s)\<rparr>)"
  using assms
proof (induction images arbitrary: s)
  case (Cons x images)
  obtain home b where x: "x = (home, b)" by (cases x)
  show ?case using Cons by (simp add: x quiet_store_io dev_write_append home_writes_def)
qed (simp add: home_writes_def)

section \<open>Geometry\<close>

lemma journal_geometry:
  assumes "ValidateSuperblock sb = Inr ()"
  shows "unat (ring_size sb) = unat (block_count (journal sb)) - 2" "3 \<le> unat (ring_size sb)"
    "1 < unat (start_block (journal sb))"
    "unat (start_block (journal sb)) + unat (block_count (journal sb)) < unat (total_blocks sb)"
    "unat (start_block (journal sb) + 1) = unat (start_block (journal sb)) + 1"
proof -
  note l = ValidateSuperblock_layout_aux [OF assms]
  have j5: "5 \<le> unat (block_count (journal sb))" using l(10) .
  then have le: "(2 :: u32) \<le> block_count (journal sb)" by (simp add: word_le_nat_alt)
  show r: "unat (ring_size sb) = unat (block_count (journal sb)) - 2"
    unfolding ring_size_def using le by (simp add: unat_sub)
  show "3 \<le> unat (ring_size sb)" using j5 r by simp
  show tot: "unat (start_block (journal sb)) + unat (block_count (journal sb)) < unat (total_blocks sb)"
    using l(5,6,11) by (simp add: region_start_def region_end_def)
  show "1 < unat (start_block (journal sb))"
    using l(1-4,7-9,12,13) div_le_mono [of 32768 "unat (total_inodes sb) + 32767" 32768]
    by (simp add: region_start_def region_end_def)
  show "unat (start_block (journal sb) + 1) = unat (start_block (journal sb)) + 1"
    using tot j5 u32_bound [of "total_blocks sb"] by (subst unat_add_u32) auto
qed

lemma RingOffset_ok:
  assumes "ValidateSuperblock sb = Inr ()" "unat i < unat (ring_size sb)"
  obtains p where "RingOffset sb i = Some p" "unat p = ring_phys sb i"
proof -
  note g = journal_geometry [OF assms(1)]
  let ?p = "ucast (start_block (journal sb)) + 2 + ucast i :: u64"
  have u: "unat ?p = ring_phys sb i"
    using u32_bound [of "start_block (journal sb)"] u32_bound [of i]
    by (simp add: ring_phys_def unat_word_ariths)
  have "\<not> ring_size sb \<le> i" using assms(2) by (simp add: word_le_nat_alt)
  moreover have "\<not> ucast (start_block (journal sb)) + ucast (block_count (journal sb)) \<le> ?p"
    using u g(1) assms(2) by (simp only: word_le_nat_alt unat_add_ucast) (simp add: ring_phys_def)
  moreover have "\<not> ucast (total_blocks sb) \<le> ?p"
    using u g(1,4) assms(2) by (simp only: word_le_nat_alt unat_ucast_u64) (simp add: ring_phys_def)
  ultimately have "RingOffset sb i = Some ?p"
    by (simp add: RingOffset_def ring_size_def)
  with u show ?thesis using that by blast
qed

lemma control_block_eq:
  assumes "ValidateSuperblock sb = Inr ()"
  shows "control_block sb copy = unat (start_block (journal sb)) + (if copy = kA then 0 else 1)"
  using journal_geometry(5) [OF assms] by (simp add: control_block_def)

lemma valid_target_outside:
  assumes "IsValidMetadataTarget sb b"
  shows "unat b \<noteq> 0" "unat b < unat (total_blocks sb)"
    "unat b < unat (start_block (journal sb)) \<or>
       unat (start_block (journal sb)) + unat (block_count (journal sb)) \<le> unat b"
  using assms unat_add_ucast [of "start_block (journal sb)" "block_count (journal sb)"]
  by (auto simp: IsValidMetadataTarget_def BlockIsInRegion_def word_less_nat_alt word_le_nat_alt
      unat_gt_0 not_less)

lemma data_block_outside:
  assumes "ValidateSuperblock sb = Inr ()" "BlockIsInRegion b (data sb)"
  shows "unat (start_block (journal sb)) + unat (block_count (journal sb)) \<le> unat b"
    "unat b < unat (total_blocks sb)"
  using ValidateSuperblock_layout_aux(5,6) [OF assms(1)] assms(2)
    unat_add_ucast [of "start_block (data sb)" "block_count (data sb)"]
  by (auto simp: BlockIsInRegion_def word_less_nat_alt word_le_nat_alt region_start_def region_end_def)
end
