(* ===== verification/JournalRecovery.thy ===== *)
theory JournalRecovery
  imports JournalStore
begin

text \<open>
  Start-up recovery (\<^verbatim>\<open>src/src/journal/journal_recovery.cpp\<close>) and the transaction
  executor (\<^verbatim>\<open>src/src/journal/journal_transaction_executor.cpp\<close>).
  \<open>ClassifyRecovery\<close> reads and validates the exposed range, \<open>ResolveRecovery\<close>
  discards or replays it, \<open>ExecuteJournalTransaction\<close> runs the stages of one
  transaction in order.  The names of the durable stages of
  \<^verbatim>\<open>durable_stage_failpoint.cpp\<close> are here as well.
\<close>

section \<open>Reading the ring\<close>

definition ReadRingBlock :: "Superblock \<Rightarrow> u32 \<Rightarrow> device \<Rightarrow> (errno + bytes) \<times> device" where
  "ReadRingBlock sb ring_index dev = (case RingOffset sb ring_index of
     None \<Rightarrow> (Inl EUCLEAN, dev)
   | Some physical_block \<Rightarrow> PreadBlock (unat physical_block) dev)"

text \<open>\<^verbatim>\<open>std::map::emplace\<close>: an existing key keeps its value.\<close>

fun map_emplace :: "u32 \<Rightarrow> bytes \<Rightarrow> block_map \<Rightarrow> block_map" where
  "map_emplace k v [] = [(k, v)]"
| "map_emplace k v ((k', v') # rest) =
    (if k < k' then (k, v) # (k', v') # rest
     else if k = k' then (k', v') # rest
     else (k', v') # map_emplace k v rest)"

fun ReadPayloads ::
  "Superblock \<Rightarrow> DescriptorEntry list \<Rightarrow> block_map \<Rightarrow> device \<Rightarrow> (errno + block_map) \<times> device" where
  "ReadPayloads sb [] images dev = (Inr images, dev)"
| "ReadPayloads sb (entry # rest) images dev =
    (case ReadRingBlock sb (payload_ring_index entry) dev of
       (Inl e, dev) \<Rightarrow> (Inl e, dev)
     | (Inr payload, dev) \<Rightarrow>
       if Crc32c payload \<noteq> payload_crc32c entry then (Inl EUCLEAN, dev)
       else ReadPayloads sb rest (map_emplace (home_block entry) payload images) dev)"

section \<open>Classification\<close>

definition entries_follow_grammar :: "Superblock \<Rightarrow> JournalControl \<Rightarrow> DescriptorEntry list \<Rightarrow> bool" where
  "entries_follow_grammar sb cur es \<longleftrightarrow>
    list_all (\<lambda>(index, entry).
        payload_ring_index entry = Advance (tail cur) (index + 1) (ring_blocks cur)
        \<and> IsValidMetadataTarget sb (home_block entry))
      (zip [0..<length es] es)"

definition classify_exposed ::
  "Superblock \<Rightarrow> JournalControl \<Rightarrow> device
    \<Rightarrow> (errno + RecoveryState \<times> ValidatedTransaction option) \<times> device" where
  "classify_exposed sb cur dev =
    (case ReadRingBlock sb (tail cur) dev of
       (Inl e, dev) \<Rightarrow> (Inl e, dev)
     | (Inr descriptor_bytes, dev) \<Rightarrow>
       (case DecodeDescriptor descriptor_bytes of
          Inl _ \<Rightarrow> (Inl EUCLEAN, dev)
        | Inr descriptor \<Rightarrow>
          let expected_transaction_id = next_transaction_id cur - 1;
              payload_count = length (entries descriptor);
              commit_index = Advance (tail cur) (payload_count + 1) (ring_blocks cur);
              derived_head = Advance (tail cur) (payload_count + 2) (ring_blocks cur)
          in
          if descriptor_uuid descriptor \<noteq> filesystem_uuid sb then (Inl EUCLEAN, dev)
          else if descriptor_transaction_id descriptor \<noteq> expected_transaction_id then (Inl EUCLEAN, dev)
          else if descriptor_block_count descriptor \<noteq> used_blocks cur then (Inl EUCLEAN, dev)
          else if \<not> entries_follow_grammar sb cur (entries descriptor) then (Inl EUCLEAN, dev)
          else if derived_head \<noteq> head cur then (Inl EUCLEAN, dev)
          else case ReadPayloads sb (entries descriptor) [] dev of
            (Inl e, dev) \<Rightarrow> (Inl e, dev)
          | (Inr images, dev) \<Rightarrow>
            (case ReadRingBlock sb commit_index dev of
               (Inl e, dev) \<Rightarrow> (Inl e, dev)
             | (Inr commit_bytes, dev) \<Rightarrow>
               (case DecodeCommit commit_bytes of
                  Inl _ \<Rightarrow> (Inr (kUncommitted, None), dev)
                | Inr commit \<Rightarrow>
                  if commit_transaction_id commit \<noteq> descriptor_transaction_id descriptor
                    then (Inr (kUncommitted, None), dev)
                  else if \<not> CommitMatchesDescriptor descriptor (tail cur) commit
                    then (Inl EUCLEAN, dev)
                  else (Inr (kCommitted, Some \<lparr>
                      validated_transaction_id = descriptor_transaction_id descriptor,
                      validated_descriptor_ring_index = tail cur,
                      validated_commit_ring_index = commit_index,
                      validated_after_images = images\<rparr>), dev)))))"

definition ClassifyRecovery :: "JournalStore \<Rightarrow> (errno + RecoveryState) \<times> JournalStore" where
  "ClassifyRecovery s =
    (let s = s\<lparr>validated_transaction := None\<rparr>
     in
     if reload_required s then (Inl EIO, s)
     else if used_blocks (current s) = 0 then (Inr kRecoveryEmpty, s)
     else if next_transaction_id (current s) \<le> 1 then (Inl EUCLEAN, s)
     else case classify_exposed (store_superblock s) (current s) (store_device s) of
       (Inl e, dev) \<Rightarrow> (Inl e, s\<lparr>store_device := dev\<rparr>)
     | (Inr (state, validated), dev) \<Rightarrow>
         (Inr state, s\<lparr>store_device := dev, validated_transaction := validated\<rparr>))"

section \<open>Resolution\<close>

definition ResolveRecovery :: "JournalStore \<Rightarrow> (errno + RecoveryAction) \<times> JournalStore" where
  "ResolveRecovery s =
    (if reload_required s then (Inl EIO, s)
     else if durable_body s \<noteq> None \<or> commit_durable s then (Inl EBUSY, s)
     else case ClassifyRecovery s of
       (Inl e, s) \<Rightarrow> (Inl e, s)
     | (Inr state, s) \<Rightarrow>
       let clean = clean_control (current s)
       in
       (case state of
          kRecoveryEmpty \<Rightarrow> (Inr kNoAction, s)
        | kUncommitted \<Rightarrow>
          (case PersistNext clean s of
             (Inl e, s) \<Rightarrow> (Inl e, s)
           | (Inr _, s) \<Rightarrow> (Inr kDiscarded, s\<lparr>validated_transaction := None\<rparr>))
        | kCommitted \<Rightarrow>
          (case validated_transaction s of
             None \<Rightarrow> (Inl EUCLEAN, s)
           | Some validated \<Rightarrow>
             (case WriteHomeBlocks (validated_after_images validated) s of
                (Inl e, s) \<Rightarrow> (Inl e, s)
              | (Inr _, s) \<Rightarrow>
                (case StoreSync s of
                   (Inl e, s) \<Rightarrow> (Inl e, s)
                 | (Inr _, s) \<Rightarrow>
                   (case PersistNext clean s of
                      (Inl e, s) \<Rightarrow> (Inl e, s)
                    | (Inr _, s) \<Rightarrow> (Inr kReplayedAndCheckpointed,
                                   s\<lparr>validated_transaction := None\<rparr>)))))))"

section \<open>The executor\<close>

text \<open>
  \<^term>\<open>dup_fd\<close> is the answer of \<^verbatim>\<open>MountedImageSession::DuplicateFd\<close>.  The results are the
  error, whether the caller must fail closed, and the device.
\<close>

definition ExecuteJournalTransaction ::
  "errno + device \<Rightarrow> block_map \<Rightarrow> block_map \<Rightarrow> block_map \<Rightarrow> u32 \<Rightarrow> bytes
    \<Rightarrow> (errno + unit) \<times> bool \<times> JournalStore option" where
  "ExecuteJournalTransaction dup_fd before_images ordered_images metadata_images expected_total uuid =
    (case dup_fd of
       Inl e \<Rightarrow> (Inl e, False, None)
     | Inr dev \<Rightarrow>
       (case AdoptLockedFd dev of
          (Inl e, _) \<Rightarrow> (Inl e, True, None)
        | (Inr s, _) \<Rightarrow>
          (case WriteOrderedDataAndUnexposedBody expected_total uuid before_images ordered_images
              metadata_images s of
             (Inl e, s) \<Rightarrow> (Inl e, True, Some s)
           | (Inr _, s) \<Rightarrow>
             (case ExposeDurableBody s of
                (Inl e, s) \<Rightarrow> (Inl e, True, Some s)
              | (Inr _, s) \<Rightarrow>
                (case WriteCommit s of
                   (Inl e, s) \<Rightarrow> (Inl e, True, Some s)
                 | (Inr _, s) \<Rightarrow>
                   (case CompleteCommittedTransaction s of
                      (Inl e, s) \<Rightarrow> (Inl e, True, Some s)
                    | (Inr _, s) \<Rightarrow> (Inr (), False, Some s)))))))"

section \<open>Stage names\<close>

definition DurableStageName :: "DurableStage \<Rightarrow> string" where
  "DurableStageName stage = (case stage of
     kOrderedData \<Rightarrow> ''ordered-data'' | kJournalBody \<Rightarrow> ''journal-body''
   | kControlExposure \<Rightarrow> ''control-exposure'' | kCommit \<Rightarrow> ''commit''
   | kHomeBlocks \<Rightarrow> ''home-blocks'' | kCheckpoint \<Rightarrow> ''checkpoint'')"

definition ParseDurableStage :: "string \<Rightarrow> DurableStage option" where
  "ParseDurableStage value = find (\<lambda>stage. value = DurableStageName stage)
     [kOrderedData, kJournalBody, kControlExposure, kCommit, kHomeBlocks, kCheckpoint]"

end
