(* ===== verification/Planning.thy ===== *)
theory Planning
  imports ReaderFrame BitmapAllocator JournalRecovery
begin

text \<open>
  What the transaction planners share (\<^verbatim>\<open>src/src/metadata/new_object_plan.cpp\<close>,
  \<^verbatim>\<open>file_mutation_plan.cpp\<close>, \<^verbatim>\<open>empty_file_create_plan.cpp\<close>): updates of the image maps,
  loading the bitmaps, the position of an inode record, reservations, and the reader of
  the image after a transaction.

  The allocators of a planner live on copies of the bitmaps that no one else sees, so a
  failed plan drops them and the rollback of its reservations is not modelled.
\<close>

section \<open>Image maps\<close>

text \<open>Assignment through \<^verbatim>\<open>operator[]\<close> of a map; the map is sorted by key.\<close>

fun map_put :: "u32 \<Rightarrow> bytes \<Rightarrow> block_map \<Rightarrow> block_map" where
  "map_put k v [] = [(k, v)]"
| "map_put k v ((a, b) # m) =
    (if k < a then (k, v) # (a, b) # m else if k = a then (k, v) # m else (a, b) # map_put k v m)"

section \<open>Positions\<close>

definition PlanRequiredBlocks :: "u64 \<Rightarrow> u32" where
  "PlanRequiredBlocks n = (if n = 0 then 0 else ucast ((n - 1) div 4096 + 1))"

definition InodeTableBlock :: "Superblock \<Rightarrow> u32 \<Rightarrow> u32" where
  "InodeTableBlock sb number =
    (let byte_index = (ucast (number - 1) * 128 :: u64)
     in start_block (inode_table sb) + ucast (byte_index div 4096))"

definition InodeOffsetInBlock :: "u32 \<Rightarrow> nat" where
  "InodeOffsetInBlock number = (let byte_index = (ucast (number - 1) * 128 :: u64) in unat (byte_index mod 4096))"

section \<open>Bitmaps\<close>

fun LoadRegionBlocks :: "ImageReader \<Rightarrow> u32 \<Rightarrow> nat list \<Rightarrow> bytes \<Rightarrow> errno + bytes" where
  "LoadRegionBlocks r start [] output = Inr output"
| "LoadRegionBlocks r start (index # rest) output =
    bind_result (ReadBlock r (start + of_nat index)) (\<lambda>block. LoadRegionBlocks r start rest (output @ block))"

definition LoadRegion :: "ImageReader \<Rightarrow> Region \<Rightarrow> errno + bytes" where
  "LoadRegion r region = LoadRegionBlocks r (start_block region) [0..<unat (block_count region)] []"

definition BitmapBlock :: "bytes \<Rightarrow> nat \<Rightarrow> bytes" where
  "BitmapBlock bitmap local = get_bytes (local * kBlockSize) kBlockSize bitmap"

definition ReserveBlock :: "AllocatorState \<Rightarrow> errno + AllocatorState \<times> u32" where
  "ReserveBlock allocator =
    bind_result (Reserve allocator empty_reservation) (\<lambda>(allocator, reservation).
      Inr (allocator, reserved_bit reservation))"

section \<open>The image after a transaction\<close>

definition apply_images :: "block_map \<Rightarrow> (nat \<Rightarrow> errno + bytes) \<Rightarrow> nat \<Rightarrow> errno + bytes" where
  "apply_images m pread n = (case find (\<lambda>(b, c). unat b = n) m of None \<Rightarrow> pread n | Some (b, c) \<Rightarrow> Inr c)"

definition region_bytes :: "(nat \<Rightarrow> errno + bytes) \<Rightarrow> Region \<Rightarrow> bytes" where
  "region_bytes pread region = (case ReadRegion pread region of Inl _ \<Rightarrow> [] | Inr b \<Rightarrow> b)"

text \<open>The reader that opens the image after the blocks of the map were written.\<close>

definition reload :: "block_map \<Rightarrow> ImageReader \<Rightarrow> ImageReader" where
  "reload m r =
    (let pread = apply_images m (reader_pread r)
     in r\<lparr>reader_pread := pread,
          inode_bitmap_bytes := region_bytes pread (inode_bitmap (superblock r)),
          block_bitmap_bytes := region_bytes pread (block_bitmap (superblock r))\<rparr>)"

section \<open>Lemmas of the image maps\<close>

lemma fst_map_put: "fst ` set (map_put k v m) = insert k (fst ` set m)"
  by (induction k v m rule: map_put.induct) (auto split: if_splits)

lemma keys_map_put [simp]: "keys (map_put k v m) = insert k (keys m)"
  using fst_map_put by (simp add: keys_def)

lemma sorted_map_put: "sorted_wrt (<) (map fst m) \<Longrightarrow> sorted_wrt (<) (map fst (map_put k v m))"
proof (induction k v m rule: map_put.induct)
  case (2 k v a b m)
  have "x \<in> set m \<Longrightarrow> a < fst x" for x using 2(2) by auto
  moreover have "x \<in> set (map_put k v m) \<Longrightarrow> fst x = k \<or> fst x \<in> fst ` set m" for x
    using fst_map_put [of k v m] by blast
  ultimately show ?case using 2 by (fastforce simp: not_less_iff_gr_or_eq)
qed simp

lemma map_of_map_put: "sorted_wrt (<) (map fst m) \<Longrightarrow> map_of (map_put k v m) = (map_of m)(k \<mapsto> v)"
  by (induction k v m rule: map_put.induct) (simp_all add: fun_upd_twist)

lemma in_keys_iff: "k \<in> keys m \<longleftrightarrow> map_of m k \<noteq> None"
  by (simp add: keys_def map_of_eq_None_iff)

lemma apply_images_map_of:
  "apply_images m pread (unat b) = (case map_of m b of None \<Rightarrow> pread (unat b) | Some c \<Rightarrow> Inr c)"
proof (induction m)
  case (Cons x m)
  have "unat (fst x) = unat b \<longleftrightarrow> b = fst x" using word_unat_eq_iff by metis
  then show ?case using Cons by (cases x) (simp add: apply_images_def)
qed (simp add: apply_images_def)

lemma apply_images_other: "n \<notin> unat ` keys m \<Longrightarrow> apply_images m pread n = pread n"
proof (induction m)
  case (Cons x m)
  then show ?case by (cases x) (simp add: apply_images_def keys_def)
qed (simp add: apply_images_def)

section \<open>Loading and storing the bitmaps\<close>

lemma BitmapBit_TestBit: "BitmapBit bm i \<longleftrightarrow> TestBit bm i"
  by (simp add: BitmapBit_def TestBit_def)

lemma unat_add_of_nat: "unat (s :: u32) + i < 4294967296 \<Longrightarrow> unat (s + of_nat i) = unat s + i"
  by (simp add: unat_word_ariths unat_of_nat)

lemma ReadBlock_whole:
  assumes "reader_ok r" "blocks_readable r" "unat b < unat (total_blocks (superblock r))"
  obtains c where "reader_pread r (unat b) = Inr c" "length c = 4096" "ReadBlock r b = Inr c"
proof -
  obtain c where c: "reader_pread r (unat b) = Inr c" "length c = 4096"
    "ReadExact r (unat b * 4096 + 0) 4096 = Inr (get_bytes 0 4096 c)"
    using ReadExact_block [OF assms, of 0 4096] by auto
  have "get_bytes 0 4096 c = c" using c(2) by (simp add: get_bytes_def)
  then show ?thesis using that [OF c(1,2)] c(3) assms(3) by (simp add: ReadBlock_def word_le_nat_alt)
qed

lemma LoadRegionBlocks_append:
  "LoadRegionBlocks r start ls out = bind_result (LoadRegionBlocks r start ls []) (\<lambda>bs. Inr (out @ bs))"
proof (induction ls arbitrary: out)
  case (Cons l ls)
  show ?case
  proof (cases "ReadBlock r (start + of_nat l)")
    case (Inr block)
    then show ?thesis
      using Cons [of "out @ block"] Cons [of block] by (cases "LoadRegionBlocks r start ls []") simp_all
  qed simp
qed simp

lemma LoadRegionBlocks_read:
  assumes "reader_ok r" "blocks_readable r" "unat start + i + n \<le> unat (total_blocks (superblock r))"
  shows "LoadRegionBlocks r start [i..<i + n] [] = ReadRegionBlocks (reader_pread r) (unat start + i) n"
  using assms(3)
proof (induction n arbitrary: i)
  case (Suc n)
  have u: "unat (start + of_nat i) = unat start + i"
    using Suc.prems u32_bound [of "total_blocks (superblock r)"] by (intro unat_add_of_nat) simp
  obtain c where c: "reader_pread r (unat start + i) = Inr c" "length c = 4096" "ReadBlock r (start + of_nat i) = Inr c"
    using ReadBlock_whole [OF assms(1,2), of "start + of_nat i"] Suc.prems u by auto
  have "[i..<i + Suc n] = i # [Suc i..<Suc i + n]" by (simp add: upt_rec)
  moreover have "LoadRegionBlocks r start [Suc i..<Suc i + n] [] = ReadRegionBlocks (reader_pread r) (unat start + Suc i) n"
    using Suc.IH [of "Suc i"] Suc.prems by simp
  ultimately show ?case
    using c LoadRegionBlocks_append [of r start "[Suc i..<Suc i + n]" c] by simp
qed simp

lemma LoadRegion_read:
  assumes "reader_ok r" "blocks_readable r" "region_end region \<le> unat (total_blocks (superblock r))"
  shows "LoadRegion r region = ReadRegion (reader_pread r) region"
  using LoadRegionBlocks_read [OF assms(1,2), of "start_block region" 0 "unat (block_count region)"] assms(3)
  by (simp add: LoadRegion_def ReadRegion_def region_end_def)

lemma get_bytes_Cons_chunk:
  assumes "length b = 4096"
  shows "get_bytes 0 4096 (b @ bs) = b" "get_bytes (Suc i * 4096) 4096 (b @ bs) = get_bytes (i * 4096) 4096 bs"
  using assms by (simp_all add: get_bytes_def)

lemma ReadRegionBlocks_iff:
  assumes "\<And>i. i < n \<Longrightarrow> \<exists>b. pread (start + i) = Inr b \<and> length b = 4096"
  shows "ReadRegionBlocks pread start n = Inr bs \<longleftrightarrow>
    length bs = n * 4096 \<and> (\<forall>i < n. pread (start + i) = Inr (get_bytes (i * 4096) 4096 bs))"
  using assms
proof (induction n arbitrary: start bs)
  case (Suc n)
  obtain b where b: "pread start = Inr b" "length b = 4096" using Suc.prems [of 0] by auto
  have IH: "ReadRegionBlocks pread (start + 1) n = Inr cs \<longleftrightarrow>
      length cs = n * 4096 \<and> (\<forall>i < n. pread (start + 1 + i) = Inr (get_bytes (i * 4096) 4096 cs))" for cs
    using Suc.prems [of "Suc i" for i] by (intro Suc.IH) simp
  have "ReadRegionBlocks pread start (Suc n) = Inr bs \<longleftrightarrow>
      (\<exists>cs. ReadRegionBlocks pread (start + 1) n = Inr cs \<and> bs = b @ cs)"
    using b by (auto simp: bind_result_Inr_iff)
  also have "\<dots> \<longleftrightarrow> length bs = Suc n * 4096 \<and> (\<forall>i < Suc n. pread (start + i) = Inr (get_bytes (i * 4096) 4096 bs))"
  proof
    assume "\<exists>cs. ReadRegionBlocks pread (start + 1) n = Inr cs \<and> bs = b @ cs"
    then obtain cs where cs: "length cs = n * 4096" "bs = b @ cs"
      "\<And>i. i < n \<Longrightarrow> pread (start + 1 + i) = Inr (get_bytes (i * 4096) 4096 cs)" using IH by blast
    show "length bs = Suc n * 4096 \<and> (\<forall>i < Suc n. pread (start + i) = Inr (get_bytes (i * 4096) 4096 bs))"
      using cs(1,2) b cs(3) get_bytes_Cons_chunk(1) [OF b(2), of cs] get_bytes_Cons_chunk(2) [OF b(2), of _ cs]
      by (auto simp: all_less_Suc_length)
  next
    assume a: "length bs = Suc n * 4096 \<and> (\<forall>i < Suc n. pread (start + i) = Inr (get_bytes (i * 4096) 4096 bs))"
    define cs where "cs = drop 4096 bs"
    have "get_bytes 0 4096 bs = b" using a b(1) by (auto dest!: conjunct2 spec [of _ 0])
    then have bs: "bs = b @ cs" using append_take_drop_id [of 4096 bs] by (simp add: cs_def get_bytes_def)
    have "pread (start + 1 + i) = Inr (get_bytes (i * 4096) 4096 cs)" if "i < n" for i
      using a that get_bytes_Cons_chunk(2) [OF b(2), of i cs] bs by (auto simp: all_less_Suc_length)
    then have "ReadRegionBlocks pread (start + 1) n = Inr cs" unfolding IH using a by (simp add: cs_def)
    then show "\<exists>cs. ReadRegionBlocks pread (start + 1) n = Inr cs \<and> bs = b @ cs" using bs by blast
  qed
  finally show ?case .
qed auto

lemma ReadRegion_iff:
  assumes "blocks_readable r" "region_end region \<le> unat (total_blocks (superblock r))"
  shows "ReadRegion (reader_pread r) region = Inr bs \<longleftrightarrow> length bs = unat (block_count region) * 4096
    \<and> (\<forall>i < unat (block_count region). reader_pread r (region_start region + i) = Inr (BitmapBlock bs i))"
  unfolding ReadRegion_def BitmapBlock_def region_start_def using assms
  by (intro ReadRegionBlocks_iff) (auto simp: blocks_readable_def region_end_def)

section \<open>The regions of a volume\<close>

lemma volume_regions:
  assumes "reader_ok r"
  defines "sb \<equiv> superblock r"
  shows "region_end (inode_bitmap sb) \<le> region_start (data sb)" "region_end (block_bitmap sb) \<le> region_start (data sb)"
    "region_end (inode_table sb) \<le> region_start (data sb)" "region_start (data sb) \<le> unat (total_blocks sb)"
    "unat (total_inodes sb) \<le> 8 * (unat (block_count (inode_bitmap sb)) * 4096)"
    "unat (total_blocks sb) \<le> 8 * (unat (block_count (block_bitmap sb)) * 4096)"
    "1 \<le> region_start (inode_bitmap sb)" "region_end (inode_bitmap sb) \<le> region_start (block_bitmap sb)"
    "region_end (block_bitmap sb) \<le> region_start (inode_table sb)"
proof -
  have v: "ValidateSuperblock sb = Inr ()" using reader_ok_facts(1) [OF assms(1)] by (simp add: sb_def)
  note l = ValidateSuperblock_layout_aux [OF v]
  have e: "region_start x \<le> region_end x" for x by (simp add: region_start_def region_end_def)
  show "region_end (inode_bitmap sb) \<le> region_start (data sb)" "region_end (block_bitmap sb) \<le> region_start (data sb)"
    "region_end (inode_table sb) \<le> region_start (data sb)" "region_start (data sb) \<le> unat (total_blocks sb)"
    "1 \<le> region_start (inode_bitmap sb)" "region_end (inode_bitmap sb) \<le> region_start (block_bitmap sb)"
    "region_end (block_bitmap sb) \<le> region_start (inode_table sb)"
    using l(1-6) e [of "block_bitmap sb"] e [of "inode_table sb"] e [of "journal sb"] e [of "data sb"] by linarith+
  show "unat (total_inodes sb) \<le> 8 * (unat (block_count (inode_bitmap sb)) * 4096)"
    "unat (total_blocks sb) \<le> 8 * (unat (block_count (block_bitmap sb)) * 4096)"
    unfolding l(7,8) using div_mult_mod_eq [of "unat (total_inodes sb) + 32767" 32768]
      div_mult_mod_eq [of "unat (total_blocks sb) + 32767" 32768]
      mod_less_divisor [of 32768 "unat (total_inodes sb) + 32767"] mod_less_divisor [of 32768 "unat (total_blocks sb) + 32767"]
    by linarith+
qed

lemma LoadRegion_bitmaps:
  assumes "reader_ok r" "blocks_readable r" "bitmaps_synced r"
  shows "LoadRegion r (inode_bitmap (superblock r)) = Inr (inode_bitmap_bytes r)"
    "LoadRegion r (block_bitmap (superblock r)) = Inr (block_bitmap_bytes r)"
  using LoadRegion_read [OF assms(1,2)] volume_regions [OF assms(1)] assms(3)
  by (simp_all add: bitmaps_synced_def)

lemma inode_position:
  assumes "reader_ok r" "1 \<le> unat n" "unat n \<le> unat (total_inodes (superblock r))"
  shows "inode_offset r n = unat (InodeTableBlock (superblock r) n) * 4096 + InodeOffsetInBlock n"
    "InodeOffsetInBlock n + 128 \<le> 4096"
    "region_start (inode_table (superblock r)) \<le> unat (InodeTableBlock (superblock r) n)"
    "unat (InodeTableBlock (superblock r) n) < region_end (inode_table (superblock r))"
    "InodeOffsetInBlock n = unat (n - 1) * 128 mod 4096"
    "unat (InodeTableBlock (superblock r) n) = region_start (inode_table (superblock r)) + unat (n - 1) * 128 div 4096"
proof -
  let ?sb = "superblock r" and ?b = "unat (n - 1) * 128"
  have v: "ValidateSuperblock ?sb = Inr ()" using reader_ok_facts(1) [OF assms(1)] .
  have n: "unat (n - 1) = unat n - 1" using assms(2) by (subst unat_sub) (simp_all add: word_le_nat_alt)
  have nb: "unat (n - 1) < 4294967296" by (rule u32_bound)
  have idx: "unat (ucast (n - 1) * 128 :: u64) = ?b" using nb by (simp add: unat_word_ariths)
  show off: "InodeOffsetInBlock n = ?b mod 4096" by (simp add: InodeOffsetInBlock_def Let_def unat_mod idx)
  have "?b mod 4096 = 128 * (unat (n - 1) mod 32)" using mult_mod_right [of 128 "unat (n - 1)" 32] by (simp add: mult.commute)
  then show "InodeOffsetInBlock n + 128 \<le> 4096" using off mod_less_divisor [of 32 "unat (n - 1)"] by simp
  have last: "?b div 4096 < unat (block_count (inode_table ?sb))"
  proof -
    have "?b + 128 \<le> unat (total_inodes ?sb) * 128" using n assms(2,3) by simp
    then have b: "?b \<le> unat (total_inodes ?sb) * 128 - 1" "1 \<le> unat (total_inodes ?sb) * 128" by linarith+
    then have "unat (total_inodes ?sb) * 128 + 4095 = (unat (total_inodes ?sb) * 128 - 1) + 4096" by linarith
    then have "(unat (total_inodes ?sb) * 128 + 4095) div 4096 = (unat (total_inodes ?sb) * 128 - 1) div 4096 + 1" by simp
    then show ?thesis using div_le_mono [OF b(1), of 4096] ValidateSuperblock_layout_aux(9) [OF v] by simp
  qed
  have tot: "region_end (inode_table ?sb) < 4294967296"
    using volume_regions(3,4) [OF assms(1)] u32_bound [of "total_blocks ?sb"] by linarith
  have "unat (ucast ((ucast (n - 1) * 128 :: u64) div 4096) :: u32) = ?b div 4096"
    using idx nb by (subst unat_ucast_u32) (simp_all add: unat_div)
  then show tb: "unat (InodeTableBlock ?sb n) = region_start (inode_table ?sb) + ?b div 4096"
    unfolding InodeTableBlock_def Let_def using last tot
    by (subst unat_add_u32) (simp_all add: region_end_def region_start_def)
  show "region_start (inode_table ?sb) \<le> unat (InodeTableBlock ?sb n)"
    "unat (InodeTableBlock ?sb n) < region_end (inode_table ?sb)"
    using tb last by (simp_all add: region_end_def region_start_def)
  show "inode_offset r n = unat (InodeTableBlock ?sb n) * 4096 + InodeOffsetInBlock n"
    unfolding tb off inode_offset_def region_start_def
    using div_mult_mod_eq [of ?b 4096] by (simp only: add_mult_distrib add.assoc)
qed

section \<open>Reserving and releasing\<close>

lemma ReserveBlock_Inr:
  assumes "ReserveBlock a = Inr (a', b)"
  shows "unat (first_allocatable_bit a) \<le> unat b" "unat b < unat (valid_bits a)"
    "unat (valid_bits a) \<le> length (bitmap_of a) * 8" "\<not> TestBit (bitmap_of a) (unat b)"
    "a' = a\<lparr>bitmap_of := SetBit (bitmap_of a) (unat b)\<rparr>"
proof -
  from assms obtain i where i: "find (\<lambda>i. \<not> TestBit (bitmap_of a) i)
        [unat (first_allocatable_bit a)..<unat (valid_bits a)] = Some i"
    and cap: "\<not> length (bitmap_of a) * 8 < unat (valid_bits a)"
    and a': "a' = a\<lparr>bitmap_of := SetBit (bitmap_of a) i\<rparr>" "b = of_nat i"
    by (auto simp: ReserveBlock_def Reserve_def empty_reservation_def bind_result_Inr_iff split: if_splits option.splits)
  note f = iffD1 [OF find_upt_Some i]
  have u: "unat b = i" using f u32_bound [of "valid_bits a"] by (simp add: a'(2) unat_of_nat)
  show "unat (first_allocatable_bit a) \<le> unat b" "unat b < unat (valid_bits a)"
    "unat (valid_bits a) \<le> length (bitmap_of a) * 8" "\<not> TestBit (bitmap_of a) (unat b)"
    "a' = a\<lparr>bitmap_of := SetBit (bitmap_of a) (unat b)\<rparr>"
    using f cap a' u by auto
qed

text \<open>A sequence of reservations on one allocator.\<close>

fun reserve_seq :: "AllocatorState \<Rightarrow> u32 list \<Rightarrow> AllocatorState \<Rightarrow> bool" where
  "reserve_seq a [] a' \<longleftrightarrow> a' = a"
| "reserve_seq a (b # bs) a' \<longleftrightarrow> (\<exists>a1. ReserveBlock a = Inr (a1, b) \<and> reserve_seq a1 bs a')"

lemma reserve_seq_append: "reserve_seq a (bs @ cs) a' \<longleftrightarrow> (\<exists>a1. reserve_seq a bs a1 \<and> reserve_seq a1 cs a')"
  by (induction bs arbitrary: a) auto

text \<open>The bitmap after taking and giving back sets of bits.\<close>

definition bits_change :: "AllocatorState \<Rightarrow> AllocatorState \<Rightarrow> nat set \<Rightarrow> nat set \<Rightarrow> bool" where
  "bits_change a a' new gone \<longleftrightarrow> valid_bits a' = valid_bits a \<and> first_allocatable_bit a' = first_allocatable_bit a
    \<and> length (bitmap_of a') = length (bitmap_of a)
    \<and> (\<forall>i. TestBit (bitmap_of a') i \<longleftrightarrow> (TestBit (bitmap_of a) i \<or> i \<in> new) \<and> i \<notin> gone)"

definition free_bits :: "AllocatorState \<Rightarrow> nat set" where
  "free_bits a = {i. unat (first_allocatable_bit a) \<le> i \<and> i < unat (valid_bits a) \<and> \<not> TestBit (bitmap_of a) i}"

lemma reserve_seq_facts:
  assumes "reserve_seq a bs a'"
  shows "distinct bs \<and> unat ` set bs \<subseteq> free_bits a \<and> bits_change a a' (unat ` set bs) {}"
  using assms
proof (induction bs arbitrary: a)
  case (Cons b bs)
  then obtain a1 where r: "ReserveBlock a = Inr (a1, b)" and s: "reserve_seq a1 bs a'" by auto
  note f = ReserveBlock_Inr [OF r] and IH = Cons.IH [OF s]
  have t: "TestBit (bitmap_of a1) i \<longleftrightarrow> i = unat b \<or> TestBit (bitmap_of a) i" for i
    using f by (simp add: TestBit_SetBit)
  have "unat b \<notin> free_bits a1" by (simp add: free_bits_def t)
  then have "b \<notin> set bs" using IH by auto
  moreover have "free_bits a1 \<subseteq> free_bits a" using f(5) t by (auto simp: free_bits_def)
  moreover have "unat b \<in> free_bits a" using f by (simp add: free_bits_def)
  moreover have "bits_change a a' (unat ` set (b # bs)) {}" using IH f(5) t by (auto simp: bits_change_def)
  ultimately show ?case using IH by auto
qed (simp add: bits_change_def)

lemma ReleaseAllocated_Inr:
  assumes "ReleaseAllocated a b = Inr a'"
  shows "unat (first_allocatable_bit a) \<le> unat b" "unat b < unat (valid_bits a)" "TestBit (bitmap_of a) (unat b)"
    "bits_change a a' {} {unat b}"
proof -
  have f: "\<not> length (bitmap_of a) * 8 < unat (valid_bits a)" "\<not> b < first_allocatable_bit a" "\<not> b \<ge> valid_bits a"
    "TestBit (bitmap_of a) (unat b)" "a' = a\<lparr>bitmap_of := ClearBit (bitmap_of a) (unat b)\<rparr>"
    using assms by (auto simp: ReleaseAllocated_def split: if_splits)
  then show "unat (first_allocatable_bit a) \<le> unat b" "unat b < unat (valid_bits a)" "TestBit (bitmap_of a) (unat b)"
    by (simp_all add: word_less_nat_alt word_le_nat_alt)
  with f show "bits_change a a' {} {unat b}" by (auto simp: bits_change_def TestBit_ClearBit)
qed

lemma bits_change_trans:
  "bits_change a a1 n1 g1 \<Longrightarrow> bits_change a1 a2 {} g2 \<Longrightarrow> bits_change a a2 n1 (g1 \<union> g2)"
  by (auto simp: bits_change_def)

section \<open>The reader after a transaction\<close>

definition region_update :: "block_map \<Rightarrow> Region \<Rightarrow> bytes \<Rightarrow> bytes \<Rightarrow> bool" where
  "region_update m region old new \<longleftrightarrow> length new = length old
    \<and> (\<forall>i < unat (block_count region). case map_of m (start_block region + of_nat i) of
         Some c \<Rightarrow> c = BitmapBlock new i | None \<Rightarrow> BitmapBlock new i = BitmapBlock old i)"

definition image_update :: "ImageReader \<Rightarrow> block_map \<Rightarrow> bytes \<Rightarrow> bytes \<Rightarrow> bool" where
  "image_update r m inode_bits block_bits \<longleftrightarrow>
    (\<forall>(b, c) \<in> set m. length c = kBlockSize \<and> unat b < unat (total_blocks (superblock r)))
    \<and> region_update m (inode_bitmap (superblock r)) (inode_bitmap_bytes r) inode_bits
    \<and> region_update m (block_bitmap (superblock r)) (block_bitmap_bytes r) block_bits"

lemma reload_fields [simp]:
  "superblock (reload m r) = superblock r" "reader_image_size (reload m r) = reader_image_size r"
  "reader_pread (reload m r) = apply_images m (reader_pread r)"
  by (simp_all add: reload_def Let_def)

lemma reload_blocks_readable:
  assumes "blocks_readable r" "\<forall>(b, c) \<in> set m. length c = kBlockSize"
  shows "blocks_readable (reload m r)"
  unfolding blocks_readable_def
proof (intro allI impI)
  fix n assume "n < unat (total_blocks (superblock (reload m r)))"
  then have n: "n < unat (total_blocks (superblock r))" by simp
  show "\<exists>b. reader_pread (reload m r) n = Inr b \<and> length b = kBlockSize"
  proof (cases "find (\<lambda>(b, c). unat b = n) m")
    case None
    then show ?thesis using assms(1) n by (simp add: apply_images_def blocks_readable_def)
  next
    case (Some x)
    then have "x \<in> set m" by (auto simp: find_Some_iff in_set_conv_nth)
    then show ?thesis using Some assms(2) by (cases x) (auto simp: apply_images_def)
  qed
qed

lemma reload_region:
  assumes "reader_ok r" "blocks_readable r" "\<forall>(b, c) \<in> set m. length c = kBlockSize"
    and "ReadRegion (reader_pread r) region = Inr old" "region_update m region old new"
    and "region_end region \<le> unat (total_blocks (superblock r))"
  shows "ReadRegion (reader_pread (reload m r)) region = Inr new"
proof -
  let ?n = "unat (block_count region)"
  have old: "length old = ?n * 4096" "\<And>i. i < ?n \<Longrightarrow> reader_pread r (region_start region + i) = Inr (BitmapBlock old i)"
    using assms(4) ReadRegion_iff [OF assms(2,6)] by auto
  have "reader_pread (reload m r) (region_start region + i) = Inr (BitmapBlock new i)" if i: "i < ?n" for i
  proof -
    have u: "region_start region + i = unat (start_block region + of_nat i)"
      unfolding region_start_def using i assms(6) u32_bound [of "total_blocks (superblock r)"]
      by (subst unat_add_of_nat) (simp_all add: region_end_def)
    show ?thesis
      using assms(5) i old(2) [OF i] unfolding u region_update_def reload_fields apply_images_map_of
      by (auto split: option.splits)
  qed
  then show ?thesis
    using ReadRegion_iff [OF reload_blocks_readable [OF assms(2,3)], of region new] assms(5,6) old(1)
    by (simp add: region_update_def)
qed

lemma reload_bitmaps:
  assumes "reader_ok r" "blocks_readable r" "bitmaps_synced r" "image_update r m ib bb"
  shows "inode_bitmap_bytes (reload m r) = ib" "block_bitmap_bytes (reload m r) = bb"
    "blocks_readable (reload m r)" "bitmaps_synced (reload m r)"
proof -
  have c: "\<forall>(b, c) \<in> set m. length c = kBlockSize" using assms(4) by (auto simp: image_update_def)
  have "ReadRegion (reader_pread (reload m r)) (inode_bitmap (superblock r)) = Inr ib"
    "ReadRegion (reader_pread (reload m r)) (block_bitmap (superblock r)) = Inr bb"
    using assms(3,4) volume_regions(1,2,4) [OF assms(1)]
      reload_region [OF assms(1,2) c, of "inode_bitmap (superblock r)" "inode_bitmap_bytes r" ib]
      reload_region [OF assms(1,2) c, of "block_bitmap (superblock r)" "block_bitmap_bytes r" bb]
    unfolding bitmaps_synced_def image_update_def by linarith+
  then show "inode_bitmap_bytes (reload m r) = ib" "block_bitmap_bytes (reload m r) = bb"
    "bitmaps_synced (reload m r)"
    by (simp_all add: reload_def Let_def region_bytes_def bitmaps_synced_def)
  show "blocks_readable (reload m r)" by (rule reload_blocks_readable [OF assms(2) c])
qed

lemma reload_read:
  assumes "reader_ok r" "blocks_readable r" "image_update r m ib bb" "map_of m b = Some c" "q + k \<le> 4096" "q < 4096"
  shows "ReadExact (reload m r) (unat b * 4096 + q) k = Inr (get_bytes q k c)" "length c = 4096"
proof -
  have m: "length c = 4096" "unat b < unat (total_blocks (superblock r))"
    using assms(3) map_of_SomeD [OF assms(4)] by (auto simp: image_update_def)
  have "(unat b * 4096 + q) div 4096 = unat b" "(unat b * 4096 + q) mod 4096 = q" using assms(6) by simp_all
  moreover have "unat b * 4096 + 4096 \<le> reader_image_size r" using m(2) reader_ok_facts(2) [OF assms(1)] by simp
  ultimately show "ReadExact (reload m r) (unat b * 4096 + q) k = Inr (get_bytes q k c)"
    using m(1) assms(4-6) by (simp add: ReadExact_def apply_images_map_of)
  show "length c = 4096" by (rule m(1))
qed

section \<open>Transactions on a volume\<close>

lemma file_blocks_ok:
  assumes "ReadInode r n = Inr i" "x \<in> file_blocks r i"
  obtains b where "x = unat b" "file_block_ok r b"
proof -
  have ok: "inode_ok r i" by (rule ReadInode_ok(1) [OF assms(1)])
  then have "indirect_block i \<noteq> 0 \<Longrightarrow> file_block_ok r (indirect_block i)" by (auto simp: inode_ok_def split: if_splits)
  then show ?thesis using that assms(2) ok by (auto simp: file_blocks_def map_blocks_def inode_ok_def split: if_splits)
qed

text \<open>
  What the planners guarantee of the images of a transaction that changes the inodes
  \<^term>\<open>C\<close>, takes the bits \<^term>\<open>I\<close> of the inode bitmap and \<^term>\<open>N\<close> of the block bitmap, and gives
  back the blocks \<^term>\<open>G\<close>.
\<close>

definition owned_by :: "u32 set \<Rightarrow> ImageReader \<Rightarrow> nat \<Rightarrow> bool" where
  "owned_by C r x \<longleftrightarrow> (\<exists>n \<in> C. \<exists>i. ReadInode r n = Inr i \<and> x \<in> file_blocks r i)"

definition transaction_step ::
  "u32 set \<Rightarrow> ImageReader \<Rightarrow> block_map \<Rightarrow> bytes \<Rightarrow> bytes \<Rightarrow> nat set \<Rightarrow> nat set \<Rightarrow> nat set \<Rightarrow> bool" where
  "transaction_step C r m ib bb I N G \<longleftrightarrow> image_update r m ib bb
    \<and> (\<forall>i. TestBit ib i \<longleftrightarrow> TestBit (inode_bitmap_bytes r) i \<or> i \<in> I)
    \<and> (\<forall>i. TestBit bb i \<longleftrightarrow> (TestBit (block_bitmap_bytes r) i \<or> i \<in> N) \<and> i \<notin> G)
    \<and> (\<forall>n. 1 \<le> n \<and> unat (n - 1) \<in> I \<longrightarrow> n \<in> C)
    \<and> (\<forall>g \<in> G. owned_by C r g)
    \<and> (\<forall>b \<in> keys m. region_start (data (superblock r)) \<le> unat b \<longrightarrow> \<not> IsBlockAllocated r b \<or> owned_by C r (unat b))
    \<and> (\<forall>n c. n \<notin> C \<and> 1 \<le> unat n \<and> unat n \<le> unat (total_inodes (superblock r))
         \<and> map_of m (InodeTableBlock (superblock r) n) = Some c
         \<longrightarrow> (\<exists>old. ReadBlock r (InodeTableBlock (superblock r) n) = Inr old
               \<and> get_bytes (InodeOffsetInBlock n) 128 c = get_bytes (InodeOffsetInBlock n) 128 old))"

lemma transaction_later:
  assumes "volume_ok r" "transaction_step C r m ib bb I N G"
  shows "later (unat ` keys m) G r (reload m r)"
proof -
  note v = volume_okD [OF assms(1)]
  have u: "image_update r m ib bb" using assms(2) by (simp add: transaction_step_def)
  note b = reload_bitmaps [OF v(1-3) u]
  show ?thesis
    using assms(2) unfolding later_def IsInodeAllocated_def IsBlockAllocated_def b(1,2) BitmapBit_TestBit transaction_step_def
    by (auto simp: apply_images_other)
qed

lemma transaction_inode_record:
  assumes "volume_ok r" "transaction_step C r m ib bb I N G" "n \<notin> C" "ReadInode r n = Inr i"
  shows "ReadExact (reload m r) (inode_offset r n) kInodeRecordSize = ReadExact r (inode_offset r n) kInodeRecordSize"
proof -
  note v = volume_okD [OF assms(1)]
  have u: "image_update r m ib bb" using assms(2) by (simp add: transaction_step_def)
  have "IsInodeAllocated r n" by (rule ReadInode_ok(2) [OF assms(4)])
  then have n: "1 \<le> unat n" "unat n \<le> unat (total_inodes (superblock r))"
    by (simp_all add: IsInodeAllocated_def word_le_nat_alt)
  note p = inode_position [OF v(1) n]
  let ?t = "InodeTableBlock (superblock r) n"
  have q: "InodeOffsetInBlock n < 4096" using p(2) by simp
  have tot: "unat ?t < unat (total_blocks (superblock r))" using p(4) volume_regions(3,4) [OF v(1)] by linarith
  show ?thesis
  proof (cases "map_of m ?t")
    case None
    then have "unat ?t \<notin> unat ` keys m" by (auto simp: in_keys_iff dest!: word_unat_eq_iff [THEN iffD2])
    moreover have "inode_offset r n div 4096 = unat ?t" unfolding p(1) using q by simp
    ultimately show ?thesis using ReadExact_later [OF transaction_later [OF assms(1,2)]] by simp
  next
    case (Some c)
    then obtain old where old: "ReadBlock r ?t = Inr old"
      "get_bytes (InodeOffsetInBlock n) 128 c = get_bytes (InodeOffsetInBlock n) 128 old"
      using assms(2,3) n unfolding transaction_step_def by blast
    obtain b where b: "reader_pread r (unat ?t) = Inr b" "ReadBlock r ?t = Inr b" using ReadBlock_whole [OF v(1,2) tot] by auto
    obtain b' where "reader_pread r (unat ?t) = Inr b'"
      "ReadExact r (unat ?t * 4096 + InodeOffsetInBlock n) 128 = Inr (get_bytes (InodeOffsetInBlock n) 128 b')"
      using ReadExact_block [OF v(1,2) tot p(2) q] by auto
    then show ?thesis
      unfolding p(1) using reload_read(1) [OF v(1,2) u Some p(2) q] old b by simp
  qed
qed

lemma transaction_changes:
  assumes "volume_ok r" "transaction_step C r m ib bb I N G"
  shows "changes_only C (unat ` keys m) G r (reload m r)"
  unfolding changes_only_def
proof (intro conjI allI impI)
  note v = volume_okD [OF assms(1)]
  have u: "image_update r m ib bb" using assms(2) by (simp add: transaction_step_def)
  note bits = reload_bitmaps [OF v(1-3) u]
  show "later (unat ` keys m) G r (reload m r)" by (rule transaction_later [OF assms])
  fix n assume "IsInodeAllocated (reload m r) n"
  then show "IsInodeAllocated r n \<or> n \<in> C"
    using assms(2) unfolding IsInodeAllocated_def bits(1) BitmapBit_TestBit transaction_step_def by auto
next
  note v = volume_okD [OF assms(1)]
  fix n i assume n: "n \<notin> C \<and> ReadInode r n = Inr i"
  have excl: "\<not> owned_by C r x" if "x \<in> file_blocks r i" for x
    using v(6) [of n i] n that unfolding owned_by_def by fastforce
  show "file_blocks r i \<inter> unat ` keys m = {}"
  proof (rule ccontr)
    assume "file_blocks r i \<inter> unat ` keys m \<noteq> {}"
    then obtain x b where x: "x \<in> file_blocks r i" "b \<in> keys m" "x = unat b" by auto
    then obtain b' where "x = unat b'" "file_block_ok r b'" using file_blocks_ok n by blast
    then have "file_block_ok r b" using x(3) by (simp add: word_unat_eq_iff [symmetric])
    then show False using assms(2) x excl [OF x(1)]
      by (auto simp: transaction_step_def file_block_ok_def region_start_def word_le_nat_alt)
  qed
  show "file_blocks r i \<inter> G = {}" using assms(2) excl by (auto simp: transaction_step_def)
  show "ReadExact (reload m r) (inode_offset r n) kInodeRecordSize = ReadExact r (inode_offset r n) kInodeRecordSize"
    using transaction_inode_record [OF assms] n by blast
qed

lemma transaction_reader_ok:
  assumes "volume_ok r" "transaction_step C r m ib bb I N G"
    and "ReadInode (reload m r) (root_inode (superblock r)) = Inr root" "S_ISDIR (mode root)"
  shows "reader_ok (reload m r)"
proof -
  note v = volume_okD [OF assms(1)]
  have u: "image_update r m ib bb" using assms(2) by (simp add: transaction_step_def)
  note bits = reload_bitmaps [OF v(1-3) u]
  have l: "length ib = length (inode_bitmap_bytes r)" "length bb = length (block_bitmap_bytes r)"
    using u by (auto simp: image_update_def region_update_def)
  have g: "region_start (data (superblock r)) \<le> x \<and> x < unat (total_blocks (superblock r))" if "x \<in> G" for x
  proof -
    have "owned_by C r x" using assms(2) that by (auto simp: transaction_step_def)
    then obtain b where "x = unat b" "file_block_ok r b" unfolding owned_by_def using file_blocks_ok by metis
    then show ?thesis by (simp add: file_block_ok_def region_start_def word_le_nat_alt word_less_nat_alt)
  qed
  have t: "TestBit ib i" if "TestBit (inode_bitmap_bytes r) i" for i using assms(2) that by (simp add: transaction_step_def)
  have t': "TestBit bb i" if "TestBit (block_bitmap_bytes r) i" "i \<notin> G" for i using assms(2) that by (simp add: transaction_step_def)
  show ?thesis
    using v(1) assms(3,4) l g t t' unfolding reader_ok_def IsBlockAllocated_def bits(1,2) BitmapBit_TestBit reload_fields
    by (fastforce simp: word_less_nat_alt region_start_def)
qed

end
