(* ===== verification/FileMutation.thy ===== *)
theory FileMutation
  imports Planning
begin

text \<open>
  Changing the contents of a file (\<^verbatim>\<open>src/src/metadata/file_mutation_plan.{h,cpp}\<close>,
  \<^verbatim>\<open>file_write_plan.cpp\<close>, \<^verbatim>\<open>object_replace_plan.cpp\<close>): a write of a byte range or a full
  replacement is planned as a transaction that puts all new contents into free blocks and
  publishes them with the inode, the bitmap and the indirect block.
\<close>

section \<open>Data\<close>

record FileMutationPlan =
  mutation_inode_number :: u32
  old_generation :: u64
  new_generation :: u64
  old_size :: u64
  new_size :: u64
  old_data_blocks :: "u32 list"
  new_data_blocks :: "u32 list"
  old_indirect_block :: u32
  new_indirect_block :: u32
  mutation_total_blocks :: u32
  mutation_uuid :: bytes
  mutation_before :: block_map
  mutation_ordered :: block_map
  mutation_metadata :: block_map

datatype FileMutationMode = kWriteRange | kReplaceAll

record FileMutationRequest =
  request_mode :: FileMutationMode
  request_offset :: u64
  request_data :: bytes
  request_timestamp_ns :: u64
  expected_generation :: u64

section \<open>Steps\<close>

fun LoadMappingFrom :: "ImageReader \<Rightarrow> InodeRecord \<Rightarrow> nat list \<Rightarrow> errno + u32 list" where
  "LoadMappingFrom r inode [] = Inr []"
| "LoadMappingFrom r inode (logical # rest) =
    bind_result (MapLogicalBlock r inode (of_nat logical)) (\<lambda>physical.
    bind_result (LoadMappingFrom r inode rest) (\<lambda>mapping. Inr (physical # mapping)))"

definition LoadMapping :: "ImageReader \<Rightarrow> InodeRecord \<Rightarrow> errno + u32 list" where
  "LoadMapping r inode = LoadMappingFrom r inode [0..<unat (PlanRequiredBlocks (file_size inode))]"

definition ZeroRange :: "u64 \<Rightarrow> u64 \<Rightarrow> u64 \<Rightarrow> bytes \<Rightarrow> bytes" where
  "ZeroRange range_begin range_end block_begin block =
    (let overlap_begin = max range_begin block_begin;
         overlap_end = min range_end (block_begin + 4096)
     in
     if overlap_begin < overlap_end
       then put_bytes (unat (overlap_begin - block_begin)) (replicate (unat (overlap_end - overlap_begin)) 0) block
     else block)"

definition OverlayData :: "u64 \<Rightarrow> u64 \<Rightarrow> u64 \<Rightarrow> bytes \<Rightarrow> bytes \<Rightarrow> bytes" where
  "OverlayData write_begin write_end block_begin payload block =
    (let overlap_begin = max write_begin block_begin;
         overlap_end = min write_end (block_begin + 4096)
     in
     if overlap_begin \<ge> overlap_end then block
     else put_bytes (unat (overlap_begin - block_begin))
       (get_bytes (unat (overlap_begin - write_begin)) (unat (overlap_end - overlap_begin)) payload) block)"

definition AddOrderedBlock ::
  "ImageReader \<Rightarrow> bytes \<Rightarrow> AllocatorState \<Rightarrow> FileMutationPlan \<Rightarrow> errno + AllocatorState \<times> FileMutationPlan \<times> u32" where
  "AddOrderedBlock r after allocator plan =
    bind_result (ReserveBlock allocator) (\<lambda>(allocator, physical).
    bind_result (ReadBlock r physical) (\<lambda>before.
    Inr (allocator,
         plan\<lparr>mutation_before := map_put physical before (mutation_before plan),
              mutation_ordered := map_put physical after (mutation_ordered plan)\<rparr>,
         physical)))"

text \<open>The new contents of one block of a full replacement and of a range write.\<close>

definition ReplaceBlock :: "bytes \<Rightarrow> nat \<Rightarrow> bytes" where
  "ReplaceBlock payload logical =
    (let source = logical * kBlockSize;
         count = min kBlockSize (length payload - source)
     in put_bytes 0 (get_bytes source count payload) (replicate kBlockSize 0))"

definition RangeBlock :: "ImageReader \<Rightarrow> u64 \<Rightarrow> FileMutationRequest \<Rightarrow> u32 list \<Rightarrow> nat \<Rightarrow> errno + bytes" where
  "RangeBlock r inode_size request old_mapping logical =
    (let offset = request_offset request;
         write_end = offset + of_nat (length (request_data request));
         block_begin = of_nat logical * 4096;
         covers_whole = (offset \<le> block_begin \<and> write_end \<ge> block_begin + 4096)
     in
     bind_result
       (if logical < unat (PlanRequiredBlocks inode_size) \<and> \<not> covers_whole
          then ReadBlock r (old_mapping ! logical) else Inr (replicate kBlockSize 0))
       (\<lambda>after.
         let after = (if offset > inode_size then ZeroRange inode_size offset block_begin after else after)
         in Inr (OverlayData offset write_end block_begin (request_data request) after)))"

fun ReplaceLoop ::
  "ImageReader \<Rightarrow> bytes \<Rightarrow> nat list \<Rightarrow> AllocatorState \<Rightarrow> FileMutationPlan \<Rightarrow> u32 list
    \<Rightarrow> errno + AllocatorState \<times> FileMutationPlan \<times> u32 list" where
  "ReplaceLoop r payload [] allocator plan mapping = Inr (allocator, plan, mapping)"
| "ReplaceLoop r payload (logical # rest) allocator plan mapping =
    bind_result (AddOrderedBlock r (ReplaceBlock payload logical) allocator plan) (\<lambda>(allocator, plan, physical).
    ReplaceLoop r payload rest allocator plan (mapping[logical := physical]))"

text \<open>\<open>released\<close> is a \<^verbatim>\<open>std::set\<close>, kept as a sorted list.\<close>

fun RangeLoop ::
  "ImageReader \<Rightarrow> u64 \<Rightarrow> FileMutationRequest \<Rightarrow> u32 list \<Rightarrow> nat list \<Rightarrow> AllocatorState \<Rightarrow> FileMutationPlan
    \<Rightarrow> u32 list \<Rightarrow> u32 list \<Rightarrow> errno + AllocatorState \<times> FileMutationPlan \<times> u32 list \<times> u32 list" where
  "RangeLoop r inode_size request old_mapping [] allocator plan mapping released =
    Inr (allocator, plan, mapping, released)"
| "RangeLoop r inode_size request old_mapping (logical # rest) allocator plan mapping released =
    bind_result (RangeBlock r inode_size request old_mapping logical) (\<lambda>after.
    bind_result (AddOrderedBlock r after allocator plan) (\<lambda>(allocator, plan, physical).
    RangeLoop r inode_size request old_mapping rest allocator plan (mapping[logical := physical])
      (if logical < unat (PlanRequiredBlocks inode_size) then insort_insert (old_mapping ! logical) released
       else released)))"

fun ReleaseBlocks :: "AllocatorState \<Rightarrow> u32 list \<Rightarrow> errno + AllocatorState" where
  "ReleaseBlocks allocator [] = Inr allocator"
| "ReleaseBlocks allocator (block # rest) =
    bind_result (ReleaseAllocated allocator block) (\<lambda>allocator. ReleaseBlocks allocator rest)"

fun MutationBitmapImages ::
  "Region \<Rightarrow> bytes \<Rightarrow> bytes \<Rightarrow> nat list \<Rightarrow> FileMutationPlan \<Rightarrow> FileMutationPlan" where
  "MutationBitmapImages region before after [] plan = plan"
| "MutationBitmapImages region before after (local # rest) plan =
    MutationBitmapImages region before after rest
      (if BitmapBlock before local \<noteq> BitmapBlock after local then
         let home = start_block region + of_nat local
         in plan\<lparr>mutation_before := map_put home (BitmapBlock before local) (mutation_before plan),
                 mutation_metadata := map_put home (BitmapBlock after local) (mutation_metadata plan)\<rparr>
       else plan)"

definition IndirectImage :: "u32 list \<Rightarrow> nat \<Rightarrow> bytes" where
  "IndirectImage mapping count =
    fold (\<lambda>logical. PutLe32 ((logical - 12) * 4) (mapping ! logical)) [12..<count] (replicate kBlockSize 0)"

definition MutatedInode :: "InodeRecord \<Rightarrow> u64 \<Rightarrow> u64 \<Rightarrow> u32 list \<Rightarrow> u32 \<Rightarrow> InodeRecord" where
  "MutatedInode inode new_length timestamp mapping new_indirect =
    (let new_count = unat (PlanRequiredBlocks new_length)
     in inode\<lparr>file_size := new_length, mtime_ns := timestamp, ctime_ns := timestamp,
          generation := generation inode + 1,
          direct_blocks := take 12 mapping @ replicate (12 - new_count) 0,
          indirect_block := (if new_count > 12 then new_indirect else 0)\<rparr>)"

section \<open>The planner\<close>

text \<open>The choice of the new blocks: the loops over the logical blocks with what they release.\<close>

definition MutateBlocks ::
  "ImageReader \<Rightarrow> InodeRecord \<Rightarrow> FileMutationRequest \<Rightarrow> u32 list \<Rightarrow> u32 \<Rightarrow> AllocatorState \<Rightarrow> FileMutationPlan
    \<Rightarrow> errno + AllocatorState \<times> FileMutationPlan \<times> u32 list \<times> u32 list \<times> u32" where
  "MutateBlocks r inode request old_mapping new_count allocator candidate =
    (if request_mode request = kReplaceAll then
       bind_result (ReplaceLoop r (request_data request) [0..<unat new_count] allocator candidate
           (replicate (unat new_count) 0)) (\<lambda>(allocator, plan, mapping).
       Inr (allocator, plan, mapping, fold insort_insert old_mapping [], if new_count = 0 then 0 else new_count - 1))
     else
       let write_end = request_offset request + of_nat (length (request_data request));
           changed_begin = min (file_size inode) (request_offset request);
           first_changed = ucast (changed_begin div 4096) :: u32;
           last_changed = ucast ((write_end - 1) div 4096) :: u32
       in
       bind_result (RangeLoop r (file_size inode) request old_mapping [unat first_changed..<unat last_changed + 1]
           allocator candidate (old_mapping @ replicate (unat new_count - length old_mapping) 0) [])
         (\<lambda>(allocator, plan, mapping, released). Inr (allocator, plan, mapping, released, last_changed)))"

text \<open>Everything after the choice of the data blocks.\<close>

definition FinishMutation ::
  "ImageReader \<Rightarrow> InodeRecord \<Rightarrow> FileMutationRequest \<Rightarrow> u64 \<Rightarrow> bytes
    \<Rightarrow> AllocatorState \<times> FileMutationPlan \<times> u32 list \<times> u32 list \<times> u32 \<Rightarrow> errno + FileMutationPlan" where
  "FinishMutation r inode request new_length bitmap_before state =
    (let (allocator, plan, mapping, released, last_changed) = state;
         sb = superblock r;
         number = mutation_inode_number plan;
         replace_all = (request_mode request = kReplaceAll);
         new_count = PlanRequiredBlocks new_length;
         changes_indirect = (new_count > 12 \<and> (replace_all \<or> indirect_block inode = 0 \<or> last_changed \<ge> 12))
     in
     bind_result
       (if changes_indirect then ReserveBlock allocator
        else Inr (allocator, if replace_all then 0 else indirect_block inode))
       (\<lambda>(allocator, new_indirect).
         let released = (if indirect_block inode \<noteq> 0 \<and> (replace_all \<or> changes_indirect)
               then insort_insert (indirect_block inode) released else released)
         in
         bind_result (ReleaseBlocks allocator released) (\<lambda>allocator.
           let plan = MutationBitmapImages (block_bitmap sb) bitmap_before (Snapshot allocator)
                 [0..<unat (block_count (block_bitmap sb))] plan
           in
           bind_result
             (if changes_indirect then
                bind_result (ReadBlock r new_indirect) (\<lambda>indirect_before.
                Inr (plan\<lparr>mutation_before := map_put new_indirect indirect_before (mutation_before plan),
                     mutation_metadata := map_put new_indirect (IndirectImage mapping (unat new_count))
                       (mutation_metadata plan)\<rparr>))
              else Inr plan)
             (\<lambda>plan.
               let table = InodeTableBlock sb number
               in
               bind_result (ReadBlock r table) (\<lambda>inode_before.
                 let inode' = MutatedInode inode new_length (request_timestamp_ns request) mapping new_indirect
                 in
                 case EncodeInode inode' of
                   Inl _ \<Rightarrow> Inl EUCLEAN
                 | Inr inode_bytes \<Rightarrow>
                   Inr (plan\<lparr>mutation_before := map_put table inode_before (mutation_before plan),
                        mutation_metadata := map_put table
                          (put_bytes (InodeOffsetInBlock number) inode_bytes inode_before) (mutation_metadata plan),
                        new_data_blocks := mapping,
                        new_indirect_block := indirect_block inode'\<rparr>))))))"

definition PrepareFileMutation :: "ImageReader \<Rightarrow> u32 \<Rightarrow> FileMutationRequest \<Rightarrow> errno + FileMutationPlan" where
  "PrepareFileMutation r number request =
    (let offset = request_offset request;
         payload = request_data request;
         replace_all = (request_mode request = kReplaceAll)
     in
     if number = 0 then Inl EINVAL
     else if \<not> replace_all \<and> payload = [] then Inl EINVAL
     else if offset > kMaxFileSize \<or> length payload > unat (kMaxFileSize - offset) then Inl EFBIG
     else bind_result (ReadInode r number) (\<lambda>inode.
       if \<not> S_ISREG (mode inode) then Inl (if S_ISDIR (mode inode) then EISDIR else EINVAL)
       else if replace_all \<and> generation inode \<noteq> expected_generation request then Inl ESTALE
       else if generation inode = 0xFFFFFFFFFFFFFFFF then Inl EOVERFLOW
       else bind_result (LoadMapping r inode) (\<lambda>old_mapping.
         if \<not> distinct old_mapping \<or> indirect_block inode \<noteq> 0 \<and> indirect_block inode \<in> set old_mapping
           then Inl EUCLEAN
         else
           let sb = superblock r
           in
           bind_result (LoadRegion r (block_bitmap sb)) (\<lambda>bitmap.
             let allocator = \<lparr>bitmap_of = bitmap, valid_bits = total_blocks sb,
                   first_allocatable_bit = start_block (data sb)\<rparr>
             in
             case AllocatorValidate allocator of
               Inl _ \<Rightarrow> Inl EUCLEAN
             | Inr _ \<Rightarrow>
               let write_end = offset + of_nat (length payload);
                   new_length = (if replace_all then of_nat (length payload) else max (file_size inode) write_end);
                   new_count = PlanRequiredBlocks new_length;
                   candidate = \<lparr>mutation_inode_number = number, old_generation = generation inode,
                     new_generation = generation inode + 1, old_size = file_size inode, new_size = new_length,
                     old_data_blocks = old_mapping, new_data_blocks = [],
                     old_indirect_block = indirect_block inode, new_indirect_block = 0,
                     mutation_total_blocks = total_blocks sb, mutation_uuid = filesystem_uuid sb,
                     mutation_before = [], mutation_ordered = [], mutation_metadata = []\<rparr>
               in
               bind_result (MutateBlocks r inode request old_mapping new_count allocator candidate)
                 (FinishMutation r inode request new_length bitmap)))))"

text \<open>The two entry points.\<close>

definition PrepareFileWrite :: "ImageReader \<Rightarrow> u32 \<Rightarrow> u64 \<Rightarrow> bytes \<Rightarrow> u64 \<Rightarrow> errno + FileMutationPlan" where
  "PrepareFileWrite r number offset payload timestamp =
    (if payload = [] then Inl EINVAL
     else PrepareFileMutation r number \<lparr>request_mode = kWriteRange, request_offset = offset, request_data = payload,
       request_timestamp_ns = timestamp, expected_generation = 0\<rparr>)"

definition PrepareObjectReplace :: "ImageReader \<Rightarrow> u32 \<Rightarrow> u64 \<Rightarrow> bytes \<Rightarrow> u64 \<Rightarrow> errno + FileMutationPlan" where
  "PrepareObjectReplace r number expected payload timestamp =
    PrepareFileMutation r number \<lparr>request_mode = kReplaceAll, request_offset = 0, request_data = payload,
      request_timestamp_ns = timestamp, expected_generation = expected\<rparr>"

section \<open>The loops over the data blocks\<close>

text \<open>Both loops add one ordered block after the other; they differ in the contents.\<close>

fun ordered_loop ::
  "ImageReader \<Rightarrow> (nat \<Rightarrow> errno + bytes) \<Rightarrow> nat list \<Rightarrow> AllocatorState \<Rightarrow> FileMutationPlan \<Rightarrow> u32 list
    \<Rightarrow> errno + AllocatorState \<times> FileMutationPlan \<times> u32 list" where
  "ordered_loop r content [] a plan mapping = Inr (a, plan, mapping)"
| "ordered_loop r content (l # ls) a plan mapping =
    bind_result (content l) (\<lambda>after.
    bind_result (AddOrderedBlock r after a plan) (\<lambda>(a, plan, p).
    ordered_loop r content ls a plan (mapping[l := p])))"

lemma ReplaceLoop_ordered:
  "ReplaceLoop r payload ls a plan mapping = ordered_loop r (\<lambda>l. Inr (ReplaceBlock payload l)) ls a plan mapping"
  by (induction ls arbitrary: a plan mapping) (simp_all add: case_prod_unfold)

lemma RangeLoop_ordered:
  "RangeLoop r sz request old ls a plan mapping released =
    bind_result (ordered_loop r (RangeBlock r sz request old) ls a plan mapping) (\<lambda>(a, plan, mapping).
    Inr (a, plan, mapping, fold insort_insert
      (map ((!) old) (filter (\<lambda>l. l < unat (PlanRequiredBlocks sz)) ls)) released))"
proof (induction ls arbitrary: a plan mapping released)
  case (Cons l ls)
  show ?case
  proof (cases "RangeBlock r sz request old l")
    case (Inr after)
    then show ?thesis using Cons by (cases "AddOrderedBlock r after a plan") (auto simp: case_prod_unfold)
  qed simp
qed simp

text \<open>Several assignments to an image map, and to a list of pointers.\<close>

definition puts :: "(u32 \<times> bytes) list \<Rightarrow> block_map \<Rightarrow> block_map" where
  "puts kvs m = fold (\<lambda>(k, v). map_put k v) kvs m"

lemma puts_simps [simp]: "puts [] m = m" "puts ((k, v) # kvs) m = puts kvs (map_put k v m)"
  by (simp_all add: puts_def)

lemma keys_puts [simp]: "keys (puts kvs m) = fst ` set kvs \<union> keys m"
  by (induction kvs arbitrary: m) force+

lemma sorted_puts: "sorted_wrt (<) (map fst m) \<Longrightarrow> sorted_wrt (<) (map fst (puts kvs m))"
  by (induction kvs arbitrary: m) (auto simp: sorted_map_put)

lemma map_of_puts:
  assumes "sorted_wrt (<) (map fst m)" "distinct (map fst kvs)"
  shows "map_of (puts kvs m) k = (case map_of kvs k of None \<Rightarrow> map_of m k | Some v \<Rightarrow> Some v)"
  using assms
proof (induction kvs arbitrary: m)
  case (Cons x kvs)
  obtain a b where x: "x = (a, b)" by fastforce
  have "map_of kvs a = None" using Cons.prems(2) by (simp add: x map_of_eq_None_iff)
  then show ?case
    using Cons.IH [OF sorted_map_put [OF Cons.prems(1)], of a b] Cons.prems
    by (auto simp: x map_of_map_put split: option.splits)
qed simp

lemma ordered_loop_result:
  assumes "ordered_loop r content ls a plan mapping = Inr (a', plan', mapping')"
  shows "\<exists>ps. length ps = length ls \<and> reserve_seq a ps a' \<and> (\<forall>l \<in> set ls. \<not> isl (content l))
    \<and> (\<forall>p \<in> set ps. \<not> isl (ReadBlock r p))
    \<and> plan' = plan\<lparr>mutation_before := puts (map (\<lambda>p. (p, projr (ReadBlock r p))) ps) (mutation_before plan),
        mutation_ordered := puts (zip ps (map (\<lambda>l. projr (content l)) ls)) (mutation_ordered plan)\<rparr>
    \<and> mapping' = fold (\<lambda>(l, p) m. m[l := p]) (zip ls ps) mapping"
  using assms
proof (induction ls arbitrary: a plan mapping)
  case (Cons l ls)
  from Cons.prems obtain after a1 p b where c: "content l = Inr after" "ReserveBlock a = Inr (a1, p)" "ReadBlock r p = Inr b"
    and rest: "ordered_loop r content ls a1 (plan\<lparr>mutation_before := map_put p b (mutation_before plan),
        mutation_ordered := map_put p after (mutation_ordered plan)\<rparr>) (mapping[l := p]) = Inr (a', plan', mapping')"
    by (auto simp: bind_result_Inr_iff AddOrderedBlock_def)
  from Cons.IH [OF rest] obtain ps where ps: "length ps = length ls" "reserve_seq a1 ps a'" "\<forall>l \<in> set ls. \<not> isl (content l)"
    "\<forall>p \<in> set ps. \<not> isl (ReadBlock r p)"
    "plan' = plan\<lparr>mutation_before := puts (map (\<lambda>p. (p, projr (ReadBlock r p))) ps) (map_put p b (mutation_before plan)),
        mutation_ordered := puts (zip ps (map (\<lambda>l. projr (content l)) ls)) (map_put p after (mutation_ordered plan))\<rparr>"
    "mapping' = fold (\<lambda>(l, p) m. m[l := p]) (zip ls ps) (mapping[l := p])" by auto
  show ?case by (rule exI [of _ "p # ps"]) (use ps c in simp)
qed simp

lemma fold_update_range:
  assumes "f + length ps \<le> length m"
  shows "fold (\<lambda>(l, p) m. m[l := p]) (zip [f..<f + length ps] ps) m = take f m @ ps @ drop (f + length ps) m"
  using assms
proof (induction ps arbitrary: f m)
  case (Cons p ps)
  have z: "zip [f..<f + length (p # ps)] (p # ps) = (f, p) # zip [Suc f..<Suc f + length ps] ps" by (simp add: upt_conv_Cons del: upt_Suc)
  have "take (Suc f) (m[f := p]) = take f m @ [p]" using Cons.prems by (simp add: take_Suc_conv_app_nth)
  then show ?case unfolding z using Cons.IH [of "Suc f" "m[f := p]"] Cons.prems by simp
qed simp

lemma set_fold_insort_insert: "set (fold insort_insert xs ys) = set xs \<union> set (ys :: u32 list)"
  by (induction xs arbitrary: ys) (auto simp: set_insort_insert)

lemma distinct_fold_insort_insert: "distinct ys \<Longrightarrow> distinct (fold insort_insert xs (ys :: u32 list))"
  by (induction xs arbitrary: ys) (auto simp: distinct_insort_insert)

lemma ReleaseBlocks_change:
  assumes "ReleaseBlocks a bs = Inr a'"
  shows "bits_change a a' {} (unat ` set bs)"
  using assms
proof (induction bs arbitrary: a)
  case (Cons b bs)
  then obtain a1 where "ReleaseAllocated a b = Inr a1" "ReleaseBlocks a1 bs = Inr a'" by (auto simp: bind_result_Inr_iff)
  with Cons.IH ReleaseAllocated_Inr(4) bits_change_trans show ?case by fastforce
qed (simp add: bits_change_def)

section \<open>Sizes\<close>

definition replaces :: "FileMutationRequest \<Rightarrow> bool" where
  "replaces request \<longleftrightarrow> request_mode request = kReplaceAll"

definition mutation_fits :: "FileMutationRequest \<Rightarrow> bool" where
  "mutation_fits request \<longleftrightarrow> request_offset request \<le> kMaxFileSize
    \<and> length (request_data request) \<le> unat (kMaxFileSize - request_offset request)
    \<and> (replaces request \<or> request_data request \<noteq> [])"

definition mutation_length :: "InodeRecord \<Rightarrow> FileMutationRequest \<Rightarrow> u64" where
  "mutation_length inode request = (if replaces request then of_nat (length (request_data request))
     else max (file_size inode) (request_offset request + of_nat (length (request_data request))))"

text \<open>The range of logical blocks that get new contents.\<close>

definition changed_from :: "InodeRecord \<Rightarrow> FileMutationRequest \<Rightarrow> nat" where
  "changed_from inode request = (if replaces request then 0
     else min (unat (file_size inode)) (unat (request_offset request)) div 4096)"

definition changed_to :: "InodeRecord \<Rightarrow> FileMutationRequest \<Rightarrow> nat" where
  "changed_to inode request = (if replaces request then (length (request_data request) + 4095) div 4096
     else (unat (request_offset request) + length (request_data request) + 4095) div 4096)"

lemma ceil_div_4096: "1 \<le> (n :: nat) \<Longrightarrow> (n + 4095) div 4096 = (n - 1) div 4096 + 1"
proof -
  assume "1 \<le> n"
  then have "n + 4095 = (n - 1) + 4096" by simp
  then show ?thesis by simp
qed

lemma unat_PlanRequiredBlocks:
  assumes "n \<le> kMaxFileSize"
  shows "unat (PlanRequiredBlocks n) = (unat n + 4095) div 4096"
proof (cases "n = 0")
  case False
  have n: "unat n \<le> 4243456" using assms by (simp add: kMaxFileSize_def word_le_nat_alt)
  have p: "1 \<le> unat n" using False by (simp add: Suc_le_eq unat_gt_0)
  then have s: "unat (n - 1) = unat n - 1" by (subst unat_sub) (simp_all add: word_le_nat_alt)
  have d: "unat ((n - 1) div 4096) = (unat n - 1) div 4096" by (simp add: unat_div s)
  then have small: "unat ((n - 1) div 4096) \<le> 1036" using n by simp
  have "unat ((n - 1) div 4096 + 1) = unat ((n - 1) div 4096) + 1" using small by (subst unat_add_lem [THEN iffD1]) simp_all
  then have "unat (ucast ((n - 1) div 4096 + 1) :: u32) = unat ((n - 1) div 4096) + 1"
    using small by (subst unat_ucast_u32) simp_all
  then show ?thesis using False d ceil_div_4096 [OF p] by (simp add: PlanRequiredBlocks_def)
qed (simp add: PlanRequiredBlocks_def)

lemma PlanRequiredBlocks_inode:
  "file_size inode \<le> kMaxFileSize \<Longrightarrow> PlanRequiredBlocks (file_size inode) = RequiredBlocks inode"
  by (rule word_unat_eq_iff [THEN iffD2]) (simp only: unat_PlanRequiredBlocks unat_RequiredBlocks(1))

lemma mutation_sizes:
  assumes "mutation_fits request" "file_size inode \<le> kMaxFileSize"
  defines "off \<equiv> unat (request_offset request)" and "n \<equiv> length (request_data request)" and "s \<equiv> unat (file_size inode)"
  shows "off + n \<le> 4243456" "s \<le> 4243456" "unat (request_offset request + of_nat n) = off + n" "unat (of_nat n :: u64) = n"
    "unat (mutation_length inode request) = (if replaces request then n else max s (off + n))"
    "mutation_length inode request \<le> kMaxFileSize"
proof -
  have k: "unat (kMaxFileSize - request_offset request) = 4243456 - off"
    using assms(1) by (subst unat_sub) (simp_all add: mutation_fits_def off_def kMaxFileSize_def)
  have "off \<le> 4243456" using assms(1) by (simp add: mutation_fits_def off_def kMaxFileSize_def word_le_nat_alt)
  then show 1: "off + n \<le> 4243456" using assms(1) k unfolding mutation_fits_def n_def by linarith
  show 2: "s \<le> 4243456" using assms(2) by (simp add: s_def kMaxFileSize_def word_le_nat_alt)
  show 3: "unat (of_nat n :: u64) = n" using 1 by (simp add: unat_of_nat)
  show 4: "unat (request_offset request + of_nat n) = off + n"
    using 1 3 by (subst unat_add_lem [THEN iffD1]) (simp_all add: off_def)
  show 5: "unat (mutation_length inode request) = (if replaces request then n else max s (off + n))"
    using 3 4 by (simp add: mutation_length_def n_def s_def max_def word_le_nat_alt)
  show "mutation_length inode request \<le> kMaxFileSize"
    using 1 2 unfolding word_le_nat_alt 5 by (simp add: kMaxFileSize_def)
qed

lemma changed_range:
  assumes "mutation_fits request" "file_size inode \<le> kMaxFileSize"
  defines "f \<equiv> changed_from inode request" and "e \<equiv> changed_to inode request"
    and "old \<equiv> unat (RequiredBlocks inode)" and "new \<equiv> unat (PlanRequiredBlocks (mutation_length inode request))"
  shows "f \<le> e" "e \<le> new" "new \<le> 1036" "replaces request \<Longrightarrow> f = 0 \<and> e = new"
    "\<not> replaces request \<Longrightarrow> f \<le> old \<and> old \<le> new \<and> (e < new \<longrightarrow> new = old) \<and> f < e"
proof -
  let ?o = "unat (request_offset request)" and ?n = "length (request_data request)" and ?s = "unat (file_size inode)"
  note s = mutation_sizes [OF assms(1,2)]
  have new: "new = (if replaces request then (?n + 4095) div 4096 else (max ?s (?o + ?n) + 4095) div 4096)"
    unfolding new_def unat_PlanRequiredBlocks [OF s(6)] s(5) by simp
  have old: "old = (?s + 4095) div 4096" unfolding old_def by (rule unat_RequiredBlocks(1) [OF assms(2)])
  have mx: "(max ?s (?o + ?n) + 4095) div 4096 = max ((?s + 4095) div 4096) ((?o + ?n + 4095) div 4096)"
    using div_le_mono [of ?s "?o + ?n"] div_le_mono [of "?s + 4095" "?o + ?n + 4095" 4096]
      div_le_mono [of "?o + ?n + 4095" "?s + 4095" 4096] by (cases "?s \<le> ?o + ?n") (simp_all add: max_def)
  have lt: "min ?s ?o div 4096 < (?o + ?n + 4095) div 4096" if "\<not> replaces request"
  proof -
    have p: "1 \<le> ?o + ?n" using assms(1) that by (cases "request_data request") (auto simp: mutation_fits_def)
    have "?n > 0" using assms(1) that by (auto simp: mutation_fits_def)
    then have "min ?s ?o \<le> ?o + ?n - 1" by linarith
    from div_le_mono [OF this, of 4096] show ?thesis using ceil_div_4096 [OF p] by simp
  qed
  have le: "min ?s ?o div 4096 \<le> (?s + 4095) div 4096" by (intro div_le_mono) simp
  show "f = 0 \<and> e = new" if "replaces request" using that new by (simp add: f_def e_def changed_from_def changed_to_def)
  show "f \<le> e" using lt by (cases "replaces request") (simp_all add: f_def e_def changed_from_def changed_to_def)
  show "e \<le> new" using new mx by (simp add: e_def changed_to_def)
  show "new \<le> 1036" using s(1,2) new by (auto intro!: div_le_mono [of _ 4247551 4096, simplified])
  show "f \<le> old \<and> old \<le> new \<and> (e < new \<longrightarrow> new = old) \<and> f < e" if "\<not> replaces request"
    using that new old mx le lt by (auto simp: f_def e_def changed_from_def changed_to_def max_def split: if_splits)
qed

section \<open>The chosen blocks\<close>

definition block_image :: "ImageReader \<Rightarrow> InodeRecord \<Rightarrow> FileMutationRequest \<Rightarrow> u32 list \<Rightarrow> nat \<Rightarrow> errno + bytes" where
  "block_image r inode request old l = (if replaces request then Inr (ReplaceBlock (request_data request) l)
     else RangeBlock r (file_size inode) request old l)"

text \<open>The logical blocks that keep their old block.\<close>

definition kept_block :: "InodeRecord \<Rightarrow> FileMutationRequest \<Rightarrow> nat \<Rightarrow> bool" where
  "kept_block inode request l \<longleftrightarrow> l < unat (PlanRequiredBlocks (mutation_length inode request))
    \<and> \<not> (changed_from inode request \<le> l \<and> l < changed_to inode request)"

definition new_mapping_ok :: "InodeRecord \<Rightarrow> FileMutationRequest \<Rightarrow> u32 list \<Rightarrow> u32 list \<Rightarrow> u32 list \<Rightarrow> bool" where
  "new_mapping_ok inode request old ps mapping \<longleftrightarrow>
    length mapping = unat (PlanRequiredBlocks (mutation_length inode request))
    \<and> changed_from inode request + length ps = changed_to inode request
    \<and> (\<forall>l < length mapping. mapping ! l = (if kept_block inode request l then old ! l else ps ! (l - changed_from inode request)))"

definition with_data ::
  "ImageReader \<Rightarrow> InodeRecord \<Rightarrow> FileMutationRequest \<Rightarrow> u32 list \<Rightarrow> u32 list \<Rightarrow> FileMutationPlan \<Rightarrow> FileMutationPlan" where
  "with_data r inode request old ps cand =
    cand\<lparr>mutation_before := puts (map (\<lambda>p. (p, projr (ReadBlock r p))) ps) (mutation_before cand),
         mutation_ordered := puts (zip ps (map (\<lambda>l. projr (block_image r inode request old l))
           [changed_from inode request..<changed_to inode request])) (mutation_ordered cand)\<rparr>"

lemma kept_block_old:
  assumes "mutation_fits request" "file_size inode \<le> kMaxFileSize" "kept_block inode request l"
  shows "l < unat (RequiredBlocks inode)" "\<not> replaces request"
proof -
  note c = changed_range [OF assms(1,2)]
  show nr: "\<not> replaces request" using c(4) assms(3) by (auto simp: kept_block_def)
  show "l < unat (RequiredBlocks inode)"
  proof (cases "changed_to inode request \<le> l")
    case True
    then have "changed_to inode request < unat (PlanRequiredBlocks (mutation_length inode request))"
      using assms(3) by (simp add: kept_block_def)
    then show ?thesis using c(5) [OF nr] assms(3) by (simp add: kept_block_def)
  next
    case False
    then show ?thesis using c(5) [OF nr] assms(3) by (auto simp: kept_block_def)
  qed
qed

lemma loop_result:
  assumes loop: "ordered_loop r content [f..<e] a plan base = Inr (a', plan', mapping)"
    and "f \<le> e" "e \<le> length base"
  shows "\<exists>ps. f + length ps = e \<and> reserve_seq a ps a' \<and> (\<forall>l. f \<le> l \<and> l < e \<longrightarrow> \<not> isl (content l))
    \<and> (\<forall>p \<in> set ps. \<not> isl (ReadBlock r p))
    \<and> plan' = plan\<lparr>mutation_before := puts (map (\<lambda>p. (p, projr (ReadBlock r p))) ps) (mutation_before plan),
        mutation_ordered := puts (zip ps (map (\<lambda>l. projr (content l)) [f..<e])) (mutation_ordered plan)\<rparr>
    \<and> length mapping = length base
    \<and> (\<forall>l < length base. mapping ! l = (if f \<le> l \<and> l < e then ps ! (l - f) else base ! l))"
proof -
  from ordered_loop_result [OF loop] obtain ps where ps: "length ps = e - f" "reserve_seq a ps a'"
      "\<forall>l \<in> {f..<e}. \<not> isl (content l)" "\<forall>p \<in> set ps. \<not> isl (ReadBlock r p)"
      "plan' = plan\<lparr>mutation_before := puts (map (\<lambda>p. (p, projr (ReadBlock r p))) ps) (mutation_before plan),
        mutation_ordered := puts (zip ps (map (\<lambda>l. projr (content l)) [f..<e])) (mutation_ordered plan)\<rparr>"
      "mapping = fold (\<lambda>(l, p) m. m[l := p]) (zip [f..<e] ps) base"
    by auto
  have e: "f + length ps = e" using ps(1) assms(2) by simp
  have m: "mapping = take f base @ ps @ drop e base"
    using fold_update_range [of f ps base] assms(3) ps(6) e by simp
  have "mapping ! l = (if f \<le> l \<and> l < e then ps ! (l - f) else base ! l)" if "l < length base" for l
    using that assms(2,3) ps(1) by (auto simp: m nth_append)
  moreover have "length mapping = length base" using assms(2,3) ps(1) by (simp add: m)
  ultimately show ?thesis using ps e by (intro exI [of _ ps]) auto
qed

lemma changed_words:
  assumes "mutation_fits request" "file_size inode \<le> kMaxFileSize" "\<not> replaces request"
  shows "unat (ucast (min (file_size inode) (request_offset request) div 4096) :: u32) = changed_from inode request"
    "unat (ucast ((request_offset request + of_nat (length (request_data request)) - 1) div 4096) :: u32) + 1 = changed_to inode request"
proof -
  note s = mutation_sizes [OF assms(1,2)]
  let ?w = "request_offset request + of_nat (length (request_data request))" and ?sz = "file_size inode"
  have p: "1 \<le> unat ?w" using s(3) assms(1,3) by (cases "request_data request") (auto simp: mutation_fits_def)
  have w1: "unat (?w - 1) = unat ?w - 1" using p by (subst unat_sub) (simp_all add: word_le_nat_alt)
  show "unat (ucast ((?w - 1) div 4096) :: u32) + 1 = changed_to inode request"
    using s(1,3) p assms(3) by (subst unat_ucast_u32) (simp_all add: unat_div w1 changed_to_def ceil_div_4096)
  have "unat (min ?sz (request_offset request)) = min (unat ?sz) (unat (request_offset request))"
    by (simp add: min_def word_le_nat_alt)
  then have md: "unat (min ?sz (request_offset request) div 4096) = min (unat ?sz) (unat (request_offset request)) div 4096"
    by (simp add: unat_div)
  have "min (unat ?sz) (unat (request_offset request)) div 4096 \<le> 4243456 div 4096" using s(2) by (intro div_le_mono) simp
  then show "unat (ucast (min ?sz (request_offset request) div 4096) :: u32) = changed_from inode request"
    using assms(3) md by (subst unat_ucast_u32) (simp_all add: changed_from_def)
qed

lemma MutateBlocks_result:
  assumes "mutation_fits request" "file_size inode \<le> kMaxFileSize" "length old = unat (RequiredBlocks inode)"
    and run: "MutateBlocks r inode request old (PlanRequiredBlocks (mutation_length inode request)) a cand
      = Inr (a', plan, mapping, released, last_changed)"
  shows "\<exists>ps. reserve_seq a ps a' \<and> plan = with_data r inode request old ps cand \<and> new_mapping_ok inode request old ps mapping
    \<and> (\<forall>l. changed_from inode request \<le> l \<and> l < changed_to inode request \<longrightarrow> \<not> isl (block_image r inode request old l))
    \<and> (\<forall>p \<in> set ps. \<not> isl (ReadBlock r p))
    \<and> set released = {old ! l | l. l < length old \<and> \<not> kept_block inode request l}
    \<and> (\<not> replaces request \<longrightarrow> (last_changed \<ge> 12 \<longleftrightarrow> 12 < changed_to inode request))"
proof -
  let ?f = "changed_from inode request" and ?e = "changed_to inode request"
  let ?new = "unat (PlanRequiredBlocks (mutation_length inode request))"
  note c = changed_range [OF assms(1,2)] and s = mutation_sizes [OF assms(1,2)]
  show ?thesis
  proof (cases "replaces request")
    case True
    have fe: "?f = 0" "?e = ?new" using c(4) [OF True] by auto
    have m: "request_mode request = kReplaceAll" using True by (simp add: replaces_def)
    from run have loop: "ordered_loop r (\<lambda>l. Inr (ReplaceBlock (request_data request) l)) [0..<?new] a cand (replicate ?new 0) = Inr (a', plan, mapping)"
      and rel: "released = fold insort_insert old []"
      by (auto simp: MutateBlocks_def m ReplaceLoop_ordered bind_result_Inr_iff)
    have img: "(\<lambda>l. Inr (ReplaceBlock (request_data request) l)) = block_image r inode request old"
      using True by (simp add: block_image_def fun_eq_iff)
    have k: "\<not> kept_block inode request l" for l using fe by (auto simp: kept_block_def)
    have "set released = {old ! l | l. l < length old \<and> \<not> kept_block inode request l}"
      using k by (auto simp: rel set_fold_insort_insert in_set_conv_nth)
    moreover obtain ps where "reserve_seq a ps a'" "?f + length ps = ?e"
      "\<forall>l. ?f \<le> l \<and> l < ?e \<longrightarrow> \<not> isl (block_image r inode request old l)" "\<forall>p \<in> set ps. \<not> isl (ReadBlock r p)"
      "plan = with_data r inode request old ps cand" "length mapping = ?new"
      "\<forall>l < ?new. mapping ! l = (if 0 \<le> l \<and> l < ?new then ps ! (l - 0) else replicate ?new 0 ! l)"
      using loop_result [OF loop [unfolded img]] fe unfolding with_data_def by auto
    moreover from this have "new_mapping_ok inode request old ps mapping"
      using k fe by (simp add: new_mapping_ok_def)
    ultimately show ?thesis using True by blast
  next
    case False
    let ?sz = "file_size inode" and ?base = "old @ replicate (?new - length old) 0"
    have m: "request_mode request \<noteq> kReplaceAll" using False by (simp add: replaces_def)
    note d = c(5) [OF False]
    let ?w = "request_offset request + of_nat (length (request_data request))"
    let ?first = "ucast (min ?sz (request_offset request) div 4096) :: u32" and ?last = "ucast ((?w - 1) div 4096) :: u32"
    note last = changed_words(2) [OF assms(1,2) False] and first = changed_words(1) [OF assms(1,2) False]
    from run have loop: "ordered_loop r (RangeBlock r ?sz request old) [?f..<?e] a cand ?base = Inr (a', plan, mapping)"
      and rel: "released = fold insort_insert (map ((!) old) (filter (\<lambda>l. l < unat (PlanRequiredBlocks ?sz)) [?f..<?e])) []"
      and lc: "last_changed = ?last"
      using m unfolding MutateBlocks_def Let_def first last RangeLoop_ordered by (auto simp: bind_result_Inr_iff)
    have img: "RangeBlock r ?sz request old = block_image r inode request old"
      using False by (simp add: block_image_def fun_eq_iff)
    have len: "length ?base = ?new" using d assms(3) by simp
    have kb: "kept_block inode request l \<longleftrightarrow> l < ?new \<and> \<not> (?f \<le> l \<and> l < ?e)" for l by (simp add: kept_block_def)
    have kold: "kept_block inode request l \<Longrightarrow> l < length old" for l using kept_block_old(1) [OF assms(1,2)] assms(3) by simp
    have cnt: "unat (PlanRequiredBlocks ?sz) = length old" using PlanRequiredBlocks_inode [OF assms(2)] assms(3) by simp
    have "set released = {old ! l | l. l < length old \<and> \<not> kept_block inode request l}"
      unfolding rel cnt set_fold_insort_insert kb using d assms(3) by auto
    moreover have "last_changed \<ge> 12 \<longleftrightarrow> 12 < ?e" using last lc by (simp add: word_le_nat_alt) linarith
    moreover obtain ps where "?f + length ps = ?e" "reserve_seq a ps a'"
      "\<forall>l. ?f \<le> l \<and> l < ?e \<longrightarrow> \<not> isl (block_image r inode request old l)" "\<forall>p \<in> set ps. \<not> isl (ReadBlock r p)"
      "plan = with_data r inode request old ps cand" "length mapping = ?new"
      "\<forall>l < ?new. mapping ! l = (if ?f \<le> l \<and> l < ?e then ps ! (l - ?f) else ?base ! l)"
      using loop_result [OF loop] c(1,2) len unfolding img with_data_def by auto
    moreover from this have "new_mapping_ok inode request old ps mapping"
      using kold unfolding new_mapping_ok_def kb by (auto simp: nth_append)
    ultimately show ?thesis by blast
  qed
qed

section \<open>A successful plan\<close>

lemma LoadMappingFrom_ok:
  assumes "inode_ok r inode" "\<forall>l \<in> set ls. l < unat (RequiredBlocks inode)"
  shows "LoadMappingFrom r inode ls = Inr (map (file_pointer r inode) ls)"
  using assms(2) by (induction ls) (simp_all add: MapLogicalBlock_ok [OF assms(1)])

lemma LoadMapping_ok:
  assumes "inode_ok r inode"
  shows "LoadMapping r inode = Inr (map (file_pointer r inode) [0..<unat (RequiredBlocks inode)])"
proof -
  have "file_size inode \<le> kMaxFileSize" using assms by (simp add: inode_ok_def)
  then show ?thesis
    unfolding LoadMapping_def using LoadMappingFrom_ok [OF assms] by (simp add: PlanRequiredBlocks_inode)
qed

definition bitmap_puts :: "Region \<Rightarrow> bytes \<Rightarrow> bytes \<Rightarrow> bytes \<Rightarrow> nat list \<Rightarrow> (u32 \<times> bytes) list" where
  "bitmap_puts region before after shown ls = map (\<lambda>l. (start_block region + of_nat l, BitmapBlock shown l))
     (filter (\<lambda>l. BitmapBlock before l \<noteq> BitmapBlock after l) ls)"

lemma MutationBitmapImages_puts:
  "MutationBitmapImages region before after ls plan =
    plan\<lparr>mutation_before := puts (bitmap_puts region before after before ls) (mutation_before plan),
         mutation_metadata := puts (bitmap_puts region before after after ls) (mutation_metadata plan)\<rparr>"
  by (induction ls arbitrary: plan) (simp_all add: bitmap_puts_def Let_def)

definition new_indirect_needed :: "InodeRecord \<Rightarrow> FileMutationRequest \<Rightarrow> bool" where
  "new_indirect_needed inode request \<longleftrightarrow> 12 < unat (PlanRequiredBlocks (mutation_length inode request))
    \<and> (replaces request \<or> indirect_block inode = 0 \<or> 12 < changed_to inode request)"

definition gone_blocks :: "InodeRecord \<Rightarrow> FileMutationRequest \<Rightarrow> u32 list \<Rightarrow> u32 set" where
  "gone_blocks inode request old = {old ! l | l. l < length old \<and> \<not> kept_block inode request l}
    \<union> (if indirect_block inode \<noteq> 0 \<and> (replaces request \<or> new_indirect_needed inode request) then {indirect_block inode} else {})"

definition block_allocator :: "ImageReader \<Rightarrow> AllocatorState" where
  "block_allocator r = \<lparr>bitmap_of = block_bitmap_bytes r, valid_bits = total_blocks (superblock r),
     first_allocatable_bit = start_block (data (superblock r))\<rparr>"

text \<open>
  The facts of a run of the planner on a consistent volume: the inode, the old and new
  pointers, the new data blocks, the indirect block, the final bitmap and the images.
\<close>

definition mutation_run ::
  "ImageReader \<Rightarrow> u32 \<Rightarrow> FileMutationRequest \<Rightarrow> FileMutationPlan \<Rightarrow> InodeRecord \<Rightarrow> u32 list \<Rightarrow> u32 list \<Rightarrow> u32 list
    \<Rightarrow> u32 \<Rightarrow> AllocatorState \<Rightarrow> bytes \<Rightarrow> bytes \<Rightarrow> bool" where
  "mutation_run r n request plan inode old ps mapping ind a tb bs \<longleftrightarrow>
    ReadInode r n = Inr inode \<and> S_ISREG (mode inode) \<and> mutation_fits request
    \<and> (replaces request \<longrightarrow> generation inode = expected_generation request)
    \<and> generation inode \<noteq> 0xFFFFFFFFFFFFFFFF
    \<and> old = map (file_pointer r inode) [0..<unat (RequiredBlocks inode)]
    \<and> new_mapping_ok inode request old ps mapping
    \<and> (\<forall>l. changed_from inode request \<le> l \<and> l < changed_to inode request \<longrightarrow> \<not> isl (block_image r inode request old l))
    \<and> (\<forall>p \<in> set ps. \<not> isl (ReadBlock r p))
    \<and> (\<exists>a1. reserve_seq (block_allocator r) (ps @ (if new_indirect_needed inode request then [ind] else [])) a1
         \<and> bits_change a1 a {} (unat ` gone_blocks inode request old))
    \<and> (\<not> new_indirect_needed inode request \<longrightarrow> ind = (if replaces request then 0 else indirect_block inode))
    \<and> (new_indirect_needed inode request \<longrightarrow> \<not> isl (ReadBlock r ind))
    \<and> ReadBlock r (InodeTableBlock (superblock r) n) = Inr tb
    \<and> EncodeInode (MutatedInode inode (mutation_length inode request) (request_timestamp_ns request) mapping ind) = Inr bs
    \<and> mutation_ordered plan = puts (zip ps (map (\<lambda>l. projr (block_image r inode request old l))
         [changed_from inode request..<changed_to inode request])) []
    \<and> mutation_metadata plan = map_put (InodeTableBlock (superblock r) n) (put_bytes (InodeOffsetInBlock n) bs tb)
        (puts (if new_indirect_needed inode request
               then [(ind, IndirectImage mapping (unat (PlanRequiredBlocks (mutation_length inode request))))] else [])
          (puts (bitmap_puts (block_bitmap (superblock r)) (block_bitmap_bytes r) (bitmap_of a) (bitmap_of a)
             [0..<unat (block_count (block_bitmap (superblock r)))]) []))
    \<and> mutation_before plan = map_put (InodeTableBlock (superblock r) n) tb
        (puts (if new_indirect_needed inode request then [(ind, projr (ReadBlock r ind))] else [])
          (puts (bitmap_puts (block_bitmap (superblock r)) (block_bitmap_bytes r) (bitmap_of a) (block_bitmap_bytes r)
             [0..<unat (block_count (block_bitmap (superblock r)))])
            (puts (map (\<lambda>p. (p, projr (ReadBlock r p))) ps) [])))
    \<and> mutation_inode_number plan = n \<and> new_generation plan = generation inode + 1 \<and> new_data_blocks plan = mapping
    \<and> mutation_total_blocks plan = total_blocks (superblock r) \<and> mutation_uuid plan = filesystem_uuid (superblock r)"

lemma FinishMutation_run:
  assumes "file_size inode \<le> kMaxFileSize" "mutation_fits request"
    and last: "\<not> replaces request \<longrightarrow> (last_changed \<ge> 12 \<longleftrightarrow> 12 < changed_to inode request)"
    and rel: "set released = {old ! l | l. l < length old \<and> \<not> kept_block inode request l}"
    and run: "FinishMutation r inode request (mutation_length inode request) bm (a1, plan1, mapping, released, last_changed) = Inr plan"
  obtains a2 ind a tb bs where
    "reserve_seq a1 (if new_indirect_needed inode request then [ind] else []) a2"
    "bits_change a2 a {} (unat ` gone_blocks inode request old)"
    "\<not> new_indirect_needed inode request \<longrightarrow> ind = (if replaces request then 0 else indirect_block inode)"
    "new_indirect_needed inode request \<longrightarrow> \<not> isl (ReadBlock r ind)"
    "ReadBlock r (InodeTableBlock (superblock r) (mutation_inode_number plan1)) = Inr tb"
    "EncodeInode (MutatedInode inode (mutation_length inode request) (request_timestamp_ns request) mapping ind) = Inr bs"
    "plan = plan1\<lparr>mutation_metadata := map_put (InodeTableBlock (superblock r) (mutation_inode_number plan1))
          (put_bytes (InodeOffsetInBlock (mutation_inode_number plan1)) bs tb)
        (puts (if new_indirect_needed inode request
               then [(ind, IndirectImage mapping (unat (PlanRequiredBlocks (mutation_length inode request))))] else [])
          (puts (bitmap_puts (block_bitmap (superblock r)) bm (bitmap_of a) (bitmap_of a)
             [0..<unat (block_count (block_bitmap (superblock r)))]) (mutation_metadata plan1))),
      mutation_before := map_put (InodeTableBlock (superblock r) (mutation_inode_number plan1)) tb
        (puts (if new_indirect_needed inode request then [(ind, projr (ReadBlock r ind))] else [])
          (puts (bitmap_puts (block_bitmap (superblock r)) bm (bitmap_of a) bm
             [0..<unat (block_count (block_bitmap (superblock r)))]) (mutation_before plan1))),
      new_data_blocks := mapping, new_indirect_block := new_indirect_block plan\<rparr>"
proof -
  let ?ni = "new_indirect_needed inode request"
  have ci: "(PlanRequiredBlocks (mutation_length inode request) > 12
      \<and> (replaces request \<or> indirect_block inode = 0 \<or> last_changed \<ge> 12)) = ?ni"
    using last by (auto simp: new_indirect_needed_def word_less_nat_alt replaces_def)
  have cr: "(request_mode request = kReplaceAll) = replaces request" by (simp add: replaces_def)
  obtain a2 ind a planI tb bs where
    ri: "(if ?ni then ReserveBlock a1 else Inr (a1, if replaces request then 0 else indirect_block inode)) = Inr (a2, ind)"
    and rl: "ReleaseBlocks a2 (if indirect_block inode \<noteq> 0 \<and> (replaces request \<or> ?ni)
        then insort_insert (indirect_block inode) released else released) = Inr a"
    and pI: "(if ?ni then bind_result (ReadBlock r ind) (\<lambda>b. Inr
         (MutationBitmapImages (block_bitmap (superblock r)) bm (Snapshot a) [0..<unat (block_count (block_bitmap (superblock r)))] plan1
          \<lparr>mutation_before := map_put ind b (mutation_before
             (MutationBitmapImages (block_bitmap (superblock r)) bm (Snapshot a) [0..<unat (block_count (block_bitmap (superblock r)))] plan1)),
           mutation_metadata := map_put ind (IndirectImage mapping (unat (PlanRequiredBlocks (mutation_length inode request))))
             (mutation_metadata (MutationBitmapImages (block_bitmap (superblock r)) bm (Snapshot a)
                [0..<unat (block_count (block_bitmap (superblock r)))] plan1))\<rparr>))
       else Inr (MutationBitmapImages (block_bitmap (superblock r)) bm (Snapshot a)
         [0..<unat (block_count (block_bitmap (superblock r)))] plan1)) = Inr planI"
    and tb: "ReadBlock r (InodeTableBlock (superblock r) (mutation_inode_number plan1)) = Inr tb"
    and bs: "EncodeInode (MutatedInode inode (mutation_length inode request) (request_timestamp_ns request) mapping ind) = Inr bs"
    and plan: "plan = planI\<lparr>mutation_before := map_put (InodeTableBlock (superblock r) (mutation_inode_number plan1)) tb (mutation_before planI),
         mutation_metadata := map_put (InodeTableBlock (superblock r) (mutation_inode_number plan1))
           (put_bytes (InodeOffsetInBlock (mutation_inode_number plan1)) bs tb) (mutation_metadata planI),
         new_data_blocks := mapping,
         new_indirect_block := indirect_block (MutatedInode inode (mutation_length inode request) (request_timestamp_ns request) mapping ind)\<rparr>"
    using run unfolding FinishMutation_def Let_def prod.case ci cr bind_result_Inr_iff case_sum_Inr_iff split_paired_Ex
    by - (elim exE conjE, rule that, assumption, assumption, assumption, assumption, assumption, simp only: sum.inject)
  have gone: "bits_change a2 a {} (unat ` gone_blocks inode request old)"
    using ReleaseBlocks_change [OF rl] rel by (auto simp: gone_blocks_def set_insort_insert split: if_splits)
  show ?thesis
    by (rule that [of ind a2 a tb bs])
      (use ri gone pI tb bs plan in \<open>auto simp: MutationBitmapImages_puts Snapshot_def bind_result_Inr_iff split: if_splits\<close>)
qed

lemma PrepareFileMutation_steps:
  assumes "PrepareFileMutation r n request = Inr plan"
  obtains inode old bm a1 plan1 mapping released last_changed where
    "n \<noteq> 0" "mutation_fits request" "ReadInode r n = Inr inode" "S_ISREG (mode inode)"
    "replaces request \<longrightarrow> generation inode = expected_generation request"
    "generation inode \<noteq> 0xFFFFFFFFFFFFFFFF" "LoadMapping r inode = Inr old"
    "LoadRegion r (block_bitmap (superblock r)) = Inr bm"
    "MutateBlocks r inode request old (PlanRequiredBlocks (mutation_length inode request))
        \<lparr>bitmap_of = bm, valid_bits = total_blocks (superblock r), first_allocatable_bit = start_block (data (superblock r))\<rparr>
        \<lparr>mutation_inode_number = n, old_generation = generation inode,
                     new_generation = generation inode + 1, old_size = file_size inode, new_size = mutation_length inode request,
                     old_data_blocks = old, new_data_blocks = [],
                     old_indirect_block = indirect_block inode, new_indirect_block = 0,
                     mutation_total_blocks = total_blocks (superblock r), mutation_uuid = filesystem_uuid (superblock r),
                     mutation_before = [], mutation_ordered = [], mutation_metadata = []\<rparr>
        = Inr (a1, plan1, mapping, released, last_changed)"
    "FinishMutation r inode request (mutation_length inode request) bm (a1, plan1, mapping, released, last_changed) = Inr plan"
proof -
  have cr: "(request_mode request = kReplaceAll) = replaces request" by (simp add: replaces_def)
  have ml: "(if replaces request then of_nat (length (request_data request))
     else max (file_size i) (request_offset request + of_nat (length (request_data request)))) = mutation_length i request" for i
    by (simp add: mutation_length_def)
  from assms have fits: "n \<noteq> 0" "mutation_fits request"
    by (auto simp: PrepareFileMutation_def Let_def mutation_fits_def replaces_def split: if_splits)
  show thesis
    using assms unfolding PrepareFileMutation_def Let_def cr ml guard_Inr bind_result_Inr_iff case_sum_Inr_iff split_paired_Ex
    by - (elim exE conjE, rule that [OF fits], assumption, simp, blast, assumption, assumption, assumption, assumption, assumption)
qed

lemma PrepareFileMutation_run:
  assumes ok: "volume_ok r" and run: "PrepareFileMutation r n request = Inr plan"
  obtains inode old ps mapping ind a tb bs where "mutation_run r n request plan inode old ps mapping ind a tb bs"
proof -
  obtain inode old bm a1 plan1 mapping released last_changed where
    f: "n \<noteq> 0" "mutation_fits request" "ReadInode r n = Inr inode" "S_ISREG (mode inode)"
    "replaces request \<longrightarrow> generation inode = expected_generation request"
    "generation inode \<noteq> 0xFFFFFFFFFFFFFFFF" "LoadMapping r inode = Inr old"
    "LoadRegion r (block_bitmap (superblock r)) = Inr bm"
    and mb: "MutateBlocks r inode request old (PlanRequiredBlocks (mutation_length inode request))
        \<lparr>bitmap_of = bm, valid_bits = total_blocks (superblock r), first_allocatable_bit = start_block (data (superblock r))\<rparr>
        \<lparr>mutation_inode_number = n, old_generation = generation inode,
                     new_generation = generation inode + 1, old_size = file_size inode, new_size = mutation_length inode request,
                     old_data_blocks = old, new_data_blocks = [],
                     old_indirect_block = indirect_block inode, new_indirect_block = 0,
                     mutation_total_blocks = total_blocks (superblock r), mutation_uuid = filesystem_uuid (superblock r),
                     mutation_before = [], mutation_ordered = [], mutation_metadata = []\<rparr>
        = Inr (a1, plan1, mapping, released, last_changed)"
    and fin: "FinishMutation r inode request (mutation_length inode request) bm (a1, plan1, mapping, released, last_changed) = Inr plan"
    by (rule PrepareFileMutation_steps [OF run])
  have iok: "inode_ok r inode" by (rule ReadInode_ok(1) [OF f(3)])
  have sz: "file_size inode \<le> kMaxFileSize" using iok by (simp add: inode_ok_def)
  have old: "old = map (file_pointer r inode) [0..<unat (RequiredBlocks inode)]" using f(7) LoadMapping_ok [OF iok] by simp
  have len: "length old = unat (RequiredBlocks inode)" by (simp add: old)
  have bm: "bm = block_bitmap_bytes r" using f(8) LoadRegion_bitmaps(2) [OF volume_okD(1-3) [OF ok]] by simp
  obtain ps where ps: "reserve_seq (block_allocator r) ps a1" "new_mapping_ok inode request old ps mapping"
    "\<forall>l. changed_from inode request \<le> l \<and> l < changed_to inode request \<longrightarrow> \<not> isl (block_image r inode request old l)"
    "\<forall>p \<in> set ps. \<not> isl (ReadBlock r p)"
    "set released = {old ! l | l. l < length old \<and> \<not> kept_block inode request l}"
    "\<not> replaces request \<longrightarrow> (last_changed \<ge> 12 \<longleftrightarrow> 12 < changed_to inode request)"
    and plan1: "plan1 = with_data r inode request old ps \<lparr>mutation_inode_number = n, old_generation = generation inode,
                     new_generation = generation inode + 1, old_size = file_size inode, new_size = mutation_length inode request,
                     old_data_blocks = old, new_data_blocks = [],
                     old_indirect_block = indirect_block inode, new_indirect_block = 0,
                     mutation_total_blocks = total_blocks (superblock r), mutation_uuid = filesystem_uuid (superblock r),
                     mutation_before = [], mutation_ordered = [], mutation_metadata = []\<rparr>"
    using MutateBlocks_result [OF f(2) sz len mb] unfolding bm block_allocator_def [symmetric]
    by (elim exE conjE) (rule that; assumption)
  have n1: "mutation_inode_number plan1 = n" by (simp add: plan1 with_data_def)
  obtain a2 ind a tb bs where fm:
    "reserve_seq a1 (if new_indirect_needed inode request then [ind] else []) a2"
    "bits_change a2 a {} (unat ` gone_blocks inode request old)"
    "\<not> new_indirect_needed inode request \<longrightarrow> ind = (if replaces request then 0 else indirect_block inode)"
    "new_indirect_needed inode request \<longrightarrow> \<not> isl (ReadBlock r ind)"
    "ReadBlock r (InodeTableBlock (superblock r) n) = Inr tb"
    "EncodeInode (MutatedInode inode (mutation_length inode request) (request_timestamp_ns request) mapping ind) = Inr bs"
    and plan: "plan = plan1\<lparr>mutation_metadata := map_put (InodeTableBlock (superblock r) n) (put_bytes (InodeOffsetInBlock n) bs tb)
        (puts (if new_indirect_needed inode request
               then [(ind, IndirectImage mapping (unat (PlanRequiredBlocks (mutation_length inode request))))] else [])
          (puts (bitmap_puts (block_bitmap (superblock r)) bm (bitmap_of a) (bitmap_of a)
             [0..<unat (block_count (block_bitmap (superblock r)))]) (mutation_metadata plan1))),
      mutation_before := map_put (InodeTableBlock (superblock r) n) tb
        (puts (if new_indirect_needed inode request then [(ind, projr (ReadBlock r ind))] else [])
          (puts (bitmap_puts (block_bitmap (superblock r)) bm (bitmap_of a) bm
             [0..<unat (block_count (block_bitmap (superblock r)))]) (mutation_before plan1))),
      new_data_blocks := mapping, new_indirect_block := new_indirect_block plan\<rparr>"
    by (rule FinishMutation_run [OF sz f(2) ps(6,5) fin, unfolded n1])
  have rs: "reserve_seq (block_allocator r) (ps @ (if new_indirect_needed inode request then [ind] else [])) a2"
    using ps(1) fm(1) by (auto simp: reserve_seq_append)
  have po: "mutation_ordered plan = mutation_ordered plan1" "mutation_inode_number plan = n"
    "new_generation plan = new_generation plan1" "new_data_blocks plan = mapping"
    "mutation_total_blocks plan = mutation_total_blocks plan1" "mutation_uuid plan = mutation_uuid plan1"
    by (subst plan, simp add: n1)+
  have pm: "mutation_metadata plan = map_put (InodeTableBlock (superblock r) n) (put_bytes (InodeOffsetInBlock n) bs tb)
        (puts (if new_indirect_needed inode request
               then [(ind, IndirectImage mapping (unat (PlanRequiredBlocks (mutation_length inode request))))] else [])
          (puts (bitmap_puts (block_bitmap (superblock r)) bm (bitmap_of a) (bitmap_of a)
             [0..<unat (block_count (block_bitmap (superblock r)))]) (mutation_metadata plan1)))" by (subst plan, simp)
  have pb: "mutation_before plan = map_put (InodeTableBlock (superblock r) n) tb
        (puts (if new_indirect_needed inode request then [(ind, projr (ReadBlock r ind))] else [])
          (puts (bitmap_puts (block_bitmap (superblock r)) bm (bitmap_of a) bm
             [0..<unat (block_count (block_bitmap (superblock r)))]) (mutation_before plan1)))" by (subst plan, simp)
  have "mutation_run r n request plan inode old ps mapping ind a tb bs"
    unfolding mutation_run_def po pm pb bm [symmetric]
    using f ps(2-4) fm(2-6) rs by (auto simp: old plan1 with_data_def)
  then show ?thesis by (rule that)
qed

section \<open>The images of a plan\<close>

lemma region_block:
  assumes "region_end region \<le> unat (limit :: u32)" "l < unat (block_count region)"
  shows "unat (start_block region + of_nat l) = region_start region + l"
  unfolding region_start_def using assms u32_bound [of limit] by (subst unat_add_of_nat) (simp_all add: region_end_def)

lemma region_block_inj:
  assumes "region_end region \<le> unat (limit :: u32)" "l < unat (block_count region)" "k < unat (block_count region)"
    and "start_block region + of_nat l = start_block region + of_nat k"
  shows "l = k"
  using region_block [OF assms(1,2)] region_block [OF assms(1,3)] unfolding assms(4) by linarith

lemma bitmap_puts_keys:
  assumes "region_end region \<le> unat (limit :: u32)" "count = unat (block_count region)"
  shows "distinct (map fst (bitmap_puts region before after shown [0..<count]))"
    "b \<in> fst ` set (bitmap_puts region before after shown [0..<count]) \<Longrightarrow> region_start region \<le> unat b \<and> unat b < region_end region"
proof -
  have "inj_on (\<lambda>l. start_block region + of_nat l) {0..<count}"
    unfolding assms(2) by (rule inj_onI) (rule region_block_inj [OF assms(1)], auto)
  then show "distinct (map fst (bitmap_puts region before after shown [0..<count]))"
    unfolding bitmap_puts_def map_map o_def fst_conv distinct_map by (intro conjI) (simp, erule inj_on_subset, auto)
  assume "b \<in> fst ` set (bitmap_puts region before after shown [0..<count])"
  then obtain l where "l < unat (block_count region)" "b = start_block region + of_nat l"
    by (auto simp: bitmap_puts_def assms(2))
  then show "region_start region \<le> unat b \<and> unat b < region_end region"
    using region_block [OF assms(1)] by (simp add: region_start_def region_end_def)
qed

lemma bitmap_puts_map_of:
  assumes "region_end region \<le> unat (limit :: u32)" "count = unat (block_count region)" "l < count"
  shows "map_of (bitmap_puts region before after shown [0..<count]) (start_block region + of_nat l)
    = (if BitmapBlock before l \<noteq> BitmapBlock after l then Some (BitmapBlock shown l) else None)"
proof (cases "BitmapBlock before l = BitmapBlock after l")
  case False
  then have "(start_block region + of_nat l, BitmapBlock shown l) \<in> set (bitmap_puts region before after shown [0..<count])"
    using assms(3) by (auto simp: bitmap_puts_def)
  then show ?thesis using False bitmap_puts_keys(1) [OF assms(1,2)] by simp
next
  case True
  have "start_block region + of_nat l \<notin> fst ` set (bitmap_puts region before after shown [0..<count])"
  proof
    assume "start_block region + of_nat l \<in> fst ` set (bitmap_puts region before after shown [0..<count])"
    then have "start_block region + of_nat l \<in> (\<lambda>l. start_block region + of_nat l) ` set (filter (\<lambda>l. BitmapBlock before l \<noteq> BitmapBlock after l) [0..<count])"
      unfolding bitmap_puts_def set_map image_image fst_conv .
    then obtain k where k: "k \<in> set (filter (\<lambda>l. BitmapBlock before l \<noteq> BitmapBlock after l) [0..<count])"
      "start_block region + of_nat l = start_block region + of_nat k" by (elim imageE)
    then show False using region_block_inj [OF assms(1) _ _ k(2)] k(1) assms(2,3) True by simp
  qed
  then show ?thesis using True by (simp add: map_of_eq_None_iff)
qed

lemma bitmap_puts_update:
  assumes "region_end region \<le> unat (limit :: u32)" "length new = length old"
    and "\<And>b. region_start region \<le> unat b \<Longrightarrow> unat b < region_end region
      \<Longrightarrow> map_of m b = map_of (bitmap_puts region old new new [0..<unat (block_count region)]) b"
  shows "region_update m region old new"
  unfolding region_update_def
proof (intro conjI allI impI)
  show "length new = length old" by fact
  fix i assume i: "i < unat (block_count region)"
  note region_block [OF assms(1) i]
  then have "map_of m (start_block region + of_nat i)
      = map_of (bitmap_puts region old new new [0..<unat (block_count region)]) (start_block region + of_nat i)"
    using assms(3) i by (simp add: region_start_def region_end_def)
  then show "case map_of m (start_block region + of_nat i) of None \<Rightarrow> BitmapBlock new i = BitmapBlock old i
      | Some c \<Rightarrow> c = BitmapBlock new i"
    using bitmap_puts_map_of [OF assms(1) refl i] by simp
qed

lemma region_unchanged:
  assumes "region_end region \<le> unat (limit :: u32)"
    and "\<And>b. region_start region \<le> unat b \<Longrightarrow> unat b < region_end region \<Longrightarrow> map_of m b = None"
  shows "region_update m region old old"
proof (rule bitmap_puts_update [OF assms(1) refl])
  show "map_of m b = map_of (bitmap_puts region old old old [0..<unat (block_count region)]) b"
    if "region_start region \<le> unat b" "unat b < region_end region" for b
    using assms(2) [OF that] by (simp add: bitmap_puts_def)
qed

definition mutation_images :: "FileMutationPlan \<Rightarrow> block_map" where
  "mutation_images plan = mutation_ordered plan @ mutation_metadata plan"

definition new_images :: "ImageReader \<Rightarrow> InodeRecord \<Rightarrow> FileMutationRequest \<Rightarrow> u32 list \<Rightarrow> u32 list \<Rightarrow> (u32 \<times> bytes) list" where
  "new_images r inode request old ps = zip ps (map (\<lambda>l. projr (block_image r inode request old l))
     [changed_from inode request..<changed_to inode request])"

definition indirect_images :: "InodeRecord \<Rightarrow> FileMutationRequest \<Rightarrow> u32 list \<Rightarrow> u32 \<Rightarrow> (u32 \<times> bytes) list" where
  "indirect_images inode request mapping ind = (if new_indirect_needed inode request
     then [(ind, IndirectImage mapping (unat (PlanRequiredBlocks (mutation_length inode request))))] else [])"

definition taken_blocks :: "InodeRecord \<Rightarrow> FileMutationRequest \<Rightarrow> u32 list \<Rightarrow> u32 \<Rightarrow> u32 list" where
  "taken_blocks inode request ps ind = ps @ (if new_indirect_needed inode request then [ind] else [])"

lemma mutation_run_facts:
  assumes ok: "volume_ok r" and run: "mutation_run r n request plan inode old ps mapping ind a tb bs"
  shows "distinct (taken_blocks inode request ps ind)"
    "b \<in> set (taken_blocks inode request ps ind) \<Longrightarrow> region_start (data (superblock r)) \<le> unat b
      \<and> unat b < unat (total_blocks (superblock r)) \<and> \<not> TestBit (block_bitmap_bytes r) (unat b)"
    "length (bitmap_of a) = length (block_bitmap_bytes r)"
    "TestBit (bitmap_of a) i \<longleftrightarrow> (TestBit (block_bitmap_bytes r) i \<or> i \<in> unat ` set (taken_blocks inode request ps ind))
      \<and> i \<notin> unat ` gone_blocks inode request old"
    "1 \<le> unat n" "unat n \<le> unat (total_inodes (superblock r))"
    "file_size inode \<le> kMaxFileSize" "mutation_fits request" "inode_ok r inode" "ReadInode r n = Inr inode"
proof -
  have f: "ReadInode r n = Inr inode" "mutation_fits request"
    and "\<exists>a1. reserve_seq (block_allocator r) (taken_blocks inode request ps ind) a1 \<and> bits_change a1 a {} (unat ` gone_blocks inode request old)"
    using run unfolding mutation_run_def taken_blocks_def by blast+
  then obtain a1 where a1: "reserve_seq (block_allocator r) (taken_blocks inode request ps ind) a1"
    "bits_change a1 a {} (unat ` gone_blocks inode request old)" by blast
  note s = reserve_seq_facts [OF a1(1)]
  note t = bits_change_trans [OF s [THEN conjunct2, THEN conjunct2] a1(2)]
  show "distinct (taken_blocks inode request ps ind)" using s by blast
  show "region_start (data (superblock r)) \<le> unat b
      \<and> unat b < unat (total_blocks (superblock r)) \<and> \<not> TestBit (block_bitmap_bytes r) (unat b)"
    if "b \<in> set (taken_blocks inode request ps ind)"
    using s that by (auto simp: free_bits_def block_allocator_def region_start_def)
  show "length (bitmap_of a) = length (block_bitmap_bytes r)"
    "TestBit (bitmap_of a) i \<longleftrightarrow> (TestBit (block_bitmap_bytes r) i \<or> i \<in> unat ` set (taken_blocks inode request ps ind))
      \<and> i \<notin> unat ` gone_blocks inode request old"
    using t by (auto simp: bits_change_def block_allocator_def)
  have "IsInodeAllocated r n" by (rule ReadInode_ok(2) [OF f(1)])
  then show "1 \<le> unat n" "unat n \<le> unat (total_inodes (superblock r))"
    by (simp_all add: IsInodeAllocated_def word_le_nat_alt)
  show "inode_ok r inode" by (rule ReadInode_ok(1) [OF f(1)])
  then show "file_size inode \<le> kMaxFileSize" by (simp add: inode_ok_def)
  show "mutation_fits request" "ReadInode r n = Inr inode" by fact+
qed

lemma mutation_images_map_of:
  assumes ok: "volume_ok r" and run: "mutation_run r n request plan inode old ps mapping ind a tb bs"
  shows "map_of (mutation_images plan) b = (case map_of (new_images r inode request old ps) b of Some c \<Rightarrow> Some c
    | None \<Rightarrow> if b = InodeTableBlock (superblock r) n then Some (put_bytes (InodeOffsetInBlock n) bs tb)
      else case map_of (indirect_images inode request mapping ind) b of Some c \<Rightarrow> Some c
      | None \<Rightarrow> map_of (bitmap_puts (block_bitmap (superblock r)) (block_bitmap_bytes r) (bitmap_of a) (bitmap_of a)
             [0..<unat (block_count (block_bitmap (superblock r)))]) b)"
proof -
  note f = mutation_run_facts [OF assms] and v = volume_okD [OF ok]
  have m: "mutation_ordered plan = puts (new_images r inode request old ps) []"
    "mutation_metadata plan = map_put (InodeTableBlock (superblock r) n) (put_bytes (InodeOffsetInBlock n) bs tb)
        (puts (indirect_images inode request mapping ind)
          (puts (bitmap_puts (block_bitmap (superblock r)) (block_bitmap_bytes r) (bitmap_of a) (bitmap_of a)
             [0..<unat (block_count (block_bitmap (superblock r)))]) []))"
    using run unfolding mutation_run_def new_images_def indirect_images_def by blast+
  have d: "distinct (map fst (new_images r inode request old ps))" "distinct (map fst (indirect_images inode request mapping ind))"
    using f(1) by (auto simp: new_images_def taken_blocks_def indirect_images_def map_fst_zip_take)
  have e: "region_end (block_bitmap (superblock r)) \<le> unat (total_blocks (superblock r))"
    using volume_regions(2,4) [OF v(1)] by linarith
  show ?thesis
    unfolding mutation_images_def m map_of_append
    by (simp add: map_add_def map_of_map_put sorted_puts map_of_puts d bitmap_puts_keys(1) [OF e refl] split: option.splits)
qed

lemma set_map_put: "set (map_put k v m) \<subseteq> insert (k, v) (set m)"
  by (induction k v m rule: map_put.induct) auto

lemma set_puts: "set (puts kvs m) \<subseteq> set kvs \<union> set m"
proof (induction kvs arbitrary: m)
  case (Cons x kvs)
  then show ?case using set_map_put by (cases x) fastforce
qed simp

lemma length_block_image:
  assumes "\<not> isl (block_image r inode request old l)"
  shows "length (projr (block_image r inode request old l)) = 4096"
proof -
  have "length (ZeroRange a b c d) = length d" "length (OverlayData a b c e d) = length d" for a b c d e
    by (simp_all add: ZeroRange_def OverlayData_def Let_def)
  then show ?thesis
    using assms ReadExact_length
    by (auto simp: block_image_def ReplaceBlock_def RangeBlock_def Let_def ReadBlock_def bind_result_def
        split: sum.splits if_splits)
qed

lemma length_IndirectImage [simp]: "length (IndirectImage mapping n) = 4096"
  by (simp add: IndirectImage_def)

lemma gone_blocks_owned:
  assumes "mutation_run r n request plan inode old ps mapping ind a tb bs" "g \<in> gone_blocks inode request old"
  shows "unat g \<in> file_blocks r inode"
proof -
  have "old = map (file_pointer r inode) [0..<unat (RequiredBlocks inode)]" using assms(1) by (simp add: mutation_run_def)
  then show ?thesis using assms(2)
    by (auto simp: gone_blocks_def file_blocks_def map_blocks_def split: if_splits)
qed

lemma mutation_images_set:
  assumes ok: "volume_ok r" and run: "mutation_run r n request plan inode old ps mapping ind a tb bs"
    and "(b, c) \<in> set (mutation_images plan)"
  shows "length c = 4096 \<and> unat b < unat (total_blocks (superblock r))"
    "region_start (data (superblock r)) \<le> unat b \<Longrightarrow> b \<in> set (taken_blocks inode request ps ind)"
proof -
  note f = mutation_run_facts [OF ok run] and v = volume_okD [OF ok]
  note g = volume_regions [OF v(1)] and p = inode_position [OF v(1) f(5,6)]
  let ?bb = "block_bitmap (superblock r)"
  let ?bp = "bitmap_puts ?bb (block_bitmap_bytes r) (bitmap_of a) (bitmap_of a) [0..<unat (block_count ?bb)]"
  have e: "region_end ?bb \<le> unat (total_blocks (superblock r))" using g(2,4) by linarith
  have tb: "length tb = 4096" using run ReadExact_length by (auto simp: mutation_run_def ReadBlock_def)
  have img: "c = projr (block_image r inode request old l) \<and> changed_from inode request \<le> l \<and> l < changed_to inode request \<Longrightarrow> length c = 4096" for l
    using run length_block_image unfolding mutation_run_def by blast
  have m: "mutation_ordered plan = puts (new_images r inode request old ps) []"
    "mutation_metadata plan = map_put (InodeTableBlock (superblock r) n) (put_bytes (InodeOffsetInBlock n) bs tb)
        (puts (indirect_images inode request mapping ind) (puts ?bp []))"
    using run unfolding mutation_run_def new_images_def indirect_images_def by blast+
  have "(b, c) \<in> set (new_images r inode request old ps) \<union> {(InodeTableBlock (superblock r) n, put_bytes (InodeOffsetInBlock n) bs tb)}
      \<union> set (indirect_images inode request mapping ind) \<union> set ?bp"
    using assms(3) set_puts [of "new_images r inode request old ps" "[]"] set_puts [of ?bp "[]"]
      set_puts [of "indirect_images inode request mapping ind" "puts ?bp []"]
      set_map_put [of "InodeTableBlock (superblock r) n" "put_bytes (InodeOffsetInBlock n) bs tb"
        "puts (indirect_images inode request mapping ind) (puts ?bp [])"]
    unfolding mutation_images_def m set_append by auto
  then consider (new) "(b, c) \<in> set (new_images r inode request old ps)"
    | (table) "b = InodeTableBlock (superblock r) n" "c = put_bytes (InodeOffsetInBlock n) bs tb"
    | (ind) "(b, c) \<in> set (indirect_images inode request mapping ind)" | (bits) "(b, c) \<in> set ?bp" by blast
  then have "(length c = 4096 \<and> unat b < unat (total_blocks (superblock r)))
    \<and> (region_start (data (superblock r)) \<le> unat b \<longrightarrow> b \<in> set (taken_blocks inode request ps ind))"
  proof cases
    case new
    then have "b \<in> set ps" by (auto simp: new_images_def dest: set_zip_leftD)
    then have t: "b \<in> set (taken_blocks inode request ps ind)" by (simp add: taken_blocks_def)
    moreover have "length c = 4096" using new img by (auto simp: new_images_def dest!: set_zip_rightD)
    ultimately show ?thesis using f(2) [OF t] by blast
  next
    case table
    then show ?thesis using tb p(4) g(3,4) by simp
  next
    case ind
    then have t: "b \<in> set (taken_blocks inode request ps ind)" "length c = 4096"
      by (auto simp: indirect_images_def taken_blocks_def split: if_splits)
    then show ?thesis using f(2) [OF t(1)] by blast
  next
    case bits
    then have "region_start ?bb \<le> unat b" "unat b < region_end ?bb" using bitmap_puts_keys(2) [OF e refl] by force+
    moreover obtain l where "l < unat (block_count ?bb)" "c = BitmapBlock (bitmap_of a) l" using bits by (auto simp: bitmap_puts_def)
    ultimately show ?thesis using g(2,4) f(3) reader_ok_facts(4) [OF v(1)] by (simp add: BitmapBlock_def)
  qed
  then show "length c = 4096 \<and> unat b < unat (total_blocks (superblock r))"
    "region_start (data (superblock r)) \<le> unat b \<Longrightarrow> b \<in> set (taken_blocks inode request ps ind)" by blast+
qed

lemma inode_slots_disjoint:
  assumes "reader_ok r" "1 \<le> unat k" "unat k \<le> unat (total_inodes (superblock r))"
    and "1 \<le> unat n" "unat n \<le> unat (total_inodes (superblock r))" "k \<noteq> n"
    and "InodeTableBlock (superblock r) k = InodeTableBlock (superblock r) n"
  shows "InodeOffsetInBlock k + 128 \<le> InodeOffsetInBlock n \<or> InodeOffsetInBlock n + 128 \<le> InodeOffsetInBlock k"
proof -
  note p = inode_position [OF assms(1-3)] and q = inode_position [OF assms(1,4,5)]
  let ?k = "unat (k - 1)" and ?n = "unat (n - 1)"
  have d: "?k * 128 div 4096 = ?n * 128 div 4096" using p(6) q(6) assms(7) by simp
  have "?k \<noteq> ?n" using assms(6) by (metis diff_add_cancel word_unat_eq_iff)
  then have "?k < ?n \<or> ?n < ?k" by linarith
  then have "?k * 128 + 128 \<le> ?n * 128 \<or> ?n * 128 + 128 \<le> ?k * 128" by linarith
  moreover have "?k * 128 = ?k * 128 div 4096 * 4096 + ?k * 128 mod 4096" "?n * 128 = ?n * 128 div 4096 * 4096 + ?n * 128 mod 4096"
    by (rule div_mult_mod_eq [symmetric])+
  ultimately show ?thesis unfolding p(5) q(5) using d by linarith
qed

lemma mutation_transaction:
  assumes ok: "volume_ok r" and run: "mutation_run r n request plan inode old ps mapping ind a tb bs"
  shows "transaction_step {n} r (mutation_images plan) (inode_bitmap_bytes r) (bitmap_of a) {}
    (unat ` set (taken_blocks inode request ps ind)) (unat ` gone_blocks inode request old)"
proof -
  note f = mutation_run_facts [OF ok run] and v = volume_okD [OF ok] and ms = mutation_images_set [OF ok run]
  note g = volume_regions [OF v(1)] and p = inode_position [OF v(1) f(5,6)]
  let ?sb = "superblock r" and ?m = "mutation_images plan"
  have low: "map_of ?m b = (if b = InodeTableBlock ?sb n then Some (put_bytes (InodeOffsetInBlock n) bs tb)
      else map_of (bitmap_puts (block_bitmap ?sb) (block_bitmap_bytes r) (bitmap_of a) (bitmap_of a) [0..<unat (block_count (block_bitmap ?sb))]) b)"
    if "unat b < region_start (data ?sb)" for b
  proof -
    have "b \<notin> set (taken_blocks inode request ps ind)" using f(2) that by fastforce
    then have "map_of (new_images r inode request old ps) b = None" "map_of (indirect_images inode request mapping ind) b = None"
      by (auto simp: new_images_def indirect_images_def taken_blocks_def map_of_eq_None_iff dest: set_zip_leftD)
    then show ?thesis using mutation_images_map_of [OF ok run, of b] by simp
  qed
  have e: "region_end (block_bitmap ?sb) \<le> unat (total_blocks ?sb)" "region_end (inode_bitmap ?sb) \<le> unat (total_blocks ?sb)"
    using g(1,2,4) by linarith+
  have tpos: "InodeTableBlock ?sb n \<noteq> b" if "unat b < region_start (inode_table ?sb)" for b using that p(3) by force
  have "region_update ?m (inode_bitmap ?sb) (inode_bitmap_bytes r) (inode_bitmap_bytes r)"
  proof (rule region_unchanged [OF e(2)])
    fix b :: u32 assume b: "region_start (inode_bitmap ?sb) \<le> unat b" "unat b < region_end (inode_bitmap ?sb)"
    have "b \<notin> fst ` set (bitmap_puts (block_bitmap ?sb) (block_bitmap_bytes r) (bitmap_of a) (bitmap_of a) [0..<unat (block_count (block_bitmap ?sb))])"
      using bitmap_puts_keys(2) [OF e(1) refl] b(2) g(8) by fastforce
    then show "map_of ?m b = None"
      using low tpos [of b] b(2) g(1,8,9) by (simp add: map_of_eq_None_iff region_start_def region_end_def)
  qed
  moreover have "region_update ?m (block_bitmap ?sb) (block_bitmap_bytes r) (bitmap_of a)"
  proof (rule bitmap_puts_update [OF e(1) f(3)])
    fix b :: u32 assume b: "region_start (block_bitmap ?sb) \<le> unat b" "unat b < region_end (block_bitmap ?sb)"
    show "map_of ?m b = map_of (bitmap_puts (block_bitmap ?sb) (block_bitmap_bytes r) (bitmap_of a) (bitmap_of a) [0..<unat (block_count (block_bitmap ?sb))]) b"
      using low [of b] tpos [of b] b(2) g(2,9) by simp
  qed
  ultimately have "image_update r ?m (inode_bitmap_bytes r) (bitmap_of a)"
    unfolding image_update_def using ms(1) by auto
  moreover have "\<exists>old. ReadBlock r (InodeTableBlock ?sb k) = Inr old \<and> get_bytes (InodeOffsetInBlock k) 128 c = get_bytes (InodeOffsetInBlock k) 128 old"
    if k: "k \<noteq> n" "1 \<le> unat k" "unat k \<le> unat (total_inodes ?sb)" "map_of ?m (InodeTableBlock ?sb k) = Some c" for k c
  proof -
    note q = inode_position [OF v(1) k(2,3)]
    have "InodeTableBlock ?sb k \<notin> fst ` set (bitmap_puts (block_bitmap ?sb) (block_bitmap_bytes r) (bitmap_of a) (bitmap_of a) [0..<unat (block_count (block_bitmap ?sb))])"
      using bitmap_puts_keys(2) [OF e(1) refl] q(3) g(9) by fastforce
    note this [unfolded map_of_eq_None_iff [symmetric]]
    then have c: "InodeTableBlock ?sb k = InodeTableBlock ?sb n" "c = put_bytes (InodeOffsetInBlock n) bs tb"
      using low [of "InodeTableBlock ?sb k"] k(4) q(4) g(3) by (auto split: if_splits)
    have tb: "ReadBlock r (InodeTableBlock ?sb n) = Inr tb" "length tb = 4096" and bs: "length bs = 128"
      using run ReadExact_length by (auto simp: mutation_run_def ReadBlock_def EncodeInode_def Let_def split: if_splits)
    show ?thesis using inode_slots_disjoint [OF v(1) k(2,3) f(5,6) k(1) c(1)] tb bs c p(2) q(2) by (simp add: byte_simps)
  qed
  moreover have "\<forall>x \<in> unat ` gone_blocks inode request old. owned_by {n} r x"
    using gone_blocks_owned [OF run] f(10) by (auto simp: owned_by_def)
  moreover have "\<not> IsBlockAllocated r b" if "b \<in> keys ?m" "region_start (data ?sb) \<le> unat b" for b
    using ms(2) f(2) that by (auto simp: keys_def IsBlockAllocated_def BitmapBit_TestBit)
  ultimately show ?thesis unfolding transaction_step_def using f(4) by auto
qed

section \<open>The file after the mutation\<close>

definition mutated :: "InodeRecord \<Rightarrow> FileMutationRequest \<Rightarrow> u32 list \<Rightarrow> u32 \<Rightarrow> InodeRecord" where
  "mutated inode request mapping ind =
    MutatedInode inode (mutation_length inode request) (request_timestamp_ns request) mapping ind"

lemma mutation_runD:
  assumes "mutation_run r n request plan inode old ps mapping ind a tb bs"
  shows "new_mapping_ok inode request old ps mapping" "old = map (file_pointer r inode) [0..<unat (RequiredBlocks inode)]"
    "S_ISREG (mode inode)" "EncodeInode (mutated inode request mapping ind) = Inr bs"
    "ReadBlock r (InodeTableBlock (superblock r) n) = Inr tb"
    "\<not> new_indirect_needed inode request \<Longrightarrow> ind = (if replaces request then 0 else indirect_block inode)"
    "changed_from inode request \<le> l \<Longrightarrow> l < changed_to inode request \<Longrightarrow> \<not> isl (block_image r inode request old l)"
  using assms unfolding mutation_run_def mutated_def by blast+

lemma old_block_untouched:
  assumes ok: "volume_ok r" and run: "mutation_run r n request plan inode old ps mapping ind a tb bs"
    and "x \<in> file_blocks r inode"
  shows "x \<notin> unat ` keys (mutation_images plan)" "x \<notin> unat ` set (taken_blocks inode request ps ind)"
proof -
  note f = mutation_run_facts [OF ok run] and ms = mutation_images_set [OF ok run]
  obtain b where b: "x = unat b" "file_block_ok r b" by (rule file_blocks_ok [OF f(10) assms(3)])
  have al: "TestBit (block_bitmap_bytes r) x" "region_start (data (superblock r)) \<le> x"
    using b by (simp_all add: file_block_ok_def IsBlockAllocated_def BitmapBit_TestBit region_start_def word_le_nat_alt)
  show t: "x \<notin> unat ` set (taken_blocks inode request ps ind)" using f(2) al(1) by auto
  show "x \<notin> unat ` keys (mutation_images plan)" using ms(2) t al(2) by (auto simp: keys_def)
qed

lemma kept_pointer:
  assumes ok: "volume_ok r" and run: "mutation_run r n request plan inode old ps mapping ind a tb bs"
    and k: "kept_block inode request l"
  shows "l < length mapping" "l < unat (RequiredBlocks inode)" "mapping ! l = file_pointer r inode l"
    "unat (mapping ! l) \<in> file_blocks r inode" "mapping ! l \<notin> gone_blocks inode request old"
proof -
  note f = mutation_run_facts [OF ok run]
  have nm: "new_mapping_ok inode request old ps mapping" and old: "old = map (file_pointer r inode) [0..<unat (RequiredBlocks inode)]"
    by (rule mutation_runD(1,2) [OF run])+
  show l: "l < length mapping" using nm k by (simp add: new_mapping_ok_def kept_block_def)
  show lo: "l < unat (RequiredBlocks inode)" by (rule kept_block_old(1) [OF f(8,7) k])
  have ml: "mapping ! l = old ! l" using nm k l by (simp add: new_mapping_ok_def)
  then show fp: "mapping ! l = file_pointer r inode l" using lo by (simp add: old)
  then show "unat (mapping ! l) \<in> file_blocks r inode" using lo by (auto simp: file_blocks_def)
  have "inode_distinct r inode" using volume_okD(5) [OF ok f(10)] .
  then have d: "distinct (indirect_block inode # old)" by (simp add: inode_distinct_def old)
  have "old ! l \<noteq> old ! j" if "j < length old" "\<not> kept_block inode request j" for j
    using d k that lo by (metis distinct.simps(2) length_map length_upt minus_nat.diff_0 nth_eq_iff_index_eq old)
  moreover have "old ! l \<noteq> indirect_block inode" using d lo by (metis distinct.simps(2) length_map length_upt minus_nat.diff_0 nth_mem old)
  ultimately show "mapping ! l \<notin> gone_blocks inode request old" unfolding gone_blocks_def ml by auto
qed

lemma fresh_pointer:
  assumes ok: "volume_ok r" and run: "mutation_run r n request plan inode old ps mapping ind a tb bs"
    and k: "\<not> kept_block inode request l" "l < length mapping"
  shows "mapping ! l \<in> set ps" "mapping ! l = ps ! (l - changed_from inode request)" "l - changed_from inode request < length ps"
    "map_of (mutation_images plan) (mapping ! l) = Some (projr (block_image r inode request old l))"
    "changed_from inode request \<le> l" "l < changed_to inode request"
proof -
  note f = mutation_run_facts [OF ok run]
  have nm: "new_mapping_ok inode request old ps mapping" by (rule mutation_runD(1) [OF run])
  show r: "changed_from inode request \<le> l" "l < changed_to inode request" using k nm by (auto simp: kept_block_def new_mapping_ok_def)
  show i: "l - changed_from inode request < length ps" using r nm by (auto simp: new_mapping_ok_def)
  show p: "mapping ! l = ps ! (l - changed_from inode request)" using k nm by (simp add: new_mapping_ok_def)
  then show "mapping ! l \<in> set ps" using i by simp
  have "distinct ps" using f(1) by (simp add: taken_blocks_def)
  moreover have len: "length ps = changed_to inode request - changed_from inode request"
    using nm unfolding new_mapping_ok_def by linarith
  ultimately have "map_of (new_images r inode request old ps) (mapping ! l) = Some (projr (block_image r inode request old l))"
    unfolding new_images_def using i r p by (auto simp: map_of_zip_nth)
  then show "map_of (mutation_images plan) (mapping ! l) = Some (projr (block_image r inode request old l))"
    using mutation_images_map_of [OF ok run] by simp
qed

lemma mapping_distinct:
  assumes ok: "volume_ok r" and run: "mutation_run r n request plan inode old ps mapping ind a tb bs"
  shows "distinct mapping"
  unfolding distinct_conv_nth
proof (intro allI impI)
  note f = mutation_run_facts [OF ok run] and kp = kept_pointer [OF ok run] and fp = fresh_pointer [OF ok run]
  have dps: "distinct ps" using f(1) by (simp add: taken_blocks_def)
  have ko: "mapping ! x \<noteq> mapping ! y" if "kept_block inode request x" "\<not> kept_block inode request y" "y < length mapping" for x y
    using old_block_untouched(2) [OF ok run kp(4) [OF that(1)]] fp(1) [OF that(2,3)] by (auto simp: taken_blocks_def)
  have d: "distinct (map (file_pointer r inode) [0..<unat (RequiredBlocks inode)])"
    using volume_okD(5) [OF ok f(10)] by (simp add: inode_distinct_def)
  fix i j assume ij: "i < length mapping" "j < length mapping" "i \<noteq> j"
  consider "kept_block inode request i" "kept_block inode request j" | "kept_block inode request i" "\<not> kept_block inode request j"
    | "\<not> kept_block inode request i" "kept_block inode request j" | "\<not> kept_block inode request i" "\<not> kept_block inode request j" by blast
  then show "mapping ! i \<noteq> mapping ! j"
  proof cases
    case 1
    then show ?thesis using kp(2,3) d ij(3) by (simp add: distinct_conv_nth)
  next
    case 2
    then show ?thesis using ko ij by blast
  next
    case 3
    then show ?thesis using ko ij by metis
  next
    case 4
    have "i - changed_from inode request \<noteq> j - changed_from inode request"
      using fp(5) 4 ij by (metis eq_diff_iff)
    then show ?thesis unfolding fp(2) [OF 4(1) ij(1)] fp(2) [OF 4(2) ij(2)]
      using dps fp(3) [OF 4(1) ij(1)] fp(3) [OF 4(2) ij(2)] by (simp add: nth_eq_iff_index_eq)
  qed
qed

lemma mutated_fields:
  assumes ok: "volume_ok r" and run: "mutation_run r n request plan inode old ps mapping ind a tb bs"
  defines "new \<equiv> mutated inode request mapping ind"
  shows "file_size new = mutation_length inode request" "file_size new \<le> kMaxFileSize" "mode new = mode inode"
    "inode_number new = n" "length (direct_blocks new) = 12" "length mapping = unat (RequiredBlocks new)"
    "l < 12 \<Longrightarrow> direct_blocks new ! l = (if l < length mapping then mapping ! l else 0)"
    "indirect_block new = (if length mapping > 12 then ind else 0)" "unat (RequiredBlocks new) \<le> 1036"
    "generation new = generation inode + 1" "\<not> S_ISDIR (mode new)"
proof -
  note f = mutation_run_facts [OF ok run] and s = mutation_sizes [OF mutation_run_facts(8,7) [OF ok run]]
  have len: "length mapping = unat (PlanRequiredBlocks (mutation_length inode request))" using mutation_runD(1) [OF run] by (simp add: new_mapping_ok_def)
  show sz: "file_size new = mutation_length inode request" by (simp add: new_def mutated_def MutatedInode_def Let_def)
  then show mx: "file_size new \<le> kMaxFileSize" using s(6) by simp
  show m: "mode new = mode inode" "generation new = generation inode + 1" by (simp_all add: new_def mutated_def MutatedInode_def Let_def)
  show "inode_number new = n" using ReadInode_ok(3) [OF f(10)] by (simp add: new_def mutated_def MutatedInode_def Let_def)
  show req: "length mapping = unat (RequiredBlocks new)" using PlanRequiredBlocks_inode [OF mx] len sz by simp
  show "length (direct_blocks new) = 12" "l < 12 \<Longrightarrow> direct_blocks new ! l = (if l < length mapping then mapping ! l else 0)"
    "indirect_block new = (if length mapping > 12 then ind else 0)"
    unfolding new_def mutated_def by (simp_all add: MutatedInode_def Let_def len [symmetric] nth_append min_def)
  show "unat (RequiredBlocks new) \<le> 1036" using changed_range(3) [OF f(8,7)] req len by simp
  have "S_ISREG (mode inode)" by (rule mutation_runD(3) [OF run])
  then show "\<not> S_ISDIR (mode new)" by (simp add: m S_ISDIR_def S_ISREG_def)
qed

lemma mutation_step_facts:
  assumes ok: "volume_ok r" and run: "mutation_run r n request plan inode old ps mapping ind a tb bs"
  shows "image_update r (mutation_images plan) (inode_bitmap_bytes r) (bitmap_of a)"
    "later (unat ` keys (mutation_images plan)) (unat ` gone_blocks inode request old) r (reload (mutation_images plan) r)"
    "changes_only {n} (unat ` keys (mutation_images plan)) (unat ` gone_blocks inode request old) r (reload (mutation_images plan) r)"
  using mutation_transaction [OF assms] transaction_later [OF ok mutation_transaction [OF assms]]
    transaction_changes [OF ok mutation_transaction [OF assms]] by (simp_all add: transaction_step_def)

lemma taken_allocated:
  assumes ok: "volume_ok r" and run: "mutation_run r n request plan inode old ps mapping ind a tb bs"
    and "b \<in> set (taken_blocks inode request ps ind)"
  shows "file_block_ok (reload (mutation_images plan) r) b"
proof -
  note f = mutation_run_facts [OF ok run] and u = mutation_step_facts [OF ok run] and v = volume_okD [OF ok]
  note t = f(2) [OF assms(3)]
  have "x \<notin> unat ` gone_blocks inode request old" if "x = unat b" for x
    using that t gone_blocks_owned [OF run] file_blocks_ok [OF f(10)]
    by (auto simp: file_block_ok_def IsBlockAllocated_def BitmapBit_TestBit) metis
  then have "TestBit (bitmap_of a) (unat b)" using f(4) assms(3) by auto
  moreover have "b \<noteq> 0" using t volume_regions(1,7) [OF v(1)] by (auto simp: region_start_def region_end_def)
  ultimately show ?thesis
    using t reload_bitmaps(2) [OF v(1-3) u(1)]
    by (simp add: file_block_ok_def IsBlockAllocated_def BitmapBit_TestBit region_start_def word_le_nat_alt word_less_nat_alt)
qed

lemma kept_indirect:
  assumes ok: "volume_ok r" and run: "mutation_run r n request plan inode old ps mapping ind a tb bs"
    and "12 < length mapping" "\<not> new_indirect_needed inode request"
  shows "ind = indirect_block inode" "unat ind \<in> file_blocks r inode" "ind \<notin> gone_blocks inode request old"
    "RequiredBlocks inode = RequiredBlocks (mutated inode request mapping ind)"
    "12 \<le> l \<Longrightarrow> l < length mapping \<Longrightarrow> kept_block inode request l"
    "ReadExact (reload (mutation_images plan) r) (unat ind * 4096) 4096 = ReadExact r (unat ind * 4096) 4096"
proof -
  note f = mutation_run_facts [OF ok run] and c = changed_range [OF mutation_run_facts(8,7) [OF ok run]] and m = mutated_fields [OF ok run]
  have len: "length mapping = unat (PlanRequiredBlocks (mutation_length inode request))"
    using mutation_runD(1) [OF run] by (simp add: new_mapping_ok_def)
  have nr: "\<not> replaces request" "indirect_block inode \<noteq> 0" "changed_to inode request \<le> 12"
    using assms(3,4) len by (auto simp: new_indirect_needed_def)
  then show i: "ind = indirect_block inode" using mutation_runD(6) [OF run assms(4)] by simp
  then show fb: "unat ind \<in> file_blocks r inode" using nr(2) by (auto simp: file_blocks_def map_blocks_def)
  have "distinct (indirect_block inode # old)"
    using volume_okD(5) [OF ok f(10)] mutation_runD(2) [OF run] by (simp add: inode_distinct_def)
  then show "ind \<notin> gone_blocks inode request old" using nr(1) assms(4) by (auto simp: gone_blocks_def i)
  have "unat (RequiredBlocks inode) = length mapping" using c(5) [OF nr(1)] nr(3) assms(3) len by linarith
  then show "RequiredBlocks inode = RequiredBlocks (mutated inode request mapping ind)"
    using m(6) by (intro word_unat_eq_iff [THEN iffD2]) simp
  show "12 \<le> l \<Longrightarrow> l < length mapping \<Longrightarrow> kept_block inode request l" using nr(3) len by (simp add: kept_block_def)
  show "ReadExact (reload (mutation_images plan) r) (unat ind * 4096) 4096 = ReadExact r (unat ind * 4096) 4096"
    using ReadExact_later [OF mutation_step_facts(2) [OF ok run]] old_block_untouched(1) [OF ok run fb] by simp
qed

lemma new_indirect_read:
  assumes ok: "volume_ok r" and run: "mutation_run r n request plan inode old ps mapping ind a tb bs"
    and "new_indirect_needed inode request"
  shows "ReadExact (reload (mutation_images plan) r) (unat ind * 4096) 4096 = Inr (IndirectImage mapping (length mapping))"
proof -
  note f = mutation_run_facts [OF ok run] and v = volume_okD [OF ok] and u = mutation_step_facts [OF ok run]
  have len: "length mapping = unat (PlanRequiredBlocks (mutation_length inode request))"
    using mutation_runD(1) [OF run] by (simp add: new_mapping_ok_def)
  have ip: "ind \<notin> set ps" "ind \<in> set (taken_blocks inode request ps ind)" using f(1) assms(3) by (auto simp: taken_blocks_def)
  have "map_of (new_images r inode request old ps) ind = None"
    using ip(1) by (auto simp: new_images_def map_of_eq_None_iff dest: set_zip_leftD)
  moreover have "ind \<noteq> InodeTableBlock (superblock r) n"
    using f(2) [OF ip(2)] inode_position(4) [OF v(1) f(5,6)] volume_regions(3) [OF v(1)] by auto
  ultimately have "map_of (mutation_images plan) ind = Some (IndirectImage mapping (length mapping))"
    using mutation_images_map_of [OF ok run, of ind] assms(3) len by (simp add: indirect_images_def)
  then show ?thesis using reload_read(1) [OF v(1,2) u(1), of ind _ 0 4096] by (simp add: get_bytes_def)
qed

lemma mutated_pointer:
  assumes ok: "volume_ok r" and run: "mutation_run r n request plan inode old ps mapping ind a tb bs"
    and "l < length mapping"
  shows "file_pointer (reload (mutation_images plan) r) (mutated inode request mapping ind) l = mapping ! l"
proof (cases "l < 12")
  case True
  then show ?thesis using mutated_fields(7) [OF ok run] assms(3) by (simp add: file_pointer_def)
next
  case False
  note m = mutated_fields [OF ok run]
  have i: "indirect_block (mutated inode request mapping ind) = ind" and big: "12 < length mapping" using m(8) False assms(3) by auto
  show ?thesis
  proof (cases "new_indirect_needed inode request")
    case True
    have "l - 12 < 1024" "length mapping \<le> 1036" using m(6,9) assms(3) by linarith+
    then show ?thesis
      using new_indirect_read [OF ok run True] i False assms(3)
      by (simp add: file_pointer_def IndirectImage_def indirect_fold)
  next
    case nni: False
    note k = kept_indirect [OF ok run big nni]
    have "kept_block inode request l" using k(5) False assms(3) by simp
    then have "mapping ! l = file_pointer r inode l" by (rule kept_pointer(3) [OF ok run])
    then show ?thesis using k(1,6) i False by (simp add: file_pointer_def)
  qed
qed

lemma mutated_blocks_ok:
  assumes ok: "volume_ok r" and run: "mutation_run r n request plan inode old ps mapping ind a tb bs"
  shows "l < length mapping \<Longrightarrow> file_block_ok (reload (mutation_images plan) r) (mapping ! l)"
    "12 < length mapping \<Longrightarrow> file_block_ok (reload (mutation_images plan) r) ind \<and> ind \<notin> set mapping"
proof -
  note f = mutation_run_facts [OF ok run] and u = mutation_step_facts [OF ok run] and kp = kept_pointer [OF ok run] and fp = fresh_pointer [OF ok run]
  have old: "file_block_ok (reload (mutation_images plan) r) b" if b: "unat b \<in> file_blocks r inode" "b \<notin> gone_blocks inode request old" for b
  proof -
    obtain b' where "unat b = unat b'" "file_block_ok r b'" using file_blocks_ok [OF f(10) b(1)] by blast
    then have "file_block_ok r b" by (auto dest!: word_unat_eq_iff [THEN iffD2])
    moreover have "unat b \<notin> unat ` gone_blocks inode request old" using b(2) by (auto dest!: word_unat_eq_iff [THEN iffD2])
    ultimately show ?thesis by (rule file_block_ok_later [OF u(2)])
  qed
  show "file_block_ok (reload (mutation_images plan) r) (mapping ! l)" if "l < length mapping"
    using old [OF kp(4,5)] taken_allocated [OF ok run] fp(1) [OF _ that] by (cases "kept_block inode request l") (auto simp: taken_blocks_def)
  show "file_block_ok (reload (mutation_images plan) r) ind \<and> ind \<notin> set mapping" if big: "12 < length mapping"
  proof (cases "new_indirect_needed inode request")
    case True
    then have it: "ind \<in> set (taken_blocks inode request ps ind)" "ind \<notin> set ps" using f(1) by (auto simp: taken_blocks_def)
    have "ind \<noteq> mapping ! l" if "l < length mapping" for l
      using old_block_untouched(2) [OF ok run kp(4), of l] it fp(1) [OF _ that] by (cases "kept_block inode request l") auto
    then show ?thesis using taken_allocated [OF ok run it(1)] by (auto simp: in_set_conv_nth)
  next
    case False
    note k = kept_indirect [OF ok run big False]
    have "distinct (indirect_block inode # map (file_pointer r inode) [0..<unat (RequiredBlocks inode)])"
      using volume_okD(5) [OF ok f(10)] by (simp add: inode_distinct_def)
    then have "ind \<noteq> mapping ! l" if "l < length mapping" for l
      using kp(2,3) [of l] old_block_untouched(2) [OF ok run k(2)] fp(1) [OF _ that] k(1)
      by (cases "kept_block inode request l") (auto simp: taken_blocks_def)
    then show ?thesis using old [OF k(2,3)] by (auto simp: in_set_conv_nth)
  qed
qed

lemma mutated_inode_ok:
  assumes ok: "volume_ok r" and run: "mutation_run r n request plan inode old ps mapping ind a tb bs"
  defines "r' \<equiv> reload (mutation_images plan) r" and "new \<equiv> mutated inode request mapping ind"
  shows "inode_ok r' new" "inode_closed r' new"
proof -
  note m = mutated_fields [OF ok run, folded new_def] and b = mutated_blocks_ok [OF ok run, folded r'_def]
    and p = mutated_pointer [OF ok run, folded r'_def new_def]
  have req: "RequiredBlocks new \<le> 12 \<longleftrightarrow> \<not> 12 < length mapping" using m(6) by (auto simp: word_le_nat_alt)
  have rd: "\<exists>c. ReadExact r' (unat ind * kBlockSize) kBlockSize = Inr c" if "12 < length mapping"
  proof (cases "new_indirect_needed inode request")
    case True
    then show ?thesis using new_indirect_read [OF ok run] by (simp add: r'_def)
  next
    case False
    note k = kept_indirect [OF ok run that False]
    have io: "inode_ok r inode" by (rule mutation_run_facts(9) [OF ok run])
    have "\<not> RequiredBlocks inode \<le> 12" using req k(4) that by (simp add: new_def)
    then show ?thesis using io k(1,6) by (auto simp: inode_ok_def r'_def)
  qed
  show "inode_ok r' new" unfolding inode_ok_def using m b p rd req by simp
  show "inode_closed r' new"
    unfolding inode_closed_def
  proof (intro conjI allI impI)
    show "direct_blocks new ! i = 0" if "unat (RequiredBlocks new) \<le> i \<and> i < 12" for i using m(6,7) that by simp
  next
    fix c i assume a: "ReadExact r' (unat (indirect_block new) * kBlockSize) kBlockSize = Inr c
      \<and> unat (RequiredBlocks new) - 12 \<le> i \<and> i < 1024 \<and> \<not> RequiredBlocks new \<le> 12"
    then have big: "12 < length mapping" and i: "indirect_block new = ind" using req m(8) by auto
    show "indirect_pointer c i = 0"
    proof (cases "new_indirect_needed inode request")
      case True
      then have "c = IndirectImage mapping (length mapping)" using new_indirect_read [OF ok run True] a i by (simp add: r'_def)
      moreover have "\<not> i + 12 < length mapping" "length mapping \<le> 1036" using a m(6,9) by linarith+
      ultimately show ?thesis using a by (simp add: IndirectImage_def indirect_fold)
    next
      case False
      note k = kept_indirect [OF ok run big False]
      have "inode_closed r inode" by (rule ReadInode_closed [OF mutation_run_facts(10) [OF ok run]])
      then show ?thesis using a i k(1,4,6) by (auto simp: inode_closed_def r'_def new_def)
    qed
  qed
qed

lemma mutated_read:
  assumes ok: "volume_ok r" and run: "mutation_run r n request plan inode old ps mapping ind a tb bs"
  shows "ReadInode (reload (mutation_images plan) r) n = Inr (mutated inode request mapping ind)"
  unfolding ReadInode_iff
proof (intro conjI exI)
  let ?r = "reload (mutation_images plan) r" and ?new = "mutated inode request mapping ind"
  note m = mutated_fields [OF ok run] and f = mutation_run_facts [OF ok run] and v = volume_okD [OF ok] and u = mutation_step_facts [OF ok run]
  note p = inode_position [OF v(1) f(5,6)]
  show "IsInodeAllocated ?r n" using u(2) ReadInode_ok(2) [OF f(10)] by (simp add: later_def)
  have nz: "inode_number ?new \<noteq> 0" using f(5) m(4) by auto
  have "IsKnownMode (mode ?new)" using ReadInode_ok(4) [OF f(10)] m(3) by simp
  then have enc: "length bs = 128" "DecodeInode bs n = Inr ?new"
    using inode_roundtrip [OF nz _ m(2,5)] mutation_runD(4) [OF run] m(4) by auto
  have tb: "length tb = 4096" using mutation_runD(5) [OF run] ReadExact_length by (auto simp: ReadBlock_def)
  have q: "InodeOffsetInBlock n < 4096" using p(2) by simp
  have "map_of (new_images r inode request old ps) (InodeTableBlock (superblock r) n) = None"
    using f(2) p(4) volume_regions(3) [OF v(1)]
    by (fastforce simp: new_images_def map_of_eq_None_iff taken_blocks_def dest: set_zip_leftD)
  then have "map_of (mutation_images plan) (InodeTableBlock (superblock r) n) = Some (put_bytes (InodeOffsetInBlock n) bs tb)"
    using mutation_images_map_of [OF ok run, of "InodeTableBlock (superblock r) n"] by simp
  from reload_read(1) [OF v(1,2) u(1) this p(2) q]
  show "ReadExact ?r (inode_offset ?r n) kInodeRecordSize = Inr bs"
    using p(1,2) tb enc(1) by (simp add: inode_offset_def byte_simps)
  show "DecodeInode bs n = Inr ?new" by (rule enc(2))
  show "inode_ok ?r ?new" "inode_closed ?r ?new" by (rule mutated_inode_ok [OF ok run])+
qed

lemma mutated_file_blocks:
  assumes ok: "volume_ok r" and run: "mutation_run r n request plan inode old ps mapping ind a tb bs"
  defines "r' \<equiv> reload (mutation_images plan) r" and "new \<equiv> mutated inode request mapping ind"
  shows "file_blocks r' new \<subseteq> file_blocks r inode \<union> unat ` set (taken_blocks inode request ps ind)" "inode_distinct r' new"
proof -
  note m = mutated_fields [OF ok run, folded new_def] and b = mutated_blocks_ok [OF ok run, folded r'_def]
    and p = mutated_pointer [OF ok run, folded r'_def new_def]
  have mp: "map (file_pointer r' new) [0..<unat (RequiredBlocks new)] = mapping"
    using p m(6) by (intro nth_equalityI) auto
  have nz: "0 \<notin> set mapping" using b(1) by (auto simp: in_set_conv_nth file_block_ok_def)
  show "inode_distinct r' new"
    unfolding inode_distinct_def mp using mapping_distinct [OF ok run] m(8) b(2) nz by simp
  have x: "unat (mapping ! l) \<in> file_blocks r inode \<union> unat ` set (taken_blocks inode request ps ind)" if "l < length mapping" for l
    using kept_pointer(4) [OF ok run] fresh_pointer(1) [OF ok run _ that] by (cases "kept_block inode request l") (auto simp: taken_blocks_def)
  have y: "unat ind \<in> file_blocks r inode \<union> unat ` set (taken_blocks inode request ps ind)" if "12 < length mapping"
    using kept_indirect(2) [OF ok run that] by (cases "new_indirect_needed inode request") (auto simp: taken_blocks_def)
  show "file_blocks r' new \<subseteq> file_blocks r inode \<union> unat ` set (taken_blocks inode request ps ind)"
  proof
    fix z assume "z \<in> file_blocks r' new"
    then consider l where "l < length mapping" "z = unat (mapping ! l)" | "12 < length mapping" "z = unat ind"
      unfolding file_blocks_def map_blocks_def using p m(6,8) by (auto split: if_splits)
    then show "z \<in> file_blocks r inode \<union> unat ` set (taken_blocks inode request ps ind)" 
    proof cases
      case 1
      then show ?thesis using x by blast
    next
      case 2
      then show ?thesis using y by blast
    qed
  qed
qed

lemma mutation_volume_ok:
  assumes ok: "volume_ok r" and run: "mutation_run r n request plan inode old ps mapping ind a tb bs"
  shows "volume_ok (reload (mutation_images plan) r)" "change_ok {n} r (reload (mutation_images plan) r)"
proof -
  let ?r = "reload (mutation_images plan) r" and ?new = "mutated inode request mapping ind"
  note m = mutated_fields [OF ok run] and f = mutation_run_facts [OF ok run] and v = volume_okD [OF ok] and u = mutation_step_facts [OF ok run]
  note rd = mutated_read [OF ok run] and fb = mutated_file_blocks [OF ok run]
  have "file_blocks ?r ?new \<inter> file_blocks r j = {}" if j: "k \<noteq> n" "ReadInode r k = Inr j" for k j
  proof -
    have "x \<notin> unat ` set (taken_blocks inode request ps ind)" if x: "x \<in> file_blocks r j" for x
    proof -
      obtain b where "x = unat b" "file_block_ok r b" by (rule file_blocks_ok [OF j(2) x])
      then have "TestBit (block_bitmap_bytes r) x" by (simp add: file_block_ok_def IsBlockAllocated_def BitmapBit_TestBit)
      then show ?thesis using f(2) by blast
    qed
    then show ?thesis using fb(1) v(6) [OF f(10) j(2)] j(1) by blast
  qed
  then show c: "change_ok {n} r ?r" using rd fb(2) m(3,11) f(10) by (auto simp: change_ok_def)
  obtain root where root: "ReadInode r (root_inode (superblock r)) = Inr root" "S_ISDIR (mode root)"
    using v(1) by (auto simp: reader_ok_def)
  have "root_inode (superblock r) \<noteq> n" using root f(10) m(3,11) by auto
  then have "ReadInode ?r (root_inode (superblock r)) = Inr root" using changes_only_inode(1) [OF u(3) _ root(1)] by simp
  from transaction_reader_ok [OF ok mutation_transaction [OF ok run] this root(2)]
  have "reader_ok ?r" .
  then show "volume_ok ?r"
    using volume_ok_step [OF ok _ _ _ u(3) c] reload_bitmaps(3,4) [OF v(1-3) u(1)] by blast
qed

section \<open>The contents after the mutation\<close>

lemma unat_max_min: "unat (max a b) = max (unat a) (unat (b :: 'a :: len word))" "unat (min a b) = min (unat a) (unat b)"
  by (simp_all add: max_def min_def word_le_nat_alt)

lemma unat_block_end: "unat (c :: u64) + 4096 < 18446744073709551616 \<Longrightarrow> unat (c + 4096) = unat c + 4096"
  by (simp add: unat_word_ariths)

lemma nth_ZeroRange:
  assumes "unat c + 4096 < 18446744073709551616" "length d = 4096" "q < 4096"
  shows "ZeroRange s e c d ! q = (if unat s \<le> unat c + q \<and> unat c + q < unat e then 0 else d ! q)"
proof -
  let ?b = "max s c" and ?e = "min e (c + 4096)"
  have u: "unat ?b = max (unat s) (unat c)" "unat ?e = min (unat e) (unat c + 4096)"
    using unat_block_end [OF assms(1)] by (simp_all add: unat_max_min)
  show ?thesis
  proof (cases "?b < ?e")
    case True
    then have lt: "unat ?b < unat ?e" by (simp add: word_less_nat_alt)
    have v: "unat (?b - c) = unat ?b - unat c" "unat (?e - ?b) = unat ?e - unat ?b"
      by (rule unat_sub, fact less_imp_le [OF True] max.cobounded2)+
    let ?n = "unat ?e - unat ?b"
    have zr: "ZeroRange s e c d = put_bytes (unat ?b - unat c) (replicate ?n 0) d"
      using True v by (simp only: ZeroRange_def Let_def if_True)
    have fit: "unat ?b - unat c + length (replicate ?n (0 :: 8 word)) \<le> length d" using u lt assms(2) by simp
    have w: "(unat ?b - unat c \<le> q \<and> q < unat ?b - unat c + ?n) = (unat s \<le> unat c + q \<and> unat c + q < unat e)"
      using u lt assms(3) by auto
    have "replicate ?n (0 :: 8 word) ! (q - (unat ?b - unat c)) = 0" if "q < unat ?b - unat c + ?n" "unat ?b - unat c \<le> q"
      using that by (intro nth_replicate) linarith
    then show ?thesis
      unfolding zr nth_put_bytes [OF fit, of q, unfolded assms(2), OF assms(3)] length_replicate w [symmetric] by auto
  next
    case False
    then show ?thesis using u assms(3) by (auto simp: ZeroRange_def Let_def word_less_nat_alt)
  qed
qed

lemma nth_OverlayData:
  assumes "unat c + 4096 < 18446744073709551616" "length d = 4096" "q < 4096" "unat e = unat s + length p"
  shows "OverlayData s e c p d ! q = (if unat s \<le> unat c + q \<and> unat c + q < unat e then p ! (unat c + q - unat s) else d ! q)"
proof -
  let ?b = "max s c" and ?e = "min e (c + 4096)"
  have u: "unat ?b = max (unat s) (unat c)" "unat ?e = min (unat e) (unat c + 4096)"
    using unat_block_end [OF assms(1)] by (simp_all add: unat_max_min)
  show ?thesis
  proof (cases "?b < ?e")
    case True
    then have lt: "unat ?b < unat ?e" by (simp add: word_less_nat_alt)
    have v: "unat (?b - c) = unat ?b - unat c" "unat (?e - ?b) = unat ?e - unat ?b" "unat (?b - s) = unat ?b - unat s"
      by (rule unat_sub, fact less_imp_le [OF True] max.cobounded2 max.cobounded1)+
    let ?src = "get_bytes (unat (?b - s)) (unat (?e - ?b)) p"
    have len: "length ?src = unat ?e - unat ?b" unfolding v using u lt assms(4) by simp
    have x: "unat s \<le> unat ?b" "unat c \<le> unat ?b" "unat ?e \<le> unat e" "unat ?e \<le> unat c + 4096"
      "unat ?b = unat s \<or> unat ?b = unat c" "unat ?e = unat e \<or> unat ?e = unat c + 4096"
      unfolding u by (simp_all add: max_def min_def)
    have ov: "OverlayData s e c p d = put_bytes (unat ?b - unat c) ?src d"
      using True v(1) by (simp only: OverlayData_def Let_def linorder_not_less [symmetric] not_not if_False simp_thms)
    have fit: "unat ?b - unat c + length ?src \<le> length d" unfolding len assms(2) using x lt by linarith
    show ?thesis
    proof (cases "unat s \<le> unat c + q \<and> unat c + q < unat e")
      case in_range: True
      then have i: "unat ?b - unat c \<le> q" "q < unat ?b - unat c + length ?src" unfolding len using x assms(3) lt by linarith+
      then have "put_bytes (unat ?b - unat c) ?src d ! q = ?src ! (q - (unat ?b - unat c))"
        using fit assms(2,3) by (simp add: nth_put_bytes)
      also have "\<dots> = p ! (unat (?b - s) + (q - (unat ?b - unat c)))"
      proof (rule nth_get_bytes)
        show "unat (?b - s) + unat (?e - ?b) \<le> length p" unfolding v using x lt assms(4) by linarith
        show "q - (unat ?b - unat c) < unat (?e - ?b)" using i len unfolding v by linarith
      qed
      also have "unat (?b - s) + (q - (unat ?b - unat c)) = unat c + q - unat s" unfolding v using x i(1) in_range by linarith
      finally show ?thesis using in_range ov by simp
    next
      case out: False
      then have "\<not> (unat ?b - unat c \<le> q \<and> q < unat ?b - unat c + length ?src)" unfolding len using x assms(3) lt by linarith
      then have "put_bytes (unat ?b - unat c) ?src d ! q = d ! q"
        using nth_put_bytes [OF fit, of q] assms(2,3) by (simp only: if_False simp_thms)
      then show ?thesis unfolding ov using out by (simp only: if_False)
    qed
  next
    case False
    then show ?thesis using u assms(3) by (auto simp: OverlayData_def Let_def word_less_nat_alt word_le_nat_alt)
  qed
qed

lemma nth_ReplaceBlock:
  assumes "q < 4096" "l * 4096 + q < length p"
  shows "ReplaceBlock p l ! q = p ! (l * 4096 + q)"
proof -
  let ?n = "min 4096 (length p - l * 4096)"
  have n: "q < ?n" "l * 4096 + ?n \<le> length p" using assms by linarith+
  have "length (get_bytes (l * 4096) ?n p) = ?n" using n(2) by simp
  then show ?thesis
    using n assms(1) nth_put_bytes [of 0 "get_bytes (l * 4096) ?n p" "replicate 4096 0" q] nth_get_bytes [OF n(2,1)]
    by (simp add: ReplaceBlock_def Let_def)
qed

lemma volume_file_readable:
  assumes "volume_ok r" "ReadInode r n = Inr i"
  shows "file_readable r i"
  unfolding file_readable_def list_all_iff
proof
  note v = volume_okD [OF assms(1)]
  fix l assume "l \<in> set [0..<unat (RequiredBlocks i)]"
  then have "file_block_ok r (file_pointer r i l)" using ReadInode_ok(1) [OF assms(2)] by (simp add: inode_ok_def)
  then have "unat (file_pointer r i l) < unat (total_blocks (superblock r))" by (simp add: file_block_ok_def word_less_nat_alt)
  then obtain c where "ReadExact r (unat (file_pointer r i l) * 4096 + 0) 4096 = Inr (get_bytes 0 4096 c)"
    using ReadExact_block [OF v(1,2), of "unat (file_pointer r i l)" 0 4096] by (metis add_0 le_refl zero_less_numeral)
  then show "\<not> isl (ReadExact r (unat (file_pointer r i l) * kBlockSize) kBlockSize)" by simp
qed

lemma file_contents_nth:
  assumes "volume_ok r" "ReadInode r n = Inr i"
  shows "length (file_contents r i) = unat (file_size i)"
    "p < unat (file_size i) \<Longrightarrow> file_contents r i ! p = block_content r i (p div 4096) ! (p mod 4096)"
    "p < unat (file_size i) \<Longrightarrow> p div 4096 < unat (RequiredBlocks i)"
proof -
  have rd: "length (block_content r i l) = 4096" if "l < unat (RequiredBlocks i)" for l
    using block_content_ok(2) [OF volume_file_readable [OF assms] that] by simp
  have sz: "file_size i \<le> kMaxFileSize" using ReadInode_ok(1) [OF assms(2)] by (simp add: inode_ok_def)
  have req: "unat (RequiredBlocks i) = (unat (file_size i) + 4095) div 4096" by (rule unat_RequiredBlocks(1) [OF sz])
  have le: "unat (file_size i) \<le> unat (RequiredBlocks i) * 4096"
    using div_mult_mod_eq [of "unat (file_size i) + 4095" 4096] mod_less_divisor [of 4096 "unat (file_size i) + 4095"]
    unfolding req by linarith
  have len: "length (concat (map (block_content r i) [0..<unat (RequiredBlocks i)])) = unat (RequiredBlocks i) * 4096"
    using rd by (rule length_concat_equal)
  then show "length (file_contents r i) = unat (file_size i)" using le by (simp add: file_contents_def)
  assume p: "p < unat (file_size i)"
  then show "p div 4096 < unat (RequiredBlocks i)" using le by (simp add: div_less_iff_less_mult)
  have "concat (map (block_content r i) [0..<unat (RequiredBlocks i)]) ! p = block_content r i (p div 4096) ! (p mod 4096)"
    using rd p le by (intro concat_equal_nth) simp_all
  then show "file_contents r i ! p = block_content r i (p div 4096) ! (p mod 4096)" using p by (simp add: file_contents_def)
qed

text \<open>The specification of the two operations on the contents of a file.\<close>

definition file_after :: "FileMutationRequest \<Rightarrow> bytes \<Rightarrow> bytes" where
  "file_after request contents = (if replaces request then request_data request
     else put_bytes (unat (request_offset request)) (request_data request)
       (contents @ replicate (unat (request_offset request) + length (request_data request) - length contents) 0))"

lemma file_after_range:
  assumes "\<not> replaces request"
  defines "off \<equiv> unat (request_offset request)" and "n \<equiv> length (request_data request)"
  shows "length (file_after request d) = max (length d) (off + n)"
    "p < max (length d) (off + n) \<Longrightarrow> file_after request d ! p
      = (if off \<le> p \<and> p < off + n then request_data request ! (p - off) else if p < length d then d ! p else 0)"
proof -
  let ?x = "d @ replicate (off + n - length d) 0"
  have fa: "file_after request d = put_bytes off (request_data request) ?x"
    using assms(1) by (simp add: file_after_def off_def n_def)
  have len: "length ?x = max (length d) (off + n)" by simp
  then show "length (file_after request d) = max (length d) (off + n)" unfolding fa by simp
  assume p: "p < max (length d) (off + n)"
  have "put_bytes off (request_data request) ?x ! p = (if off \<le> p \<and> p < off + length (request_data request)
      then request_data request ! (p - off) else ?x ! p)"
    using p len by (intro nth_put_bytes) (simp_all add: n_def)
  moreover have "?x ! p = (if p < length d then d ! p else 0)" using p by (auto simp: nth_append)
  ultimately show "file_after request d ! p
      = (if off \<le> p \<and> p < off + n then request_data request ! (p - off) else if p < length d then d ! p else 0)"
    unfolding fa n_def by simp
qed

lemma mutated_block_content:
  assumes ok: "volume_ok r" and run: "mutation_run r n request plan inode old ps mapping ind a tb bs"
    and l: "l < length mapping"
  shows "block_content (reload (mutation_images plan) r) (mutated inode request mapping ind) l
    = (if kept_block inode request l then block_content r inode l else projr (block_image r inode request old l))"
proof -
  let ?r = "reload (mutation_images plan) r"
  note p = mutated_pointer [OF ok run l] and v = volume_okD [OF ok] and u = mutation_step_facts [OF ok run]
  show ?thesis
  proof (cases "kept_block inode request l")
    case True
    note k = kept_pointer [OF ok run True]
    have "ReadExact ?r (unat (mapping ! l) * 4096) 4096 = ReadExact r (unat (mapping ! l) * 4096) 4096"
      using ReadExact_later [OF u(2)] old_block_untouched(1) [OF ok run k(4)] by simp
    then show ?thesis using True k(3) p by (simp add: block_content_def)
  next
    case False
    note fp = fresh_pointer [OF ok run False l]
    have "length (projr (block_image r inode request old l)) = 4096"
      using length_block_image mutation_runD(7) [OF run fp(5,6)] by blast
    then show ?thesis using reload_read(1) [OF v(1,2) u(1) fp(4), of 0 4096] False p
      by (simp add: block_content_def get_bytes_def)
  qed
qed

lemma RangeBlock_nth:
  assumes ok: "volume_ok r" and run: "mutation_run r n request plan inode old ps mapping ind a tb bs"
    and nr: "\<not> replaces request" and p: "p < unat (mutation_length inode request)"
    and fr: "changed_from inode request \<le> p div 4096" "p div 4096 < changed_to inode request"
  shows "projr (block_image r inode request old (p div 4096)) ! (p mod 4096) = file_after request (file_contents r inode) ! p"
proof -
  let ?l = "p div 4096" and ?q = "p mod 4096" and ?off = "request_offset request" and ?n = "length (request_data request)"
  let ?e = "?off + of_nat ?n :: u64" and ?c = "of_nat ?l * 4096 :: u64"
  note f = mutation_run_facts [OF ok run] and s = mutation_sizes [OF mutation_run_facts(8,7) [OF ok run]]
  note fc = file_contents_nth [OF ok f(10)]
  have pm: "p < max (unat (file_size inode)) (unat ?off + ?n)" using p s(5) nr by simp
  have pl: "p = ?l * 4096 + ?q" by simp
  have small: "?l < 1036" using pm s(1,2) by (simp add: div_less_iff_less_mult)
  have c: "unat ?c = ?l * 4096" using small by (simp add: unat_word_ariths unat_of_nat)
  have c4: "unat ?c + 4096 < 18446744073709551616" using small c by simp
  have cq: "unat ?c + ?q = p" using c pl by simp
  have rb: "\<not> isl (RangeBlock r (file_size inode) request old ?l)"
    using mutation_runD(7) [OF run fr] nr by (simp add: block_image_def)
  let ?cov = "?off \<le> ?c \<and> ?e \<ge> ?c + 4096"
  let ?old = "?l < unat (PlanRequiredBlocks (file_size inode)) \<and> \<not> ?cov"
  obtain base where base: "(if ?old then ReadBlock r (old ! ?l) else Inr (replicate kBlockSize 0)) = Inr base"
    and img: "projr (RangeBlock r (file_size inode) request old ?l) = OverlayData ?off ?e ?c (request_data request)
       (if ?off > file_size inode then ZeroRange (file_size inode) ?off ?c base else base)"
    using rb unfolding RangeBlock_def Let_def
    by (cases "if ?old then ReadBlock r (old ! ?l) else Inr (replicate kBlockSize 0)") auto
  let ?z = "if ?off > file_size inode then ZeroRange (file_size inode) ?off ?c base else base"
  have lb: "length base = 4096" using base ReadExact_length by (auto simp: ReadBlock_def split: if_splits)
  have lz: "length ?z = 4096" using lb by (simp add: ZeroRange_def Let_def)
  have "OverlayData ?off ?e ?c (request_data request) ?z ! ?q =
    (if unat ?off \<le> p \<and> p < unat ?off + ?n then request_data request ! (p - unat ?off) else ?z ! ?q)"
    using nth_OverlayData [OF c4 lz _ s(3), of ?q] s(3) unfolding cq by simp
  moreover have "?z ! ?q = (if p < unat (file_size inode) then file_contents r inode ! p else 0)"
    if out: "\<not> (unat ?off \<le> p \<and> p < unat ?off + ?n)"
  proof (cases "p < unat (file_size inode)")
    case True
    have "\<not> ?cov" using out c s(3) pl cq mod_less_divisor [of 4096 p] unat_block_end [OF c4]
      by (auto simp: word_le_nat_alt)
    moreover have lr: "?l < unat (RequiredBlocks inode)" by (rule fc(3) [OF True])
    ultimately have "ReadBlock r (file_pointer r inode ?l) = Inr base"
      using base PlanRequiredBlocks_inode [OF f(7)] mutation_runD(2) [OF run] by simp
    then have "base = block_content r inode ?l" by (simp add: ReadBlock_def block_content_def split: if_splits)
    moreover have "ZeroRange (file_size inode) ?off ?c base ! ?q = base ! ?q"
      using nth_ZeroRange [OF c4 lb, of ?q "file_size inode" ?off] True unfolding cq by simp
    ultimately show ?thesis using fc(2) [OF True] True by simp
  next
    case False
    then have "unat (file_size inode) \<le> p" "p < unat ?off" using out pm by auto
    then have "?off > file_size inode" "ZeroRange (file_size inode) ?off ?c base ! ?q = 0"
      using nth_ZeroRange [OF c4 lb, of ?q "file_size inode" ?off] unfolding cq by (simp_all add: word_less_nat_alt)
    then show ?thesis using False by simp
  qed
  ultimately show ?thesis using file_after_range(2) [OF nr, of p "file_contents r inode"] pm fc(1) nr img
    by (simp add: block_image_def)
qed

lemma kept_range:
  assumes "mutation_fits request" "file_size inode \<le> kMaxFileSize" "kept_block inode request (p div 4096)"
    and "p < unat (mutation_length inode request)"
  shows "p < unat (file_size inode)"
    "\<not> (unat (request_offset request) \<le> p \<and> p < unat (request_offset request) + length (request_data request))"
proof -
  let ?off = "unat (request_offset request)" and ?n = "length (request_data request)" and ?s = "unat (file_size inode)"
  have nr: "\<not> replaces request" by (rule kept_block_old(2) [OF assms(1-3)])
  have pm: "p < max ?s (?off + ?n)" using mutation_sizes(5) [OF assms(1,2)] nr assms(4) by simp
  from assms(3) have "p div 4096 < min ?s ?off div 4096 \<or> (?off + ?n + 4095) div 4096 \<le> p div 4096"
    using nr by (auto simp: kept_block_def changed_from_def changed_to_def)
  then have "p < min ?s ?off \<or> ?off + ?n \<le> p"
  proof
    assume "p div 4096 < min ?s ?off div 4096"
    then show ?thesis using div_le_mono [of "min ?s ?off" p 4096] by linarith
  next
    assume a: "(?off + ?n + 4095) div 4096 \<le> p div 4096"
    have "?off + ?n \<le> (?off + ?n + 4095) div 4096 * 4096"
      using div_mult_mod_eq [of "?off + ?n + 4095" 4096] mod_less_divisor [of 4096 "?off + ?n + 4095"] by linarith
    also have "\<dots> \<le> p div 4096 * 4096" using a by simp
    also have "\<dots> \<le> p" by simp
    finally show ?thesis by blast
  qed
  then show "p < ?s" "\<not> (?off \<le> p \<and> p < ?off + ?n)" using pm by auto
qed

lemma mutated_contents:
  assumes ok: "volume_ok r" and run: "mutation_run r n request plan inode old ps mapping ind a tb bs"
  shows "file_contents (reload (mutation_images plan) r) (mutated inode request mapping ind)
    = file_after request (file_contents r inode)"
proof (rule nth_equalityI)
  let ?r = "reload (mutation_images plan) r" and ?new = "mutated inode request mapping ind"
  note f = mutation_run_facts [OF ok run] and s = mutation_sizes [OF mutation_run_facts(8,7) [OF ok run]]
    and m = mutated_fields [OF ok run] and fc = file_contents_nth [OF ok mutation_run_facts(10) [OF ok run]]
    and fc' = file_contents_nth [OF mutation_volume_ok(1) [OF ok run] mutated_read [OF ok run]]
  have len: "length (file_after request (file_contents r inode)) = unat (mutation_length inode request)"
    using s(5) fc(1) file_after_range(1) by (cases "replaces request") (simp_all add: file_after_def)
  then show "length (file_contents ?r ?new) = length (file_after request (file_contents r inode))" using fc'(1) m(1) by simp
  fix p assume "p < length (file_contents ?r ?new)"
  then have p: "p < unat (file_size ?new)" "p < unat (mutation_length inode request)" using fc'(1) m(1) by simp_all
  let ?l = "p div 4096" and ?q = "p mod 4096"
  have l: "?l < length mapping" using fc'(3) [OF p(1)] m(6) by simp
  have "file_contents ?r ?new ! p = (if kept_block inode request ?l then block_content r inode ?l else projr (block_image r inode request old ?l)) ! ?q"
    using fc'(2) [OF p(1)] mutated_block_content [OF ok run l] by simp
  also have "\<dots> = file_after request (file_contents r inode) ! p"
  proof (cases "kept_block inode request ?l")
    case True
    note k = kept_range [OF f(8,7) True p(2)]
    then show ?thesis using True fc(1,2) file_after_range(2) [of request p "file_contents r inode"] kept_block_old(2) [OF f(8,7) True] by auto
  next
    case False
    note fp = fresh_pointer [OF ok run False l]
    show ?thesis
    proof (cases "replaces request")
      case True
      have "?l * 4096 + ?q = p" by simp
      then show ?thesis using False True p(2) s(5) nth_ReplaceBlock [of ?q ?l "request_data request"]
        by (simp add: block_image_def file_after_def)
    next
      case nr: False
      then show ?thesis using RangeBlock_nth [OF ok run nr p(2) fp(5,6)] False by simp
    qed
  qed
  finally show "file_contents ?r ?new ! p = file_after request (file_contents r inode) ! p" .
qed

section \<open>A plan exists when there is room\<close>

definition allocator_fits :: "ImageReader \<Rightarrow> AllocatorState \<Rightarrow> bool" where
  "allocator_fits r a \<longleftrightarrow> valid_bits a = total_blocks (superblock r) \<and> first_allocatable_bit a = start_block (data (superblock r))
    \<and> length (bitmap_of a) = length (block_bitmap_bytes r)"

lemma allocator_fits_geometry:
  assumes "volume_ok r" "allocator_fits r a"
  shows "unat (valid_bits a) \<le> length (bitmap_of a) * 8" "first_allocatable_bit a \<le> valid_bits a" "finite (free_bits a)"
proof -
  note v = volume_okD(1) [OF assms(1)]
  show "unat (valid_bits a) \<le> length (bitmap_of a) * 8"
    using assms(2) volume_regions(6) [OF v] reader_ok_facts(4) [OF v] by (simp add: allocator_fits_def)
  show "first_allocatable_bit a \<le> valid_bits a"
    using assms(2) volume_regions(4) [OF v] by (simp add: allocator_fits_def region_start_def word_le_nat_alt)
  have "free_bits a \<subseteq> {0..<unat (valid_bits a)}" by (auto simp: free_bits_def)
  then show "finite (free_bits a)" by (rule finite_subset) simp
qed

lemma ReserveBlock_succeeds:
  assumes "volume_ok r" "allocator_fits r a" "0 < card (free_bits a)"
  shows "\<exists>a' b. ReserveBlock a = Inr (a', b) \<and> allocator_fits r a' \<and> card (free_bits a') = card (free_bits a) - 1
    \<and> unat b < unat (total_blocks (superblock r))"
proof -
  note g = allocator_fits_geometry [OF assms(1,2)]
  obtain x where x: "x \<in> free_bits a" using assms(3) by fastforce
  have "find (\<lambda>i. \<not> TestBit (bitmap_of a) i) [unat (first_allocatable_bit a)..<unat (valid_bits a)] \<noteq> None"
    using x unfolding find_None_iff by (auto simp: free_bits_def)
  then obtain i where i: "find (\<lambda>i. \<not> TestBit (bitmap_of a) i) [unat (first_allocatable_bit a)..<unat (valid_bits a)] = Some i" by blast
  define a' b where "a' = a\<lparr>bitmap_of := SetBit (bitmap_of a) i\<rparr>" and "b = (of_nat i :: u32)"
  have r: "ReserveBlock a = Inr (a', b)"
    using g(1,2) i by (simp add: ReserveBlock_def Reserve_def empty_reservation_def a'_def b_def)
  note f = ReserveBlock_Inr [OF r]
  have "reserve_seq a [b] a'" using r by simp
  note bc = reserve_seq_facts [OF this]
  have "free_bits a' = free_bits a - {unat b}" "unat b \<in> free_bits a" using bc by (auto simp: free_bits_def bits_change_def)
  then have "card (free_bits a') = card (free_bits a) - 1" using g(3) by simp
  moreover have "allocator_fits r a'" using assms(2) bc by (simp add: allocator_fits_def bits_change_def)
  ultimately show ?thesis using r f(2) assms(2) by (auto simp: allocator_fits_def)
qed

lemma ReadBlock_succeeds:
  assumes "volume_ok r" "unat b < unat (total_blocks (superblock r))"
  shows "\<exists>c. ReadBlock r b = Inr c"
  using ReadBlock_whole [OF volume_okD(1,2) [OF assms(1)] assms(2)] by blast

lemma ordered_loop_succeeds:
  assumes "volume_ok r" "allocator_fits r a" "length ls \<le> card (free_bits a)" "\<forall>l \<in> set ls. \<not> isl (content l)"
  shows "\<exists>a' plan' mapping'. ordered_loop r content ls a plan mapping = Inr (a', plan', mapping') \<and> allocator_fits r a'
    \<and> card (free_bits a') = card (free_bits a) - length ls"
  using assms(2-)
proof (induction ls arbitrary: a plan mapping)
  case (Cons l ls)
  obtain c where c: "content l = Inr c" using Cons.prems(3) by (cases "content l") auto
  have "0 < card (free_bits a)" using Cons.prems(2) by simp
  from ReserveBlock_succeeds [OF assms(1) Cons.prems(1) this]
  obtain a1 b where a1: "ReserveBlock a = Inr (a1, b)" "allocator_fits r a1" "card (free_bits a1) = card (free_bits a) - 1"
    "unat b < unat (total_blocks (superblock r))" by blast
  obtain d where d: "ReadBlock r b = Inr d" using ReadBlock_succeeds [OF assms(1) a1(4)] by blast
  let ?plan = "plan\<lparr>mutation_before := map_put b d (mutation_before plan), mutation_ordered := map_put b c (mutation_ordered plan)\<rparr>"
  have "\<exists>a' plan' mapping'. ordered_loop r content ls a1 ?plan (mapping[l := b]) = Inr (a', plan', mapping') \<and> allocator_fits r a'
    \<and> card (free_bits a') = card (free_bits a1) - length ls"
    by (rule Cons.IH) (use a1 Cons.prems in auto)
  then show ?case using c a1 d by (auto simp: AddOrderedBlock_def)
qed simp

lemma block_image_succeeds:
  assumes "volume_ok r" "ReadInode r n = Inr inode"
  shows "\<not> isl (block_image r inode request (map (file_pointer r inode) [0..<unat (RequiredBlocks inode)]) l)"
proof -
  have io: "inode_ok r inode" by (rule ReadInode_ok(1) [OF assms(2)])
  then have sz: "file_size inode \<le> kMaxFileSize" by (simp add: inode_ok_def)
  have "\<exists>c. ReadBlock r (file_pointer r inode l) = Inr c" if "l < unat (RequiredBlocks inode)"
    using io that by (intro ReadBlock_succeeds [OF assms(1)]) (simp add: inode_ok_def file_block_ok_def word_less_nat_alt)
  then show ?thesis
    by (auto simp: block_image_def RangeBlock_def Let_def PlanRequiredBlocks_inode [OF sz] bind_result_def split: sum.splits)
qed

lemma ReleaseBlocks_succeeds:
  assumes "volume_ok r" "allocator_fits r a" "distinct bs"
    and "\<forall>b \<in> set bs. start_block (data (superblock r)) \<le> b \<and> b < total_blocks (superblock r) \<and> TestBit (bitmap_of a) (unat b)"
  shows "\<exists>a'. ReleaseBlocks a bs = Inr a'"
  using assms(2-)
proof (induction bs arbitrary: a)
  case (Cons b bs)
  note g = allocator_fits_geometry [OF assms(1) Cons.prems(1)]
  let ?a = "a\<lparr>bitmap_of := ClearBit (bitmap_of a) (unat b)\<rparr>"
  have r: "ReleaseAllocated a b = Inr ?a"
    using g(1,2) Cons.prems(1,3) by (simp add: ReleaseAllocated_def allocator_fits_def not_less not_le)
  note f = ReleaseAllocated_Inr(4) [OF r]
  have "allocator_fits r ?a" using f Cons.prems(1) by (simp add: bits_change_def allocator_fits_def)
  moreover have "TestBit (bitmap_of ?a) (unat x)" if x: "x \<in> set bs" for x
  proof -
    have "unat x \<noteq> unat b" using Cons.prems(2) x by (auto dest: word_unat_eq_iff [THEN iffD2])
    then show ?thesis using f Cons.prems(3) x by (simp add: bits_change_def)
  qed
  ultimately have "\<exists>a'. ReleaseBlocks ?a bs = Inr a'" using Cons.prems by (intro Cons.IH) auto
  then show ?case using r by simp
qed simp

lemma MutateBlocks_succeeds:
  assumes ok: "volume_ok r" and rd: "ReadInode r n = Inr inode" and fits: "mutation_fits request" and af: "allocator_fits r a"
    and room: "changed_to inode request - changed_from inode request \<le> card (free_bits a)"
  defines "old \<equiv> map (file_pointer r inode) [0..<unat (RequiredBlocks inode)]"
  shows "\<exists>a' plan mapping released last_changed. MutateBlocks r inode request old
      (PlanRequiredBlocks (mutation_length inode request)) a cand = Inr (a', plan, mapping, released, last_changed)
    \<and> allocator_fits r a' \<and> card (free_bits a') = card (free_bits a) - (changed_to inode request - changed_from inode request)
    \<and> distinct released"
proof -
  let ?f = "changed_from inode request" and ?e = "changed_to inode request"
  have sz: "file_size inode \<le> kMaxFileSize" using ReadInode_ok(1) [OF rd] by (simp add: inode_ok_def)
  note c = changed_range [OF fits sz] and bi = block_image_succeeds [OF ok rd, folded old_def]
  have loop: "\<exists>a' plan' mapping'. ordered_loop r (block_image r inode request old) [?f..<?e] a cand m = Inr (a', plan', mapping')
      \<and> allocator_fits r a' \<and> card (free_bits a') = card (free_bits a) - (?e - ?f)" for m
    using ordered_loop_succeeds [OF ok af, of "[?f..<?e]" "block_image r inode request old"] room bi by simp
  show ?thesis
  proof (cases "replaces request")
    case True
    then have img: "(\<lambda>l. Inr (ReplaceBlock (request_data request) l)) = block_image r inode request old"
      by (simp add: block_image_def fun_eq_iff)
    show ?thesis
      using loop [of "replicate ?e 0"] True c(4) [OF True] distinct_fold_insort_insert [of "[]" old]
      unfolding MutateBlocks_def ReplaceLoop_ordered img replaces_def [symmetric] by auto
  next
    case False
    then have img: "RangeBlock r (file_size inode) request old = block_image r inode request old"
      by (simp add: block_image_def fun_eq_iff)
    show ?thesis
      using loop [of "old @ replicate (unat (PlanRequiredBlocks (mutation_length inode request)) - length old) 0"] False
        distinct_fold_insort_insert [of "[]"]
      unfolding MutateBlocks_def Let_def RangeLoop_ordered img replaces_def [symmetric]
        changed_words [OF fits sz False] by auto
  qed
qed

lemma EncodeInode_succeeds:
  assumes "inode_number v \<noteq> 0" "IsKnownMode (mode v)" "file_size v \<le> kMaxFileSize"
  shows "\<exists>bs. EncodeInode v = Inr bs"
  using assms by (simp add: EncodeInode_def Let_def not_less)

lemma FinishMutation_succeeds:
  assumes ok: "volume_ok r" and rd: "ReadInode r n = Inr inode" and fits: "mutation_fits request"
    and af: "allocator_fits r a" and room: "0 < card (free_bits a)" and num: "mutation_inode_number plan1 = n"
    and rel: "distinct released" "\<forall>b \<in> set released. unat b \<in> file_blocks r inode"
    and bits: "\<And>i. TestBit (block_bitmap_bytes r) i \<Longrightarrow> TestBit (bitmap_of a) i"
  shows "\<exists>plan. FinishMutation r inode request (mutation_length inode request) bm (a, plan1, mapping, released, last_changed) = Inr plan"
proof -
  note v = volume_okD [OF ok]
  define ci where "ci \<longleftrightarrow> PlanRequiredBlocks (mutation_length inode request) > 12
    \<and> (request_mode request = kReplaceAll \<or> indirect_block inode = 0 \<or> last_changed \<ge> 12)"
  define rel' where "rel' = (if indirect_block inode \<noteq> 0 \<and> (request_mode request = kReplaceAll \<or> ci)
    then insort_insert (indirect_block inode) released else released)"
  obtain a1 ind where a1: "(if ci then ReserveBlock a else Inr (a, if request_mode request = kReplaceAll then 0 else indirect_block inode)) = Inr (a1, ind)"
    "allocator_fits r a1" "\<And>i. TestBit (bitmap_of a) i \<Longrightarrow> TestBit (bitmap_of a1) i" "ci \<longrightarrow> unat ind < unat (total_blocks (superblock r))"
  proof (cases ci)
    case True
    obtain a2 b where b: "ReserveBlock a = Inr (a2, b)" "allocator_fits r a2" "unat b < unat (total_blocks (superblock r))"
      using ReserveBlock_succeeds [OF ok af room] by blast
    have "TestBit (bitmap_of a2) i" if "TestBit (bitmap_of a) i" for i
      using reserve_seq_facts [of a "[b]" a2] b(1) that by (auto simp: bits_change_def)
    then show ?thesis using that [of a2 b] b True by simp
  next
    case False
    then show ?thesis using that [of a] af by simp
  qed
  have "\<forall>b \<in> set rel'. unat b \<in> file_blocks r inode"
    using rel(2) by (auto simp: rel'_def set_insort_insert file_blocks_def map_blocks_def)
  then have "\<forall>b \<in> set rel'. start_block (data (superblock r)) \<le> b \<and> b < total_blocks (superblock r) \<and> TestBit (bitmap_of a1) (unat b)"
  proof (intro ballI)
    fix b assume "\<forall>b \<in> set rel'. unat b \<in> file_blocks r inode" "b \<in> set rel'"
    then have "unat b \<in> file_blocks r inode" by blast
    then obtain b' where "unat b = unat b'" "file_block_ok r b'" by (rule file_blocks_ok [OF rd])
    then have "file_block_ok r b" by (auto dest!: word_unat_eq_iff [THEN iffD2])
    then show "start_block (data (superblock r)) \<le> b \<and> b < total_blocks (superblock r) \<and> TestBit (bitmap_of a1) (unat b)"
      using bits a1(3) by (auto simp: file_block_ok_def IsBlockAllocated_def BitmapBit_TestBit)
  qed
  moreover have "distinct rel'" using rel(1) by (simp add: rel'_def distinct_insort_insert)
  ultimately obtain a3 where a3: "ReleaseBlocks a1 rel' = Inr a3" using ReleaseBlocks_succeeds [OF ok a1(2)] by blast
  have al: "IsInodeAllocated r n" by (rule ReadInode_ok(2) [OF rd])
  then have n: "1 \<le> unat n" "unat n \<le> unat (total_inodes (superblock r))" by (simp_all add: IsInodeAllocated_def word_le_nat_alt)
  have "unat (InodeTableBlock (superblock r) n) < unat (total_blocks (superblock r))"
    using inode_position(4) [OF v(1) n] volume_regions(3,4) [OF v(1)] by linarith
  then obtain tb where tb: "ReadBlock r (InodeTableBlock (superblock r) n) = Inr tb" using ReadBlock_succeeds [OF ok] by blast
  have sz: "file_size inode \<le> kMaxFileSize" using ReadInode_ok(1) [OF rd] by (simp add: inode_ok_def)
  let ?new = "MutatedInode inode (mutation_length inode request) (request_timestamp_ns request) mapping ind"
  have "inode_number ?new \<noteq> 0" "IsKnownMode (mode ?new)" "file_size ?new \<le> kMaxFileSize"
    using ReadInode_ok(3,4) [OF rd] n(1) mutation_sizes(6) [OF fits sz] by (auto simp: MutatedInode_def Let_def)
  then obtain bs where bs: "EncodeInode ?new = Inr bs" using EncodeInode_succeeds by blast
  obtain ib where ib: "ci \<longrightarrow> ReadBlock r ind = Inr ib" using ReadBlock_succeeds [OF ok] a1(4) by metis
  show ?thesis
    unfolding FinishMutation_def Let_def prod.case ci_def [symmetric] a1(1) bind_result.simps rel'_def [symmetric] a3 num tb
    using ib bs by (cases ci) simp_all
qed

lemma AllocatorValidate_volume:
  assumes "volume_ok r"
  shows "AllocatorValidate (block_allocator r) = Inr ()"
proof -
  note v = volume_okD(1) [OF assms]
  note g = volume_regions [OF v] and l = ValidateSuperblock_layout_aux [OF reader_ok_facts(1) [OF v]]
  have nz: "total_blocks (superblock r) \<noteq> 0" using l(6,11) by (auto simp: region_end_def)
  have "(unat (total_blocks (superblock r)) + 32767) div 32768 \<le> (4294967295 + 32767) div 32768"
    using u32_bound [of "total_blocks (superblock r)"] by (intro div_le_mono) simp
  then have cap: "length (block_bitmap_bytes r) * 8 \<le> 2 ^ 32" using reader_ok_facts(4) [OF v] l(8) by simp
  have tail: "TestBit (block_bitmap_bytes r) i" if "unat (total_blocks (superblock r)) \<le> i" "i < length (block_bitmap_bytes r) * 8" for i
    using v that by (simp add: reader_ok_def BitmapBit_TestBit mult.commute)
  have prefix: "TestBit (block_bitmap_bytes r) i" if "i < unat (start_block (data (superblock r)))" for i
  proof -
    have u: "unat (of_nat i :: u32) = i" using that u32_bound [of "start_block (data (superblock r))"] by (simp add: unat_of_nat)
    then have "of_nat i < start_block (data (superblock r))" using that by (simp add: word_less_nat_alt)
    then have "IsBlockAllocated r (of_nat i)" using v by (simp add: reader_ok_def)
    then show ?thesis using u by (simp add: IsBlockAllocated_def BitmapBit_TestBit)
  qed
  show ?thesis
    unfolding AllocatorValidate_iff allocator_inv_def
    using nz g(4,6) tail prefix cap reader_ok_facts(4) [OF v]
    by (auto simp: block_allocator_def unat_gt_0 region_start_def word_le_nat_alt)
qed

lemma PrepareFileMutation_succeeds_aux:
  assumes ok: "volume_ok r" and rd: "ReadInode r n = Inr inode" and reg: "S_ISREG (mode inode)" and fits: "mutation_fits request"
    and gen: "replaces request \<longrightarrow> generation inode = expected_generation request" "generation inode \<noteq> 0xFFFFFFFFFFFFFFFF"
    and room: "changed_to inode request - changed_from inode request < card (free_bits (block_allocator r))"
  shows "\<exists>plan. PrepareFileMutation r n request = Inr plan"
proof -
  note v = volume_okD [OF ok]
  let ?old = "map (file_pointer r inode) [0..<unat (RequiredBlocks inode)]"
  have io: "inode_ok r inode" by (rule ReadInode_ok(1) [OF rd])
  have sz: "file_size inode \<le> kMaxFileSize" using io by (simp add: inode_ok_def)
  have lm: "LoadMapping r inode = Inr ?old" by (rule LoadMapping_ok [OF io])
  have di: "distinct (indirect_block inode # ?old)" using v(5) [OF rd] by (simp add: inode_distinct_def)
  have lr: "LoadRegion r (block_bitmap (superblock r)) = Inr (block_bitmap_bytes r)" by (rule LoadRegion_bitmaps(2) [OF v(1-3)])
  have av: "AllocatorValidate (block_allocator r) = Inr ()" by (rule AllocatorValidate_volume [OF ok])
  have af: "allocator_fits r (block_allocator r)" by (simp add: allocator_fits_def block_allocator_def)
  let ?cand = "\<lparr>mutation_inode_number = n, old_generation = generation inode, new_generation = generation inode + 1,
    old_size = file_size inode, new_size = mutation_length inode request, old_data_blocks = ?old, new_data_blocks = [],
    old_indirect_block = indirect_block inode, new_indirect_block = 0,
    mutation_total_blocks = total_blocks (superblock r), mutation_uuid = filesystem_uuid (superblock r),
    mutation_before = [], mutation_ordered = [], mutation_metadata = []\<rparr>"
  obtain a plan1 mapping released last_changed where mb: "MutateBlocks r inode request ?old
      (PlanRequiredBlocks (mutation_length inode request)) (block_allocator r) ?cand = Inr (a, plan1, mapping, released, last_changed)"
    "allocator_fits r a" "card (free_bits a) = card (free_bits (block_allocator r)) - (changed_to inode request - changed_from inode request)"
    "distinct released"
    using MutateBlocks_succeeds [OF ok rd fits af less_imp_le [OF room], of ?cand] by blast
  obtain ps where ps: "reserve_seq (block_allocator r) ps a" "plan1 = with_data r inode request ?old ps ?cand"
    "set released = {?old ! l | l. l < length ?old \<and> \<not> kept_block inode request l}"
    using MutateBlocks_result [OF fits sz _ mb(1)] by auto
  have "\<exists>plan. FinishMutation r inode request (mutation_length inode request) (block_bitmap_bytes r) (a, plan1, mapping, released, last_changed) = Inr plan"
  proof (rule FinishMutation_succeeds [OF ok rd fits mb(2)])
    show "0 < card (free_bits a)" using mb(3) room by simp
    show "mutation_inode_number plan1 = n" by (simp add: ps(2) with_data_def)
    show "distinct released" by (rule mb(4))
    show "\<forall>b \<in> set released. unat b \<in> file_blocks r inode" unfolding ps(3) by (auto simp: file_blocks_def)
    show "TestBit (bitmap_of a) i" if "TestBit (block_bitmap_bytes r) i" for i
      using reserve_seq_facts [OF ps(1)] that by (auto simp: bits_change_def block_allocator_def)
  qed
  then obtain plan where fin: "FinishMutation r inode request (mutation_length inode request) (block_bitmap_bytes r)
    (a, plan1, mapping, released, last_changed) = Inr plan" by blast
  have n0: "n \<noteq> 0" using ReadInode_ok(2) [OF rd] by (auto simp: IsInodeAllocated_def)
  have cr: "(request_mode request = kReplaceAll) = replaces request" by (simp add: replaces_def)
  have ml: "(if replaces request then of_nat (length (request_data request))
     else max (file_size inode) (request_offset request + of_nat (length (request_data request)))) = mutation_length inode request"
    by (simp add: mutation_length_def)
  have "PrepareFileMutation r n request = Inr plan"
    unfolding PrepareFileMutation_def Let_def cr rd bind_result.simps lm lr block_allocator_def [symmetric] av sum.case ml mb(1) fin
    using n0 fits reg gen di by (auto simp: mutation_fits_def)
  then show ?thesis by blast
qed

end
