(* ===== verification/TransactionImages.thy ===== *)
theory TransactionImages
  imports JournalRecovery
begin

text \<open>
  What a transaction leaves on the disk, and how the journal code reads it back: the
  state of an image that can be mounted, the encoded descriptor, COMMIT and control
  blocks of a reservation, and the result of \<open>classify_exposed\<close> on a ring that holds
  a complete body.
\<close>

section \<open>Vocabulary\<close>

definition quiet_device :: "disk \<Rightarrow> nat \<Rightarrow> device" where
  "quiet_device d bytes_count = \<lparr>dev_blocks = d, dev_size = bytes_count, dev_rdwr = True, dev_log = [],
     dev_script = []\<rparr>"

definition image_size :: "Superblock \<Rightarrow> nat" where
  "image_size sb = unat (total_blocks sb) * kBlockSize"

text \<open>
  An image that opens: a supported superblock whose A/B selection yields the control
  \<^term>\<open>c\<close> from the given copy.
\<close>

definition mountable :: "Superblock \<Rightarrow> JournalControl \<Rightarrow> ControlCopy \<Rightarrow> disk \<Rightarrow> bool" where
  "mountable sb c copy d \<longleftrightarrow> DecodeSuperblock (d 0) = Inr sb
    \<and> feature_incompat sb AND NOT kSupportedFeatureIncompat = 0
    \<and> SelectControl (d (control_block sb kA)) (d (control_block sb kB)) (filesystem_uuid sb)
        (ring_size sb) = Inr (c, copy)"

definition images_ok :: "Superblock \<Rightarrow> block_map \<Rightarrow> bool" where
  "images_ok sb images \<longleftrightarrow> sorted_wrt (<) (map fst images)
    \<and> (\<forall>x \<in> set images. IsValidMetadataTarget sb (fst x) \<and> length (snd x) = kBlockSize)"

text \<open>
  A reservation for the after-images on the current control, with targets outside the
  journal.
\<close>

definition plan_ok :: "Superblock \<Rightarrow> JournalControl \<Rightarrow> block_map \<Rightarrow> RingReservationPlan \<Rightarrow> bool" where
  "plan_ok sb cur images p \<longleftrightarrow> ValidateSuperblock sb = Inr () \<and> length (filesystem_uuid sb) = 16
    \<and> ring_blocks cur = ring_size sb \<and> control_uuid cur = filesystem_uuid sb
    \<and> PlanRingReservation cur (length images) = Inr p \<and> images_ok sb images"

text \<open>
  The descriptor and every payload of a reservation are readable in the ring.
\<close>

definition body_on_disk ::
  "Superblock \<Rightarrow> RingReservationPlan \<Rightarrow> block_map \<Rightarrow> u32 \<Rightarrow> disk \<Rightarrow> bool" where
  "body_on_disk sb p images crc d \<longleftrightarrow>
    DecodeDescriptor (d (ring_phys sb (plan_descriptor_ring_index p)))
      = Inr ((make_descriptor sb p images)\<lparr>descriptor_checksum := crc\<rparr>)
    \<and> (\<forall>i < length images. d (ring_phys sb (payload_ring_indices p ! i)) = snd (images ! i))"

definition entry_of :: "u32 \<Rightarrow> u32 \<times> bytes \<Rightarrow> DescriptorEntry" where
  "entry_of index img = \<lparr>home_block = fst img, payload_ring_index = index,
     payload_crc32c = Crc32c (snd img), entry_flags = 0\<rparr>"

definition descriptor_block_of :: "Superblock \<Rightarrow> RingReservationPlan \<Rightarrow> block_map \<Rightarrow> bytes \<times> u32" where
  "descriptor_block_of sb p images = projr (EncodeDescriptor (make_descriptor sb p images))"

definition commit_block_of :: "Superblock \<Rightarrow> RingReservationPlan \<Rightarrow> block_map \<Rightarrow> bytes" where
  "commit_block_of sb p images = projr (EncodeCommit (make_commit sb
     \<lparr>reservation = p, body_entry_count = of_nat (length images),
      body_descriptor_crc32c = snd (descriptor_block_of sb p images)\<rparr>))"

definition control_block_of :: "JournalControl \<Rightarrow> bytes \<times> u32" where
  "control_block_of c = projr (EncodeControl c)"

section \<open>Opening\<close>

lemma DecodeSuperblock_valid: "DecodeSuperblock b = Inr sb \<Longrightarrow> ValidateSuperblock sb = Inr ()"
  by (auto simp: DecodeSuperblock_def Let_def bind_result_Inr_iff)

lemma pread_in_image:
  assumes "dev_script dev = []" "dev_size dev = image_size sb" "n < unat (total_blocks sb)"
  shows "PreadBlock n dev = (Inr (dev_blocks dev n), dev)"
proof -
  have "(n + 1) * 4096 \<le> dev_size dev" using assms(2,3) unfolding image_size_def by simp
  then show ?thesis using assms(1) by (simp add: quiet_io)
qed

lemma AdoptLockedFd_ok:
  assumes "mountable sb c copy (dev_blocks dev)" "dev_script dev = []" "dev_rdwr dev"
    and "dev_size dev = image_size sb"
  shows "AdoptLockedFd dev = (Inr (MakeStore dev sb c copy), dev)"
proof -
  have m: "DecodeSuperblock (dev_blocks dev 0) = Inr sb"
    "feature_incompat sb AND NOT kSupportedFeatureIncompat = 0"
    "SelectControl (dev_blocks dev (control_block sb kA)) (dev_blocks dev (control_block sb kB))
       (filesystem_uuid sb) (ring_size sb) = Inr (c, copy)"
    using assms(1) by (auto simp: mountable_def)
  note v = DecodeSuperblock_valid [OF m(1)]
  note g = journal_geometry [OF v]
  have t: "0 < unat (total_blocks sb)" using g(4) by simp
  then have sz: "4096 \<le> image_size sb" "image_size sb mod 4096 = 0"
    by (simp_all add: image_size_def)
  have s: "SelectControl (dev_blocks dev (unat (start_block (journal sb))))
      (dev_blocks dev (Suc (unat (start_block (journal sb))))) (filesystem_uuid sb)
      (block_count (journal sb) - 2) = Inr (c, copy)"
    using m(3) by (simp add: control_block_eq [OF v] ring_size_def)
  have r: "PreadBlock 0 dev = (Inr (dev_blocks dev 0), dev)"
    "PreadBlock (unat (start_block (journal sb))) dev = (Inr (dev_blocks dev (unat (start_block (journal sb)))), dev)"
    "PreadBlock (unat (start_block (journal sb)) + 1) dev = (Inr (dev_blocks dev (Suc (unat (start_block (journal sb))))), dev)"
    using pread_in_image [OF assms(2,4)] g t by simp_all
  show ?thesis
    using assms m(1,2) sz s r
    by (simp add: AdoptLockedFd_def LoadControlStateFromFd_def quiet_io image_size_def)
qed

section \<open>The reservation on the ring\<close>

lemma plan_ok_facts:
  assumes "plan_ok sb cur images p"
  shows "length (payload_ring_indices p) = length images" "0 < length images" "length images \<le> 252"
    "unat (plan_descriptor_ring_index p) < unat (ring_size sb)"
    "\<And>i. i < length images \<Longrightarrow> unat (payload_ring_indices p ! i) < unat (ring_size sb)"
    "unat (commit_ring_index p) < unat (ring_size sb)"
    "distinct (map (ring_phys sb) (plan_positions p))"
    "tail (exposed_control p) = plan_descriptor_ring_index p"
    "ring_blocks (exposed_control p) = ring_size sb"
    "control_uuid (exposed_control p) = filesystem_uuid sb"
    "next_transaction_id (exposed_control p) = plan_transaction_id p + 1"
    "plan_transaction_id p = next_transaction_id cur" "plan_transaction_id p \<noteq> 0"
    "used_blocks (exposed_control p) = of_nat (length images + 2)"
    "control_generation (exposed_control p) = control_generation cur + 1"
proof -
  have P: "PlanRingReservation cur (length images) = Inr p" and rb: "ring_blocks cur = ring_size sb"
    and u: "control_uuid cur = filesystem_uuid sb"
    using assms by (auto simp: plan_ok_def)
  note q = P [unfolded PlanRingReservation_Inr]
  note pos = plan_positions_nth [OF P]
  have len: "length (plan_positions p) = length images + 2" using q by (simp add: plan_positions_def)
  show "length (payload_ring_indices p) = length images" "0 < length images" "length images \<le> 252"
    "ring_blocks (exposed_control p) = ring_size sb"
    "control_uuid (exposed_control p) = filesystem_uuid sb"
    "next_transaction_id (exposed_control p) = plan_transaction_id p + 1"
    "plan_transaction_id p = next_transaction_id cur"
    "used_blocks (exposed_control p) = of_nat (length images + 2)"
    "control_generation (exposed_control p) = control_generation cur + 1"
    using q rb u by auto
  show "plan_transaction_id p \<noteq> 0" using q by (auto simp: ValidateControlFields_nat)
  have "unat (head cur) = unat (tail cur)" using q by (auto simp: ValidateControlFields_nat)
  then show "tail (exposed_control p) = plan_descriptor_ring_index p"
    using q by (auto simp: word_unat_eq_iff)
  have r: "unat (plan_positions p ! i) < unat (ring_size sb)" if "i < length images + 2" for i
    using pos [OF that] q rb by (auto simp: ValidateControlFields_nat)
  show "unat (plan_descriptor_ring_index p) < unat (ring_size sb)"
    using r [of 0] by (simp add: plan_positions_def)
  show "unat (payload_ring_indices p ! i) < unat (ring_size sb)" if "i < length images" for i
    using r [of "Suc i"] that q by (simp add: plan_positions_def nth_append)
  show "unat (commit_ring_index p) < unat (ring_size sb)"
    using r [of "length images + 1"] q by (simp add: plan_positions_def nth_append)
  have "distinct (plan_positions p)" using P by (rule plan_positions_distinct)
  then show "distinct (map (ring_phys sb) (plan_positions p))"
    by (auto simp: distinct_map inj_on_def ring_phys_def word_unat_eq_iff)
qed

section \<open>Reading the body back\<close>

lemma ReadRingBlock_ok:
  assumes "ValidateSuperblock sb = Inr ()" "unat i < unat (ring_size sb)"
    and "dev_script dev = []" "dev_size dev = image_size sb"
  shows "ReadRingBlock sb i dev = (Inr (dev_blocks dev (ring_phys sb i)), dev)"
proof -
  obtain q where q: "RingOffset sb i = Some q" "unat q = ring_phys sb i"
    using RingOffset_ok [OF assms(1,2)] .
  have "ring_phys sb i < unat (total_blocks sb)"
    using journal_geometry [OF assms(1)] assms(2) by (simp add: ring_phys_def)
  then show ?thesis using q pread_in_image [OF assms(3,4)] by (simp add: ReadRingBlock_def)
qed

lemma map_emplace_last:
  "(\<And>k'. k' \<in> fst ` set m \<Longrightarrow> k' < k) \<Longrightarrow> map_emplace k v m = m @ [(k, v)]"
  by (induction k v m rule: map_emplace.induct) (auto simp: less_imp_not_eq2 dest: less_asym)

lemma make_descriptor_entries:
  assumes "length (payload_ring_indices p) = length images"
  shows "entries (make_descriptor sb p images) = map2 entry_of (payload_ring_indices p) images"
  using assms
  by (intro nth_equalityI) (auto simp: make_descriptor_def entry_of_def split: prod.splits)

lemma ReadPayloads_ok:
  assumes "ValidateSuperblock sb = Inr ()" "dev_script dev = []" "dev_size dev = image_size sb"
    and "length idxs = length images"
    and "\<And>i. i < length images \<Longrightarrow> unat (idxs ! i) < unat (ring_size sb)
        \<and> dev_blocks dev (ring_phys sb (idxs ! i)) = snd (images ! i)"
    and "sorted_wrt (<) (map fst (acc @ images))"
  shows "ReadPayloads sb (map2 entry_of idxs images) acc dev = (Inr (acc @ images), dev)"
  using assms(4-)
proof (induction idxs images arbitrary: acc rule: list_induct2)
  case (Cons i idxs x images)
  have r: "ReadRingBlock sb i dev = (Inr (snd x), dev)"
    using Cons.prems(1) [of 0] ReadRingBlock_ok [OF assms(1) _ assms(2,3)] by auto
  have "map_emplace (fst x) (snd x) acc = acc @ [x]"
    using Cons.prems(2) by (subst map_emplace_last) (auto simp: sorted_wrt_append)
  moreover have "ReadPayloads sb (map2 entry_of idxs images) (acc @ [x]) dev = (Inr ((acc @ [x]) @ images), dev)"
    using Cons.prems(1) [of "Suc _"] Cons.prems(2) by (intro Cons.IH) auto
  ultimately show ?case using r by (simp add: entry_of_def)
qed simp

lemma entries_follow_grammar_plan:
  assumes "plan_ok sb cur images p" "tail c = plan_descriptor_ring_index p" "ring_blocks c = ring_size sb"
  shows "entries_follow_grammar sb c (map2 entry_of (payload_ring_indices p) images)"
proof -
  note f = plan_ok_facts [OF assms(1)]
  have P: "PlanRingReservation cur (length images) = Inr p" "ring_blocks cur = ring_size sb"
    and ok: "images_ok sb images" using assms(1) by (auto simp: plan_ok_def)
  have "payload_ring_indices p ! i = Advance (tail c) (i + 1) (ring_blocks c)" if "i < length images" for i
    using P that assms(2,3) by (auto simp: PlanRingReservation_Inr)
  then show ?thesis
    using f(1) ok
    by (auto simp: entries_follow_grammar_def list_all_length images_ok_def entry_of_def split: prod.splits)
qed

lemma classify_exposed_body:
  assumes plan: "plan_ok sb cur images p" and dev: "dev_script dev = []" "dev_size dev = image_size sb"
    and c: "c = (exposed_control p)\<lparr>control_checksum := k\<rparr>"
    and body: "body_on_disk sb p images crc (dev_blocks dev)"
  shows "classify_exposed sb c dev =
    (case DecodeCommit (dev_blocks dev (ring_phys sb (commit_ring_index p))) of
       Inl _ \<Rightarrow> (Inr (kUncommitted, None), dev)
     | Inr m \<Rightarrow>
       if commit_transaction_id m \<noteq> plan_transaction_id p then (Inr (kUncommitted, None), dev)
       else if \<not> CommitMatchesDescriptor ((make_descriptor sb p images)\<lparr>descriptor_checksum := crc\<rparr>)
              (plan_descriptor_ring_index p) m then (Inl EUCLEAN, dev)
       else (Inr (kCommitted, Some \<lparr>validated_transaction_id = plan_transaction_id p,
           validated_descriptor_ring_index = plan_descriptor_ring_index p,
           validated_commit_ring_index = commit_ring_index p,
           validated_after_images = images\<rparr>), dev))"
proof -
  note f = plan_ok_facts [OF plan]
  have P: "PlanRingReservation cur (length images) = Inr p" "ring_blocks cur = ring_size sb"
    and v: "ValidateSuperblock sb = Inr ()" and ok: "images_ok sb images"
    using plan by (auto simp: plan_ok_def)
  let ?D = "(make_descriptor sb p images)\<lparr>descriptor_checksum := crc\<rparr>"
  have t: "tail c = plan_descriptor_ring_index p" "ring_blocks c = ring_size sb"
    "next_transaction_id c - 1 = plan_transaction_id p" "used_blocks c = of_nat (length images + 2)"
    using c f by auto
  have e: "entries ?D = map2 entry_of (payload_ring_indices p) images"
    using make_descriptor_entries [OF f(1)] by simp
  have le: "length (entries ?D) = length images" using f(1) by (simp add: e)
  have adv: "Advance (tail c) (length images + 1) (ring_blocks c) = commit_ring_index p"
    "Advance (tail c) (length images + 2) (ring_blocks c) = head c"
    using P t c by (auto simp: PlanRingReservation_Inr)
  have d: "ReadRingBlock sb (tail c) dev = (Inr (dev_blocks dev (ring_phys sb (plan_descriptor_ring_index p))), dev)"
    using ReadRingBlock_ok [OF v _ dev] f(4) t(1) by simp
  have rc: "ReadRingBlock sb (commit_ring_index p) dev = (Inr (dev_blocks dev (ring_phys sb (commit_ring_index p))), dev)"
    using ReadRingBlock_ok [OF v f(6) dev] .
  have rp: "ReadPayloads sb (map2 entry_of (payload_ring_indices p) images) [] dev = (Inr images, dev)"
    using ReadPayloads_ok [OF v dev f(1), of "[]"] f(5) body ok by (simp add: body_on_disk_def images_ok_def)
  have mk: "descriptor_uuid ?D = filesystem_uuid sb" "descriptor_transaction_id ?D = plan_transaction_id p"
    "descriptor_block_count ?D = of_nat (length images + 2)"
    by (simp_all add: make_descriptor_def)
  have dd: "DecodeDescriptor (dev_blocks dev (ring_phys sb (plan_descriptor_ring_index p))) = Inr ?D"
    using body by (simp add: body_on_disk_def)
  show ?thesis
    unfolding classify_exposed_def d
    using dd mk t le adv entries_follow_grammar_plan [OF plan t(1,2)] rp rc
    by (simp add: Let_def e split: sum.split)
qed

section \<open>Encoded records of a transaction\<close>

lemma ValidateEntryList_ok:
  assumes "\<forall>e \<in> set es. home_block e \<noteq> 0 \<and> entry_flags e = 0"
    and "distinct (map home_block es)" "distinct (map payload_ring_index es)"
    and "set hs \<inter> home_block ` set es = {}" "set ps \<inter> payload_ring_index ` set es = {}"
  shows "ValidateEntryList hs ps es = Inr ()"
  using assms by (induction hs ps es rule: ValidateEntryList.induct) auto

lemma ValidateDescriptorEntries_plan:
  assumes "plan_ok sb cur images p"
  shows "ValidateDescriptorEntries (entries (make_descriptor sb p images)) = Inr ()"
proof -
  note f = plan_ok_facts [OF assms]
  have ok: "sorted_wrt (<) (map fst images)"
    "\<And>x. x \<in> set images \<Longrightarrow> IsValidMetadataTarget sb (fst x)"
    using assms by (auto simp: plan_ok_def images_ok_def)
  let ?es = "map2 entry_of (payload_ring_indices p) images"
  have h: "map home_block ?es = map fst images" "map payload_ring_index ?es = payload_ring_indices p"
    using f(1) by (auto intro!: nth_equalityI simp: entry_of_def)
  have "distinct (map fst images)" using ok(1) by (simp only: strict_sorted_iff)
  moreover have "distinct (payload_ring_indices p)"
    using f(7) by (simp add: plan_positions_def distinct_map)
  moreover have "\<forall>e \<in> set ?es. home_block e \<noteq> 0 \<and> entry_flags e = 0"
    using ok(2) by (fastforce simp: entry_of_def IsValidMetadataTarget_def dest: set_zip_rightD)
  ultimately have "ValidateEntryList [] [] ?es = Inr ()"
    by (intro ValidateEntryList_ok) (simp_all only: h list.set Int_empty_left)
  moreover have "length ?es = length images" using f(1) by simp
  moreover have "?es \<noteq> []" using f(1,2) by (cases images; cases "payload_ring_indices p") auto
  ultimately show ?thesis
    using f(3) unfolding ValidateDescriptorEntries_def make_descriptor_entries [OF f(1)]
    by (simp del: length_map length_zip)
qed

lemma descriptor_block_ok:
  assumes "plan_ok sb cur images p"
  shows "EncodeDescriptor (make_descriptor sb p images) = Inr (descriptor_block_of sb p images)"
    "length (fst (descriptor_block_of sb p images)) = kBlockSize"
    "DecodeDescriptor (fst (descriptor_block_of sb p images))
      = Inr ((make_descriptor sb p images)\<lparr>descriptor_checksum := snd (descriptor_block_of sb p images)\<rparr>)"
proof -
  note f = plan_ok_facts [OF assms]
  let ?D = "make_descriptor sb p images"
  have l: "length (entries ?D) = length images" using f(1) by (simp add: make_descriptor_entries [OF f(1)])
  have "length (filesystem_uuid sb) = 16" using assms by (simp add: plan_ok_def)
  then have "descriptor_transaction_id ?D \<noteq> 0" "descriptor_flags ?D = 0"
    "descriptor_block_count ?D = of_nat (length (entries ?D) + 2)" "length (descriptor_uuid ?D) = 16"
    using f(13) l by (simp_all add: make_descriptor_def)
  from descriptor_roundtrip [OF this(1,2) ValidateDescriptorEntries_plan [OF assms] this(3,4)]
  obtain block c where b: "EncodeDescriptor ?D = Inr (block, c)" "length block = 4096"
    "DecodeDescriptor block = Inr (?D\<lparr>descriptor_checksum := c\<rparr>)" by blast
  then have "descriptor_block_of sb p images = (block, c)" by (simp add: descriptor_block_of_def)
  with b show "EncodeDescriptor ?D = Inr (descriptor_block_of sb p images)"
    "length (fst (descriptor_block_of sb p images)) = kBlockSize"
    "DecodeDescriptor (fst (descriptor_block_of sb p images))
      = Inr (?D\<lparr>descriptor_checksum := snd (descriptor_block_of sb p images)\<rparr>)" by simp_all
qed

lemma commit_block_ok:
  assumes "plan_ok sb cur images p"
  defines "body \<equiv> \<lparr>reservation = p, body_entry_count = of_nat (length images),
      body_descriptor_crc32c = snd (descriptor_block_of sb p images)\<rparr>"
  shows "EncodeCommit (make_commit sb body) = Inr (commit_block_of sb p images)"
    "length (commit_block_of sb p images) = kBlockSize"
    "\<exists>c. DecodeCommit (commit_block_of sb p images) = Inr ((make_commit sb body)\<lparr>commit_checksum := c\<rparr>)"
proof -
  note f = plan_ok_facts [OF assms(1)]
  have u: "unat (of_nat (length images) :: u32) = length images"
    using f(3) by (intro unat_of_nat_small) simp
  have "(of_nat (length images) :: u32) \<noteq> 0" using u f(2) by (metis less_irrefl unat_0)
  then have "\<not> commit_fields_bad (make_commit sb body)" "length (commit_uuid (make_commit sb body)) = 16"
    using assms(1) f(3,13) u by (simp_all add: commit_fields_bad_def make_commit_def body_def plan_ok_def)
  from commit_roundtrip [OF this] obtain block c where b: "EncodeCommit (make_commit sb body) = Inr block"
    "length block = 4096" "DecodeCommit block = Inr ((make_commit sb body)\<lparr>commit_checksum := c\<rparr>)" by blast
  then have "commit_block_of sb p images = block" by (simp add: commit_block_of_def body_def)
  with b show "EncodeCommit (make_commit sb body) = Inr (commit_block_of sb p images)"
    "length (commit_block_of sb p images) = kBlockSize"
    "\<exists>c. DecodeCommit (commit_block_of sb p images) = Inr ((make_commit sb body)\<lparr>commit_checksum := c\<rparr>)"
    by auto
qed

lemma control_block_ok:
  assumes "ValidateControlFields c = Inr ()" "length (control_uuid c) = 16"
  shows "EncodeControl c = Inr (control_block_of c)" "length (fst (control_block_of c)) = kBlockSize"
    "DecodeControl (fst (control_block_of c)) = Inr (c\<lparr>control_checksum := snd (control_block_of c)\<rparr>)"
proof -
  obtain block k where b: "EncodeControl c = Inr (block, k)" "length block = 4096"
    "DecodeControl block = Inr (c\<lparr>control_checksum := k\<rparr>)"
    using control_roundtrip [OF assms] by blast
  then have "control_block_of c = (block, k)" by (simp add: control_block_of_def)
  with b show "EncodeControl c = Inr (control_block_of c)" "length (fst (control_block_of c)) = kBlockSize"
    "DecodeControl (fst (control_block_of c)) = Inr (c\<lparr>control_checksum := snd (control_block_of c)\<rparr>)"
    by simp_all
qed

end
