(* ===== verification/TransactionExecution.thy ===== *)
theory TransactionExecution
  imports TransactionImages
begin

text \<open>
  The transaction executor and start-up recovery on a device without faults: the
  writes of one transaction as a list of phases, each closed by a sync, and what
  recovery does on a clean, an uncommitted and a committed journal.
\<close>

section \<open>Vocabulary\<close>

text \<open>
  What mounting does with an image: adopt the locked descriptor, then resolve the journal.
\<close>

definition RecoverImage :: "nat \<Rightarrow> disk \<Rightarrow> (errno + RecoveryAction) \<times> device" where
  "RecoverImage bytes_count d = (case AdoptLockedFd (quiet_device d bytes_count) of
     (Inl e, dev) \<Rightarrow> (Inl e, dev)
   | (Inr s, _) \<Rightarrow> (case ResolveRecovery s of (r, s) \<Rightarrow> (r, store_device s)))"

definition exposed_current :: "RingReservationPlan \<Rightarrow> JournalControl" where
  "exposed_current p = (exposed_control p)\<lparr>control_checksum := snd (control_block_of (exposed_control p))\<rparr>"

definition closing_block :: "RingReservationPlan \<Rightarrow> bytes" where
  "closing_block p = fst (control_block_of (clean_control (exposed_control p)))"

text \<open>
  The exposed control is selected and the body it exposes is complete.
\<close>

definition exposed_at ::
  "Superblock \<Rightarrow> ControlCopy \<Rightarrow> RingReservationPlan \<Rightarrow> block_map \<Rightarrow> disk \<Rightarrow> bool" where
  "exposed_at sb copy p images d \<longleftrightarrow> mountable sb (exposed_current p) copy d
    \<and> body_on_disk sb p images (snd (descriptor_block_of sb p images)) d"

definition commit_decodes_to :: "u64 \<Rightarrow> bytes \<Rightarrow> bool" where
  "commit_decodes_to t b \<longleftrightarrow> (case DecodeCommit b of Inl _ \<Rightarrow> False | Inr m \<Rightarrow> commit_transaction_id m = t)"

definition body_of :: "Superblock \<Rightarrow> RingReservationPlan \<Rightarrow> block_map \<Rightarrow> DurableJournalBody" where
  "body_of sb p images = \<lparr>reservation = p, body_entry_count = of_nat (length images),
      body_descriptor_crc32c = snd (descriptor_block_of sb p images)\<rparr>"

definition body_writes :: "Superblock \<Rightarrow> RingReservationPlan \<Rightarrow> block_map \<Rightarrow> (nat \<times> bytes) list" where
  "body_writes sb p images =
    (ring_phys sb (plan_descriptor_ring_index p), fst (descriptor_block_of sb p images))
    # zip (map (ring_phys sb) (payload_ring_indices p)) (map snd images)"

definition ordered_phase :: "block_map \<Rightarrow> (nat \<times> bytes) list list" where
  "ordered_phase ordered = (if ordered = [] then [] else [home_writes ordered])"

text \<open>
  The phases of a transaction after its ordered data.  A sync ends each phase.
\<close>

definition tx_tail :: "Superblock \<Rightarrow> ControlCopy \<Rightarrow> RingReservationPlan \<Rightarrow> block_map \<Rightarrow> (nat \<times> bytes) list list" where
  "tx_tail sb copy p images =
    [body_writes sb p images,
     [(control_block sb (other_copy copy), fst (control_block_of (exposed_control p)))],
     [(ring_phys sb (commit_ring_index p), commit_block_of sb p images)],
     home_writes images,
     [(control_block sb copy, closing_block p)]]"

definition tx_phases ::
  "Superblock \<Rightarrow> ControlCopy \<Rightarrow> RingReservationPlan \<Rightarrow> block_map \<Rightarrow> block_map \<Rightarrow> (nat \<times> bytes) list list" where
  "tx_phases sb copy p ordered images = ordered_phase ordered @ tx_tail sb copy p images"

definition phase_log :: "(nat \<times> bytes) list list \<Rightarrow> dev_op list" where
  "phase_log phases = concat (map (\<lambda>ws. wlog ws @ [DSync]) phases)"

text \<open>
  The conditions on a transaction: its ordered blocks are data blocks that are not
  metadata targets, and the before-images cover exactly its targets and match the disk.
\<close>

definition transaction_ok ::
  "Superblock \<Rightarrow> JournalControl \<Rightarrow> disk \<Rightarrow> block_map \<Rightarrow> block_map \<Rightarrow> block_map \<Rightarrow> RingReservationPlan \<Rightarrow> bool" where
  "transaction_ok sb cur d before ordered images p \<longleftrightarrow> plan_ok sb cur images p
    \<and> sorted_wrt (<) (map fst ordered)
    \<and> (\<forall>x \<in> set ordered. BlockIsInRegion (fst x) (data sb) \<and> fst x \<notin> keys images
         \<and> length (snd x) = kBlockSize)
    \<and> sorted_wrt (<) (map fst before) \<and> keys before = keys ordered \<union> keys images
    \<and> (\<forall>x \<in> set before. d (unat (fst x)) = snd x)"

fun syncs :: "dev_op list \<Rightarrow> nat" where
  "syncs [] = 0"
| "syncs (DSync # ops) = Suc (syncs ops)"
| "syncs (DWrite _ _ # ops) = syncs ops"

text \<open>
  The phase that is in progress after a number of syncs.
\<close>

definition phase_at :: "(nat \<times> bytes) list list \<Rightarrow> nat \<Rightarrow> (nat \<times> bytes) list" where
  "phase_at phases i = (if i < length phases then phases ! i else [])"

lemma quiet_device_fields [simp]:
  "dev_script (quiet_device d n) = []" "dev_blocks (quiet_device d n) = d" "dev_size (quiet_device d n) = n"
  "dev_rdwr (quiet_device d n)" "dev_log (quiet_device d n) = []"
  by (simp_all add: quiet_device_def)

lemma PersistNext_quiet:
  assumes "dev_script (store_device s) = []" "\<not> reload_required s"
    and "HasSameIdentity (current s) c" "control_uuid c = filesystem_uuid (store_superblock s)"
    and "ring_blocks c = ring_size (store_superblock s)"
    and "control_generation c = control_generation (current s) + 1"
    and "ValidateControlFields c = Inr ()" "length (control_uuid c) = 16"
  shows "PersistNext c s = (Inr (), s\<lparr>store_device := dev_sync (dev_write
      [(control_block (store_superblock s) (other_copy (current_copy s)), fst (control_block_of c))] (store_device s)),
    current := c\<lparr>control_checksum := snd (control_block_of c)\<rparr>, current_copy := other_copy (current_copy s)\<rparr>)"
  using assms control_block_ok(1) [OF assms(7,8)]
  by (simp add: PersistNext_def quiet_store_io Let_def ring_size_def split: prod.split)

lemma plan_controls_ok:
  assumes "plan_ok sb cur images p"
  shows "ValidateControlFields (exposed_control p) = Inr ()" "length (control_uuid (exposed_control p)) = 16"
    "ValidateControlFields (clean_control (exposed_control p)) = Inr ()"
    "length (control_uuid (clean_control (exposed_control p))) = 16"
    "ring_blocks (clean_control (exposed_control p)) = ring_size sb"
    "control_uuid (clean_control (exposed_control p)) = filesystem_uuid sb"
    "HasSameIdentity cur (exposed_control p)"
    "HasSameIdentity (exposed_control p) (clean_control (exposed_control p))"
proof -
  note f = plan_ok_facts [OF assms]
  have q: "PlanRingReservation cur (length images) = Inr p" and u: "length (filesystem_uuid sb) = 16"
    using assms by (auto simp: plan_ok_def)
  note q = q [unfolded PlanRingReservation_Inr]
  show e: "ValidateControlFields (exposed_control p) = Inr ()"
    using q exposed_control_valid [of cur "length images" 0 "control_generation cur + 1"] by auto
  show "length (control_uuid (exposed_control p)) = 16" using f(10) u by simp
  show "ValidateControlFields (clean_control (exposed_control p)) = Inr ()"
    using e by (simp add: ValidateControlFields_nat clean_control_def)
  show "length (control_uuid (clean_control (exposed_control p))) = 16"
    "ring_blocks (clean_control (exposed_control p)) = ring_size sb"
    "control_uuid (clean_control (exposed_control p)) = filesystem_uuid sb"
    using f(9,10) u by (simp_all add: clean_control_def)
  show "HasSameIdentity cur (exposed_control p)" using q by (auto simp: HasSameIdentity_def)
  show "HasSameIdentity (exposed_control p) (clean_control (exposed_control p))"
    by (simp add: HasSameIdentity_def clean_control_def)
qed

lemma plan_count_word:
  assumes "plan_ok sb cur images p"
  shows "unat (of_nat (length images) :: u32) = length images"
    "unat (of_nat (length images + 2) :: u32) = length images + 2"
  using plan_ok_facts(3) [OF assms] by (intro unat_of_nat_small; simp)+

section \<open>Recovery\<close>

lemma RecoverImage_clean:
  assumes "mountable sb c copy d" "used_blocks c = 0"
  shows "RecoverImage (image_size sb) d = (Inr kNoAction, quiet_device d (image_size sb))"
  using assms AdoptLockedFd_ok [of sb c copy "quiet_device d (image_size sb)"]
  by (simp add: RecoverImage_def ResolveRecovery_def ClassifyRecovery_def MakeStore_def Let_def)

lemma exposed_classify:
  assumes "plan_ok sb cur images p" "exposed_at sb copy p images d"
  defines "s \<equiv> MakeStore (quiet_device d (image_size sb)) sb (exposed_current p) copy"
  shows "AdoptLockedFd (quiet_device d (image_size sb)) = (Inr s, quiet_device d (image_size sb))"
    "ClassifyRecovery s = (case classify_exposed sb (exposed_current p) (store_device s) of
       (Inl e, dev) \<Rightarrow> (Inl e, s\<lparr>store_device := dev\<rparr>)
     | (Inr (state, validated), dev) \<Rightarrow>
         (Inr state, s\<lparr>store_device := dev, validated_transaction := validated\<rparr>))"
proof -
  note f = plan_ok_facts [OF assms(1)]
  show "AdoptLockedFd (quiet_device d (image_size sb)) = (Inr s, quiet_device d (image_size sb))"
    using assms(2) AdoptLockedFd_ok [of sb "exposed_current p" copy "quiet_device d (image_size sb)"]
    by (simp add: exposed_at_def s_def)
  have "unat (used_blocks (exposed_current p)) = length images + 2"
    using plan_count_word(2) [OF assms(1)] by (simp add: exposed_current_def f(14) del: of_nat_add)
  then have u: "used_blocks (exposed_current p) \<noteq> 0" by (auto simp: word_unat_eq_iff)
  have "next_transaction_id (exposed_current p) \<noteq> 1"
    "next_transaction_id (exposed_current p) \<noteq> 0"
    using f(11,13) plan_controls_ok(1) [OF assms(1)]
    by (simp_all add: exposed_current_def ValidateControlFields_nat)
  then have "\<not> next_transaction_id (exposed_current p) \<le> 1"
    by (auto simp: word_le_nat_alt le_Suc_eq word_unat_eq_iff)
  with u show "ClassifyRecovery s = (case classify_exposed sb (exposed_current p) (store_device s) of
       (Inl e, dev) \<Rightarrow> (Inl e, s\<lparr>store_device := dev\<rparr>)
     | (Inr (state, validated), dev) \<Rightarrow>
         (Inr state, s\<lparr>store_device := dev, validated_transaction := validated\<rparr>))"
    unfolding s_def by (simp add: ClassifyRecovery_def MakeStore_def Let_def split: prod.split sum.split)
qed

lemma exposed_classify_body:
  assumes "plan_ok sb cur images p" "exposed_at sb copy p images d"
  shows "classify_exposed sb (exposed_current p) (quiet_device d (image_size sb)) =
    (case DecodeCommit (d (ring_phys sb (commit_ring_index p))) of
       Inl _ \<Rightarrow> (Inr (kUncommitted, None), quiet_device d (image_size sb))
     | Inr m \<Rightarrow>
       if commit_transaction_id m \<noteq> plan_transaction_id p
         then (Inr (kUncommitted, None), quiet_device d (image_size sb))
       else if \<not> CommitMatchesDescriptor
              ((make_descriptor sb p images)\<lparr>descriptor_checksum := snd (descriptor_block_of sb p images)\<rparr>)
              (plan_descriptor_ring_index p) m then (Inl EUCLEAN, quiet_device d (image_size sb))
       else (Inr (kCommitted, Some \<lparr>validated_transaction_id = plan_transaction_id p,
           validated_descriptor_ring_index = plan_descriptor_ring_index p,
           validated_commit_ring_index = commit_ring_index p,
           validated_after_images = images\<rparr>), quiet_device d (image_size sb)))"
  using classify_exposed_body [OF assms(1) _ _ exposed_current_def, of "quiet_device d (image_size sb)"
      "snd (descriptor_block_of sb p images)"] assms(2)
  by (simp only: exposed_at_def quiet_device_fields simp_thms)

lemma RecoverImage_uncommitted:
  assumes "plan_ok sb cur images p" "exposed_at sb copy p images d"
    and "\<not> commit_decodes_to (plan_transaction_id p) (d (ring_phys sb (commit_ring_index p)))"
  shows "RecoverImage (image_size sb) d = (Inr kDiscarded, dev_sync (dev_write
    [(control_block sb (other_copy copy), closing_block p)] (quiet_device d (image_size sb))))"
proof -
  note x = exposed_classify [OF assms(1,2)] and k = plan_controls_ok [OF assms(1)]
  let ?s = "MakeStore (quiet_device d (image_size sb)) sb (exposed_current p) copy"
  have "classify_exposed sb (exposed_current p) (quiet_device d (image_size sb))
      = (Inr (kUncommitted, None), quiet_device d (image_size sb))"
    using assms(3) unfolding exposed_classify_body [OF assms(1,2)]
    by (cases "DecodeCommit (d (ring_phys sb (commit_ring_index p)))") (simp_all add: commit_decodes_to_def)
  then have c: "ClassifyRecovery ?s = (Inr kUncommitted, ?s)" using x(2) by (simp add: MakeStore_def)
  have e: "clean_control (exposed_current p) = clean_control (exposed_control p)"
    by (simp add: exposed_current_def clean_control_def)
  have "HasSameIdentity (exposed_current p) (clean_control (exposed_control p))"
    "control_generation (clean_control (exposed_control p)) = control_generation (exposed_current p) + 1"
    by (simp_all add: HasSameIdentity_def clean_control_def exposed_current_def)
  then have "PersistNext (clean_control (exposed_current p)) ?s = (Inr (), ?s\<lparr>store_device := dev_sync (dev_write
      [(control_block sb (other_copy copy), closing_block p)] (quiet_device d (image_size sb))),
    current := (clean_control (exposed_control p))\<lparr>control_checksum := snd (control_block_of (clean_control (exposed_control p)))\<rparr>,
    current_copy := other_copy copy\<rparr>)"
    using PersistNext_quiet [of ?s "clean_control (exposed_control p)"] k
    by (simp add: e closing_block_def MakeStore_def)
  with c x(1) show ?thesis
    by (simp add: RecoverImage_def ResolveRecovery_def MakeStore_def Let_def)
qed

lemma commit_block_matches:
  assumes "plan_ok sb cur images p" "DecodeCommit (commit_block_of sb p images) = Inr m"
  shows "commit_transaction_id m = plan_transaction_id p"
    "CommitMatchesDescriptor ((make_descriptor sb p images)\<lparr>descriptor_checksum := snd (descriptor_block_of sb p images)\<rparr>)
       (plan_descriptor_ring_index p) m"
proof -
  note f = plan_ok_facts [OF assms(1)]
  have l: "length (entries (make_descriptor sb p images)) = length images"
    using f(1) by (simp add: make_descriptor_entries)
  show "commit_transaction_id m = plan_transaction_id p"
    using commit_block_ok(3) [OF assms(1)] assms(2) by (auto simp: make_commit_def)
  show "CommitMatchesDescriptor ((make_descriptor sb p images)\<lparr>descriptor_checksum := snd (descriptor_block_of sb p images)\<rparr>)
       (plan_descriptor_ring_index p) m"
    using commit_block_ok(3) [OF assms(1)] assms(2) l plan_count_word(1) [OF assms(1)]
    by (auto simp: make_commit_def CommitMatchesDescriptor_def) (auto simp: make_descriptor_def)
qed

lemma RecoverImage_committed:
  assumes "plan_ok sb cur images p" "exposed_at sb copy p images d"
    and "d (ring_phys sb (commit_ring_index p)) = commit_block_of sb p images"
  shows "RecoverImage (image_size sb) d = (Inr kReplayedAndCheckpointed, dev_sync (dev_write
    [(control_block sb (other_copy copy), closing_block p)]
    (dev_sync (dev_write (home_writes images) (quiet_device d (image_size sb))))))"
proof -
  note x = exposed_classify [OF assms(1,2)] and k = plan_controls_ok [OF assms(1)]
  let ?s = "MakeStore (quiet_device d (image_size sb)) sb (exposed_current p) copy"
  let ?v = "\<lparr>validated_transaction_id = plan_transaction_id p,
    validated_descriptor_ring_index = plan_descriptor_ring_index p,
    validated_commit_ring_index = commit_ring_index p, validated_after_images = images\<rparr>"
  obtain m where m: "DecodeCommit (commit_block_of sb p images) = Inr m"
    using commit_block_ok(3) [OF assms(1)] by blast
  have "classify_exposed sb (exposed_current p) (quiet_device d (image_size sb))
      = (Inr (kCommitted, Some ?v), quiet_device d (image_size sb))"
    using commit_block_matches [OF assms(1) m] unfolding exposed_classify_body [OF assms(1,2)]
    by (simp add: assms(3) m)
  then have c: "ClassifyRecovery ?s = (Inr kCommitted, ?s\<lparr>validated_transaction := Some ?v\<rparr>)"
    using x(2) by (simp add: MakeStore_def)
  have e: "clean_control (exposed_current p) = clean_control (exposed_control p)"
    by (simp add: exposed_current_def clean_control_def)
  have "list_all (\<lambda>(home, _). IsValidMetadataTarget sb home) images"
    using assms(1) by (auto simp: plan_ok_def images_ok_def list_all_iff)
  then have h: "WriteHomeBlocks images (?s\<lparr>validated_transaction := Some ?v\<rparr>) = (Inr (), ?s\<lparr>validated_transaction := Some ?v,
      store_device := dev_write (home_writes images) (quiet_device d (image_size sb))\<rparr>)"
    by (subst quiet_WriteHomeBlocks) (simp_all add: MakeStore_def)
  let ?t = "?s\<lparr>validated_transaction := Some ?v,
      store_device := dev_sync (dev_write (home_writes images) (quiet_device d (image_size sb)))\<rparr>"
  have "HasSameIdentity (exposed_current p) (clean_control (exposed_control p))"
    "control_generation (clean_control (exposed_control p)) = control_generation (exposed_current p) + 1"
    by (simp_all add: HasSameIdentity_def clean_control_def exposed_current_def)
  then have "PersistNext (clean_control (exposed_current p)) ?t = (Inr (), ?t\<lparr>store_device := dev_sync (dev_write
      [(control_block sb (other_copy copy), closing_block p)] (store_device ?t)),
    current := (clean_control (exposed_control p))\<lparr>control_checksum := snd (control_block_of (clean_control (exposed_control p)))\<rparr>,
    current_copy := other_copy copy\<rparr>)"
    using PersistNext_quiet [of ?t "clean_control (exposed_control p)"] k
    by (simp add: e closing_block_def MakeStore_def)
  with c x(1) h show ?thesis
    by (simp add: RecoverImage_def ResolveRecovery_def MakeStore_def Let_def quiet_store_io)
qed

lemma WritePayloads_quiet:
  assumes "dev_script (store_device s) = []" "ValidateSuperblock (store_superblock s) = Inr ()"
    and "length idxs = length images"
    and "\<forall>i \<in> set idxs. unat i < unat (ring_size (store_superblock s))"
  shows "WritePayloads idxs images s = (Inr (), s\<lparr>store_device :=
    dev_write (zip (map (ring_phys (store_superblock s)) idxs) (map snd images)) (store_device s)\<rparr>)"
  using assms(3,1,2,4)
proof (induction idxs images arbitrary: s rule: list_induct2)
  case (Cons i idxs x images)
  obtain q where q: "RingOffset (store_superblock s) i = Some q" "unat q = ring_phys (store_superblock s) i"
    using RingOffset_ok [of "store_superblock s" i] Cons.prems by auto
  show ?case using Cons q by (cases x) (simp add: quiet_store_io dev_write_append)
qed simp

lemma WriteUnexposedBody_quiet:
  assumes "plan_ok sb cur images p" "dev_script (store_device s) = []" "store_superblock s = sb"
    and "current s = cur" "\<not> reload_required s" "durable_body s = None"
  shows "WriteUnexposedBody p images s = (Inr (body_of sb p images),
    s\<lparr>store_device := dev_sync (dev_write (body_writes sb p images) (store_device s)),
      stages := stages s @ [kJournalBody], durable_body := Some (body_of sb p images),
      metadata_after_images := images\<rparr>)"
proof -
  note f = plan_ok_facts [OF assms(1)]
  have P: "PlanRingReservation cur (length images) = Inr p" "ValidateSuperblock sb = Inr ()"
    and ok: "list_all (\<lambda>(home, _). IsValidMetadataTarget sb home) images"
    using assms(1) by (auto simp: plan_ok_def images_ok_def list_all_iff)
  have u: "used_blocks cur = 0" using P(1) by (simp add: PlanRingReservation_Inr)
  have same: "SameReservation p p" by (simp add: SameReservation_def SameControlState_def HasSameIdentity_def)
  obtain q where q: "RingOffset sb (plan_descriptor_ring_index p) = Some q"
    "unat q = ring_phys sb (plan_descriptor_ring_index p)"
    using RingOffset_ok [OF P(2) f(4)] .
  have idx: "\<forall>i \<in> set (payload_ring_indices p). unat i < unat (ring_size sb)"
    using f(1,5) by (auto simp: in_set_conv_nth)
  have w: "WritePayloads (payload_ring_indices p) images (s\<lparr>store_device := dev\<rparr>) = (Inr (), s\<lparr>store_device :=
      dev_write (zip (map (ring_phys sb) (payload_ring_indices p)) (map snd images)) dev\<rparr>)"
    if "dev_script dev = []" for dev
    using WritePayloads_quiet [of "s\<lparr>store_device := dev\<rparr>", OF _ _ f(1)] that assms(3) P(2) idx by simp
  show ?thesis
    using assms(2-) P(1) ok u same q descriptor_block_ok(1) [OF assms(1)]
    by (simp add: WriteUnexposedBody_def quiet_store_io w Observe_def body_of_def body_writes_def
        dev_write_append Let_def split: prod.split)
qed

lemma CheckBeforeImages_quiet:
  assumes "dev_script (store_device s) = []" "dev_size (store_device s) = image_size (store_superblock s)"
    and "\<forall>x \<in> set before. fst x < total_blocks (store_superblock s)
      \<and> dev_blocks (store_device s) (unat (fst x)) = snd x"
  shows "CheckBeforeImages before s = (Inr (), s)"
  using assms(3)
proof (induction before)
  case (Cons x before)
  have "PreadBlock (unat (fst x)) (store_device s) = (Inr (snd x), store_device s)"
    using pread_in_image [OF assms(1,2)] Cons.prems by (simp add: word_less_nat_alt)
  then show ?case using Cons by (cases x) (simp add: not_le)
qed simp

lemma before_image_count:
  assumes "sorted_wrt (<) (map fst before)" "keys before = keys ordered \<union> keys images"
  shows "length before = length (remdups (map fst ordered @ map fst images))"
proof -
  have "distinct (map fst before)" using assms(1) by (simp only: strict_sorted_iff)
  then have "length before = card (keys before)" using distinct_card by (fastforce simp: keys_def)
  then show ?thesis using assms(2) by (simp add: length_remdups_card_conv keys_def image_Un)
qed

lemma transaction_ok_targets:
  assumes "transaction_ok sb cur d before ordered images p" "x \<in> set before"
  shows "fst x < total_blocks sb"
proof -
  have "fst x \<in> keys ordered \<union> keys images" and v: "ValidateSuperblock sb = Inr ()"
    using assms by (auto simp: transaction_ok_def plan_ok_def keys_def)
  then consider y where "y \<in> set ordered" "fst y = fst x" | y where "y \<in> set images" "fst y = fst x"
    by (auto simp: keys_def)
  then show ?thesis
  proof cases
    case 1
    then have "BlockIsInRegion (fst x) (data sb)" using assms(1) by (auto simp: transaction_ok_def)
    then show ?thesis using data_block_outside(2) [OF v] by (simp add: word_less_nat_alt)
  next
    case 2
    then show ?thesis using assms(1)
      by (auto simp: transaction_ok_def plan_ok_def images_ok_def IsValidMetadataTarget_def)
  qed
qed

lemma key_in: "(block, content) \<in> set m \<Longrightarrow> block \<in> keys m"
  by (force simp: keys_def)

lemma WriteOrdered_quiet:
  assumes "transaction_ok sb cur d before ordered images p" "dev_script (store_device s) = []"
    and "store_superblock s = sb" "current s = cur" "\<not> reload_required s" "durable_body s = None"
    and "dev_size (store_device s) = image_size sb" "dev_blocks (store_device s) = d"
  shows "WriteOrderedDataAndUnexposedBody (total_blocks sb) (filesystem_uuid sb) before ordered images s =
    WriteUnexposedBody p images (if ordered = [] then s else s\<lparr>store_device :=
      dev_sync (dev_write (home_writes ordered) (store_device s)), stages := stages s @ [kOrderedData]\<rparr>)"
proof -
  have ok: "plan_ok sb cur images p" and k: "keys before = keys ordered \<union> keys images"
    and srt: "sorted_wrt (<) (map fst before)" using assms(1) by (auto simp: transaction_ok_def)
  have P: "PlanRingReservation cur (length images) = Inr p" "images \<noteq> []"
    using ok plan_ok_facts(2) [OF ok] by (auto simp: plan_ok_def)
  have u: "used_blocks cur = 0" using P(1) by (simp add: PlanRingReservation_Inr)
  have g1: "list_all (\<lambda>(block, _). BlockIsInRegion block (data sb)
      \<and> block \<in> keys before \<and> block \<notin> keys images) ordered"
    using assms(1) unfolding list_all_iff k transaction_ok_def by (auto intro: key_in)
  have g2: "list_all (\<lambda>(block, _). IsValidMetadataTarget sb block \<and> block \<in> keys before) images"
    using ok unfolding list_all_iff k plan_ok_def images_ok_def by (auto intro: key_in)
  have "block \<in> keys ordered \<union> keys images" if "(block, c) \<in> set before" for block c
    using key_in [OF that] by (simp add: k)
  then have g3: "list_all (\<lambda>(block, _). block \<in> set (remdups (map fst ordered @ map fst images))) before"
    unfolding list_all_iff by (auto simp: keys_def)
  have c: "CheckBeforeImages before s = (Inr (), s)"
    using transaction_ok_targets [OF assms(1)] assms by (intro CheckBeforeImages_quiet) (auto simp: transaction_ok_def)
  show ?thesis
    using before_image_count [OF srt k] P u g1 g2 g3 c assms(2-)
    by (simp add: WriteOrderedDataAndUnexposedBody_def Let_def quiet_store_io Observe_def del: set_remdups)
qed

lemma Expose_quiet:
  assumes "plan_ok sb cur images p" "dev_script (store_device s) = []" "store_superblock s = sb"
    and "current s = cur" "\<not> reload_required s" "durable_body s = Some (body_of sb p images)"
  shows "ExposeDurableBody s = (Inr (), s\<lparr>store_device := dev_sync (dev_write
      [(control_block sb (other_copy (current_copy s)), fst (control_block_of (exposed_control p)))] (store_device s)),
      current := exposed_current p, current_copy := other_copy (current_copy s),
      stages := stages s @ [kControlExposure]\<rparr>)"
proof -
  note f = plan_ok_facts [OF assms(1)] and k = plan_controls_ok [OF assms(1)]
  have "used_blocks cur = 0" using assms(1) by (auto simp: plan_ok_def PlanRingReservation_Inr)
  then show ?thesis
    using assms(2-) f k PersistNext_quiet [of s "exposed_control p"]
    by (simp add: ExposeDurableBody_def body_of_def Observe_def exposed_current_def)
qed

lemma WriteCommit_quiet:
  assumes "plan_ok sb cur images p" "dev_script (store_device s) = []" "store_superblock s = sb"
    and "current s = exposed_current p" "\<not> reload_required s" "durable_body s = Some (body_of sb p images)"
    and "\<not> commit_durable s"
  shows "WriteCommit s = (Inr (), s\<lparr>store_device := dev_sync (dev_write
      [(ring_phys sb (commit_ring_index p), commit_block_of sb p images)] (store_device s)),
      stages := stages s @ [kCommit], commit_durable := True\<rparr>)"
proof -
  note f = plan_ok_facts [OF assms(1)]
  have v: "ValidateSuperblock sb = Inr ()" using assms(1) by (simp add: plan_ok_def)
  obtain q where q: "RingOffset sb (commit_ring_index p) = Some q" "unat q = ring_phys sb (commit_ring_index p)"
    using RingOffset_ok [OF v f(6)] .
  have "SameControlState (exposed_current p) (exposed_control p)"
    by (simp add: SameControlState_def HasSameIdentity_def exposed_current_def)
  then show ?thesis
    using assms(2-) q commit_block_ok(1) [OF assms(1)]
    by (simp add: WriteCommit_def body_of_def quiet_store_io Observe_def)
qed

lemma Complete_quiet:
  assumes "plan_ok sb cur images p" "dev_script (store_device s) = []" "store_superblock s = sb"
    and "current s = exposed_current p" "\<not> reload_required s" "durable_body s = Some (body_of sb p images)"
    and "commit_durable s" "\<not> checkpointed s" "metadata_after_images s = images"
  shows "\<exists>s'. CompleteCommittedTransaction s = (Inr (), s') \<and> stages s' = stages s @ [kHomeBlocks, kCheckpoint]
    \<and> store_device s' = dev_sync (dev_write [(control_block sb (other_copy (current_copy s)), closing_block p)]
        (dev_sync (dev_write (home_writes images) (store_device s))))
    \<and> used_blocks (current s') = 0 \<and> \<not> reload_required s'"
proof -
  note f = plan_ok_facts [OF assms(1)] and k = plan_controls_ok [OF assms(1)]
  have ok: "list_all (\<lambda>(home, _). IsValidMetadataTarget sb home) images"
    using assms(1) by (auto simp: plan_ok_def images_ok_def list_all_iff)
  have e: "clean_control (exposed_current p) = clean_control (exposed_control p)"
    by (simp add: exposed_current_def clean_control_def)
  let ?t = "Observe kHomeBlocks (s\<lparr>store_device := dev_sync (dev_write (home_writes images) (store_device s))\<rparr>)"
  have "HasSameIdentity (exposed_current p) (clean_control (exposed_control p))"
    "control_generation (clean_control (exposed_control p)) = control_generation (exposed_current p) + 1"
    by (simp_all add: HasSameIdentity_def clean_control_def exposed_current_def)
  then have p: "PersistNext (clean_control (exposed_control p)) ?t = (Inr (), ?t\<lparr>store_device := dev_sync (dev_write
      [(control_block sb (other_copy (current_copy s)), closing_block p)] (store_device ?t)),
      current := (clean_control (exposed_control p))\<lparr>control_checksum :=
        snd (control_block_of (clean_control (exposed_control p)))\<rparr>,
      current_copy := other_copy (current_copy s)\<rparr>)"
    using PersistNext_quiet [of ?t "clean_control (exposed_control p)"] k assms(2-5)
    by (simp add: closing_block_def Observe_def)
  have "images \<noteq> []" using f(2) by auto
  then have "CompleteCommittedTransaction s = (case PersistNext (clean_control (exposed_control p)) ?t of
      (Inl e, s) \<Rightarrow> (Inl e, s) | (Inr _, s) \<Rightarrow> (Inr (), (Observe kCheckpoint s)\<lparr>checkpointed := True\<rparr>))"
    using assms(2-) ok quiet_WriteHomeBlocks [of s images]
    by (simp add: CompleteCommittedTransaction_def quiet_store_io Let_def e Observe_def)
  then show ?thesis
    using assms(5) unfolding p by (simp add: Observe_def) (simp add: clean_control_def)
qed

lemma Execute_quiet:
  assumes "mountable sb cur copy d" "transaction_ok sb cur d before ordered images p"
  shows "\<exists>s. ExecuteJournalTransaction (Inr (quiet_device d (image_size sb))) before ordered images
      (total_blocks sb) (filesystem_uuid sb) = (Inr (), False, Some s)
    \<and> dev_log (store_device s) = phase_log (tx_phases sb copy p ordered images)
    \<and> dev_blocks (store_device s) = apply_writes (concat (tx_phases sb copy p ordered images)) d
    \<and> stages s = (if ordered = [] then [] else [kOrderedData])
        @ [kJournalBody, kControlExposure, kCommit, kHomeBlocks, kCheckpoint]
    \<and> used_blocks (current s) = 0"
proof -
  have ok: "plan_ok sb cur images p" using assms(2) by (simp add: transaction_ok_def)
  let ?dev = "quiet_device d (image_size sb)"
  let ?s0 = "MakeStore ?dev sb cur copy"
  let ?s1 = "if ordered = [] then ?s0 else ?s0\<lparr>store_device :=
      dev_sync (dev_write (home_writes ordered) (store_device ?s0)), stages := stages ?s0 @ [kOrderedData]\<rparr>"
  have a: "AdoptLockedFd ?dev = (Inr ?s0, ?dev)" using AdoptLockedFd_ok [of sb cur copy ?dev] assms(1) by simp
  have f1: "dev_script (store_device ?s1) = []" "store_superblock ?s1 = sb" "current ?s1 = cur"
    "\<not> reload_required ?s1" "durable_body ?s1 = None" "current_copy ?s1 = copy" "\<not> commit_durable ?s1"
    "\<not> checkpointed ?s1"
    by (simp_all add: MakeStore_def)
  have w: "WriteOrderedDataAndUnexposedBody (total_blocks sb) (filesystem_uuid sb) before ordered images ?s0
      = WriteUnexposedBody p images ?s1"
    using WriteOrdered_quiet [OF assms(2), of ?s0] by (simp add: MakeStore_def)
  obtain s2 where s2: "WriteUnexposedBody p images ?s1 = (Inr (body_of sb p images), s2)"
    "s2 = ?s1\<lparr>store_device := dev_sync (dev_write (body_writes sb p images) (store_device ?s1)),
      stages := stages ?s1 @ [kJournalBody], durable_body := Some (body_of sb p images),
      metadata_after_images := images\<rparr>"
    using WriteUnexposedBody_quiet [OF ok f1(1-5)] by blast
  obtain s3 where s3: "ExposeDurableBody s2 = (Inr (), s3)"
    "s3 = s2\<lparr>store_device := dev_sync (dev_write
      [(control_block sb (other_copy copy), fst (control_block_of (exposed_control p)))] (store_device s2)),
      current := exposed_current p, current_copy := other_copy copy, stages := stages s2 @ [kControlExposure]\<rparr>"
    using Expose_quiet [OF ok, of s2] f1 s2(2) by simp
  obtain s4 where s4: "WriteCommit s3 = (Inr (), s4)"
    "s4 = s3\<lparr>store_device := dev_sync (dev_write
      [(ring_phys sb (commit_ring_index p), commit_block_of sb p images)] (store_device s3)),
      stages := stages s3 @ [kCommit], commit_durable := True\<rparr>"
    using WriteCommit_quiet [OF ok, of s3] f1 s2(2) s3(2) by simp
  have cc: "other_copy (current_copy s4) = copy"
    using s4(2) s3(2) by (cases copy) (simp_all add: other_copy_def)
  obtain s5 where s5: "CompleteCommittedTransaction s4 = (Inr (), s5)"
    "stages s5 = stages s4 @ [kHomeBlocks, kCheckpoint]" "used_blocks (current s5) = 0"
    "store_device s5 = dev_sync (dev_write [(control_block sb copy, closing_block p)]
        (dev_sync (dev_write (home_writes images) (store_device s4))))"
    using Complete_quiet [OF ok, of s4] f1 s2(2) s3(2) s4(2) cc by auto
  have "store_device s5 = dev_sync (dev_write [(control_block sb copy, closing_block p)]
        (dev_sync (dev_write (home_writes images) (dev_sync (dev_write
      [(ring_phys sb (commit_ring_index p), commit_block_of sb p images)] (dev_sync (dev_write
      [(control_block sb (other_copy copy), fst (control_block_of (exposed_control p)))]
        (dev_sync (dev_write (body_writes sb p images) (store_device ?s1))))))))))"
    "stages s5 = stages ?s1 @ [kJournalBody, kControlExposure, kCommit, kHomeBlocks, kCheckpoint]"
    using s2(2) s3(2) s4(2) s5(2,4) by simp_all
  moreover have "store_device ?s1 = (if ordered = [] then ?dev else dev_sync (dev_write (home_writes ordered) ?dev))"
    "stages ?s1 = (if ordered = [] then [] else [kOrderedData])"
    by (simp_all add: MakeStore_def)
  ultimately show ?thesis
    using a w s2(1) s3(1) s4(1) s5(1,3)
    by (simp add: ExecuteJournalTransaction_def tx_phases_def tx_tail_def ordered_phase_def phase_log_def apply_writes_append)
qed

section \<open>Crash points\<close>

lemma phase_at_simps [simp]: "phase_at (ws # phases) 0 = ws" "phase_at (ws # phases) (Suc i) = phase_at phases i"
  "phase_at [] i = []"
  by (simp_all add: phase_at_def)

lemma syncs_wlog [simp]: "syncs (wlog ws @ ops) = syncs ops" "syncs (wlog ws) = 0"
proof -
  show "syncs (wlog ws @ ops) = syncs ops" for ops
    by (induction ws) (auto simp: wlog_def split: prod.splits)
  from this [of "[]"] show "syncs (wlog ws) = 0" by simp
qed

lemma run_log_writes: "run_log (wlog ws @ rest) (d, pending) = run_log rest (d, pending @ ws)"
proof (induction ws arbitrary: pending)
  case (Cons x ws)
  then show ?case by (cases x) simp
qed simp

lemma take_phase_log:
  "n \<le> length ws \<Longrightarrow> take n (phase_log (ws # phases)) = wlog (take n ws)"
  "length ws < n \<Longrightarrow> take n (phase_log (ws # phases))
    = wlog ws @ DSync # take (n - length ws - 1) (phase_log phases)"
  by (simp_all add: phase_log_def wlog_def take_map take_Cons')

lemma run_phase_prefix:
  "\<exists>pending. run_log (take n (phase_log phases)) (d, [])
      = (apply_writes (concat (take (syncs (take n (phase_log phases))) phases)) d, pending)
    \<and> set pending \<subseteq> set (phase_at phases (syncs (take n (phase_log phases))))"
proof (induction phases arbitrary: n d)
  case (Cons ws phases)
  show ?case
  proof (cases "n \<le> length ws")
    case True
    have "run_log (wlog (take n ws)) (d, []) = (d, take n ws)"
      using run_log_writes [of "take n ws" "[]" d "[]"] by simp
    then show ?thesis using True by (simp add: take_phase_log set_take_subset)
  next
    case False
    then show ?thesis using Cons.IH [of "n - length ws - 1" "apply_writes ws d"]
      by (simp add: take_phase_log run_log_writes apply_writes_append)
  qed
qed (simp add: phase_log_def)

lemma crash_after_phases:
  assumes "crash_after d (take n (phase_log phases)) img"
  defines "i \<equiv> syncs (take n (phase_log phases))"
  shows "crash_image (apply_writes (concat (take i phases)) d) (phase_at phases i) img"
  using assms(1) run_phase_prefix [of n phases d]
  unfolding crash_after_def i_def by (fastforce simp: crash_image_def)

lemma crash_image_other:
  assumes "crash_image d ws img" "n \<notin> fst ` set ws"
  shows "img n = d n"
  using assms by (intro nth_equalityI) (force simp: crash_image_def)+

end
