(* ===== verification/CrashSafety.thy ===== *)
theory CrashSafety
  imports TransactionExecution
begin

text \<open>
  Crash safety of journal transactions.  A crash leaves the writes that were synced
  and, of the last phase, any mixture of old and new bytes.  The states in which a
  transaction can be interrupted are \<open>old_state\<close>, \<open>uncommitted_state\<close> and
  \<open>committed_state\<close>; recovery ends each of them, also when it is interrupted itself.
\<close>

section \<open>States of an interrupted transaction\<close>

definition in_journal :: "Superblock \<Rightarrow> nat \<Rightarrow> bool" where
  "in_journal sb n \<longleftrightarrow> unat (start_block (journal sb)) \<le> n
    \<and> n < unat (start_block (journal sb)) + unat (block_count (journal sb))"

text \<open>
  No block of the ring decodes as the COMMIT of a transaction that is still to come.
  Recovery relies on this when it takes a COMMIT with the expected identifier for the one
  of the exposed transaction.
\<close>

definition no_future_commit :: "Superblock \<Rightarrow> JournalControl \<Rightarrow> disk \<Rightarrow> bool" where
  "no_future_commit sb c d \<longleftrightarrow> (\<forall>i < unat (ring_size sb).
     case DecodeCommit (d (unat (start_block (journal sb)) + 2 + i)) of
       Inl _ \<Rightarrow> True | Inr m \<Rightarrow> commit_transaction_id m < next_transaction_id c)"

definition quiescent :: "Superblock \<Rightarrow> JournalControl \<Rightarrow> ControlCopy \<Rightarrow> disk \<Rightarrow> bool" where
  "quiescent sb c copy d \<longleftrightarrow> mountable sb c copy d \<and> used_blocks c = 0 \<and> no_future_commit sb c d"

definition undecodable :: "bytes \<Rightarrow> bool" where
  "undecodable b \<longleftrightarrow> isl (DecodeControl b) \<and> isl (DecodeCommit b)"

definition tx_final ::
  "Superblock \<Rightarrow> ControlCopy \<Rightarrow> RingReservationPlan \<Rightarrow> block_map \<Rightarrow> block_map \<Rightarrow> disk \<Rightarrow> disk" where
  "tx_final sb copy p ordered images d = apply_writes (concat (tx_phases sb copy p ordered images)) d"

text \<open>
  The assumption on checksums: a journal block of the crash image is the old one, the
  new one, or neither a control nor a COMMIT.
\<close>

definition tears_detected :: "Superblock \<Rightarrow> disk \<Rightarrow> disk \<Rightarrow> disk \<Rightarrow> bool" where
  "tears_detected sb d d' img \<longleftrightarrow>
    (\<forall>n. in_journal sb n \<longrightarrow> img n = d n \<or> img n = d' n \<or> undecodable (img n))"

definition tx_setup :: "Superblock \<Rightarrow> JournalControl \<Rightarrow> ControlCopy \<Rightarrow> disk \<Rightarrow> block_map \<Rightarrow> block_map
    \<Rightarrow> block_map \<Rightarrow> RingReservationPlan \<Rightarrow> bool" where
  "tx_setup sb cur copy d before ordered images p \<longleftrightarrow> quiescent sb cur copy d
    \<and> transaction_ok sb cur d before ordered images p
    \<and> (\<forall>x \<in> set images. isl (DecodeCommit (snd x)))"

definition clean_current :: "RingReservationPlan \<Rightarrow> JournalControl" where
  "clean_current p = (clean_control (exposed_control p))\<lparr>control_checksum :=
     snd (control_block_of (clean_control (exposed_control p)))\<rparr>"

definition targets :: "block_map \<Rightarrow> nat set" where
  "targets images = fst ` set (home_writes images)"

definition agree_outside :: "Superblock \<Rightarrow> nat set \<Rightarrow> disk \<Rightarrow> disk \<Rightarrow> bool" where
  "agree_outside sb ns d d' \<longleftrightarrow> (\<forall>n. \<not> in_journal sb n \<and> n \<notin> ns \<longrightarrow> d' n = d n)"

definition body_kept :: "Superblock \<Rightarrow> RingReservationPlan \<Rightarrow> block_map \<Rightarrow> disk \<Rightarrow> bool" where
  "body_kept sb p images img \<longleftrightarrow> (\<forall>x \<in> set (body_writes sb p images). img (fst x) = snd x)"

text \<open>
  The states of an interrupted transaction: nothing exposed; exposed without COMMIT;
  committed.  In the last two the control copy that closes the transaction may be old,
  torn or new.
\<close>

definition old_state ::
  "Superblock \<Rightarrow> ControlCopy \<Rightarrow> RingReservationPlan \<Rightarrow> block_map \<Rightarrow> disk \<Rightarrow> disk \<Rightarrow> bool" where
  "old_state sb copy p ordered d img \<longleftrightarrow> img 0 = d 0
    \<and> img (control_block sb copy) = d (control_block sb copy)
    \<and> (img (control_block sb (other_copy copy)) = d (control_block sb (other_copy copy))
       \<or> undecodable (img (control_block sb (other_copy copy))))
    \<and> img (ring_phys sb (commit_ring_index p)) = d (ring_phys sb (commit_ring_index p))
    \<and> agree_outside sb (targets ordered) d img"

definition exposed_state ::
  "Superblock \<Rightarrow> ControlCopy \<Rightarrow> RingReservationPlan \<Rightarrow> block_map \<Rightarrow> disk \<Rightarrow> disk \<Rightarrow> bool" where
  "exposed_state sb copy p images d img \<longleftrightarrow> img 0 = d 0
    \<and> img (control_block sb (other_copy copy)) = fst (control_block_of (exposed_control p))
    \<and> body_kept sb p images img
    \<and> (img (control_block sb copy) = d (control_block sb copy)
       \<or> undecodable (img (control_block sb copy)) \<or> img (control_block sb copy) = closing_block p)"

definition uncommitted_state :: "Superblock \<Rightarrow> ControlCopy \<Rightarrow> RingReservationPlan \<Rightarrow> block_map
    \<Rightarrow> block_map \<Rightarrow> disk \<Rightarrow> disk \<Rightarrow> bool" where
  "uncommitted_state sb copy p ordered images d img \<longleftrightarrow> exposed_state sb copy p images d img
    \<and> \<not> commit_decodes_to (plan_transaction_id p) (img (ring_phys sb (commit_ring_index p)))
    \<and> agree_outside sb (targets ordered) d img"

definition committed_state :: "Superblock \<Rightarrow> ControlCopy \<Rightarrow> RingReservationPlan \<Rightarrow> block_map
    \<Rightarrow> block_map \<Rightarrow> disk \<Rightarrow> disk \<Rightarrow> bool" where
  "committed_state sb copy p ordered images d img \<longleftrightarrow> exposed_state sb copy p images d img
    \<and> img (ring_phys sb (commit_ring_index p)) = commit_block_of sb p images
    \<and> agree_outside sb (targets images) (apply_writes (home_writes ordered) d) img
    \<and> (img (control_block sb copy) = closing_block p \<longrightarrow>
         apply_writes (home_writes images) img = img)"

definition commit_older :: "u64 \<Rightarrow> bytes \<Rightarrow> bool" where
  "commit_older t b \<longleftrightarrow> (case DecodeCommit b of Inl _ \<Rightarrow> True | Inr m \<Rightarrow> commit_transaction_id m < t)"

text \<open>
  What is left outside the journal: all images, or no change but to ordered data.
\<close>

definition tx_outcome :: "Superblock \<Rightarrow> block_map \<Rightarrow> block_map \<Rightarrow> bool \<Rightarrow> disk \<Rightarrow> disk \<Rightarrow> bool" where
  "tx_outcome sb ordered images committed d d' \<longleftrightarrow>
    (if committed
     then agree_outside sb {} (apply_writes (home_writes images) (apply_writes (home_writes ordered) d)) d'
     else agree_outside sb (targets ordered) d d')"

definition tx_class :: "Superblock \<Rightarrow> ControlCopy \<Rightarrow> RingReservationPlan \<Rightarrow> block_map
    \<Rightarrow> block_map \<Rightarrow> disk \<Rightarrow> bool \<Rightarrow> disk \<Rightarrow> bool" where
  "tx_class sb copy p ordered images d committed img \<longleftrightarrow>
    (if committed then committed_state sb copy p ordered images d img
     else old_state sb copy p ordered d img \<or> uncommitted_state sb copy p ordered images d img)"

definition exposed_disk :: "Superblock \<Rightarrow> ControlCopy \<Rightarrow> RingReservationPlan \<Rightarrow> block_map \<Rightarrow> block_map \<Rightarrow> disk \<Rightarrow> disk" where
  "exposed_disk sb copy p ordered images d =
    (apply_writes (body_writes sb p images) (apply_writes (home_writes ordered) d))
      (control_block sb (other_copy copy) := fst (control_block_of (exposed_control p)))"

inductive recovery_attempts :: "Superblock \<Rightarrow> disk \<Rightarrow> disk \<Rightarrow> disk \<Rightarrow> disk \<Rightarrow> bool" for sb d d' img where
  attempts_none: "recovery_attempts sb d d' img img"
| attempts_more: "recovery_attempts sb d d' img img1 \<Longrightarrow> RecoverImage (image_size sb) img1 = (r, dev) \<Longrightarrow>
    crash_after img1 (take n (dev_log dev)) img2 \<Longrightarrow> tears_detected sb d d' img2 \<Longrightarrow>
    recovery_attempts sb d d' img img2"

section \<open>Which control is selected\<close>

lemma mountable_valid: "mountable sb c copy d \<Longrightarrow> ValidateSuperblock sb = Inr ()"
  by (auto simp: mountable_def dest: DecodeSuperblock_valid)

lemma ring_size_ge: "ValidateSuperblock sb = Inr () \<Longrightarrow> 3 \<le> ring_size sb"
  using journal_geometry(2) [of sb] by (simp add: word_le_nat_alt)

lemma other_copy_other [simp]: "other_copy (other_copy copy) = copy" "other_copy copy \<noteq> copy"
  by (cases copy; simp add: other_copy_def)+

lemma mountable_copy:
  assumes "mountable sb c copy d"
  shows "valid_copy (d (control_block sb copy)) (filesystem_uuid sb) (ring_size sb) = Some c"
  using assms by (cases copy) (auto simp: mountable_def dest!: SelectControl_sound)

lemma mountable_torn:
  assumes "mountable sb c copy d" "img 0 = d 0"
    and "valid_copy (img (control_block sb copy')) (filesystem_uuid sb) (ring_size sb) = Some c'"
    and "undecodable (img (control_block sb (other_copy copy')))"
  shows "mountable sb c' copy' img"
proof -
  have "valid_copy (img (control_block sb (other_copy copy'))) (filesystem_uuid sb) (ring_size sb) = None"
    using assms(4) by (auto simp: valid_copy_def undecodable_def split: sum.splits)
  then show ?thesis
    using assms(1-3) SelectControl_torn_copy [OF ring_size_ge [OF mountable_valid [OF assms(1)]] assms(3)]
    by (cases copy') (simp_all add: mountable_def other_copy_def)
qed

lemma mountable_successor:
  assumes "mountable sb c copy d" "img 0 = d 0"
    and "valid_copy (img (control_block sb (other_copy copy'))) (filesystem_uuid sb) (ring_size sb) = Some c0"
    and "valid_copy (img (control_block sb copy')) (filesystem_uuid sb) (ring_size sb) = Some c'"
    and "control_generation c' = control_generation c0 + 1"
  shows "mountable sb c' copy' img"
  using assms(1,2) SelectControl_successor [OF ring_size_ge [OF mountable_valid [OF assms(1)]] assms(3-5)]
  by (cases copy') (simp_all add: mountable_def other_copy_def)

lemma plan_control_copies:
  assumes "plan_ok sb cur images p"
  shows "valid_copy (fst (control_block_of (exposed_control p))) (filesystem_uuid sb) (ring_size sb)
      = Some (exposed_current p)"
    "valid_copy (closing_block p) (filesystem_uuid sb) (ring_size sb) = Some (clean_current p)"
    "control_generation (exposed_current p) = control_generation cur + 1"
    "control_generation (clean_current p) = control_generation (exposed_current p) + 1"
    "next_transaction_id (clean_current p) = next_transaction_id cur + 1" "used_blocks (clean_current p) = 0"
proof -
  note f = plan_ok_facts [OF assms] and k = plan_controls_ok [OF assms]
  show "valid_copy (fst (control_block_of (exposed_control p))) (filesystem_uuid sb) (ring_size sb)
      = Some (exposed_current p)"
    using control_block_ok(3) [OF k(1,2)] f(9,10) by (simp add: valid_copy_def exposed_current_def)
  show "valid_copy (closing_block p) (filesystem_uuid sb) (ring_size sb) = Some (clean_current p)"
    using control_block_ok(3) [OF k(3,4)] k(5,6) by (simp add: valid_copy_def closing_block_def clean_current_def)
  show "control_generation (exposed_current p) = control_generation cur + 1"
    "control_generation (clean_current p) = control_generation (exposed_current p) + 1"
    "next_transaction_id (clean_current p) = next_transaction_id cur + 1" "used_blocks (clean_current p) = 0"
    using f(11,12,15) by (simp_all add: exposed_current_def clean_current_def clean_control_def)
qed

lemma mount_old:
  assumes "mountable sb cur copy d" "img 0 = d 0" "img (control_block sb copy) = d (control_block sb copy)"
    and "img (control_block sb (other_copy copy)) = d (control_block sb (other_copy copy))
      \<or> undecodable (img (control_block sb (other_copy copy)))"
  shows "mountable sb cur copy img"
  using assms(4)
proof
  assume "img (control_block sb (other_copy copy)) = d (control_block sb (other_copy copy))"
  then show ?thesis using assms(1-3) by (cases copy) (simp_all add: mountable_def other_copy_def)
next
  assume "undecodable (img (control_block sb (other_copy copy)))"
  then show ?thesis using mountable_torn [where img = img, OF assms(1,2)] mountable_copy [OF assms(1)] assms(3) by simp
qed

lemma mount_exposed:
  assumes "mountable sb cur copy d" "plan_ok sb cur images p" "img 0 = d 0"
    and "img (control_block sb (other_copy copy)) = fst (control_block_of (exposed_control p))"
    and "img (control_block sb copy) = d (control_block sb copy) \<or> undecodable (img (control_block sb copy))"
  shows "mountable sb (exposed_current p) (other_copy copy) img"
proof -
  note k = plan_control_copies [OF assms(2)]
  show ?thesis using assms(5)
  proof
    assume "img (control_block sb copy) = d (control_block sb copy)"
    then show ?thesis
      using mountable_successor [where img = img and copy' = "other_copy copy" and ?c0.0 = cur, OF assms(1,3)] mountable_copy [OF assms(1)] k assms(4)
      by simp
  next
    assume "undecodable (img (control_block sb copy))"
    then show ?thesis using mountable_torn [where img = img and copy' = "other_copy copy", OF assms(1,3)] k assms(4) by simp
  qed
qed

lemma mount_closed:
  assumes "mountable sb cur copy d" "plan_ok sb cur images p" "img 0 = d 0"
    and "img (control_block sb (other_copy copy)) = fst (control_block_of (exposed_control p))"
    and "img (control_block sb copy) = closing_block p"
  shows "mountable sb (clean_current p) copy img"
  using mountable_successor [where img = img and copy' = copy and ?c0.0 = "exposed_current p", OF assms(1,3)] plan_control_copies [OF assms(2)] assms(4,5)
  by simp

section \<open>Targets\<close>

lemma control_in_journal:
  assumes "ValidateSuperblock sb = Inr ()"
  shows "in_journal sb (control_block sb copy)" "\<not> in_journal sb 0"
    "control_block sb (other_copy copy) \<noteq> control_block sb copy"
    "control_block sb copy \<noteq> ring_phys sb i"
    "unat i < unat (ring_size sb) \<Longrightarrow> in_journal sb (ring_phys sb i)"
  using journal_geometry [OF assms] control_block_eq [OF assms]
  by (cases copy; simp add: in_journal_def ring_phys_def other_copy_def)+

lemma plan_targets:
  assumes "plan_ok sb cur images p"
  shows "n \<in> targets images \<Longrightarrow> \<not> in_journal sb n \<and> n \<noteq> 0"
    "distinct (map fst (body_writes sb p images))"
    "ring_phys sb (commit_ring_index p) \<notin> fst ` set (body_writes sb p images)"
    "n \<in> fst ` set (body_writes sb p images) \<Longrightarrow> \<exists>i. unat i < unat (ring_size sb) \<and> n = ring_phys sb i"
    "distinct (map fst (home_writes images))"
proof -
  note f = plan_ok_facts [OF assms]
  have v: "\<forall>x \<in> set images. IsValidMetadataTarget sb (fst x)" and s: "sorted_wrt (<) (map fst images)"
    using assms by (auto simp: plan_ok_def images_ok_def)
  show "\<not> in_journal sb n \<and> n \<noteq> 0" if n: "n \<in> targets images"
  proof -
    obtain x where x: "x \<in> set images" "n = unat (fst x)" using n by (auto simp: targets_def home_writes_def)
    then have "IsValidMetadataTarget sb (fst x)" using v by blast
    from valid_target_outside [OF this] show ?thesis using x(2) by (auto simp: in_journal_def)
  qed
  have m: "map fst (body_writes sb p images) = map (ring_phys sb) (plan_descriptor_ring_index p # payload_ring_indices p)"
    using f(1) by (simp add: body_writes_def)
  have d: "distinct (map (ring_phys sb) ((plan_descriptor_ring_index p # payload_ring_indices p) @ [commit_ring_index p]))"
    using f(7) by (simp add: plan_positions_def)
  then show "distinct (map fst (body_writes sb p images))" unfolding m by (simp only: map_append distinct_append)
  have "ring_phys sb (commit_ring_index p) \<notin> set (map fst (body_writes sb p images))"
    using d unfolding m by auto
  then show "ring_phys sb (commit_ring_index p) \<notin> fst ` set (body_writes sb p images)" by simp
  show "\<exists>i. unat i < unat (ring_size sb) \<and> n = ring_phys sb i" if "n \<in> fst ` set (body_writes sb p images)"
  proof -
    have "n \<in> set (map fst (body_writes sb p images))" using that by simp
    then obtain i where "i \<in> set (plan_descriptor_ring_index p # payload_ring_indices p)" "n = ring_phys sb i"
      unfolding m by auto
    then show ?thesis using f(1,4,5) by (auto simp: in_set_conv_nth)
  qed
  have "map fst (home_writes images) = map unat (map fst images)" by (auto simp: home_writes_def)
  moreover have "distinct (map fst images)" using s by (simp only: strict_sorted_iff)
  ultimately show "distinct (map fst (home_writes images))"
    by (simp add: distinct_map inj_on_def word_unat_eq_iff)
qed

lemma ordered_targets:
  assumes "transaction_ok sb cur d before ordered images p" "n \<in> targets ordered"
  shows "\<not> in_journal sb n \<and> n \<noteq> 0 \<and> n \<notin> targets images"
proof -
  obtain x where x: "x \<in> set ordered" "n = unat (fst x)"
    using assms(2) by (auto simp: targets_def home_writes_def)
  have o: "BlockIsInRegion (fst x) (data sb)" "fst x \<notin> keys images" and v: "ValidateSuperblock sb = Inr ()"
    using assms(1) x by (auto simp: transaction_ok_def plan_ok_def)
  have "n \<notin> targets images"
    using o(2) x(2) by (auto simp: targets_def home_writes_def keys_def word_unat_eq_iff image_iff)
  then show ?thesis
    using data_block_outside(1) [OF v o(1)] journal_geometry(3) [OF v] x(2) by (auto simp: in_journal_def)
qed

lemma body_kept_on_disk:
  assumes "plan_ok sb cur images p" "body_kept sb p images img"
  shows "body_on_disk sb p images (snd (descriptor_block_of sb p images)) img"
proof -
  note f = plan_ok_facts [OF assms(1)]
  have "img (ring_phys sb (payload_ring_indices p ! i)) = snd (images ! i)" if "i < length images" for i
  proof -
    have "(ring_phys sb (payload_ring_indices p ! i), snd (images ! i))
        \<in> set (zip (map (ring_phys sb) (payload_ring_indices p)) (map snd images))"
      using that f(1) by (auto simp: in_set_zip intro!: exI [of _ i])
    then show ?thesis using assms(2) by (fastforce simp: body_kept_def body_writes_def)
  qed
  then show ?thesis
    using assms(2) descriptor_block_ok(3) [OF assms(1)] by (simp add: body_on_disk_def body_kept_def body_writes_def)
qed

section \<open>COMMIT records left in the ring\<close>

lemma no_future_commit_ring:
  "no_future_commit sb c d \<longleftrightarrow> (\<forall>i. unat i < unat (ring_size sb) \<longrightarrow>
     commit_older (next_transaction_id c) (d (ring_phys sb i)))"
proof -
  have "(\<forall>i < unat (ring_size sb). P i) \<longleftrightarrow> (\<forall>i :: u32. unat i < unat (ring_size sb) \<longrightarrow> P (unat i))" for P
  proof -
    have "unat (of_nat i :: u32) = i" if "i < unat (ring_size sb)" for i
      using that u32_bound [of "ring_size sb"] by (simp add: unat_of_nat)
    then show ?thesis by metis
  qed
  then show ?thesis
    unfolding no_future_commit_def commit_older_def ring_phys_def .
qed

lemma commit_older_mono: "commit_older t b \<Longrightarrow> t \<le> t' \<Longrightarrow> commit_older t' b"
  by (auto simp: commit_older_def split: sum.splits)

lemma plan_next_less:
  assumes "plan_ok sb cur images p"
  shows "next_transaction_id cur < next_transaction_id (clean_current p)"
proof -
  have "next_transaction_id cur \<noteq> 0xFFFFFFFFFFFFFFFF" using assms by (auto simp: plan_ok_def PlanRingReservation_Inr)
  then have "unat (next_transaction_id cur) \<noteq> 0xFFFFFFFFFFFFFFFF" by (simp add: word_unat_eq_iff)
  then have "next_transaction_id cur < next_transaction_id cur + 1"
    using unsigned_less [of "next_transaction_id cur", where ?'a = nat] by (simp add: word_less_nat_alt unat_word_ariths)
  then show ?thesis by (simp add: plan_control_copies(5) [OF assms])
qed

lemma body_commit_older:
  assumes "plan_ok sb cur images p" "\<forall>x \<in> set images. isl (DecodeCommit (snd x))"
    and "x \<in> set (body_writes sb p images)"
  shows "commit_older t (snd x)"
proof -
  have "isl (DecodeCommit (snd x))"
  proof (cases "snd x = fst (descriptor_block_of sb p images)")
    case True
    then show ?thesis
      using descriptor_block_ok(3) [OF assms(1)] record_kinds_exclusive(1) [of "snd x"]
      by (cases "DecodeCommit (snd x)") auto
  next
    case False
    then show ?thesis using assms(2,3) by (cases x) (auto simp: body_writes_def dest!: set_zip_rightD)
  qed
  then show ?thesis by (auto simp: commit_older_def isl_def)
qed

section \<open>The final disk of a transaction\<close>

lemma concat_ordered_phase: "concat (ordered_phase ordered) = home_writes ordered"
  by (simp add: ordered_phase_def home_writes_def)

lemma tx_final_eq: "tx_final sb copy p ordered images d =
   (apply_writes (home_writes images) ((apply_writes (body_writes sb p images) (apply_writes (home_writes ordered) d))
     (control_block sb (other_copy copy) := fst (control_block_of (exposed_control p)),
      ring_phys sb (commit_ring_index p) := commit_block_of sb p images)))
   (control_block sb copy := closing_block p)"
  by (simp add: tx_final_def tx_phases_def tx_tail_def concat_ordered_phase apply_writes_append)

lemma tx_final_journal:
  assumes "transaction_ok sb cur d before ordered images p"
  shows "x \<in> set (body_writes sb p images) \<Longrightarrow> tx_final sb copy p ordered images d (fst x) = snd x"
    "tx_final sb copy p ordered images d (control_block sb copy) = closing_block p"
    "tx_final sb copy p ordered images d (ring_phys sb (commit_ring_index p)) = commit_block_of sb p images"
    "tx_final sb copy p ordered images d (control_block sb (other_copy copy)) = fst (control_block_of (exposed_control p))"
    "\<lbrakk>unat i < unat (ring_size sb); i \<noteq> commit_ring_index p; ring_phys sb i \<notin> fst ` set (body_writes sb p images)\<rbrakk>
       \<Longrightarrow> tx_final sb copy p ordered images d (ring_phys sb i) = d (ring_phys sb i)"
proof -
  have ok: "plan_ok sb cur images p" and v: "ValidateSuperblock sb = Inr ()"
    using assms by (auto simp: transaction_ok_def plan_ok_def)
  note c = control_in_journal [OF v] and t = plan_targets [OF ok] and o = ordered_targets [OF assms]
  have h: "n \<notin> fst ` set (home_writes images)" "n \<notin> fst ` set (home_writes ordered)" if "in_journal sb n" for n
    using that t(1) o by (auto simp: targets_def)
  have inj: "ring_phys sb i = ring_phys sb j \<longleftrightarrow> i = j" for i j by (auto simp: ring_phys_def word_unat_eq_iff)
  have cb: "control_block sb k \<notin> fst ` set (body_writes sb p images)" for k
    using t(4) c(4) by metis
  note w = tx_final_eq h apply_writes_other c c(3,4) [THEN not_sym] inj plan_ok_facts(6) [OF ok]
  show "tx_final sb copy p ordered images d (fst x) = snd x" if x: "x \<in> set (body_writes sb p images)"
  proof -
    have fx: "fst x \<in> fst ` set (body_writes sb p images)" using x by simp
    then have "fst x \<noteq> ring_phys sb (commit_ring_index p)" "fst x \<noteq> control_block sb copy"
      "fst x \<noteq> control_block sb (other_copy copy)" using t(3) cb by metis+
    moreover have "in_journal sb (fst x)" using t(4) [OF fx] c(5) by auto
    moreover have "apply_writes (body_writes sb p images) e (fst x) = snd x" for e
      using t(2) x by (intro apply_writes_distinct) simp_all
    ultimately show ?thesis by (simp add: w)
  qed
  show "tx_final sb copy p ordered images d (control_block sb copy) = closing_block p" by (simp add: w)
  show "tx_final sb copy p ordered images d (ring_phys sb (commit_ring_index p)) = commit_block_of sb p images"
    by (simp add: w)
  show "tx_final sb copy p ordered images d (control_block sb (other_copy copy)) = fst (control_block_of (exposed_control p))"
    by (simp add: w)
  show "tx_final sb copy p ordered images d (ring_phys sb i) = d (ring_phys sb i)"
    if "unat i < unat (ring_size sb)" "i \<noteq> commit_ring_index p"
      "ring_phys sb i \<notin> fst ` set (body_writes sb p images)"
    using that by (simp add: w)
qed

section \<open>COMMIT records in a crash image\<close>

lemma tears_commit_older:
  assumes "tears_detected sb d d' img" "in_journal sb n" "commit_older t (d n)" "commit_older t (d' n)"
  shows "commit_older t (img n)"
proof -
  consider "img n = d n" | "img n = d' n" | "undecodable (img n)"
    using assms(1,2) unfolding tears_detected_def by blast
  then show ?thesis
  proof cases
    case 3
    then show ?thesis by (auto simp: undecodable_def commit_older_def isl_def)
  qed (use assms(3,4) in simp_all)
qed

lemma crash_commits_older:
  assumes "tx_setup sb cur copy d before ordered images p"
    and "tears_detected sb d (tx_final sb copy p ordered images d) img"
    and "unat i < unat (ring_size sb)" "i \<noteq> commit_ring_index p"
  shows "commit_older (next_transaction_id cur) (img (ring_phys sb i))"
proof -
  have ok: "transaction_ok sb cur d before ordered images p" "plan_ok sb cur images p"
    and v: "ValidateSuperblock sb = Inr ()" and pc: "\<forall>x \<in> set images. isl (DecodeCommit (snd x))"
    and nf: "no_future_commit sb cur d"
    using assms(1) by (auto simp: tx_setup_def transaction_ok_def plan_ok_def quiescent_def)
  note f = tx_final_journal [OF ok(1)]
  have d: "commit_older (next_transaction_id cur) (d (ring_phys sb i))"
    using nf assms(3) by (simp add: no_future_commit_ring)
  have "commit_older (next_transaction_id cur) (tx_final sb copy p ordered images d (ring_phys sb i))"
  proof (cases "ring_phys sb i \<in> fst ` set (body_writes sb p images)")
    case True
    then obtain x where x: "x \<in> set (body_writes sb p images)" "ring_phys sb i = fst x" by auto
    then show ?thesis using f(1) [OF x(1)] body_commit_older [OF ok(2) pc x(1)] by simp
  next
    case False
    then show ?thesis using f(5) [OF assms(3,4)] d by simp
  qed
  then show ?thesis using tears_commit_older [OF assms(2) control_in_journal(5) [OF v assms(3)] d] by simp
qed

lemma crash_no_future_commit:
  assumes "tx_setup sb cur copy d before ordered images p"
    and "tears_detected sb d (tx_final sb copy p ordered images d) img"
  shows "img (ring_phys sb (commit_ring_index p)) = d (ring_phys sb (commit_ring_index p)) \<Longrightarrow>
      no_future_commit sb cur img"
    "no_future_commit sb (clean_current p) img"
proof -
  have ok: "transaction_ok sb cur d before ordered images p" "plan_ok sb cur images p"
    and v: "ValidateSuperblock sb = Inr ()" and nf: "no_future_commit sb cur d"
    using assms(1) by (auto simp: tx_setup_def transaction_ok_def plan_ok_def quiescent_def)
  note f = plan_ok_facts [OF ok(2)] and k = plan_control_copies [OF ok(2)]
  have d: "commit_older (next_transaction_id cur) (d (ring_phys sb (commit_ring_index p)))"
    using nf f(6) by (simp add: no_future_commit_ring)
  note o = crash_commits_older [OF assms]
  show "no_future_commit sb cur img"
    if "img (ring_phys sb (commit_ring_index p)) = d (ring_phys sb (commit_ring_index p))"
    unfolding no_future_commit_ring using o d that by metis
  have le: "next_transaction_id cur \<le> next_transaction_id (clean_current p)"
    using plan_next_less [OF ok(2)] by simp
  obtain m where m: "DecodeCommit (commit_block_of sb p images) = Inr m"
    using commit_block_ok(3) [OF ok(2)] by blast
  have "commit_older (next_transaction_id (clean_current p))
      (tx_final sb copy p ordered images d (ring_phys sb (commit_ring_index p)))"
    unfolding tx_final_journal(3) [OF ok(1)] using commit_block_matches(1) [OF ok(2) m] plan_next_less [OF ok(2)] f(12) m by (simp add: commit_older_def)
  then have "commit_older (next_transaction_id (clean_current p)) (img (ring_phys sb (commit_ring_index p)))"
    using tears_commit_older [OF assms(2) control_in_journal(5) [OF v f(6)] commit_older_mono [OF d le]] by simp
  then show "no_future_commit sb (clean_current p) img"
    unfolding no_future_commit_ring using o [THEN commit_older_mono, OF _ _ le] by blast
qed

section \<open>Recovery of the states of a transaction\<close>

lemma setup_facts:
  assumes "tx_setup sb cur copy d before ordered images p"
  shows "mountable sb cur copy d" "transaction_ok sb cur d before ordered images p" "plan_ok sb cur images p"
    "ValidateSuperblock sb = Inr ()" "used_blocks cur = 0" "no_future_commit sb cur d"
  using assms by (auto simp: tx_setup_def transaction_ok_def plan_ok_def quiescent_def)

lemma recover_old:
  assumes "tx_setup sb cur copy d before ordered images p"
    and "tears_detected sb d (tx_final sb copy p ordered images d) img"
    and "old_state sb copy p ordered d img"
  shows "RecoverImage (image_size sb) img = (Inr kNoAction, quiet_device img (image_size sb))"
    "quiescent sb cur copy img"
proof -
  note s = setup_facts [OF assms(1)]
  have m: "mountable sb cur copy img" using assms(3) by (intro mount_old [OF s(1)]) (auto simp: old_state_def)
  then show "RecoverImage (image_size sb) img = (Inr kNoAction, quiet_device img (image_size sb))"
    using s(5) by (rule RecoverImage_clean)
  show "quiescent sb cur copy img"
    using m s(5) assms(3) crash_no_future_commit(1) [OF assms(1,2)] by (simp add: quiescent_def old_state_def)
qed

lemma exposed_state_mount:
  assumes "tx_setup sb cur copy d before ordered images p" "exposed_state sb copy p images d img"
  shows "img (control_block sb copy) = closing_block p \<Longrightarrow> mountable sb (clean_current p) copy img"
    "img (control_block sb copy) \<noteq> closing_block p \<Longrightarrow> exposed_at sb (other_copy copy) p images img"
proof -
  note s = setup_facts [OF assms(1)]
  show "mountable sb (clean_current p) copy img" if "img (control_block sb copy) = closing_block p"
    using assms(2) that by (intro mount_closed [OF s(1,3)]) (auto simp: exposed_state_def)
  assume n: "img (control_block sb copy) \<noteq> closing_block p"
  have "mountable sb (exposed_current p) (other_copy copy) img"
    using assms(2) n by (intro mount_exposed [OF s(1,3)]) (auto simp: exposed_state_def)
  then show "exposed_at sb (other_copy copy) p images img"
    using assms(2) body_kept_on_disk [OF s(3)] by (simp add: exposed_at_def exposed_state_def)
qed

lemma recover_uncommitted:
  assumes "tx_setup sb cur copy d before ordered images p" "uncommitted_state sb copy p ordered images d img"
  shows "\<exists>action dev. RecoverImage (image_size sb) img = (Inr action, dev)
    \<and> dev_log dev = phase_log (if img (control_block sb copy) = closing_block p then []
        else [[(control_block sb copy, closing_block p)]])
    \<and> dev_blocks dev = img(control_block sb copy := closing_block p)"
proof (cases "img (control_block sb copy) = closing_block p")
  case True
  have "used_blocks (clean_current p) = 0" using plan_control_copies(6) [OF setup_facts(3) [OF assms(1)]] .
  then show ?thesis
    using True exposed_state_mount(1) [OF assms(1)] assms(2) RecoverImage_clean
    by (force simp: uncommitted_state_def phase_log_def)
next
  case False
  then show ?thesis
    using exposed_state_mount(2) [OF assms(1)] assms(2) RecoverImage_uncommitted [OF setup_facts(3) [OF assms(1)]]
    by (force simp: uncommitted_state_def phase_log_def)
qed

lemma recover_committed:
  assumes "tx_setup sb cur copy d before ordered images p" "committed_state sb copy p ordered images d img"
  shows "\<exists>action dev. RecoverImage (image_size sb) img = (Inr action, dev)
    \<and> dev_log dev = phase_log (if img (control_block sb copy) = closing_block p then []
        else [home_writes images, [(control_block sb copy, closing_block p)]])
    \<and> dev_blocks dev = (apply_writes (home_writes images) img)(control_block sb copy := closing_block p)"
proof (cases "img (control_block sb copy) = closing_block p")
  case True
  have "used_blocks (clean_current p) = 0" using plan_control_copies(6) [OF setup_facts(3) [OF assms(1)]] .
  moreover have "apply_writes (home_writes images) img = img" using True assms(2) by (simp add: committed_state_def)
  ultimately show ?thesis
    using True exposed_state_mount(1) [OF assms(1)] assms(2) RecoverImage_clean
    by (force simp: committed_state_def phase_log_def)
next
  case False
  then show ?thesis
    using exposed_state_mount(2) [OF assms(1)] assms(2) RecoverImage_committed [OF setup_facts(3) [OF assms(1)]]
    by (force simp: committed_state_def phase_log_def)
qed

lemma closed_quiescent:
  assumes "tx_setup sb cur copy d before ordered images p" "exposed_state sb copy p images d img"
    and "tears_detected sb d (tx_final sb copy p ordered images d) img"
    and "img (control_block sb copy) = closing_block p"
  shows "quiescent sb (clean_current p) copy img"
  using exposed_state_mount(1) [OF assms(1,2,4)] crash_no_future_commit(2) [OF assms(1,3)]
    plan_control_copies(6) [OF setup_facts(3) [OF assms(1)]]
  by (simp add: quiescent_def)

section \<open>States after more writes\<close>

lemma journal_home_disjoint:
  assumes "tx_setup sb cur copy d before ordered images p" "in_journal sb n \<or> n = 0"
  shows "n \<notin> fst ` set (home_writes images)" "n \<notin> fst ` set (home_writes ordered)"
  using assms(2) plan_targets(1) [OF setup_facts(3) [OF assms(1)]] ordered_targets [OF setup_facts(2) [OF assms(1)]]
  unfolding targets_def by blast+

lemma closing_tears:
  assumes "tx_setup sb cur copy d before ordered images p"
    and "tears_detected sb d (tx_final sb copy p ordered images d) img"
  shows "tears_detected sb d (tx_final sb copy p ordered images d) (img(control_block sb copy := closing_block p))"
    "tears_detected sb d (tx_final sb copy p ordered images d) (apply_writes (home_writes images) img)"
  using assms(2) tx_final_journal(2) [OF setup_facts(2) [OF assms(1)]]
    journal_home_disjoint(1) [OF assms(1)]
  by (auto simp: tears_detected_def apply_writes_other)

lemma apply_writes_same: "(\<And>x. x \<in> set ws \<Longrightarrow> d (fst x) = snd x) \<Longrightarrow> apply_writes ws d = d"
proof (induction ws d rule: apply_writes.induct)
  case (2 n b rest d)
  then have "d(n := b) = d" by force
  with 2 show ?case by force
qed simp

lemma exposed_state_cong:
  assumes "tx_setup sb cur copy d before ordered images p" "exposed_state sb copy p images d img"
    and "\<And>n. in_journal sb n \<or> n = 0 \<Longrightarrow> n \<noteq> control_block sb copy \<Longrightarrow> img' n = img n"
    and "img' (control_block sb copy) = d (control_block sb copy)
       \<or> undecodable (img' (control_block sb copy)) \<or> img' (control_block sb copy) = closing_block p"
  shows "exposed_state sb copy p images d img'"
proof -
  note v = setup_facts(4) [OF assms(1)] and c = control_in_journal [OF setup_facts(4) [OF assms(1)]]
  have "img' (fst x) = img (fst x)" if x: "x \<in> set (body_writes sb p images)" for x
  proof -
    obtain i where i: "unat i < unat (ring_size sb)" "fst x = ring_phys sb i"
      using plan_targets(4) [OF setup_facts(3) [OF assms(1)], of "fst x"] x by auto
    show ?thesis using assms(3) [of "fst x"] c(5) [OF i(1)] c(4) [of copy i] i(2) by simp
  qed
  moreover have "img' 0 = img 0" using assms(3) [of 0] c(1) [of copy] c(2) by metis
  moreover have "img' (control_block sb (other_copy copy)) = img (control_block sb (other_copy copy))"
    using assms(3) c(1,3) by simp
  ultimately show ?thesis using assms(2,4) by (simp add: exposed_state_def body_kept_def)
qed

lemma tears_control:
  assumes "tx_setup sb cur copy d before ordered images p"
    and "tears_detected sb d (tx_final sb copy p ordered images d) img"
  shows "img (control_block sb copy) = d (control_block sb copy)
       \<or> undecodable (img (control_block sb copy)) \<or> img (control_block sb copy) = closing_block p"
    "img (control_block sb (other_copy copy)) = d (control_block sb (other_copy copy))
       \<or> undecodable (img (control_block sb (other_copy copy)))
       \<or> img (control_block sb (other_copy copy)) = fst (control_block_of (exposed_control p))"
    "img (ring_phys sb (commit_ring_index p)) = d (ring_phys sb (commit_ring_index p))
       \<or> undecodable (img (ring_phys sb (commit_ring_index p)))
       \<or> img (ring_phys sb (commit_ring_index p)) = commit_block_of sb p images"
proof -
  note s = setup_facts [OF assms(1)]
  note c = control_in_journal [OF s(4)] and t = tx_final_journal [OF s(2)] and f = plan_ok_facts(6) [OF s(3)]
  have T: "\<And>n. in_journal sb n \<Longrightarrow> img n = d n \<or> img n = tx_final sb copy p ordered images d n \<or> undecodable (img n)"
    using assms(2) by (auto simp: tears_detected_def)
  show "img (control_block sb copy) = d (control_block sb copy)
       \<or> undecodable (img (control_block sb copy)) \<or> img (control_block sb copy) = closing_block p"
    using T [OF c(1) [of copy]] t(2) [of copy] by auto
  show "img (control_block sb (other_copy copy)) = d (control_block sb (other_copy copy))
       \<or> undecodable (img (control_block sb (other_copy copy)))
       \<or> img (control_block sb (other_copy copy)) = fst (control_block_of (exposed_control p))"
    using T [OF c(1) [of "other_copy copy"]] t(4) [of copy] by auto
  show "img (ring_phys sb (commit_ring_index p)) = d (ring_phys sb (commit_ring_index p))
       \<or> undecodable (img (ring_phys sb (commit_ring_index p)))
       \<or> img (ring_phys sb (commit_ring_index p)) = commit_block_of sb p images"
    using T [OF c(5) [OF f]] t(3) [of copy] by auto
qed

lemma exposed_control_write:
  assumes "tx_setup sb cur copy d before ordered images p" "exposed_state sb copy p images d img"
    and "\<And>n. n \<noteq> control_block sb copy \<Longrightarrow> img' n = img n"
    and "tears_detected sb d (tx_final sb copy p ordered images d) img'"
  shows "exposed_state sb copy p images d img'"
proof (rule exposed_state_cong [OF assms(1,2)])
  show "img' n = img n" if "n \<noteq> control_block sb copy" for n by (rule assms(3) [OF that])
qed (rule tears_control(1) [OF assms(1,4)])

lemma agree_outside_same:
  "agree_outside sb ns d img \<Longrightarrow> (\<And>n. \<not> in_journal sb n \<Longrightarrow> n \<notin> ns \<Longrightarrow> img' n = img n) \<Longrightarrow> agree_outside sb ns d img'"
  by (simp add: agree_outside_def)

lemma uncommitted_control_write:
  assumes "tx_setup sb cur copy d before ordered images p" "uncommitted_state sb copy p ordered images d img"
    and w: "\<And>n. n \<noteq> control_block sb copy \<Longrightarrow> img' n = img n"
    and "tears_detected sb d (tx_final sb copy p ordered images d) img'"
  shows "uncommitted_state sb copy p ordered images d img'"
proof -
  note c = control_in_journal [OF setup_facts(4) [OF assms(1)]]
  have u: "exposed_state sb copy p images d img" "agree_outside sb (targets ordered) d img"
    "\<not> commit_decodes_to (plan_transaction_id p) (img (ring_phys sb (commit_ring_index p)))"
    using assms(2) by (simp_all add: uncommitted_state_def)
  have "agree_outside sb (targets ordered) d img'" using u(2) by (rule agree_outside_same) (use w c(1) in metis)
  then show ?thesis
    using exposed_control_write [OF assms(1) u(1) w assms(4)] u(3) w [OF c(4) [THEN not_sym]]
    by (simp add: uncommitted_state_def)
qed

lemma committed_control_write:
  assumes "tx_setup sb cur copy d before ordered images p" "committed_state sb copy p ordered images d img"
    and "apply_writes (home_writes images) img = img"
    and w: "\<And>n. n \<noteq> control_block sb copy \<Longrightarrow> img' n = img n"
    and "tears_detected sb d (tx_final sb copy p ordered images d) img'"
  shows "committed_state sb copy p ordered images d img'"
proof -
  note s = setup_facts [OF assms(1)]
  note c = control_in_journal [OF s(4)]
  have u: "exposed_state sb copy p images d img"
    "agree_outside sb (targets images) (apply_writes (home_writes ordered) d) img"
    "img (ring_phys sb (commit_ring_index p)) = commit_block_of sb p images"
    using assms(2) by (simp_all add: committed_state_def)
  have "apply_writes (home_writes images) img' = img'"
  proof (rule apply_writes_same)
    fix x assume x: "x \<in> set (home_writes images)"
    then have "fst x \<noteq> control_block sb copy" using journal_home_disjoint(1) [OF assms(1)] c(1) by (metis image_eqI)
    then have "img' (fst x) = apply_writes (home_writes images) img (fst x)" using assms(3) w by metis
    also have "\<dots> = snd x" using x plan_targets(5) [OF s(3)] by (intro apply_writes_distinct) simp_all
    finally show "img' (fst x) = snd x" .
  qed
  moreover have "agree_outside sb (targets images) (apply_writes (home_writes ordered) d) img'"
    using u(2) by (rule agree_outside_same) (use w c(1) in metis)
  ultimately show ?thesis
    using exposed_control_write [OF assms(1) u(1) w assms(5)] u(3) w [OF c(4) [THEN not_sym]]
    by (simp add: committed_state_def)
qed

lemma committed_home_write:
  assumes "tx_setup sb cur copy d before ordered images p" "committed_state sb copy p ordered images d img"
    and "img (control_block sb copy) \<noteq> closing_block p"
    and w: "\<And>n. n \<notin> fst ` set (home_writes images) \<Longrightarrow> img' n = img n"
  shows "committed_state sb copy p ordered images d img'"
proof -
  note s = setup_facts [OF assms(1)]
  note c = control_in_journal [OF s(4)]
  have j: "img' n = img n" if "in_journal sb n \<or> n = 0" for n
    using w journal_home_disjoint(1) [OF assms(1) that] .
  have u: "exposed_state sb copy p images d img"
    "agree_outside sb (targets images) (apply_writes (home_writes ordered) d) img"
    "img (ring_phys sb (commit_ring_index p)) = commit_block_of sb p images"
    using assms(2) by (simp_all add: committed_state_def)
  have A: "img' (control_block sb copy) = img (control_block sb copy)" using j c(1) by blast
  have "exposed_state sb copy p images d img'"
  proof (rule exposed_state_cong [OF assms(1) u(1)])
    show "img' n = img n" if "in_journal sb n \<or> n = 0" for n using that by (rule j)
    show "img' (control_block sb copy) = d (control_block sb copy)
       \<or> undecodable (img' (control_block sb copy)) \<or> img' (control_block sb copy) = closing_block p"
      using u(1) unfolding A exposed_state_def by blast
  qed
  moreover have "agree_outside sb (targets images) (apply_writes (home_writes ordered) d) img'"
    using u(2) by (rule agree_outside_same) (use w in \<open>simp add: targets_def\<close>)
  moreover have "img' (ring_phys sb (commit_ring_index p)) = img (ring_phys sb (commit_ring_index p))"
    using j c(5) [OF plan_ok_facts(6) [OF s(3)]] by blast
  ultimately show ?thesis using u(3) assms(3) A by (simp add: committed_state_def)
qed

lemma agree_outside_journal:
  "agree_outside sb ns d img \<Longrightarrow> in_journal sb n \<Longrightarrow> agree_outside sb ns d (img(n := b))"
  by (auto simp: agree_outside_def)

lemma home_writes_twice:
  assumes "plan_ok sb cur images p"
  shows "apply_writes (home_writes images) (apply_writes (home_writes images) img) = apply_writes (home_writes images) img"
proof (rule apply_writes_same)
  show "apply_writes (home_writes images) img (fst x) = snd x" if "x \<in> set (home_writes images)" for x
    using that plan_targets(5) [OF assms] by (intro apply_writes_distinct) simp_all
qed

lemma recover_class:
  assumes "tx_setup sb cur copy d before ordered images p"
    and "tears_detected sb d (tx_final sb copy p ordered images d) img"
    and "tx_class sb copy p ordered images d committed img"
  shows "\<exists>action dev c. RecoverImage (image_size sb) img = (Inr action, dev)
    \<and> quiescent sb c copy (dev_blocks dev) \<and> tx_outcome sb ordered images committed d (dev_blocks dev)"
proof -
  note s = setup_facts [OF assms(1)]
  note c = control_in_journal [OF s(4)]
  consider "\<not> committed" "old_state sb copy p ordered d img"
    | "\<not> committed" "uncommitted_state sb copy p ordered images d img"
    | "committed" "committed_state sb copy p ordered images d img"
    using assms(3) by (auto simp: tx_class_def split: if_splits)
  then show ?thesis
  proof cases
    case 1
    then show ?thesis using recover_old [OF assms(1,2) 1(2)] by (auto simp: tx_outcome_def old_state_def)
  next
    case 2
    let ?img = "img(control_block sb copy := closing_block p)"
    have u: "uncommitted_state sb copy p ordered images d ?img"
      using 2(2) by (rule uncommitted_control_write [OF assms(1)]) (simp_all add: closing_tears(1) [OF assms(1,2)])
    have q: "quiescent sb (clean_current p) copy ?img"
      using closed_quiescent [OF assms(1) _ closing_tears(1) [OF assms(1,2)]] u by (simp add: uncommitted_state_def)
    have "tx_outcome sb ordered images committed d ?img"
      using 2(1) u by (simp add: tx_outcome_def uncommitted_state_def)
    with q recover_uncommitted [OF assms(1) 2(2)] show ?thesis by metis
  next
    case 3
    let ?img1 = "apply_writes (home_writes images) img"
    let ?img = "?img1(control_block sb copy := closing_block p)"
    note t1 = closing_tears(2) [OF assms(1,2)]
    have C1: "committed_state sb copy p ordered images d ?img1"
    proof (cases "img (control_block sb copy) = closing_block p")
      case True
      then show ?thesis using 3(2) by (simp add: committed_state_def)
    next
      case False
      then show ?thesis using committed_home_write [OF assms(1) 3(2)] by (simp add: apply_writes_other)
    qed
    have h: "apply_writes (home_writes images) ?img1 = ?img1" by (rule home_writes_twice [OF s(3)])
    have C: "committed_state sb copy p ordered images d ?img"
      using C1 h by (rule committed_control_write [OF assms(1)]) (simp_all add: closing_tears(1) [OF assms(1) t1])
    have q: "quiescent sb (clean_current p) copy ?img"
      using closed_quiescent [OF assms(1) _ closing_tears(1) [OF assms(1) t1]] C by (simp add: committed_state_def)
    have "?img1 n = apply_writes (home_writes images) (apply_writes (home_writes ordered) d) n"
      if "\<not> in_journal sb n" for n
    proof (cases "n \<in> targets images")
      case True
      then obtain x where "x \<in> set (home_writes images)" "n = fst x" by (auto simp: targets_def)
      then show ?thesis using plan_targets(5) [OF s(3)] apply_writes_distinct [of "home_writes images" n "snd x"] by simp
    next
      case False
      then show ?thesis using that C1 by (simp add: committed_state_def agree_outside_def apply_writes_other targets_def)
    qed
    then have "tx_outcome sb ordered images committed d ?img"
      using 3(1) c(1) [of copy] by (auto simp: tx_outcome_def agree_outside_def)
    with q recover_committed [OF assms(1) 3(2)] show ?thesis by metis
  qed
qed

lemma crash_image_Nil: "crash_image d [] img \<Longrightarrow> img = d"
  using crash_image_other [of d "[]" img] by auto

lemma crash_after_untouched:
  assumes "crash_after d (take n (phase_log phases)) img" "m \<notin> fst ` set (concat phases)"
  shows "img m = d m"
proof -
  let ?i = "syncs (take n (phase_log phases))"
  have sub: "set (concat (take ?i phases)) \<subseteq> set (concat phases)"
    "set (phase_at phases ?i) \<subseteq> set (concat phases)"
    by (auto simp: phase_at_def dest: in_set_takeD intro: nth_mem)
  have "img m = apply_writes (concat (take ?i phases)) d m"
    using crash_after_phases [OF assms(1)] sub(2) assms(2) by (intro crash_image_other) auto
  also have "\<dots> = d m" using sub(1) assms(2) by (intro apply_writes_other) auto
  finally show ?thesis .
qed

lemma crash_two_phases:
  assumes "crash_after d (take n (phase_log [ws, vs])) img"
  shows "(\<forall>m. m \<notin> fst ` set ws \<longrightarrow> img m = d m) \<or> (\<forall>m. m \<notin> fst ` set vs \<longrightarrow> img m = apply_writes ws d m)"
proof -
  let ?i = "syncs (take n (phase_log [ws, vs]))"
  note c = crash_after_phases [OF assms]
  consider "?i = 0" | "?i = 1" | "2 \<le> ?i" by linarith
  then show ?thesis
  proof cases
    case 1
    then show ?thesis using c crash_image_other [of d ws img] by (simp add: phase_at_def)
  next
    case 2
    then show ?thesis using c crash_image_other [of "apply_writes ws d" vs img] by (simp add: phase_at_def)
  next
    case 3
    then have "img = apply_writes (ws @ vs) d" using c by (auto simp: phase_at_def dest: crash_image_Nil)
    then show ?thesis by (simp add: apply_writes_append apply_writes_other)
  qed
qed

lemma recover_class_crash:
  assumes "tx_setup sb cur copy d before ordered images p"
    and "tears_detected sb d (tx_final sb copy p ordered images d) img"
    and "tx_class sb copy p ordered images d committed img"
    and "RecoverImage (image_size sb) img = (r, dev)" "crash_after img (take n (dev_log dev)) img'"
    and "tears_detected sb d (tx_final sb copy p ordered images d) img'"
  shows "tx_class sb copy p ordered images d committed img'"
proof -
  note s = setup_facts [OF assms(1)]
  let ?A = "control_block sb copy"
  consider "\<not> committed" "old_state sb copy p ordered d img"
    | "\<not> committed" "uncommitted_state sb copy p ordered images d img"
    | "committed" "committed_state sb copy p ordered images d img"
    using assms(3) by (auto simp: tx_class_def split: if_splits)
  then show ?thesis
  proof cases
    case 1
    then have "dev_log dev = []" using recover_old(1) [OF assms(1,2) 1(2)] assms(4) by auto
    then have "img' = img" using assms(5) by (auto simp: crash_after_def dest: crash_image_Nil)
    then show ?thesis using assms(3) by simp
  next
    case 2
    have "dev_log dev = phase_log (if img ?A = closing_block p then [] else [[(?A, closing_block p)]])"
      using recover_uncommitted [OF assms(1) 2(2)] assms(4) by auto
    then have "img' n = img n" if "n \<noteq> ?A" for n
      using crash_after_untouched [of img _ _ img' n] assms(5) that by (auto split: if_splits)
    then show ?thesis
      using uncommitted_control_write [OF assms(1) 2(2) _ assms(6)] 2(1) by (simp add: tx_class_def)
  next
    case 3
    show ?thesis
    proof (cases "img ?A = closing_block p")
      case True
      then have "dev_log dev = phase_log []" using recover_committed [OF assms(1) 3(2)] assms(4) by auto
      then have "img' = img" using assms(5) by (auto simp: crash_after_def phase_log_def dest: crash_image_Nil)
      then show ?thesis using assms(3) by simp
    next
      case False
      let ?img1 = "apply_writes (home_writes images) img"
      have l: "dev_log dev = phase_log [home_writes images, [(?A, closing_block p)]]"
        using recover_committed [OF assms(1) 3(2)] assms(4) False by auto
      have C1: "committed_state sb copy p ordered images d ?img1"
        using committed_home_write [OF assms(1) 3(2) False] by (simp add: apply_writes_other)
      have h: "apply_writes (home_writes images) ?img1 = ?img1" by (rule home_writes_twice [OF s(3)])
      from crash_two_phases [OF assms(5) [unfolded l]] have "committed_state sb copy p ordered images d img'"
      proof
        assume "\<forall>m. m \<notin> fst ` set (home_writes images) \<longrightarrow> img' m = img m"
        then show ?thesis using committed_home_write [OF assms(1) 3(2) False] by blast
      next
        assume "\<forall>m. m \<notin> fst ` set [(?A, closing_block p)] \<longrightarrow> img' m = ?img1 m"
        then show ?thesis using committed_control_write [OF assms(1) C1 h _ assms(6)] by simp
      qed
      then show ?thesis using 3(1) by (simp add: tx_class_def)
    qed
  qed
qed

section \<open>Crashes of a transaction\<close>

lemma tx_phase_split:
  fixes sb copy p ordered images
  defines "k \<equiv> length (ordered_phase ordered)"
  shows "concat (take (k + j) (tx_phases sb copy p ordered images))
      = home_writes ordered @ concat (take j (tx_tail sb copy p images))"
    "phase_at (tx_phases sb copy p ordered images) (k + j) = phase_at (tx_tail sb copy p images) j"
    "i < k \<Longrightarrow> concat (take i (tx_phases sb copy p ordered images)) = []"
    "i < k \<Longrightarrow> phase_at (tx_phases sb copy p ordered images) i = home_writes ordered"
  by (auto simp: k_def tx_phases_def tx_tail_def concat_ordered_phase phase_at_def nth_append)
    (auto simp: ordered_phase_def split: if_splits)

lemma written_targets:
  assumes "tx_setup sb cur copy d before ordered images p"
  shows "control_block sb k \<notin> fst ` set (body_writes sb p images)" "0 \<notin> fst ` set (body_writes sb p images)"
    "control_block sb k \<noteq> 0" "ring_phys sb i \<noteq> 0"
    "n \<in> fst ` set (body_writes sb p images) \<Longrightarrow> in_journal sb n"
    "control_block sb k \<notin> fst ` set (home_writes images)" "control_block sb k \<notin> fst ` set (home_writes ordered)"
    "ring_phys sb (commit_ring_index p) \<notin> fst ` set (home_writes images)"
    "ring_phys sb (commit_ring_index p) \<notin> fst ` set (home_writes ordered)"
    "0 \<notin> fst ` set (home_writes images)" "0 \<notin> fst ` set (home_writes ordered)"
proof -
  note s = setup_facts [OF assms]
  note c = control_in_journal [OF s(4)] and t = plan_targets [OF s(3)] and j = journal_home_disjoint [OF assms]
  show "control_block sb k \<notin> fst ` set (body_writes sb p images)" using t(4) c(4) by metis
  show bj: "in_journal sb n" if "n \<in> fst ` set (body_writes sb p images)" for n using t(4) [OF that] c(5) by auto
  then show "0 \<notin> fst ` set (body_writes sb p images)" using c(2) by blast
  show "control_block sb k \<noteq> 0" using c(1,2) by metis
  show "ring_phys sb i \<noteq> 0" by (simp add: ring_phys_def)
  show "control_block sb k \<notin> fst ` set (home_writes images)" "control_block sb k \<notin> fst ` set (home_writes ordered)"
    "ring_phys sb (commit_ring_index p) \<notin> fst ` set (home_writes images)"
    "ring_phys sb (commit_ring_index p) \<notin> fst ` set (home_writes ordered)"
    "0 \<notin> fst ` set (home_writes images)" "0 \<notin> fst ` set (home_writes ordered)"
    using j c(1) c(5) [OF plan_ok_facts(6) [OF s(3)]] by blast+
qed

lemma stale_commit:
  assumes "tx_setup sb cur copy d before ordered images p"
  shows "\<not> commit_decodes_to (plan_transaction_id p) (d (ring_phys sb (commit_ring_index p)))"
    "undecodable b \<Longrightarrow> \<not> commit_decodes_to (plan_transaction_id p) b"
proof -
  note s = setup_facts [OF assms]
  have "commit_older (next_transaction_id cur) (d (ring_phys sb (commit_ring_index p)))"
    using s(6) plan_ok_facts(6) [OF s(3)] by (simp add: no_future_commit_ring)
  then show "\<not> commit_decodes_to (plan_transaction_id p) (d (ring_phys sb (commit_ring_index p)))"
    using plan_ok_facts(12) [OF s(3)] by (auto simp: commit_older_def commit_decodes_to_def split: sum.splits)
  show "undecodable b \<Longrightarrow> \<not> commit_decodes_to (plan_transaction_id p) b"
    by (auto simp: undecodable_def commit_decodes_to_def isl_def)
qed

text \<open>The disk after the body: everything outside the ordered targets and the journal is as before.\<close>

lemma body_disk:
  assumes "tx_setup sb cur copy d before ordered images p"
  defines "d1 \<equiv> apply_writes (body_writes sb p images) (apply_writes (home_writes ordered) d)"
  shows "d1 0 = d 0" "d1 (control_block sb k) = d (control_block sb k)"
    "d1 (ring_phys sb (commit_ring_index p)) = d (ring_phys sb (commit_ring_index p))"
    "body_kept sb p images d1" "\<not> in_journal sb n \<Longrightarrow> d1 n = apply_writes (home_writes ordered) d n"
    "agree_outside sb (targets ordered) d d1"
proof -
  note s = setup_facts [OF assms(1)] and w = written_targets [OF assms(1)]
  show "d1 0 = d 0" "d1 (control_block sb k) = d (control_block sb k)"
    "d1 (ring_phys sb (commit_ring_index p)) = d (ring_phys sb (commit_ring_index p))"
    using w plan_targets(3) [OF s(3)] by (simp_all add: d1_def apply_writes_other)
  show "body_kept sb p images d1"
    using plan_targets(2) [OF s(3)] by (auto simp: body_kept_def d1_def intro!: apply_writes_distinct)
  show o: "d1 n = apply_writes (home_writes ordered) d n" if "\<not> in_journal sb n" for n
    using w(5) that unfolding d1_def by (intro apply_writes_other) blast
  show "agree_outside sb (targets ordered) d d1"
    using o by (auto simp: agree_outside_def targets_def apply_writes_other)
qed

lemma exposed_disk_facts:
  assumes "tx_setup sb cur copy d before ordered images p"
  defines "d2 \<equiv> exposed_disk sb copy p ordered images d"
  shows "exposed_state sb copy p images d d2" "d2 (control_block sb copy) = d (control_block sb copy)"
    "d2 (ring_phys sb (commit_ring_index p)) = d (ring_phys sb (commit_ring_index p))"
    "\<not> in_journal sb n \<Longrightarrow> d2 n = apply_writes (home_writes ordered) d n"
    "agree_outside sb (targets ordered) d d2"
proof -
  note s = setup_facts [OF assms(1)] and w = written_targets [OF assms(1)] and b = body_disk [OF assms(1)]
  note c = control_in_journal [OF s(4)]
  show A: "d2 (control_block sb copy) = d (control_block sb copy)"
    using b(2) c(3) [THEN not_sym] by (simp add: d2_def exposed_disk_def)
  have "d2 (fst x) = snd x" if "x \<in> set (body_writes sb p images)" for x
  proof -
    have "fst x \<noteq> control_block sb (other_copy copy)" using that w(1) by (metis image_eqI)
    then show ?thesis using b(4) that by (simp add: d2_def exposed_disk_def body_kept_def)
  qed
  then show "exposed_state sb copy p images d d2"
    using A b(1) w(3) [of "other_copy copy"] by (simp add: exposed_state_def body_kept_def d2_def exposed_disk_def)
  show "d2 (ring_phys sb (commit_ring_index p)) = d (ring_phys sb (commit_ring_index p))"
    using b(3) c(4) [THEN not_sym] by (simp add: d2_def exposed_disk_def)
  show "d2 n = apply_writes (home_writes ordered) d n" if "\<not> in_journal sb n" for n
    using b(5) [OF that] that c(1) by (auto simp: d2_def exposed_disk_def)
  show "agree_outside sb (targets ordered) d d2"
    using agree_outside_journal [OF b(6) c(1)] by (simp add: d2_def exposed_disk_def)
qed

lemma current_not_closing:
  assumes "tx_setup sb cur copy d before ordered images p"
  shows "d (control_block sb copy) \<noteq> closing_block p"
proof
  note s = setup_facts [OF assms] 
  note k = plan_control_copies [OF s(3)]
  assume "d (control_block sb copy) = closing_block p"
  then have "cur = clean_current p" using mountable_copy [OF s(1)] k(2) by simp
  then show False using k(3,4) by simp
qed

lemma crash_before_exposure:
  assumes "tx_setup sb cur copy d before ordered images p"
    and "\<And>n. n \<notin> fst ` set (body_writes sb p images) \<Longrightarrow> n \<notin> fst ` set (home_writes ordered) \<Longrightarrow> img n = d n"
  shows "old_state sb copy p ordered d img"
proof -
  note s = setup_facts [OF assms(1)] and w = written_targets [OF assms(1)]
  have "img 0 = d 0" "img (control_block sb k) = d (control_block sb k)"
    "img (ring_phys sb (commit_ring_index p)) = d (ring_phys sb (commit_ring_index p))" for k
    using assms(2) w plan_targets(3) [OF s(3)] by blast+
  moreover have "agree_outside sb (targets ordered) d img"
    unfolding agree_outside_def targets_def using assms(2) w(5) by blast
  ultimately show ?thesis by (simp add: old_state_def)
qed

lemma crash_at_exposure:
  assumes "tx_setup sb cur copy d before ordered images p"
    and e: "\<And>n. n \<noteq> control_block sb (other_copy copy) \<Longrightarrow>
      img n = apply_writes (body_writes sb p images) (apply_writes (home_writes ordered) d) n"
    and "tears_detected sb d (tx_final sb copy p ordered images d) img"
  shows "tx_class sb copy p ordered images d False img"
proof (cases "img (control_block sb (other_copy copy)) = fst (control_block_of (exposed_control p))")
  case True
  then have "img = exposed_disk sb copy p ordered images d" using e by (auto simp: exposed_disk_def)
  then show ?thesis
    using exposed_disk_facts [OF assms(1)] stale_commit(1) [OF assms(1)]
    by (simp add: tx_class_def uncommitted_state_def)
next
  case False
  note b = body_disk [OF assms(1)] and w = written_targets [OF assms(1)]
    and c = control_in_journal [OF setup_facts(4) [OF assms(1)]]
  have "img 0 = d 0" "img (control_block sb copy) = d (control_block sb copy)"
    "img (ring_phys sb (commit_ring_index p)) = d (ring_phys sb (commit_ring_index p))"
    using e w(3) c(3,4) b(1-3) by metis+
  moreover have "agree_outside sb (targets ordered) d img"
    using b(6) by (rule agree_outside_same) (use e c(1) in metis)
  ultimately show ?thesis
    using False tears_control(2) [OF assms(1,3)] by (simp add: tx_class_def old_state_def)
qed

lemma committed_disk:
  assumes "tx_setup sb cur copy d before ordered images p"
  shows "committed_state sb copy p ordered images d
    ((exposed_disk sb copy p ordered images d)(ring_phys sb (commit_ring_index p) := commit_block_of sb p images))"
    (is "committed_state sb copy p ordered images d ?d3")
proof -
  note s = setup_facts [OF assms] and x = exposed_disk_facts [OF assms] and w = written_targets [OF assms]
  note c = control_in_journal [OF s(4)]
  have A: "?d3 (control_block sb copy) = d (control_block sb copy)" using x(2) c(4) by simp
  have "body_kept sb p images ?d3"
    using x(1) plan_targets(3) [OF s(3)] by (auto simp: exposed_state_def body_kept_def rev_image_eqI)
  then have "exposed_state sb copy p images d ?d3"
    using x(1) A c(4) by (simp add: exposed_state_def w(4) [THEN not_sym] w(4))
  moreover have "agree_outside sb (targets images) (apply_writes (home_writes ordered) d) ?d3"
    using x(4) c(5) [OF plan_ok_facts(6) [OF s(3)]] by (auto simp: agree_outside_def)
  ultimately show ?thesis using current_not_closing [OF assms] A by (simp add: committed_state_def)
qed

lemma crash_at_commit:
  assumes "tx_setup sb cur copy d before ordered images p"
    and e: "\<And>n. n \<noteq> ring_phys sb (commit_ring_index p) \<Longrightarrow> img n = exposed_disk sb copy p ordered images d n"
    and "tears_detected sb d (tx_final sb copy p ordered images d) img"
  shows "tx_class sb copy p ordered images d False img \<or> tx_class sb copy p ordered images d True img"
proof (cases "img (ring_phys sb (commit_ring_index p)) = commit_block_of sb p images")
  case True
  then have "img = (exposed_disk sb copy p ordered images d)
      (ring_phys sb (commit_ring_index p) := commit_block_of sb p images)" using e by auto
  then show ?thesis using committed_disk [OF assms(1)] by (simp add: tx_class_def)
next
  case False
  note x = exposed_disk_facts [OF assms(1)] and s = setup_facts [OF assms(1)]
  note c = control_in_journal [OF s(4)] and w = written_targets [OF assms(1)]
  have A: "img (control_block sb copy) = d (control_block sb copy)" using e x(2) c(4) by metis
  have "img (fst y) = snd y" if "y \<in> set (body_writes sb p images)" for y
  proof -
    have "fst y \<noteq> ring_phys sb (commit_ring_index p)" using that plan_targets(3) [OF s(3)] by (metis image_eqI)
    then show ?thesis using e x(1) that by (simp add: exposed_state_def body_kept_def)
  qed
  then have "body_kept sb p images img" by (simp add: body_kept_def)
  moreover have "img 0 = d 0" "img (control_block sb (other_copy copy)) = fst (control_block_of (exposed_control p))"
    using e w(4) c(4) x(1) by (metis exposed_state_def)+
  ultimately have "exposed_state sb copy p images d img" using A by (simp add: exposed_state_def)
  moreover have "\<not> commit_decodes_to (plan_transaction_id p) (img (ring_phys sb (commit_ring_index p)))"
    using False tears_control(3) [OF assms(1,3)] stale_commit [OF assms(1)] by auto
  moreover have "agree_outside sb (targets ordered) d img"
    using x(5) by (rule agree_outside_same) (use e c(5) [OF plan_ok_facts(6) [OF s(3)]] in metis)
  ultimately show ?thesis by (simp add: tx_class_def uncommitted_state_def)
qed

lemma crash_class:
  assumes "tx_setup sb cur copy d before ordered images p"
    and crash: "crash_image (apply_writes (concat (take i (tx_phases sb copy p ordered images))) d)
      (phase_at (tx_phases sb copy p ordered images) i) img"
    and tears: "tears_detected sb d (tx_final sb copy p ordered images d) img"
  defines "k \<equiv> length (ordered_phase ordered)"
  shows "i \<le> k + 1 \<Longrightarrow> tx_class sb copy p ordered images d False img"
    "i = k + 2 \<Longrightarrow> tx_class sb copy p ordered images d False img \<or> tx_class sb copy p ordered images d True img"
    "k + 3 \<le> i \<Longrightarrow> tx_class sb copy p ordered images d True img"
proof -
  note sp = tx_phase_split [where ordered = ordered and sb = sb and copy = copy and p = p and images = images, folded k_def]
  have cr: "crash_image (apply_writes (concat (take j (tx_tail sb copy p images))) (apply_writes (home_writes ordered) d))
      (phase_at (tx_tail sb copy p images) j) img" if "i = k + j" for j
    using crash that by (simp add: sp(1,2) apply_writes_append)
  note t = tx_tail_def phase_at_def
  have h2: "apply_writes (home_writes images) (apply_writes (home_writes images) e) = apply_writes (home_writes images) e" for e
    by (rule home_writes_twice [OF setup_facts(3) [OF assms(1)]])
  let ?d3 = "(exposed_disk sb copy p ordered images d)(ring_phys sb (commit_ring_index p) := commit_block_of sb p images)"
  note C3 = committed_disk [OF assms(1)]
  have nc: "?d3 (control_block sb copy) \<noteq> closing_block p"
    using current_not_closing [OF assms(1)] exposed_disk_facts(2) [OF assms(1)]
      control_in_journal(4) [OF setup_facts(4) [OF assms(1)]] by simp
  have C4: "committed_state sb copy p ordered images d (apply_writes (home_writes images) ?d3)"
    using committed_home_write [OF assms(1) C3 nc] by (simp add: apply_writes_other)
  show "tx_class sb copy p ordered images d False img" if le: "i \<le> k + 1"
  proof -
    consider "i < k" | "i = k + 0" | "i = k + 1" using le by linarith
    then show ?thesis
    proof cases
      case 1
      then have "old_state sb copy p ordered d img"
        using crash crash_image_other by (intro crash_before_exposure [OF assms(1)]) (simp add: sp(3,4))
      then show ?thesis by (simp add: tx_class_def)
    next
      case 2
      have "old_state sb copy p ordered d img"
        using crash_image_other [OF cr [OF 2]] by (intro crash_before_exposure [OF assms(1)]) (simp add: t apply_writes_other)
      then show ?thesis by (simp add: tx_class_def)
    next
      case 3
      show ?thesis
        using crash_image_other [OF cr [OF 3]] by (intro crash_at_exposure [OF assms(1) _ tears]) (simp add: t)
    qed
  qed
  show "tx_class sb copy p ordered images d False img \<or> tx_class sb copy p ordered images d True img" if "i = k + 2"
    using crash_image_other [OF cr [OF that]]
    by (intro crash_at_commit [OF assms(1) _ tears]) (simp add: t exposed_disk_def apply_writes_append numeral_2_eq_2)
  show "tx_class sb copy p ordered images d True img" if ge: "k + 3 \<le> i"
  proof -
    define j where "j = i - k"
    have j: "i = k + j" "3 \<le> j" using ge by (simp_all add: j_def)
    consider "j = 3" | "j = 4" | "5 \<le> j" using j(2) by linarith
    then have "committed_state sb copy p ordered images d img"
    proof cases
      case 1
      then show ?thesis
        using crash_image_other [OF cr [OF j(1)]] by (intro committed_home_write [OF assms(1) C3 nc])
          (simp add: t exposed_disk_def apply_writes_append numeral_3_eq_3)
    next
      case 2
      then show ?thesis
        using crash_image_other [OF cr [OF j(1)]] by (intro committed_control_write [OF assms(1) C4 h2 _ tears])
          (simp add: t exposed_disk_def apply_writes_append)
    next
      case 3
      then have "img = (apply_writes (home_writes images) ?d3)(control_block sb copy := closing_block p)"
        using crash_image_Nil [of _ img] cr [OF j(1)] by (simp add: t exposed_disk_def apply_writes_append)
      then show ?thesis by (intro committed_control_write [OF assms(1) C4 h2 _ tears]) simp
    qed
    then show ?thesis by (simp add: tx_class_def)
  qed
qed

section \<open>Recovery that is interrupted itself\<close>

lemma recovery_attempts_class:
  assumes "recovery_attempts sb d (tx_final sb copy p ordered images d) img img'"
    and "tx_setup sb cur copy d before ordered images p"
    and "tears_detected sb d (tx_final sb copy p ordered images d) img"
    and "tx_class sb copy p ordered images d committed img"
  shows "tx_class sb copy p ordered images d committed img'
    \<and> tears_detected sb d (tx_final sb copy p ordered images d) img'"
  using assms(1)
proof induction
  case attempts_none
  then show ?case using assms(3,4) by simp
next
  case (attempts_more img1 r dev n img2)
  then show ?case using recover_class_crash [OF assms(2)] by blast
qed

section \<open>Atomicity\<close>

lemma transaction_crash_recovers:
  assumes "tx_setup sb cur copy d before ordered images p"
    and "crash_after d (take n (phase_log (tx_phases sb copy p ordered images))) img"
    and "tears_detected sb d (tx_final sb copy p ordered images d) img"
    and "recovery_attempts sb d (tx_final sb copy p ordered images d) img img'"
  defines "i \<equiv> syncs (take n (phase_log (tx_phases sb copy p ordered images)))"
    and "k \<equiv> length (ordered_phase ordered)"
  shows "\<exists>committed action dev c. RecoverImage (image_size sb) img' = (Inr action, dev)
    \<and> quiescent sb c copy (dev_blocks dev) \<and> tx_outcome sb ordered images committed d (dev_blocks dev)
    \<and> (i < k + 2 \<longrightarrow> \<not> committed) \<and> (k + 3 \<le> i \<longrightarrow> committed)"
proof -
  note c = crash_class [OF assms(1) crash_after_phases [OF assms(2)] assms(3), folded i_def k_def]
  obtain committed where C: "tx_class sb copy p ordered images d committed img"
    "i < k + 2 \<longrightarrow> \<not> committed" "k + 3 \<le> i \<longrightarrow> committed"
  proof -
    consider "i \<le> k + 1" | "i = k + 2" | "k + 3 \<le> i" by linarith
    then show ?thesis
    proof cases
      case 1
      then show ?thesis using c(1) that [of False] by simp
    next
      case 2
      then show ?thesis using c(2) that [of False] that [of True] by auto
    next
      case 3
      then show ?thesis using c(3) that [of True] by simp
    qed
  qed
  have "tx_class sb copy p ordered images d committed img'" "tears_detected sb d (tx_final sb copy p ordered images d) img'"
    using recovery_attempts_class [OF assms(4,1,3) C(1)] by simp_all
  from recover_class [OF assms(1) this(2,1)] C(2,3) show ?thesis by blast
qed

end
