(* ===== verification/JournalAtomicity.thy ===== *)
theory JournalAtomicity
  imports CrashSafety
begin

text \<open>
  The journal as an atomic store: runs of transactions, crashes and recoveries, the
  abstract store they refine, and the crash safety properties with a sample
  transaction that meets their hypotheses.
\<close>

section \<open>Runs and the abstract store\<close>

text \<open>
  One transaction on a mounted image: it completes, or the machine stops during it and
  the image is recovered, perhaps after interrupted recoveries.
\<close>

inductive journal_step :: "Superblock \<Rightarrow> block_map \<Rightarrow> block_map \<Rightarrow> disk \<Rightarrow> disk \<Rightarrow> bool"
  for sb ordered images where
  step_complete: "tx_setup sb cur copy d before ordered images p \<Longrightarrow>
    ExecuteJournalTransaction (Inr (quiet_device d (image_size sb))) before ordered images
      (total_blocks sb) (filesystem_uuid sb) = (Inr (), False, Some s) \<Longrightarrow>
    journal_step sb ordered images d (dev_blocks (store_device s))"
| step_crash: "tx_setup sb cur copy d before ordered images p \<Longrightarrow>
    ExecuteJournalTransaction (Inr (quiet_device d (image_size sb))) before ordered images
      (total_blocks sb) (filesystem_uuid sb) = (r, fail_closed, Some s) \<Longrightarrow>
    crash_after d (take n (dev_log (store_device s))) img \<Longrightarrow>
    tears_detected sb d (dev_blocks (store_device s)) img \<Longrightarrow>
    recovery_attempts sb d (dev_blocks (store_device s)) img img' \<Longrightarrow>
    RecoverImage (image_size sb) img' = (Inr action, dev) \<Longrightarrow>
    journal_step sb ordered images d (dev_blocks dev)"

inductive journal_run :: "Superblock \<Rightarrow> (block_map \<times> block_map) list \<Rightarrow> disk \<Rightarrow> disk \<Rightarrow> bool" for sb where
  run_Nil: "journal_run sb [] d d"
| run_Cons: "journal_step sb ordered images d d1 \<Longrightarrow> journal_run sb txs d1 d2 \<Longrightarrow>
    journal_run sb ((ordered, images) # txs) d d2"

text \<open>The abstract store: blocks without a journal, updated atomically.\<close>

type_synonym block_view = "nat \<Rightarrow> bytes option"

definition home_view :: "Superblock \<Rightarrow> disk \<Rightarrow> block_view" where
  "home_view sb d n = (if in_journal sb n then None else Some (d n))"

definition put_blocks :: "block_map \<Rightarrow> block_view \<Rightarrow> block_view" where
  "put_blocks images v n = (case map_of (home_writes images) n of Some content \<Rightarrow> Some content | None \<Rightarrow> v n)"

inductive atomic_update :: "block_map \<Rightarrow> block_map \<Rightarrow> block_view \<Rightarrow> block_view \<Rightarrow> bool"
  for ordered images where
  update_applied: "atomic_update ordered images v (put_blocks images (put_blocks ordered v))"
| update_discarded: "(\<And>n. n \<notin> targets ordered \<Longrightarrow> v' n = v n) \<Longrightarrow> atomic_update ordered images v v'"

inductive atomic_run :: "(block_map \<times> block_map) list \<Rightarrow> block_view \<Rightarrow> block_view \<Rightarrow> bool" where
  atomic_Nil: "atomic_run [] v v"
| atomic_Cons: "atomic_update ordered images v v1 \<Longrightarrow> atomic_run txs v1 v2 \<Longrightarrow>
    atomic_run ((ordered, images) # txs) v v2"

definition sample_ring_control :: JournalControl where
  "sample_ring_control = \<lparr>ring_blocks = 3, control_uuid = replicate 16 7, control_generation = 1,
     head = 0, tail = 0, used_blocks = 0, state_flags = 0, next_transaction_id = 5,
     control_feature_compat = 0, control_feature_ro_compat = 0, control_feature_incompat = 0,
     control_checksum = 0\<rparr>"

definition sample_current :: JournalControl where
  "sample_current = sample_ring_control\<lparr>control_checksum := snd (control_block_of sample_ring_control)\<rparr>"

definition zero_block :: bytes where
  "zero_block = replicate 4096 0"

definition sample_disk :: disk where
  "sample_disk = (\<lambda>n. if n = 0 then projr (EncodeSuperblock sample_superblock)
     else if n = 4 then fst (control_block_of sample_ring_control) else zero_block)"

definition sample_metadata :: block_map where
  "sample_metadata = [(1, replicate 4096 3)]"

definition sample_ordered :: block_map where
  "sample_ordered = [(9, replicate 4096 1)]"

definition sample_before :: block_map where
  "sample_before = [(1, zero_block), (9, zero_block)]"

definition sample_plan :: RingReservationPlan where
  "sample_plan = \<lparr>plan_transaction_id = 5, plan_descriptor_ring_index = 0, payload_ring_indices = [1],
     commit_ring_index = 2,
     exposed_control = sample_current\<lparr>control_generation := 2, head := 0, used_blocks := 3,
       next_transaction_id := 6, control_checksum := 0\<rparr>\<rparr>"

section \<open>A sample transaction\<close>

lemma constant_block_undecodable:
  "isl (DecodeControl (replicate 4096 b))" "isl (DecodeCommit (replicate 4096 b))"
proof -
  have "get_bytes 0 8 (replicate 4096 b) = replicate 8 b" by (simp add: get_bytes_def)
  moreover have "replicate 8 b \<noteq> kControlMagic" "replicate 8 b \<noteq> kCommitMagic"
    by (auto simp: kControlMagic_def kCommitMagic_def dest!: arg_cong [where f = "\<lambda>l. (l ! 0, l ! 1)"])
  ultimately show "isl (DecodeControl (replicate 4096 b))" "isl (DecodeCommit (replicate 4096 b))"
    by (simp_all only: DecodeControl_def DecodeCommit_def) simp_all
qed

lemma sample_control_ok:
  "ValidateControlFields sample_ring_control = Inr ()" "length (control_uuid sample_ring_control) = 16"
  by (simp_all add: ValidateControlFields_nat sample_ring_control_def)

lemma sample_plan_eq: "PlanRingReservation sample_current 1 = Inr sample_plan"
  unfolding PlanRingReservation_Inr
  by (simp add: ValidateControlFields_nat sample_current_def sample_ring_control_def sample_plan_def Advance_def)


lemma sample_superblock_block:
  "DecodeSuperblock (sample_disk 0) = Inr sample_superblock"
  using superblock_roundtrip [OF sample_superblock_valid]
  by (auto simp: sample_disk_def sample_superblock_def)

lemma sample_blocks:
  "control_block sample_superblock kA = 4" "control_block sample_superblock kB = 5" "ring_size sample_superblock = 3"
  "filesystem_uuid sample_superblock = replicate 16 7" "unat (start_block (journal sample_superblock)) = 4"
  "in_journal sample_superblock n \<longleftrightarrow> 4 \<le> n \<and> n < 9"
  by (simp_all add: control_block_def ring_size_def sample_superblock_def in_journal_def)

lemma sample_mountable: "mountable sample_superblock sample_current kA sample_disk"
proof -
  have "valid_copy (sample_disk 4) (replicate 16 7) 3 = Some sample_current"
    using control_block_ok(3) [OF sample_control_ok]
    by (simp add: valid_copy_def sample_disk_def sample_current_def) (simp add: sample_ring_control_def)
  moreover have "valid_copy (sample_disk 5) (replicate 16 7) 3 = None"
    using constant_block_undecodable(1) [of 0]
    by (auto simp: valid_copy_def sample_disk_def zero_block_def isl_def)
  ultimately have "SelectControl (sample_disk 4) (sample_disk 5) (replicate 16 7) 3 = Inr (sample_current, kA)"
    by (intro SelectControl_torn_copy) simp_all
  then show ?thesis using sample_superblock_block
    by (simp add: mountable_def sample_blocks) (simp add: sample_superblock_def)
qed

lemma sample_setup: "tx_setup sample_superblock sample_current kA sample_disk sample_before sample_ordered sample_metadata sample_plan"
proof -
  have "no_future_commit sample_superblock sample_current sample_disk"
    using constant_block_undecodable(2) [of 0]
    by (auto simp: no_future_commit_def sample_blocks sample_disk_def zero_block_def isl_def)
  then have q: "quiescent sample_superblock sample_current kA sample_disk"
    using sample_mountable by (simp add: quiescent_def) (simp add: sample_current_def sample_ring_control_def)
  have "IsValidMetadataTarget sample_superblock 1"
    by (simp add: IsValidMetadataTarget_def BlockIsInRegion_def sample_superblock_def word_le_nat_alt word_less_nat_alt)
  then have "images_ok sample_superblock sample_metadata"
    by (simp add: images_ok_def sample_metadata_def)
  then have p: "plan_ok sample_superblock sample_current sample_metadata sample_plan"
    using sample_superblock_valid sample_plan_eq
    by (simp add: plan_ok_def sample_blocks) (simp add: sample_metadata_def sample_current_def sample_ring_control_def)
  have "BlockIsInRegion 9 (data sample_superblock)"
    by (simp add: BlockIsInRegion_def sample_superblock_def)
  then have "transaction_ok sample_superblock sample_current sample_disk sample_before sample_ordered sample_metadata sample_plan"
    using p by (simp add: transaction_ok_def sample_ordered_def sample_before_def keys_def)
      (auto simp: sample_metadata_def sample_disk_def)
  moreover have "isl (DecodeCommit (replicate 4096 3))" by (rule constant_block_undecodable(2))
  ultimately show ?thesis using q by (simp add: tx_setup_def sample_metadata_def)
qed

section \<open>The journal as an atomic store\<close>

lemma journal_step_outcome:
  assumes "journal_step sb ordered images d d'"
  obtains c copy cur before p committed where "quiescent sb c copy d'"
    "tx_outcome sb ordered images committed d d'" "transaction_ok sb cur d before ordered images p"
  using assms
proof cases
  case (step_complete cur copy before p s)
  have "transaction_ok sb cur d before ordered images p" using step_complete(2) by (simp add: tx_setup_def)
  note s = setup_facts [OF step_complete(2)]
  obtain s' where "dev_blocks (store_device s') = tx_final sb copy p ordered images d" "Some s = Some s'"
    using Execute_quiet [OF s(1,2)] step_complete(3) by (auto simp: tx_final_def)
  then have f: "d' = tx_final sb copy p ordered images d" using step_complete(1) by simp
  have t: "tears_detected sb d (tx_final sb copy p ordered images d) d'"
    by (simp add: tears_detected_def f)
  let ?phases = "tx_phases sb copy p ordered images"
  have c: "crash_image (apply_writes (concat (take (length ?phases) ?phases)) d) (phase_at ?phases (length ?phases)) d'"
    by (simp add: f tx_final_def phase_at_def crash_image_def)
  have "length ?phases = length (ordered_phase ordered) + 5" by (simp add: tx_phases_def tx_tail_def)
  then have C: "tx_class sb copy p ordered images d True d'"
    using crash_class(3) [OF step_complete(2) c t] by simp
  have "d' (control_block sb copy) = closing_block p" using tx_final_journal(2) [OF s(2)] f by simp
  have "RecoverImage (image_size sb) d' = (Inr kNoAction, quiet_device d' (image_size sb))"
    using RecoverImage_clean [OF exposed_state_mount(1) [OF step_complete(2)]] C plan_control_copies(6) [OF s(3)] 
      \<open>d' (control_block sb copy) = closing_block p\<close> by (simp add: tx_class_def committed_state_def)
  then show ?thesis using recover_class [OF step_complete(2) t C] that s(2) by auto
next
  case (step_crash cur copy before p r fail_closed s n img img' action dev)
  note s = setup_facts [OF step_crash(2)]
  obtain s' where e: "dev_log (store_device s') = phase_log (tx_phases sb copy p ordered images)"
    "dev_blocks (store_device s') = tx_final sb copy p ordered images d" "s = s'"
    using Execute_quiet [OF s(1,2)] step_crash(3) by (auto simp: tx_final_def)
  show ?thesis
    using transaction_crash_recovers [OF step_crash(2)] step_crash(1,4-) that s(2) unfolding e by fastforce
qed


lemma apply_writes_map_of:
  "distinct (map fst ws) \<Longrightarrow> apply_writes ws d n = (case map_of ws n of Some b \<Rightarrow> b | None \<Rightarrow> d n)"
  by (induction ws d rule: apply_writes.induct)
    (auto simp: map_of_eq_None_iff [THEN iffD2] split: option.splits)

lemma sample_run:
  obtains d' where "journal_run sample_superblock [(sample_ordered, sample_metadata)] sample_disk d'"
proof -
  obtain s where "ExecuteJournalTransaction (Inr (quiet_device sample_disk (image_size sample_superblock)))
      sample_before sample_ordered sample_metadata
      (total_blocks sample_superblock) (filesystem_uuid sample_superblock) = (Inr (), False, Some s)"
    using Execute_quiet [OF setup_facts(1,2) [OF sample_setup]] by blast
  from step_complete [OF sample_setup this] show ?thesis using that by (blast intro: journal_run.intros)
qed

lemma journal_step_atomic:
  assumes "journal_step sb ordered images d d'"
  shows "atomic_update ordered images (home_view sb d) (home_view sb d')"
  using assms
proof (rule journal_step_outcome)
  fix c copy cur before p committed
  assume o: "tx_outcome sb ordered images committed d d'" and ok: "transaction_ok sb cur d before ordered images p"
  have P: "plan_ok sb cur images p" using ok by (simp add: transaction_ok_def)
  show ?thesis
  proof (cases committed)
    case True
    have do: "distinct (map fst (home_writes ordered))"
    proof -
      have "map fst (home_writes ordered) = map unat (map fst ordered)" by (auto simp: home_writes_def)
      moreover have "sorted_wrt (<) (map fst ordered)" using ok by (simp add: transaction_ok_def)
      then have "distinct (map fst ordered)" by (simp only: strict_sorted_iff)
      ultimately show ?thesis by (simp add: distinct_map inj_on_def word_unat_eq_iff)
    qed
    have "home_view sb d' n = put_blocks images (put_blocks ordered (home_view sb d)) n" for n
    proof (cases "in_journal sb n")
      case True
      have "n \<notin> fst ` set (home_writes images)" "n \<notin> fst ` set (home_writes ordered)"
        using True plan_targets(1) [OF P] ordered_targets [OF ok] unfolding targets_def by blast+
      then show ?thesis using True by (simp add: home_view_def put_blocks_def map_of_eq_None_iff [THEN iffD2])
    next
      case False
      then have "d' n = apply_writes (home_writes images) (apply_writes (home_writes ordered) d) n"
        using o True by (simp add: tx_outcome_def agree_outside_def)
      then show ?thesis using False do plan_targets(5) [OF P]
        by (simp add: home_view_def put_blocks_def apply_writes_map_of split: option.splits)
    qed
    then have "home_view sb d' = put_blocks images (put_blocks ordered (home_view sb d))" by blast
    then show ?thesis using update_applied by metis
  next
    case False
    then show ?thesis using o
      by (intro update_discarded) (auto simp: tx_outcome_def agree_outside_def home_view_def)
  qed
qed

section \<open>Properties\<close>

text \<open>
  C17: a transaction that satisfies the checks of the journal runs to completion on a
  device without faults: the executor succeeds without asking to fail closed, it
  performs exactly the phases ordered data, body, exposed control, COMMIT, home blocks,
  clean control in this order with a sync after each, reports each stage after its
  sync, and leaves an empty journal.
\<close>

theorem ExecuteJournalTransaction_completes:
  assumes "mountable sb cur copy d" "transaction_ok sb cur d before ordered images p"
  shows "\<exists>s. ExecuteJournalTransaction (Inr (quiet_device d (image_size sb))) before ordered images
      (total_blocks sb) (filesystem_uuid sb) = (Inr (), False, Some s)
    \<and> dev_log (store_device s) = phase_log (tx_phases sb copy p ordered images)
    \<and> dev_blocks (store_device s) = apply_writes (concat (tx_phases sb copy p ordered images)) d
    \<and> stages s = (if ordered = [] then [] else [kOrderedData])
        @ [kJournalBody, kControlExposure, kCommit, kHomeBlocks, kCheckpoint]
    \<and> used_blocks (current s) = 0"
  using assms by (rule Execute_quiet)

theorem ExecuteJournalTransaction_completes_witness:
  "\<exists>s. ExecuteJournalTransaction (Inr (quiet_device sample_disk (image_size sample_superblock)))
      sample_before sample_ordered sample_metadata
      (total_blocks sample_superblock) (filesystem_uuid sample_superblock) = (Inr (), False, Some s)
    \<and> stages s = [kOrderedData, kJournalBody, kControlExposure, kCommit, kHomeBlocks, kCheckpoint]"
  using ExecuteJournalTransaction_completes [OF setup_facts(1,2) [OF sample_setup]]
  by (auto simp: sample_ordered_def)

text \<open>
  C3: crash atomicity.  Let a transaction run on a quiescent image and let the machine
  stop after any prefix of its writes and syncs, with any mixture of old and new bytes
  in the blocks that were not synced yet; let recovery itself be interrupted in the
  same way any number of times.  If the checksums tell a torn journal block from an
  intact one, the next recovery succeeds, leaves a quiescent image, and outside the
  journal either nothing but ordered data blocks has changed or all ordered data and
  metadata images are in place.  Before the sync of the exposed control the first
  holds, after the sync of COMMIT the second.
\<close>

theorem transaction_atomic:
  assumes "tx_setup sb cur copy d before ordered images p"
    and "ExecuteJournalTransaction (Inr (quiet_device d (image_size sb))) before ordered images
      (total_blocks sb) (filesystem_uuid sb) = (r, fail_closed, Some s)"
    and "crash_after d (take n (dev_log (store_device s))) img"
    and "tears_detected sb d (dev_blocks (store_device s)) img"
    and "recovery_attempts sb d (dev_blocks (store_device s)) img img'"
  shows "\<exists>committed action dev c. RecoverImage (image_size sb) img' = (Inr action, dev)
    \<and> quiescent sb c copy (dev_blocks dev)
    \<and> tx_outcome sb ordered images committed d (dev_blocks dev)
    \<and> (syncs (take n (dev_log (store_device s))) < length (ordered_phase ordered) + 2 \<longrightarrow> \<not> committed)
    \<and> (length (ordered_phase ordered) + 3 \<le> syncs (take n (dev_log (store_device s))) \<longrightarrow> committed)"
proof -
  note s = setup_facts [OF assms(1)]
  have e: "dev_log (store_device s) = phase_log (tx_phases sb copy p ordered images)"
    "dev_blocks (store_device s) = tx_final sb copy p ordered images d"
    using Execute_quiet [OF s(1,2)] assms(2) by (auto simp: tx_final_def)
  show ?thesis using transaction_crash_recovers [OF assms(1)] assms(3-) unfolding e by simp
qed

theorem transaction_atomic_witness:
  "\<exists>action dev c. RecoverImage (image_size sample_superblock) sample_disk = (Inr action, dev)
    \<and> quiescent sample_superblock c kA (dev_blocks dev)
    \<and> tx_outcome sample_superblock sample_ordered sample_metadata False sample_disk (dev_blocks dev)"
proof -
  note s = setup_facts [OF sample_setup]
  obtain s where e: "ExecuteJournalTransaction (Inr (quiet_device sample_disk (image_size sample_superblock)))
      sample_before sample_ordered sample_metadata
      (total_blocks sample_superblock) (filesystem_uuid sample_superblock) = (Inr (), False, Some s)"
    using Execute_quiet [OF s(1,2)] by blast
  have "crash_after sample_disk (take 0 (dev_log (store_device s))) sample_disk"
    by (simp add: crash_after_def crash_image_def)
  moreover have "tears_detected sample_superblock sample_disk (dev_blocks (store_device s)) sample_disk"
    by (simp add: tears_detected_def)
  ultimately show ?thesis
    using transaction_atomic [OF sample_setup e _ _ attempts_none] by fastforce
qed

text \<open>
  C15: the state between transactions is an invariant: after any sequence of completed
  transactions and of crashed ones followed by recovery, the image can be mounted with
  an empty journal and holds no COMMIT record of a transaction still to come.
\<close>

theorem journal_run_quiescent:
  assumes "journal_run sb txs d d'" "quiescent sb c copy d"
  shows "\<exists>c' copy'. quiescent sb c' copy' d'"
  using assms
proof (induction arbitrary: c copy)
  case (run_Cons ordered images d d1 txs d2)
  from run_Cons.hyps(1) show ?case by (rule journal_step_outcome) (rule run_Cons.IH)
qed blast

theorem journal_run_quiescent_witness:
  "\<exists>d'. journal_run sample_superblock [(sample_ordered, sample_metadata)] sample_disk d'
    \<and> (\<exists>c copy. quiescent sample_superblock c copy d')"
proof -
  obtain d' where r: "journal_run sample_superblock [(sample_ordered, sample_metadata)] sample_disk d'"
    using sample_run .
  have "quiescent sample_superblock sample_current kA sample_disk" using sample_setup by (simp add: tx_setup_def)
  with r journal_run_quiescent [OF r] show ?thesis by blast
qed

text \<open>
  C4: the journal refines an atomic store.  Seen from outside the journal region every
  sequence of transactions, crashes and recoveries is a sequence of atomic updates:
  each transaction is applied with all its blocks, or discarded with no change but to
  its ordered data blocks.
\<close>

theorem journal_run_refines:
  assumes "journal_run sb txs d d'"
  shows "atomic_run txs (home_view sb d) (home_view sb d')"
  using assms
proof induction
  case (run_Cons ordered images d d1 txs d2)
  then show ?case by (blast intro: atomic_Cons journal_step_atomic)
qed (rule atomic_Nil)

theorem journal_run_refines_witness:
  "\<exists>d'. atomic_run [(sample_ordered, sample_metadata)] (home_view sample_superblock sample_disk)
    (home_view sample_superblock d')"
proof -
  obtain d' where r: "journal_run sample_superblock [(sample_ordered, sample_metadata)] sample_disk d'"
    using sample_run .
  show ?thesis using journal_run_refines [OF r] by blast
qed

end
