(* ===== verification/VolumeTransactions.thy ===== *)
theory VolumeTransactions
  imports FileMutation JournalAtomicity
begin

text \<open>
  The planners, the journal and the reader together: the reader that opens the disk after a
  transaction, with and without a crash, sees the files of the old volume or those of the
  new one.
\<close>

section \<open>Whole blocks\<close>

text \<open>Every block of the device and every write to it has the block size.\<close>

definition whole_device :: "device \<Rightarrow> bool" where
  "whole_device dev \<longleftrightarrow> dev_script dev = [] \<and> (\<forall>n. length (dev_blocks dev n) = kBlockSize)
    \<and> (\<forall>n b. DWrite n b \<in> set (dev_log dev) \<longrightarrow> length b = kBlockSize)"

definition whole_images :: "block_map \<Rightarrow> bool" where
  "whole_images images \<longleftrightarrow> (\<forall>x \<in> set images. length (snd x) = kBlockSize)"

lemma apply_writes_whole:
  assumes "\<forall>n. length (d n) = kBlockSize" "\<forall>x \<in> set ws. length (snd x) = kBlockSize"
  shows "length (apply_writes ws d n) = kBlockSize"
  using assms by (induction ws arbitrary: d) (auto simp: fun_upd_def)

lemma whole_device_write:
  assumes "whole_device dev" "\<forall>x \<in> set ws. length (snd x) = kBlockSize"
  shows "whole_device (dev_write ws dev)" "whole_device (dev_sync dev)"
  using assms apply_writes_whole [of "dev_blocks dev" ws] by (auto simp: whole_device_def dev_write_def dev_sync_def wlog_def)

lemma run_log_whole:
  assumes "\<forall>n. length (d n) = kBlockSize" "\<forall>n b. DWrite n b \<in> set ops \<longrightarrow> length b = kBlockSize"
    and "\<forall>x \<in> set pending. length (snd x) = kBlockSize"
  shows "length (fst (run_log ops (d, pending)) n) = kBlockSize"
  using assms
proof (induction ops "(d, pending)" arbitrary: d pending rule: run_log.induct)
  case (3 rest d pending)
  then show ?case using apply_writes_whole [of d pending] by simp
qed auto

lemma crash_after_whole:
  assumes "crash_after d ops img" "\<forall>n. length (d n) = kBlockSize" "\<forall>n b. DWrite n b \<in> set ops \<longrightarrow> length b = kBlockSize"
  shows "length (img n) = kBlockSize"
  using assms(1) run_log_whole [OF assms(2,3), of "[]" n]
  by (auto simp: crash_after_def crash_image_def split: prod.splits)

lemma PreadBlock_quiet:
  assumes "dev_script dev = []"
  shows "snd (PreadBlock n dev) = dev" "fst (PreadBlock n dev) = Inr b \<Longrightarrow> b = dev_blocks dev n"
  using assms by (auto simp: PreadBlock_def next_outcome_def split: if_splits)

lemma ReadRingBlock_quiet:
  assumes "dev_script dev = []" "ReadRingBlock sb i dev = (res, dev')"
  shows "dev' = dev" "res = Inr b \<Longrightarrow> \<exists>n. b = dev_blocks dev n"
  using assms PreadBlock_quiet [OF assms(1)] by (auto simp: ReadRingBlock_def split: option.splits) (metis fst_conv snd_conv)+

lemma whole_map_emplace: "whole_images m \<Longrightarrow> length v = kBlockSize \<Longrightarrow> whole_images (map_emplace k v m)"
  by (induction k v m rule: map_emplace.induct) (auto simp: whole_images_def)

lemma ReadPayloads_whole:
  assumes "whole_device dev" "whole_images images" "ReadPayloads sb es images dev = (res, dev')"
  shows "dev' = dev \<and> (\<forall>m. res = Inr m \<longrightarrow> whole_images m)"
  using assms
proof (induction sb es images dev rule: ReadPayloads.induct)
  case (2 sb entry rest images dev)
  obtain res1 dev1 where r: "ReadRingBlock sb (payload_ring_index entry) dev = (res1, dev1)" by fastforce
  have q: "dev_script dev = []" using 2(2) by (simp add: whole_device_def)
  note rr = ReadRingBlock_quiet [OF q r]
  show ?case
  proof (cases res1)
    case (Inr payload)
    then have "length payload = kBlockSize" using rr(2) 2(2) by (auto simp: whole_device_def)
    then have w: "whole_images (map_emplace (home_block entry) payload images)" using whole_map_emplace 2(3) by blast
    show ?thesis
    proof (cases "Crc32c payload \<noteq> payload_crc32c entry")
      case False
      then show ?thesis using 2(1) [OF r [symmetric] Inr False] 2(2,4) w r Inr rr(1) by simp
    qed (use 2(4) r Inr rr(1) in auto)
  qed (use 2(4) r rr(1) in auto)
qed auto

lemma classify_exposed_whole:
  assumes "whole_device dev" "classify_exposed sb cur dev = (res, dev')"
  shows "dev' = dev \<and> (\<forall>state v. res = Inr (state, Some v) \<longrightarrow> whole_images (validated_after_images v))"
proof -
  have q: "dev_script dev = []" using assms(1) by (simp add: whole_device_def)
  have e: "whole_images []" by (simp add: whole_images_def)
  show ?thesis
    using assms(2) unfolding classify_exposed_def Let_def
    by (auto split: prod.splits sum.splits if_splits
        dest!: ReadRingBlock_quiet(1) [OF q] dest: ReadPayloads_whole [OF assms(1) e])
qed

lemma PersistNext_whole:
  assumes "whole_device (store_device s)" "PersistNext c s = (res, s')"
  shows "whole_device (store_device s')"
proof -
  have q: "dev_script (store_device s) = []" using assms(1) by (simp add: whole_device_def)
  show ?thesis
  proof (cases "EncodeControl c")
    case (Inr x)
    obtain block k where x: "x = (block, k)" by fastforce
    have "length block = 4096" using Inr by (auto simp: EncodeControl_def Let_def x bind_result_Inr_iff split: if_splits)
    then have w: "whole_device (dev_sync (dev_write [(n, block)] (store_device s)))" for n
      using whole_device_write [OF assms(1), of "[(n, block)]"] whole_device_write(2) [of "dev_write [(n, block)] (store_device s)" "[]"] by simp
    show ?thesis using assms w Inr
      by (auto simp: PersistNext_def Let_def x quiet_store_io(3) [OF q] split: if_splits)
  qed (use assms in \<open>auto simp: PersistNext_def split: if_splits\<close>)
qed

lemma WriteHomeBlocks_whole:
  assumes "whole_device (store_device s)" "whole_images images" "WriteHomeBlocks images s = (res, s')"
  shows "whole_device (store_device s')"
  using assms
proof (induction images s rule: WriteHomeBlocks.induct)
  case (2 home content rest s)
  have q: "dev_script (store_device s) = []" using 2(2) by (simp add: whole_device_def)
  have w: "whole_device (dev_write [(unat home, content)] (store_device s))" "whole_images rest"
    using whole_device_write(1) [OF 2(2), of "[(unat home, content)]"] 2(3) by (simp_all add: whole_images_def)
  show ?case
  proof (cases "IsValidMetadataTarget (store_superblock s) home")
    case True
    then show ?thesis using 2(1) [of "Inr ()" _ "()"] w 2(4) quiet_store_io(1) [OF q] by (simp add: unit_eq)
  qed (use 2 in auto)
qed auto

lemma AdoptLockedFd_quiet:
  assumes "dev_script dev = []" "AdoptLockedFd dev = (res, dev')"
  shows "dev' = dev \<and> (\<forall>s. res = Inr s \<longrightarrow> store_device s = dev)"
proof -
  have f: "Fcntl dev = (Inr (dev_rdwr dev), dev)" "Fstat dev = (Inr (dev_size dev), dev)"
    using assms(1) by (simp_all add: Fcntl_def Fstat_def next_outcome_def)
  have p: "PreadBlock n dev = (a, b) \<Longrightarrow> b = dev" for n a b using PreadBlock_quiet(1) [OF assms(1), of n] by simp
  have l: "LoadControlStateFromFd dev = (a, b) \<Longrightarrow> b = dev" for a b
    unfolding LoadControlStateFromFd_def f by (auto split: prod.splits sum.splits if_splits dest: p)
  show ?thesis
    using assms(2) l unfolding AdoptLockedFd_def f by (auto simp: MakeStore_def split: prod.splits sum.splits if_splits)
qed

lemma ResolveRecovery_whole:
  assumes w: "whole_device (store_device s)" and run: "ResolveRecovery s = (res, s')"
  shows "whole_device (store_device s')"
proof -
  obtain c s1 where cl: "ClassifyRecovery s = (c, s1)" by fastforce
  obtain x dev where ce: "classify_exposed (store_superblock s) (current s) (store_device s) = (x, dev)" by fastforce
  note cw = classify_exposed_whole [OF w ce]
  have s1: "whole_device (store_device s1)" "validated_transaction s1 = Some v \<Longrightarrow> whole_images (validated_after_images v)" for v
    using cl w cw ce by (auto simp: ClassifyRecovery_def Let_def split: if_splits sum.splits prod.splits)
  show ?thesis
  proof (cases "reload_required s \<or> (durable_body s \<noteq> None \<or> commit_durable s)")
    case True
    then show ?thesis using run w by (auto simp: ResolveRecovery_def split: if_splits)
  next
    case False
    then have nf: "\<not> reload_required s" "\<not> (durable_body s \<noteq> None \<or> commit_durable s)" by blast+
    have run1: "(case c of Inl e \<Rightarrow> (Inl e, s1) | Inr state \<Rightarrow> (case state of
        kRecoveryEmpty \<Rightarrow> (Inr kNoAction, s1)
      | kUncommitted \<Rightarrow> (case PersistNext (clean_control (current s1)) s1 of
          (Inl e, s) \<Rightarrow> (Inl e, s) | (Inr _, s) \<Rightarrow> (Inr kDiscarded, s\<lparr>validated_transaction := None\<rparr>))
      | kCommitted \<Rightarrow> (case validated_transaction s1 of None \<Rightarrow> (Inl EUCLEAN, s1)
        | Some v \<Rightarrow> (case WriteHomeBlocks (validated_after_images v) s1 of
            (Inl e, s) \<Rightarrow> (Inl e, s)
          | (Inr _, s) \<Rightarrow> (case StoreSync s of (Inl e, s) \<Rightarrow> (Inl e, s)
            | (Inr _, s) \<Rightarrow> (case PersistNext (clean_control (current s1)) s of (Inl e, s) \<Rightarrow> (Inl e, s)
              | (Inr _, s) \<Rightarrow> (Inr kReplayedAndCheckpointed, s\<lparr>validated_transaction := None\<rparr>))))))) = (res, s')"
      using run unfolding ResolveRecovery_def Let_def cl if_not_P [OF nf(1)] if_not_P [OF nf(2)] by (cases c) (simp_all only: prod.case sum.case)
    have persist: "whole_device (store_device s')" if "whole_device (store_device t)"
      "(case PersistNext k t of (Inl e, s) \<Rightarrow> (Inl e, s) | (Inr _, s) \<Rightarrow> (Inr act, s\<lparr>validated_transaction := None\<rparr>)) = (res, s')" for k t act
      using that(2) PersistNext_whole [OF that(1)] by (auto split: prod.splits sum.splits)
    show ?thesis
    proof (cases c)
      case (Inr state)
      show ?thesis
      proof (cases state)
        case kCommitted
        show ?thesis
        proof (cases "validated_transaction s1")
          case (Some v)
          obtain y s2 where wh: "WriteHomeBlocks (validated_after_images v) s1 = (y, s2)" by fastforce
          have w2: "whole_device (store_device s2)" by (rule WriteHomeBlocks_whole [OF s1(1) s1(2) [OF Some] wh])
          then have "StoreSync s2 = (Inr (), s2\<lparr>store_device := dev_sync (store_device s2)\<rparr>)"
            by (intro quiet_store_io(2)) (simp add: whole_device_def)
          then show ?thesis
            using run1 Inr kCommitted Some wh w2 whole_device_write(2) [OF w2, of "[]"]
              persist [of "s2\<lparr>store_device := dev_sync (store_device s2)\<rparr>"] by (cases y) auto
        qed (use run1 Inr kCommitted s1(1) in auto)
      next
        case kUncommitted
        then show ?thesis using run1 Inr persist [OF s1(1)] by simp
      qed (use run1 Inr s1(1) in auto)
    qed (use run1 s1(1) in auto)
  qed
qed

lemma RecoverImage_whole:
  assumes "\<forall>n. length (d n) = kBlockSize" "RecoverImage bytes_count d = (res, dev)"
  shows "whole_device dev"
proof -
  have w: "whole_device (quiet_device d bytes_count)" using assms(1) by (simp add: whole_device_def)
  obtain a dev1 where ad: "AdoptLockedFd (quiet_device d bytes_count) = (a, dev1)" by fastforce
  then have q: "dev1 = quiet_device d bytes_count" "\<And>s. a = Inr s \<Longrightarrow> store_device s = quiet_device d bytes_count"
    using AdoptLockedFd_quiet [OF _ ad] by auto
  show ?thesis
  proof (cases a)
    case (Inr s)
    obtain x s' where rr: "ResolveRecovery s = (x, s')" by fastforce
    have "whole_device (store_device s)" using w q(2) [OF Inr] by simp
    from this rr have "whole_device (store_device s')" by (rule ResolveRecovery_whole)
    with rr show ?thesis using assms(2) ad Inr by (simp add: RecoverImage_def)
  qed (use assms(2) ad q w in \<open>simp add: RecoverImage_def\<close>)
qed

lemma tx_phases_whole:
  assumes "transaction_ok sb cur d before ordered images p"
  shows "\<forall>x \<in> set (concat (tx_phases sb copy p ordered images)). length (snd x) = kBlockSize"
proof -
  have ok: "plan_ok sb cur images p" and o: "\<forall>x \<in> set ordered. length (snd x) = kBlockSize"
    using assms by (auto simp: transaction_ok_def)
  then have im: "\<forall>x \<in> set images. length (snd x) = kBlockSize" by (simp add: plan_ok_def images_ok_def)
  note c = plan_controls_ok [OF ok]
  have h: "\<forall>x \<in> set (home_writes m). length (snd x) = kBlockSize" if "\<forall>x \<in> set m. length (snd x) = kBlockSize" for m
    using that by (auto simp: home_writes_def)
  have z: "\<forall>x \<in> set (zip ns (map snd images)). length (snd x) = kBlockSize" for ns :: "nat list"
    using im by (auto dest!: set_zip_rightD)
  show ?thesis
    unfolding tx_phases_def tx_tail_def ordered_phase_def body_writes_def closing_block_def
    using h [OF o] h [OF im] z control_block_ok(2) [OF c(1,2)] control_block_ok(2) [OF c(3,4)]
      descriptor_block_ok(2) [OF ok] commit_block_ok(2) [OF ok] by auto
qed

lemma recovery_attempts_whole:
  assumes "recovery_attempts sb d d' img img'" "\<forall>n. length (img n) = kBlockSize"
  shows "\<forall>n. length (img' n) = kBlockSize"
  using assms
proof induction
  case (attempts_more img1 r dev n img2)
  then have w: "whole_device dev" using RecoverImage_whole by blast
  have "\<forall>n b. DWrite n b \<in> set (take m (dev_log dev)) \<longrightarrow> length b = kBlockSize" for m
    using w by (auto simp: whole_device_def dest: in_set_takeD)
  then show ?case using crash_after_whole [OF attempts_more.hyps(3)] attempts_more.IH attempts_more.prems by blast
qed

section \<open>Opening a disk\<close>

definition disk_pread :: "disk \<Rightarrow> nat \<Rightarrow> errno + bytes" where
  "disk_pread d n = Inr (d n)"

definition open_disk :: "Superblock \<Rightarrow> disk \<Rightarrow> errno + ImageReader" where
  "open_disk sb d = ReaderAdoptLockedFd (Inr False) (Inr (image_size sb)) (disk_pread d)"

definition disk_reader :: "Superblock \<Rightarrow> JournalControl \<Rightarrow> ControlCopy \<Rightarrow> disk \<Rightarrow> ImageReader" where
  "disk_reader sb c copy d = \<lparr>reader_pread = disk_pread d, reader_image_size = image_size sb, superblock = sb,
     journal_control = c, journal_control_copy = copy,
     inode_bitmap_bytes = region_bytes (disk_pread d) (inode_bitmap sb),
     block_bitmap_bytes = region_bytes (disk_pread d) (block_bitmap sb)\<rparr>"

lemma control_blocks:
  assumes "ValidateSuperblock sb = Inr ()"
  shows "control_block sb kA = unat (start_block (journal sb))" "control_block sb kB = unat (start_block (journal sb)) + 1"
proof -
  note l = ValidateSuperblock_layout_aux [OF assms]
  have "unat (start_block (journal sb)) + 1 < 4294967296"
    using l(5,6,10) u32_bound [of "total_blocks sb"] by (simp add: region_start_def region_end_def)
  then show "control_block sb kA = unat (start_block (journal sb))" "control_block sb kB = unat (start_block (journal sb)) + 1"
    using unat_add_of_nat [of "start_block (journal sb)" 1] by (simp_all add: control_block_def)
qed

lemma open_disk_is_reader:
  assumes "mountable sb c copy d" "\<forall>n. length (d n) = kBlockSize" "open_disk sb d = Inr r"
  shows "r = disk_reader sb c copy d" "bitmaps_synced r" "reader_ok r"
proof -
  have m: "DecodeSuperblock (d 0) = Inr sb" "SelectControl (d (control_block sb kA)) (d (control_block sb kB)) (filesystem_uuid sb)
        (ring_size sb) = Inr (c, copy)" using assms(1) by (simp_all add: mountable_def)
  have w: "ReadWholeBlock (disk_pread d) n = Inr (d n)" for n using assms(2) by (simp add: ReadWholeBlock_def disk_pread_def)
  note cb = control_blocks [OF DecodeSuperblock_valid [OF m(1)]]
  obtain ib bb where "ReadRegion (disk_pread d) (inode_bitmap sb) = Inr ib" "ReadRegion (disk_pread d) (block_bitmap sb) = Inr bb"
    and r: "r = \<lparr>reader_pread = disk_pread d, reader_image_size = image_size sb, superblock = sb,
     journal_control = c, journal_control_copy = copy, inode_bitmap_bytes = ib, block_bitmap_bytes = bb\<rparr>"
    using assms(3) m unfolding open_disk_def ReaderAdoptLockedFd_def w cb ring_size_def
    by (auto simp: bind_result_Inr_iff case_sum_Inr_iff Let_def split: if_splits prod.splits)
  then show "r = disk_reader sb c copy d" "bitmaps_synced r" by (simp_all add: disk_reader_def region_bytes_def bitmaps_synced_def)
  show "reader_ok r" by (rule ReaderAdoptLockedFd_ok(1) [OF assms(3) [unfolded open_disk_def]])
qed

lemma open_disk_ok:
  assumes "mountable sb c copy d" "\<forall>n. length (d n) = kBlockSize"
    and "reader_ok (disk_reader sb c copy d)" "bitmaps_synced (disk_reader sb c copy d)"
  shows "open_disk sb d = Inr (disk_reader sb c copy d)"
proof -
  let ?r = "disk_reader sb c copy d"
  have m: "DecodeSuperblock (d 0) = Inr sb" "SelectControl (d (control_block sb kA)) (d (control_block sb kB)) (filesystem_uuid sb)
        (ring_size sb) = Inr (c, copy)" "feature_incompat sb AND NOT kSupportedFeatureIncompat = 0"
    using assms(1) by (simp_all add: mountable_def)
  have w: "ReadWholeBlock (disk_pread d) n = Inr (d n)" for n using assms(2) by (simp add: ReadWholeBlock_def disk_pread_def)
  have v: "ValidateSuperblock sb = Inr ()" by (rule DecodeSuperblock_valid [OF m(1)])
  note cb = control_blocks [OF v] and l = ValidateSuperblock_layout_aux [OF v] and ro = assms(3) [unfolded reader_ok_def]
  have sz: "image_size sb mod kBlockSize = 0" "\<not> image_size sb < kBlockSize"
    using l(6,11) by (auto simp: image_size_def region_start_def region_end_def)
  obtain root where root: "ReadInode ?r (root_inode sb) = Inr root" "S_ISDIR (mode root)" using ro by (auto simp: disk_reader_def)
  have bits: "ReadRegion (disk_pread d) (inode_bitmap sb) = Inr (inode_bitmap_bytes ?r)"
    "ReadRegion (disk_pread d) (block_bitmap sb) = Inr (block_bitmap_bytes ?r)"
    using assms(4) by (simp_all add: bitmaps_synced_def disk_reader_def)
  have rb: "BitmapBit (inode_bitmap_bytes ?r) (unat (root_inode sb - 1))"
    using ReadInode_ok(2) [OF root(1)] by (simp add: IsInodeAllocated_def)
  have lb: "list_all (BitmapBit (block_bitmap_bytes ?r)) [0..<unat (start_block (data sb))]"
    unfolding list_all_iff
  proof
    fix n assume "n \<in> set [0..<unat (start_block (data sb))]"
    then have n: "n < unat (start_block (data sb))" by simp
    then have u: "unat (of_nat n :: u32) = n" using u32_bound [of "start_block (data sb)"] by (simp add: unat_of_nat)
    then have "of_nat n < start_block (data (superblock ?r))" using n by (simp add: word_less_nat_alt disk_reader_def)
    then have "IsBlockAllocated ?r (of_nat n)" using ro by blast
    then show "BitmapBit (block_bitmap_bytes ?r) n" using u by (simp add: IsBlockAllocated_def)
  qed
  have hi: "list_all (BitmapBit (inode_bitmap_bytes ?r)) [unat (total_inodes sb)..<length (inode_bitmap_bytes ?r) * 8]"
    "list_all (BitmapBit (block_bitmap_bytes ?r)) [unat (total_blocks sb)..<length (block_bitmap_bytes ?r) * 8]"
    using ro by (auto simp: list_all_iff disk_reader_def)
  have rd: "\<lparr>reader_pread = disk_pread d, reader_image_size = image_size sb, superblock = sb, journal_control = c, journal_control_copy = copy,
     inode_bitmap_bytes = inode_bitmap_bytes ?r, block_bitmap_bytes = block_bitmap_bytes ?r\<rparr> = ?r" by (simp add: disk_reader_def)
  have ts: "unat (total_blocks sb) * kBlockSize = image_size sb" by (simp add: image_size_def)
  show ?thesis
    unfolding open_disk_def ReaderAdoptLockedFd_def bind_result.simps Let_def w m(1) sum.case ts
    using m(2,3) rb lb hi root bits sz cb by (simp add: Let_def rd ring_size_def)
qed

lemma ReadRegion_cong:
  assumes "\<And>n. region_start region \<le> n \<Longrightarrow> n < region_end region \<Longrightarrow> p n = q n"
  shows "ReadRegion p region = ReadRegion q region"
proof -
  have "ReadRegionBlocks p first k = ReadRegionBlocks q first k" if "\<And>n. first \<le> n \<Longrightarrow> n < first + k \<Longrightarrow> p n = q n" for first k
    using that
  proof (induction k arbitrary: first)
    case (Suc k)
    have "ReadRegionBlocks p (first + 1) k = ReadRegionBlocks q (first + 1) k" by (rule Suc.IH) (use Suc.prems in auto)
    moreover have "p first = q first" using Suc.prems by simp
    ultimately show ?case by (simp only: ReadRegionBlocks.simps)
  qed simp
  then show ?thesis using assms by (simp add: ReadRegion_def region_start_def region_end_def)
qed

text \<open>The same files and directories.\<close>

definition same_files :: "ImageReader \<Rightarrow> ImageReader \<Rightarrow> bool" where
  "same_files r r' \<longleftrightarrow> (\<forall>n i. ReadInode r' n = Inr i \<longleftrightarrow> ReadInode r n = Inr i)
    \<and> (\<forall>n i. ReadInode r n = Inr i \<longrightarrow> file_contents r' i = file_contents r i)
    \<and> (\<forall>n es. ListDirectory r n = Inr es \<longrightarrow> ListDirectory r' n = Inr es)"

text \<open>
  A disk that differs from a volume only in the journal and in free data blocks opens as
  the same volume.
\<close>

lemma disk_view:
  assumes ok: "volume_ok r" and r: "superblock r = sb" "reader_image_size r = image_size sb"
    and mnt: "mountable sb c copy d" and whole: "\<forall>n. length (d n) = kBlockSize"
    and same: "\<And>n. n \<notin> W \<Longrightarrow> reader_pread r n = Inr (d n)"
    and W: "\<And>n. n \<in> W \<Longrightarrow> in_journal sb n \<or> (region_start (data sb) \<le> n \<and> \<not> TestBit (block_bitmap_bytes r) n)"
  defines "r' \<equiv> disk_reader sb c copy d"
  shows "open_disk sb d = Inr r' \<and> volume_ok r' \<and> same_files r r'"
proof -
  note v = volume_okD [OF ok]
  have val: "ValidateSuperblock sb = Inr ()" using reader_ok_facts(1) [OF v(1)] r by simp
  note l = ValidateSuperblock_layout_aux [OF val]
  have low: "n \<notin> W" if "n < region_start (journal sb)" for n
    using W [of n] that l(5) by (auto simp: in_journal_def region_start_def region_end_def)
  have bits: "ReadRegion (disk_pread d) (inode_bitmap sb) = Inr (inode_bitmap_bytes r)"
    "ReadRegion (disk_pread d) (block_bitmap sb) = Inr (block_bitmap_bytes r)"
    using ReadRegion_cong [of "inode_bitmap sb" "disk_pread d" "reader_pread r"]
      ReadRegion_cong [of "block_bitmap sb" "disk_pread d" "reader_pread r"] v(3) same low l(2,3,4)
    by (simp_all add: bitmaps_synced_def r disk_pread_def region_start_def region_end_def)
  then have f: "superblock r' = sb" "reader_image_size r' = image_size sb" "reader_pread r' = disk_pread d"
    "inode_bitmap_bytes r' = inode_bitmap_bytes r" "block_bitmap_bytes r' = block_bitmap_bytes r"
    by (simp_all add: r'_def disk_reader_def region_bytes_def)
  have al: "IsInodeAllocated r' n = IsInodeAllocated r n" "IsBlockAllocated r' b = IsBlockAllocated r b" for n b
    by (simp_all add: IsInodeAllocated_def IsBlockAllocated_def f r)
  have lt: "later W {} r r'" using same al by (simp add: later_def f r disk_pread_def)
  have ch: "changes_only {} W {} r r'"
    unfolding changes_only_def
  proof (intro conjI allI impI)
    fix n i assume "n \<notin> {} \<and> ReadInode r n = Inr i"
    then have n: "ReadInode r n = Inr i" by simp
    show "file_blocks r i \<inter> W = {}"
    proof (rule ccontr)
      assume "file_blocks r i \<inter> W \<noteq> {}"
      then obtain x where x: "x \<in> file_blocks r i" "x \<in> W" by blast
      obtain b where "x = unat b" "file_block_ok r b" by (rule file_blocks_ok [OF n x(1)])
      then have "region_start (data sb) \<le> x" "TestBit (block_bitmap_bytes r) x"
        by (simp_all add: file_block_ok_def region_start_def r word_le_nat_alt IsBlockAllocated_def BitmapBit_TestBit)
      then show False using W [OF x(2)] l(5) by (auto simp: in_journal_def region_start_def region_end_def)
    qed
    have "IsInodeAllocated r n" by (rule ReadInode_ok(2) [OF n])
    then have nn: "1 \<le> unat n" "unat n \<le> unat (total_inodes (superblock r))" by (simp_all add: IsInodeAllocated_def word_le_nat_alt)
    note p = inode_position [OF v(1) nn]
    have q: "InodeOffsetInBlock n < 4096" using p(2) by simp
    have "inode_offset r n div 4096 = unat (InodeTableBlock (superblock r) n)" unfolding p(1) using q by simp
    moreover have "unat (InodeTableBlock (superblock r) n) \<notin> W" using low p(4) l(4) r by simp
    ultimately show "ReadExact r' (inode_offset r n) kInodeRecordSize = ReadExact r (inode_offset r n) kInodeRecordSize"
      using ReadExact_later [OF lt] by simp
  qed (use lt al in auto)
  have co: "change_ok {} r r'" by (simp add: change_ok_def)
  note ci = changes_only_inode [OF ch]
  obtain root where root: "ReadInode r (root_inode sb) = Inr root" "S_ISDIR (mode root)" using v(1) r by (auto simp: reader_ok_def)
  have rok: "reader_ok r'" using v(1) ci(1) [OF _ root(1)] root(2) unfolding reader_ok_def f r al by blast
  have br: "blocks_readable r'" using whole by (simp add: blocks_readable_def f disk_pread_def)
  have bs: "bitmaps_synced r'" using bits by (simp add: bitmaps_synced_def f)
  have vo: "volume_ok r'" by (rule volume_ok_step [OF ok rok br bs ch co])
  have "ReadInode r n = Inr i" if "ReadInode r' n = Inr i" for n i
  proof -
    have "IsInodeAllocated r n" using ReadInode_ok(2) [OF that] al by simp
    then obtain j where "ReadInode r n = Inr j" using v(4) by blast
    then show ?thesis using ci(1) [of n j] that by simp
  qed
  then have "same_files r r'" unfolding same_files_def using ci(1,5) change_lists [OF ch co] by blast
  then show ?thesis using open_disk_ok [OF mnt whole] rok bs vo by (simp add: r'_def)
qed

section \<open>Transactions on an open volume\<close>

lemma home_writes_map_of:
  "map_of (home_writes m) (unat b) = map_of m b" "n \<notin> unat ` keys m \<Longrightarrow> map_of (home_writes m) n = None"
proof -
  show "map_of (home_writes m) (unat b) = map_of m b"
    by (induction m) (auto simp: home_writes_def dest: word_unat_eq_iff [THEN iffD2])
  show "n \<notin> unat ` keys m \<Longrightarrow> map_of (home_writes m) n = None"
    by (auto simp: home_writes_def map_of_eq_None_iff keys_def rev_image_eqI)
qed

lemma apply_home_writes:
  assumes "sorted_wrt (<) (map fst m)"
  shows "apply_images m (disk_pread d) n = Inr (apply_writes (home_writes m) d n)"
proof -
  have "distinct (map fst m)" using assms by (simp add: strict_sorted_iff)
  then have "distinct (map fst (home_writes m))"
  proof -
    have "map fst (home_writes m) = map unat (map fst m)" by (auto simp: home_writes_def)
    moreover assume "distinct (map fst m)"
    ultimately show ?thesis by (simp add: distinct_map inj_on_def word_unat_eq_iff del: map_map)
  qed
  then have w: "apply_writes (home_writes m) d n = (case map_of (home_writes m) n of Some b \<Rightarrow> b | None \<Rightarrow> d n)"
    by (rule apply_writes_map_of)
  show ?thesis
  proof (cases "n \<in> unat ` keys m")
    case True
    then obtain b :: u32 where "n = unat b" by blast
    then show ?thesis using w home_writes_map_of(1) [of m b]
      by (simp add: apply_images_map_of disk_pread_def split: option.splits)
  qed (use w home_writes_map_of(2) [of n m] in \<open>simp add: apply_images_other disk_pread_def\<close>)
qed

lemma apply_images_append:
  assumes "keys a \<inter> keys b = {}"
  shows "apply_images (a @ b) p n = apply_images b (apply_images a p) n"
proof (cases "n \<in> unat ` keys (a @ b)")
  case True
  then obtain k :: u32 where k: "n = unat k" by blast
  have "map_of a k = None \<or> map_of b k = None" using assms in_keys_iff [of k a] in_keys_iff [of k b] by blast
  then show ?thesis unfolding k apply_images_map_of map_of_append by (auto simp: map_add_def split: option.splits)
next
  case False
  then have "n \<notin> unat ` keys a" "n \<notin> unat ` keys b" by (auto simp: keys_def)
  then show ?thesis using False by (simp add: apply_images_other)
qed

lemma committed_view:
  assumes "sorted_wrt (<) (map fst ordered)" "sorted_wrt (<) (map fst images)" "keys ordered \<inter> keys images = {}"
  shows "apply_images (ordered @ images) (disk_pread d) n
    = Inr (apply_writes (home_writes images) (apply_writes (home_writes ordered) d) n)"
proof -
  have "apply_images ordered (disk_pread d) = disk_pread (apply_writes (home_writes ordered) d)"
    using apply_home_writes [OF assms(1)] by (auto simp: disk_pread_def)
  then show ?thesis using apply_images_append [OF assms(3)] apply_home_writes [OF assms(2)] by simp
qed

text \<open>
  A transaction whose ordered blocks are free in the open volume, and which leads to a
  consistent volume, survives a crash: the reader that opens the recovered disk sees the
  files of one of the two volumes.
\<close>

lemma volume_crash:
  assumes ok: "volume_ok r" and opened: "open_disk sb d = Inr r" and whole: "\<forall>n. length (d n) = kBlockSize"
    and tset: "tx_setup sb cur copy d before ordered images p"
    and free: "\<forall>b \<in> keys ordered. region_start (data sb) \<le> unat b \<and> \<not> TestBit (block_bitmap_bytes r) (unat b)"
    and after: "volume_ok (reload (ordered @ images) r)"
    and crash: "crash_after d (take n (phase_log (tx_phases sb copy p ordered images))) img"
    and tears: "tears_detected sb d (tx_final sb copy p ordered images d) img"
    and attempts: "recovery_attempts sb d (tx_final sb copy p ordered images d) img img'"
  defines "i \<equiv> syncs (take n (phase_log (tx_phases sb copy p ordered images)))"
    and "k \<equiv> length (ordered_phase ordered)"
  shows "\<exists>committed action dev r'. RecoverImage (image_size sb) img' = (Inr action, dev)
    \<and> open_disk sb (dev_blocks dev) = Inr r' \<and> volume_ok r'
    \<and> same_files (if committed then reload (ordered @ images) r else r) r'
    \<and> (i < k + 2 \<longrightarrow> \<not> committed) \<and> (k + 3 \<le> i \<longrightarrow> committed)"
proof -
  note s = setup_facts [OF tset]
  obtain committed action dev c where rec: "RecoverImage (image_size sb) img' = (Inr action, dev)"
    and q: "quiescent sb c copy (dev_blocks dev)" and out: "tx_outcome sb ordered images committed d (dev_blocks dev)"
    and sy: "i < k + 2 \<longrightarrow> \<not> committed" "k + 3 \<le> i \<longrightarrow> committed"
    using transaction_crash_recovers [OF tset crash tears attempts] unfolding i_def k_def by blast
  have rd: "r = disk_reader sb cur copy d" by (rule open_disk_is_reader(1) [OF s(1) whole opened])
  have rf: "superblock r = sb" "reader_image_size r = image_size sb" "reader_pread r = disk_pread d"
    by (simp_all add: rd disk_reader_def)
  have tx: "sorted_wrt (<) (map fst ordered)" "sorted_wrt (<) (map fst images)" "keys ordered \<inter> keys images = {}"
    using s(2,3) by (auto simp: transaction_ok_def plan_ok_def images_ok_def keys_def)
  have "\<forall>n b. DWrite n b \<in> set (phase_log (tx_phases sb copy p ordered images)) \<longrightarrow> length b = kBlockSize"
  proof (intro allI impI)
    fix n b assume "DWrite n b \<in> set (phase_log (tx_phases sb copy p ordered images))"
    then have "(n, b) \<in> set (concat (tx_phases sb copy p ordered images))" by (auto simp: phase_log_def wlog_def split: if_splits)
    then show "length b = kBlockSize" using tx_phases_whole [OF s(2), of copy] by (metis snd_conv)
  qed
  then have "\<forall>n. length (img n) = kBlockSize" using crash_after_whole [OF crash whole] in_set_takeD by metis
  then have "whole_device dev" using RecoverImage_whole [OF recovery_attempts_whole [OF attempts]] rec by blast
  then have wd: "\<forall>n. length (dev_blocks dev n) = kBlockSize" by (simp add: whole_device_def)
  have m: "mountable sb c copy (dev_blocks dev)" using q by (simp add: quiescent_def)
  have "\<exists>r'. open_disk sb (dev_blocks dev) = Inr r' \<and> volume_ok r' \<and> same_files (if committed then reload (ordered @ images) r else r) r'"
  proof (cases committed)
    case True
    have pr: "reader_pread (reload (ordered @ images) r) x = Inr (dev_blocks dev x)" if "x \<notin> {x. in_journal sb x}" for x
      using out True that committed_view [OF tx] by (simp add: tx_outcome_def agree_outside_def rf)
    have "open_disk sb (dev_blocks dev) = Inr (disk_reader sb c copy (dev_blocks dev))
      \<and> volume_ok (disk_reader sb c copy (dev_blocks dev))
      \<and> same_files (reload (ordered @ images) r) (disk_reader sb c copy (dev_blocks dev))"
      by (rule disk_view [OF after _ _ m wd, where W = "{x. in_journal sb x}"]) (use pr rf in auto)
    then show ?thesis using True by auto
  next
    case False
    have t: "targets ordered = unat ` keys ordered" by (auto simp: targets_def home_writes_def keys_def image_image split_beta)
    have pr: "reader_pread r x = Inr (dev_blocks dev x)" if "x \<notin> {x. in_journal sb x} \<union> unat ` keys ordered" for x
      using out False that t by (simp add: tx_outcome_def agree_outside_def rf disk_pread_def)
    have "open_disk sb (dev_blocks dev) = Inr (disk_reader sb c copy (dev_blocks dev))
      \<and> volume_ok (disk_reader sb c copy (dev_blocks dev)) \<and> same_files r (disk_reader sb c copy (dev_blocks dev))"
      by (rule disk_view [OF ok rf(1,2) m wd, where W = "{x. in_journal sb x} \<union> unat ` keys ordered"]) (use pr free in auto)
    then show ?thesis using False by auto
  qed
  then show ?thesis using rec sy by blast
qed

section \<open>File mutations\<close>

lemma mutation_before_read:
  assumes ok: "volume_ok r" and run: "mutation_run r n request plan inode old ps mapping ind a tb bs"
    and b: "(b, c) \<in> set (mutation_before plan)"
  shows "reader_pread r (unat b) = Inr c"
proof -
  note v = volume_okD [OF ok] and f = mutation_run_facts [OF ok run]
  let ?sb = "superblock r" and ?ni = "new_indirect_needed inode request"
  let ?bb = "block_bitmap ?sb"
  let ?bp = "bitmap_puts ?bb (block_bitmap_bytes r) (bitmap_of a) (block_bitmap_bytes r) [0..<unat (block_count ?bb)]"
  let ?pp = "map (\<lambda>p. (p, projr (ReadBlock r p))) ps"
  let ?ip = "if ?ni then [(ind, projr (ReadBlock r ind))] else []"
  have before: "mutation_before plan = map_put (InodeTableBlock ?sb n) tb (puts ?ip (puts ?bp (puts ?pp [])))"
    and rd: "\<forall>p \<in> set ps. \<not> isl (ReadBlock r p)" "?ni \<longrightarrow> \<not> isl (ReadBlock r ind)" "ReadBlock r (InodeTableBlock ?sb n) = Inr tb"
    using run unfolding mutation_run_def by blast+
  have conv: "reader_pread r (unat x) = Inr y" if "ReadBlock r x = Inr y" for x y
  proof -
    have "unat x < unat (total_blocks ?sb)" using that by (auto simp: ReadBlock_def word_less_nat_alt not_le split: if_splits)
    from ReadBlock_whole [OF v(1,2) this] that show ?thesis by (metis sum.inject(2))
  qed
  have conv': "reader_pread r (unat x) = Inr (projr (ReadBlock r x))" if "\<not> isl (ReadBlock r x)" for x
    using that conv by (cases "ReadBlock r x") auto
  have "(b, c) \<in> insert (InodeTableBlock ?sb n, tb) (set ?ip \<union> set ?bp \<union> set ?pp)"
    using b set_puts [of ?ip "puts ?bp (puts ?pp [])"] set_puts [of ?bp "puts ?pp []"] set_puts [of ?pp "[]"]
      set_map_put [of "InodeTableBlock ?sb n" tb "puts ?ip (puts ?bp (puts ?pp []))"]
    unfolding before by auto
  then consider "(b, c) = (InodeTableBlock ?sb n, tb)" | "(b, c) \<in> set ?ip" | "(b, c) \<in> set ?bp" | "(b, c) \<in> set ?pp" by blast
  then show ?thesis
  proof cases
    case 3
    then obtain l where l: "l < unat (block_count ?bb)" "b = start_block ?bb + of_nat l" "c = BitmapBlock (block_bitmap_bytes r) l"
      by (auto simp: bitmap_puts_def)
    have e: "region_end ?bb \<le> unat (total_blocks ?sb)" using volume_regions(2,4) [OF v(1)] by linarith
    have "reader_pread r (region_start ?bb + l) = Inr (BitmapBlock (block_bitmap_bytes r) l)"
      using ReadRegion_iff [OF v(2) e, of "block_bitmap_bytes r"] v(3) l(1) by (simp add: bitmaps_synced_def)
    then show ?thesis using region_block [OF e l(1)] l by simp
  qed (use rd conv conv' in \<open>auto split: if_splits\<close>)
qed

lemma keys_Nil [simp]: "keys [] = {}"
  by (simp add: keys_def)

lemma mutation_keys:
  assumes run: "mutation_run r n request plan inode old ps mapping ind a tb bs"
  shows "keys (mutation_before plan) = keys (mutation_ordered plan) \<union> keys (mutation_metadata plan)"
    "keys (mutation_ordered plan) = set ps"
    "sorted_wrt (<) (map fst (mutation_before plan))" "sorted_wrt (<) (map fst (mutation_ordered plan))"
    "sorted_wrt (<) (map fst (mutation_metadata plan))" "mutation_metadata plan \<noteq> []"
proof -
  let ?sb = "superblock r" and ?ni = "new_indirect_needed inode request"
  let ?bp = "\<lambda>x. bitmap_puts (block_bitmap ?sb) (block_bitmap_bytes r) (bitmap_of a) x [0..<unat (block_count (block_bitmap ?sb))]"
  have m: "mutation_ordered plan = puts (zip ps (map (\<lambda>l. projr (block_image r inode request old l))
         [changed_from inode request..<changed_to inode request])) []"
    "mutation_metadata plan = map_put (InodeTableBlock ?sb n) (put_bytes (InodeOffsetInBlock n) bs tb)
        (puts (if ?ni then [(ind, IndirectImage mapping (unat (PlanRequiredBlocks (mutation_length inode request))))] else [])
          (puts (?bp (bitmap_of a)) []))"
    "mutation_before plan = map_put (InodeTableBlock ?sb n) tb (puts (if ?ni then [(ind, projr (ReadBlock r ind))] else [])
          (puts (?bp (block_bitmap_bytes r)) (puts (map (\<lambda>p. (p, projr (ReadBlock r p))) ps) [])))"
    and nm: "new_mapping_ok inode request old ps mapping"
    using run unfolding mutation_run_def by blast+
  have "length ps = changed_to inode request - changed_from inode request" using nm unfolding new_mapping_ok_def by linarith
  then show ko: "keys (mutation_ordered plan) = set ps" unfolding m keys_puts
    by (simp add: keys_def flip: set_map)
  have "fst ` set (?bp (block_bitmap_bytes r)) = fst ` set (?bp (bitmap_of a))" by (simp add: bitmap_puts_def image_image)
  moreover have "fst ` set (map (\<lambda>p. (p, projr (ReadBlock r p))) ps) = set ps" by (simp add: image_image)
  ultimately show "keys (mutation_before plan) = keys (mutation_ordered plan) \<union> keys (mutation_metadata plan)"
    unfolding ko m(2,3) keys_map_put keys_puts keys_Nil by (cases ?ni) (simp_all only: if_True if_False set_simps image_insert fst_conv image_empty Un_ac Un_empty_right Un_empty_left Un_insert_left Un_insert_right insert_commute)
  show "sorted_wrt (<) (map fst (mutation_before plan))" "sorted_wrt (<) (map fst (mutation_ordered plan))"
    "sorted_wrt (<) (map fst (mutation_metadata plan))"
    unfolding m by (simp_all add: sorted_puts sorted_map_put)
  have "keys (mutation_metadata plan) \<noteq> {}" unfolding m by simp
  then show "mutation_metadata plan \<noteq> []" by (auto simp: keys_def)
qed

lemma mutation_transaction_ok:
  assumes ok: "volume_ok r" and run: "mutation_run r n request plan inode old ps mapping ind a tb bs"
    and r: "r = disk_reader sb cur copy d" and uuid: "length (filesystem_uuid sb) = 16" "control_uuid cur = filesystem_uuid sb"
    "ring_blocks cur = ring_size sb" and p: "PlanRingReservation cur (length (mutation_metadata plan)) = Inr p"
  shows "transaction_ok sb cur d (mutation_before plan) (mutation_ordered plan) (mutation_metadata plan) p"
proof -
  note v = volume_okD [OF ok] and f = mutation_run_facts [OF ok run] and k = mutation_keys [OF run] and ms = mutation_images_set [OF ok run]
  have sb: "superblock r = sb" by (simp add: r disk_reader_def)
  have val: "ValidateSuperblock sb = Inr ()" using reader_ok_facts(1) [OF v(1)] sb by simp
  note l = ValidateSuperblock_layout_aux [OF val] and pos = inode_position [OF v(1) f(5,6), unfolded sb]
  have img: "length c = 4096" "unat b < unat (total_blocks sb)" if "(b, c) \<in> set (mutation_ordered plan) \<union> set (mutation_metadata plan)" for b c
    using ms(1) [of b c] that by (auto simp: mutation_images_def sb)
  have nj: "\<not> BlockIsInRegion b (journal sb)" if "unat b < region_start (journal sb) \<or> region_end (journal sb) \<le> unat b" for b
    using that u32_bound [of "start_block (journal sb)"] u32_bound [of "block_count (journal sb)"]
    by (auto simp: BlockIsInRegion_def region_start_def region_end_def word_le_nat_alt word_less_nat_alt unat_word_ariths)
  have tg: "IsValidMetadataTarget sb b" if bk: "b \<in> keys (mutation_metadata plan)" for b
  proof -
    obtain c where c: "(b, c) \<in> set (mutation_images plan)" using bk unfolding keys_def mutation_images_def by force
    have "b \<in> {InodeTableBlock sb n} \<union> set (taken_blocks inode request ps ind)
        \<or> region_start (block_bitmap sb) \<le> unat b \<and> unat b < region_end (block_bitmap sb)"
    proof -
      let ?bp = "bitmap_puts (block_bitmap sb) (block_bitmap_bytes r) (bitmap_of a) (bitmap_of a) [0..<unat (block_count (block_bitmap sb))]"
      have "mutation_metadata plan = map_put (InodeTableBlock sb n) (put_bytes (InodeOffsetInBlock n) bs tb)
        (puts (indirect_images inode request mapping ind) (puts ?bp []))"
        using run unfolding mutation_run_def indirect_images_def sb by blast
      then have "b \<in> insert (InodeTableBlock sb n) (fst ` set (indirect_images inode request mapping ind) \<union> fst ` set ?bp)"
        using bk by simp
      then consider "b = InodeTableBlock sb n" | "b \<in> fst ` set (indirect_images inode request mapping ind)" | "b \<in> fst ` set ?bp" by blast
      then show ?thesis
      proof cases
        case 3
        have "region_end (block_bitmap sb) \<le> unat (total_blocks sb)" using volume_regions(2,4) [OF v(1)] sb by simp
        from bitmap_puts_keys(2) [OF this refl 3] show ?thesis by blast
      qed (auto simp: indirect_images_def taken_blocks_def split: if_splits)
    qed
    then have "1 \<le> unat b \<and> (unat b < region_start (journal sb) \<or> region_end (journal sb) \<le> unat b)"
      using pos(3,4) l(1-5) f(2) [of b, unfolded sb] by (auto simp: region_start_def region_end_def)
    moreover have "unat b < unat (total_blocks sb)" using ms(1) [OF c] sb by simp
    ultimately show ?thesis using nj by (auto simp: IsValidMetadataTarget_def word_less_nat_alt)
  qed
  have im: "images_ok sb (mutation_metadata plan)"
    unfolding images_ok_def using k(5) tg img(1) by (fastforce simp: keys_def)
  have dat: "BlockIsInRegion b (data sb)" if "b \<in> set ps" for b
  proof -
    have "region_start (data sb) \<le> unat b" "unat b < region_end (data sb)"
      using f(2) [of b, unfolded sb] that l(6) by (auto simp: taken_blocks_def)
    then show ?thesis using u32_bound [of "start_block (data sb)"] u32_bound [of "block_count (data sb)"]
      by (auto simp: BlockIsInRegion_def region_start_def region_end_def word_le_nat_alt word_less_nat_alt unat_word_ariths)
  qed
  have disj: "b \<notin> keys (mutation_metadata plan)" if "b \<in> set ps" for b
  proof -
    let ?bp = "bitmap_puts (block_bitmap sb) (block_bitmap_bytes r) (bitmap_of a) (bitmap_of a) [0..<unat (block_count (block_bitmap sb))]"
    have md: "mutation_metadata plan = map_put (InodeTableBlock sb n) (put_bytes (InodeOffsetInBlock n) bs tb)
        (puts (indirect_images inode request mapping ind) (puts ?bp []))"
      using run unfolding mutation_run_def indirect_images_def sb by blast
    have ds: "region_start (data sb) \<le> unat b" using f(2) [of b, unfolded sb] that by (simp add: taken_blocks_def)
    have e: "region_end (block_bitmap sb) \<le> unat (total_blocks sb)" "region_end (block_bitmap sb) \<le> region_start (data sb)"
      using volume_regions(2,4) [OF v(1)] sb by simp_all
    have "b \<noteq> InodeTableBlock sb n" using pos(4) ds volume_regions(3) [OF v(1)] sb by auto
    moreover have "b \<notin> fst ` set ?bp" using bitmap_puts_keys(2) [OF e(1) refl] ds e(2) by fastforce
    moreover have "b \<notin> fst ` set (indirect_images inode request mapping ind)"
      using f(1) that by (auto simp: indirect_images_def taken_blocks_def split: if_splits)
    ultimately show ?thesis unfolding md by simp
  qed
  have bd: "\<forall>x \<in> set (mutation_before plan). d (unat (fst x)) = snd x"
  proof
    fix x assume "x \<in> set (mutation_before plan)"
    then have "reader_pread r (unat (fst x)) = Inr (snd x)" by (intro mutation_before_read [OF ok run]) simp
    then show "d (unat (fst x)) = snd x" unfolding r by (simp add: disk_reader_def disk_pread_def)
  qed
  have "\<forall>x \<in> set (mutation_ordered plan). BlockIsInRegion (fst x) (data sb) \<and> fst x \<notin> keys (mutation_metadata plan) \<and> length (snd x) = kBlockSize"
  proof
    fix x assume x: "x \<in> set (mutation_ordered plan)"
    then have "fst x \<in> set ps" using k(2) unfolding keys_def by force
    moreover have "length (snd x) = 4096" using img(1) [of "fst x" "snd x"] x by simp
    ultimately show "BlockIsInRegion (fst x) (data sb) \<and> fst x \<notin> keys (mutation_metadata plan) \<and> length (snd x) = kBlockSize"
      using dat disj by simp
  qed
  then show ?thesis
    unfolding transaction_ok_def plan_ok_def using val uuid p im k bd by simp
qed

section \<open>A sample volume\<close>

text \<open>A root directory, inode 2, with the empty file \<^verbatim>\<open>a\<close>, inode 3, and 49 free data blocks.\<close>

definition volume_superblock :: Superblock where
  "volume_superblock = sample_superblock\<lparr>root_inode := 2, journal := \<lparr>start_block = 4, block_count = 10\<rparr>,
     data := \<lparr>start_block = 14, block_count = 50\<rparr>\<rparr>"

definition volume_root :: InodeRecord where
  "volume_root = sample_inode\<lparr>inode_number := 2, mode := 0x41ED, file_size := 4096, direct_blocks := 14 # replicate 11 0\<rparr>"

definition volume_file :: InodeRecord where
  "volume_file = sample_inode\<lparr>file_size := 0, direct_blocks := replicate 12 0\<rparr>"

definition volume_control :: JournalControl where
  "volume_control = sample_ring_control\<lparr>ring_blocks := 8\<rparr>"

definition volume_current :: JournalControl where
  "volume_current = volume_control\<lparr>control_checksum := snd (control_block_of volume_control)\<rparr>"

definition volume_inode_bits :: bytes where
  "volume_inode_bits = [0x06, 0x00] @ replicate 4094 0xFF"

definition volume_block_bits :: bytes where
  "volume_block_bits = [0xFF, 0x7F, 0, 0, 0, 0, 0, 0] @ replicate 4088 0xFF"

definition volume_table :: bytes where
  "volume_table = put_bytes 256 (projr (EncodeInode volume_file)) (put_bytes 128 (projr (EncodeInode volume_root)) (replicate 4096 0))"

definition volume_entry :: DirectoryEntry where
  "volume_entry = \<lparr>entry_inode = 3, file_type = kRegular, entry_name = [0x61], record_length = 4096\<rparr>"

definition volume_directory :: bytes where
  "volume_directory = projr (EncodeDirectoryEntry volume_entry 4096 (replicate 4096 0))"

definition volume_disk :: disk where
  "volume_disk n = (if n = 0 then projr (EncodeSuperblock volume_superblock) else if n = 1 then volume_inode_bits
     else if n = 2 then volume_block_bits else if n = 3 then volume_table
     else if n = 4 then fst (control_block_of volume_control)
     else if n = 14 then volume_directory else zero_block)"

definition volume_reader :: ImageReader where
  "volume_reader = disk_reader volume_superblock volume_current kA volume_disk"

lemma volume_superblock_valid: "ValidateSuperblock volume_superblock = Inr ()"
  by code_simp

lemma volume_superblock_fields:
  "total_blocks volume_superblock = 64" "total_inodes volume_superblock = 16" "root_inode volume_superblock = 2"
  "inode_bitmap volume_superblock = \<lparr>start_block = 1, block_count = 1\<rparr>"
  "block_bitmap volume_superblock = \<lparr>start_block = 2, block_count = 1\<rparr>"
  "inode_table volume_superblock = \<lparr>start_block = 3, block_count = 1\<rparr>"
  "journal volume_superblock = \<lparr>start_block = 4, block_count = 10\<rparr>"
  "data volume_superblock = \<lparr>start_block = 14, block_count = 50\<rparr>" "filesystem_uuid volume_superblock = replicate 16 7"
  "ring_size volume_superblock = 8" "feature_incompat volume_superblock = 0"
  by (simp_all add: volume_superblock_def sample_superblock_def ring_size_def)

lemma volume_superblock_block:
  "DecodeSuperblock (volume_disk 0) = Inr volume_superblock" "length (volume_disk 0) = 4096"
  using superblock_roundtrip [OF volume_superblock_valid] by (auto simp: volume_disk_def volume_superblock_fields)

lemma volume_control_ok: "ValidateControlFields volume_control = Inr ()" "length (control_uuid volume_control) = 16"
  by (simp_all add: ValidateControlFields_nat volume_control_def sample_ring_control_def)

lemma volume_inodes:
  "\<exists>bs. EncodeInode volume_root = Inr bs \<and> length bs = 128 \<and> DecodeInode bs 2 = Inr volume_root"
  "\<exists>bs. EncodeInode volume_file = Inr bs \<and> length bs = 128 \<and> DecodeInode bs 3 = Inr volume_file"
  using inode_roundtrip [of volume_root] inode_roundtrip [of volume_file]
  by (simp_all add: volume_root_def volume_file_def sample_inode_def IsKnownMode_def S_ISDIR_def S_ISREG_def kMaxFileSize_def)

lemma volume_directory_ok: "length volume_directory = 4096" "DecodeDirectoryEntry volume_directory = Inr volume_entry"
proof -
  have "\<exists>d. EncodeDirectoryEntry volume_entry 4096 (replicate 4096 0) = Inr d"
    by (simp add: EncodeDirectoryEntry_def IsKnownDirectoryFileType_def Let_def IsValidName_def volume_entry_def
        MinimumDirectoryRecordLength_eq)
  then obtain d where d: "EncodeDirectoryEntry volume_entry 4096 (replicate 4096 0) = Inr d" by blast
  have "volume_entry\<lparr>record_length := 4096\<rparr> = volume_entry" by (simp add: volume_entry_def)
  then show "length volume_directory = 4096" "DecodeDirectoryEntry volume_directory = Inr volume_entry"
    using directory_entry_codec [OF d] by (simp_all add: volume_directory_def d)
qed

lemma volume_disk_whole: "length (volume_disk n) = kBlockSize"
  using volume_superblock_block(2) control_block_ok(2) [OF volume_control_ok]
  by (auto simp: volume_disk_def volume_inode_bits_def volume_block_bits_def volume_table_def zero_block_def volume_directory_ok)

lemma volume_mountable: "mountable volume_superblock volume_current kA volume_disk"
proof -
  have c: "control_block volume_superblock kA = 4" "control_block volume_superblock kB = 5"
    by (simp_all add: control_block_def volume_superblock_fields)
  have "valid_copy (volume_disk 4) (replicate 16 7) 8 = Some volume_current"
    using control_block_ok(3) [OF volume_control_ok]
    by (simp add: valid_copy_def volume_disk_def volume_current_def) (simp add: volume_control_def sample_ring_control_def)
  moreover have "valid_copy (volume_disk 5) (replicate 16 7) 8 = None"
    using constant_block_undecodable(1) [of 0] by (auto simp: valid_copy_def volume_disk_def zero_block_def isl_def)
  ultimately have "SelectControl (volume_disk 4) (volume_disk 5) (replicate 16 7) 8 = Inr (volume_current, kA)"
    by (intro SelectControl_torn_copy) simp_all
  then show ?thesis using volume_superblock_block(1) by (simp add: mountable_def c volume_superblock_fields)
qed

lemma volume_quiescent: "quiescent volume_superblock volume_current kA volume_disk"
proof -
  have "isl (DecodeCommit (volume_disk (6 + i)))" if "i < 8" for i
    using that constant_block_undecodable(2) [of 0] by (simp add: volume_disk_def zero_block_def)
  then have "no_future_commit volume_superblock volume_current volume_disk"
    by (auto simp: no_future_commit_def volume_superblock_fields isl_def split: sum.splits) (metis sum.distinct(1))
  then show ?thesis using volume_mountable by (simp add: quiescent_def volume_current_def volume_control_def sample_ring_control_def)
qed

lemma volume_bits:
  "i < 16 \<Longrightarrow> TestBit volume_inode_bits i \<longleftrightarrow> i = 1 \<or> i = 2"
  "16 \<le> i \<Longrightarrow> i < 32768 \<Longrightarrow> TestBit volume_inode_bits i"
  "i < 64 \<Longrightarrow> TestBit volume_block_bits i \<longleftrightarrow> i < 15"
  "64 \<le> i \<Longrightarrow> i < 32768 \<Longrightarrow> TestBit volume_block_bits i"
proof -
  have ones: "bit (0xFF :: byte) k" if "k < 8" for k
  proof -
    have "(0xFF :: byte) = - 1" by simp
    then show ?thesis using that by (simp only: bit_minus_1_iff) simp
  qed
  show "TestBit volume_inode_bits i" if "16 \<le> i" "i < 32768"
    using that ones [of "i mod 8"] by (auto simp: TestBit_iff volume_inode_bits_def nth_append)
  show "TestBit volume_block_bits i" if "64 \<le> i" "i < 32768"
    using that ones [of "i mod 8"] by (auto simp: TestBit_iff volume_block_bits_def nth_append)
  have "list_all (\<lambda>i. bit ([6, 0 :: byte] ! (i div 8)) (i mod 8) \<longleftrightarrow> i = 1 \<or> i = 2) [0..<16]" by code_simp
  then show "TestBit volume_inode_bits i \<longleftrightarrow> i = 1 \<or> i = 2" if "i < 16"
    using that div_less_iff_less_mult [of 8 i 2] by (simp add: list_all_iff TestBit_iff volume_inode_bits_def nth_append numeral_2_eq_2 del: append_Cons)
  have "list_all (\<lambda>i. bit ([0xFF, 0x7F, 0, 0, 0, 0, 0, 0 :: byte] ! (i div 8)) (i mod 8) \<longleftrightarrow> i < 15) [0..<64]" by code_simp
  then show "TestBit volume_block_bits i \<longleftrightarrow> i < 15" if "i < 64"
    using that div_less_iff_less_mult [of 8 i 8] by (simp add: list_all_iff TestBit_iff volume_block_bits_def nth_append del: append_Cons)
qed

lemma ReadRegion_one:
  assumes "pread (unat s) = Inr b" "length b = kBlockSize"
  shows "ReadRegion pread \<lparr>start_block = s, block_count = 1\<rparr> = Inr b"
  using assms by (simp add: ReadRegion_def)

lemma volume_regions_read:
  "ReadRegion (disk_pread volume_disk) (inode_bitmap volume_superblock) = Inr volume_inode_bits"
  "ReadRegion (disk_pread volume_disk) (block_bitmap volume_superblock) = Inr volume_block_bits"
  unfolding volume_superblock_fields
  by (rule ReadRegion_one, simp add: disk_pread_def volume_disk_def, simp add: volume_inode_bits_def volume_block_bits_def)+

lemma volume_reader_fields:
  "superblock volume_reader = volume_superblock" "reader_image_size volume_reader = 262144"
  "reader_pread volume_reader = disk_pread volume_disk" "inode_bitmap_bytes volume_reader = volume_inode_bits"
  "block_bitmap_bytes volume_reader = volume_block_bits"
  by (simp_all add: volume_reader_def disk_reader_def region_bytes_def image_size_def volume_regions_read volume_superblock_fields(1))

lemma volume_reader_alloc:
  "IsInodeAllocated volume_reader n \<longleftrightarrow> n = 2 \<or> n = 3"
  "b < 15 \<Longrightarrow> IsBlockAllocated volume_reader b" "15 \<le> unat b \<Longrightarrow> \<not> IsBlockAllocated volume_reader b"
proof -
  have n: "unat (n - 1) = unat n - 1" if "1 \<le> n" using that by (subst unat_sub) simp_all
  show "IsInodeAllocated volume_reader n \<longleftrightarrow> n = 2 \<or> n = 3"
  proof
    assume a: "IsInodeAllocated volume_reader n"
    then have r: "1 \<le> n" "n \<le> 16" by (simp_all add: IsInodeAllocated_def volume_reader_fields volume_superblock_fields)
    then have "unat n - 1 < 16" "1 \<le> unat n" by (simp_all add: word_le_nat_alt)
    then have "unat n = 2 \<or> unat n = 3"
      using a volume_bits(1) [of "unat (n - 1)"] n [OF r(1)] by (auto simp: IsInodeAllocated_def volume_reader_fields BitmapBit_TestBit)
    then show "n = 2 \<or> n = 3" by (auto dest: arg_cong [where f = "of_nat :: nat \<Rightarrow> u32"])
  next
    assume "n = 2 \<or> n = 3"
    then show "IsInodeAllocated volume_reader n"
      using volume_bits(1) [of 1] volume_bits(1) [of 2]
      by (auto simp: IsInodeAllocated_def volume_reader_fields volume_superblock_fields BitmapBit_TestBit)
  qed
  show "IsBlockAllocated volume_reader b" if "b < 15"
    using that volume_bits(3) [of "unat b"]
    by (simp add: IsBlockAllocated_def volume_reader_fields volume_superblock_fields BitmapBit_TestBit word_less_nat_alt)
  show "\<not> IsBlockAllocated volume_reader b" if "15 \<le> unat b"
    using that volume_bits(3) [of "unat b"]
    by (auto simp: IsBlockAllocated_def volume_reader_fields volume_superblock_fields BitmapBit_TestBit word_less_nat_alt)
qed

lemma volume_reader_inodes:
  "ReadInode volume_reader 2 = Inr volume_root" "ReadInode volume_reader 3 = Inr volume_file"
proof -
  obtain bs where e: "EncodeInode volume_root = Inr bs" "length bs = 128" "DecodeInode bs 2 = Inr volume_root" using volume_inodes(1) by blast
  obtain cs where f: "EncodeInode volume_file = Inr cs" "length cs = 128" "DecodeInode cs 3 = Inr volume_file" using volume_inodes(2) by blast
  have rd: "ReadExact volume_reader (12288 + 128) 128 = Inr bs" "ReadExact volume_reader (12288 + 256) 128 = Inr cs"
    using e f by (simp_all add: ReadExact_def volume_reader_fields disk_pread_def volume_disk_def volume_table_def byte_simps)
  have off: "inode_offset volume_reader 2 = 12288 + 128" "inode_offset volume_reader 3 = 12288 + 256"
    by (simp_all add: inode_offset_def volume_reader_fields volume_superblock_fields)
  have sz: "RequiredBlocks volume_root = 1" "RequiredBlocks volume_file = 0" by (simp_all add: RequiredBlocks_def volume_root_def volume_file_def)
  have ok: "inode_ok volume_reader volume_root" "inode_ok volume_reader volume_file"
    "inode_closed volume_reader volume_root" "inode_closed volume_reader volume_file"
    using volume_reader_alloc(2) [of 14]
    by (simp_all add: inode_ok_def inode_closed_def sz file_block_ok_def file_pointer_def volume_reader_fields volume_superblock_fields)
      (auto simp: volume_root_def volume_file_def sample_inode_def nth_Cons' kMaxFileSize_def)
  show "ReadInode volume_reader 2 = Inr volume_root" "ReadInode volume_reader 3 = Inr volume_file"
    unfolding ReadInode_iff off using rd e(3) f(3) ok volume_reader_alloc(1) by auto
qed

lemma volume_list: "ListDirectory volume_reader 2 = Inr [volume_entry]"
proof -
  have b: "ReadExact volume_reader 57344 4096 = Inr volume_directory"
    using volume_directory_ok(1) by (simp add: ReadExact_def volume_reader_fields disk_pread_def volume_disk_def get_bytes_def)
  have m: "MapLogicalBlock volume_reader volume_root 0 = Inr 14"
    using volume_reader_alloc(2) [of 14]
    by (simp add: MapLogicalBlock_def ValidateAllocatedDataBlock_def volume_reader_fields volume_superblock_fields volume_root_def RequiredBlocks_def)
  have "ScanDirectoryBlock volume_reader volume_directory 0 {} [] = Inr ({entry_name volume_entry}, [volume_entry])"
    using volume_directory_ok volume_reader_inodes(2)
    by (subst ScanDirectoryBlock.simps)
      (simp add: volume_entry_def, simp add: ScanDirectoryBlock.simps IsDirectoryType_def S_ISREG_def volume_file_def sample_inode_def)
  moreover have "[0..<unat (ucast (file_size volume_root div 4096) :: u32)] = [0]" by (simp add: volume_root_def)
  moreover have "S_ISDIR (mode volume_root)" by (simp add: S_ISDIR_def volume_root_def)
  ultimately show ?thesis using b m by (simp add: ListDirectory_def volume_reader_inodes)
qed

lemma volume_reader_ok: "volume_ok volume_reader"
proof -
  have inodes: "n = 2 \<and> i = volume_root \<or> n = 3 \<and> i = volume_file" if "ReadInode volume_reader n = Inr i" for n i
    using ReadInode_ok(2) [OF that] that volume_reader_inodes volume_reader_alloc(1) [of n] by auto
  have fb: "file_blocks volume_reader volume_file = {}"
    by (simp_all add: file_blocks_def map_blocks_def RequiredBlocks_def volume_root_def volume_file_def sample_inode_def)
  have ib: "indirect_block volume_root = 0" "indirect_block volume_file = 0" by (simp_all add: volume_root_def volume_file_def sample_inode_def)
  have di: "inode_distinct volume_reader volume_root" "inode_distinct volume_reader volume_file"
    by (simp_all add: inode_distinct_def RequiredBlocks_def volume_root_def volume_file_def file_pointer_def sample_inode_def)
  have dirs: "S_ISDIR (mode volume_root)" "\<not> S_ISDIR (mode volume_file)"
    by (simp_all add: S_ISDIR_def volume_root_def volume_file_def sample_inode_def)
  have ls: "ListDirectory volume_reader 2 = Inr [volume_entry]" by (rule volume_list)
  have bs: "bitmaps_synced volume_reader"
    by (simp add: bitmaps_synced_def volume_reader_fields volume_regions_read)
  have br: "blocks_readable volume_reader" using volume_disk_whole by (simp add: blocks_readable_def volume_reader_fields disk_pread_def)
  have low: "IsBlockAllocated volume_reader b" if "b < 14" for b
    by (rule volume_reader_alloc(2), rule less_trans [OF that]) simp
  have rok: "reader_ok volume_reader"
    unfolding reader_ok_def volume_reader_fields volume_superblock_fields BitmapBit_TestBit
    using volume_superblock_valid low volume_bits(2,4) volume_reader_inodes(1) dirs
    by (simp add: volume_inode_bits_def volume_block_bits_def)
  show ?thesis
    unfolding volume_ok_def
  proof (intro conjI allI impI)
    show "reader_ok volume_reader" "blocks_readable volume_reader" "bitmaps_synced volume_reader" by fact+
    show "\<exists>i. ReadInode volume_reader n = Inr i" if "IsInodeAllocated volume_reader n" for n
      using that volume_reader_alloc(1) volume_reader_inodes by auto
    show "inode_distinct volume_reader i" if "ReadInode volume_reader n = Inr i" for n i using inodes [OF that] di by auto
    show "file_blocks volume_reader i \<inter> file_blocks volume_reader j = {}"
      if "ReadInode volume_reader n = Inr i \<and> ReadInode volume_reader m = Inr j \<and> n \<noteq> m" for n m i j
      using inodes [of n i] inodes [of m j] that fb by auto
    show "\<exists>es. ListDirectory volume_reader n = Inr es" if "ReadInode volume_reader n = Inr i \<and> S_ISDIR (mode i)" for n i
      using inodes [of n i] that dirs ls by auto
  qed
qed

lemma volume_open: "open_disk volume_superblock volume_disk = Inr volume_reader"
  unfolding volume_reader_def
  by (rule open_disk_ok [OF volume_mountable]) (use volume_disk_whole volume_okD [OF volume_reader_ok] in \<open>simp_all add: volume_reader_def\<close>)

definition volume_request :: FileMutationRequest where
  "volume_request = \<lparr>request_mode = kWriteRange, request_offset = 2, request_data = [7, 8, 9], request_timestamp_ns = 5,
     expected_generation = 0\<rparr>"

lemma volume_request_ok:
  "S_ISREG (mode volume_file)" "generation volume_file \<noteq> 0xFFFFFFFFFFFFFFFF" "mutation_fits volume_request"
  "replaces volume_request \<longrightarrow> generation volume_file = expected_generation volume_request"
  by (simp_all add: S_ISREG_def volume_file_def sample_inode_def mutation_fits_def volume_request_def replaces_def kMaxFileSize_def)

lemma volume_free: "2 \<le> card (free_bits (block_allocator volume_reader))"
proof -
  have "{15, 16} \<subseteq> free_bits (block_allocator volume_reader)"
    using volume_bits(3) [of 15] volume_bits(3) [of 16]
    by (simp add: free_bits_def block_allocator_def volume_reader_fields volume_superblock_fields)
  moreover have "finite (free_bits (block_allocator volume_reader))"
    by (rule finite_subset [of _ "{0..<64}"]) (auto simp: free_bits_def block_allocator_def volume_reader_fields volume_superblock_fields)
  ultimately have "card {15, 16 :: nat} \<le> card (free_bits (block_allocator volume_reader))" by (intro card_mono)
  then show ?thesis by simp
qed

lemma volume_room:
  "changed_to volume_file volume_request - changed_from volume_file volume_request < card (free_bits (block_allocator volume_reader))"
  using volume_free by (simp add: changed_to_def changed_from_def volume_request_def replaces_def volume_file_def)

lemma volume_request_small: "\<not> new_indirect_needed volume_file volume_request"
  by (simp add: new_indirect_needed_def mutation_length_def volume_request_def replaces_def volume_file_def PlanRequiredBlocks_def)

lemma volume_plan: "\<exists>plan. PrepareFileMutation volume_reader 3 volume_request = Inr plan"
  by (rule PrepareFileMutation_succeeds_aux [OF volume_reader_ok volume_reader_inodes(2) volume_request_ok(1,3,4,2) volume_room])

section \<open>Properties\<close>

lemma mountable_identity:
  assumes "mountable sb c copy d" "length (d 0) = kBlockSize"
  shows "control_uuid c = filesystem_uuid sb" "ring_blocks c = ring_size sb" "length (filesystem_uuid sb) = 16"
proof -
  have m: "DecodeSuperblock (d 0) = Inr sb" "SelectControl (d (control_block sb kA)) (d (control_block sb kB)) (filesystem_uuid sb)
        (ring_size sb) = Inr (c, copy)" using assms(1) by (simp_all add: mountable_def)
  obtain b where "valid_copy b (filesystem_uuid sb) (ring_size sb) = Some c" using SelectControl_sound [OF m(2)] by blast
  then show "control_uuid c = filesystem_uuid sb" "ring_blocks c = ring_size sb" by (auto simp: valid_copy_def split: sum.splits if_splits)
  show "length (filesystem_uuid sb) = 16"
    using m(1) assms(2) by (auto simp: DecodeSuperblock_def DecodeSuperblockFields_def Let_def bind_result_Inr_iff split: if_splits)
qed

lemma same_files_file:
  "same_files r r' \<Longrightarrow> ReadInode r n = Inr i \<Longrightarrow> ReadInode r' n = Inr i \<and> file_contents r' i = file_contents r i"
  unfolding same_files_def by blast

lemma mutation_effect:
  assumes ok: "volume_ok r" and plan: "PrepareFileMutation r n request = Inr plan"
  defines "r' \<equiv> reload (mutation_images plan) r"
  shows "volume_ok r' \<and> (\<exists>inode inode'. ReadInode r n = Inr inode \<and> ReadInode r' n = Inr inode'
      \<and> file_contents r' inode' = file_after request (file_contents r inode)
      \<and> generation inode' = generation inode + 1 \<and> mode inode' = mode inode)
    \<and> (\<forall>m i. m \<noteq> n \<and> ReadInode r m = Inr i \<longrightarrow> ReadInode r' m = Inr i \<and> file_contents r' i = file_contents r i)
    \<and> (\<forall>m es. ListDirectory r m = Inr es \<longrightarrow> ListDirectory r' m = Inr es)"
proof -
  obtain inode old ps mapping ind a tb bs where run: "mutation_run r n request plan inode old ps mapping ind a tb bs"
    by (rule PrepareFileMutation_run [OF ok plan])
  note vo = mutation_volume_ok [OF ok run] and u = mutation_step_facts(3) [OF ok run] and f = mutation_run_facts(10) [OF ok run]
    and m = mutated_fields [OF ok run]
  have "ListDirectory r' k = Inr es" if "ListDirectory r k = Inr es" for k es
  proof -
    have "k \<noteq> n" using ListDirectory_ok(3) [OF that] f m(3,11) by auto
    then show ?thesis using change_lists [OF u vo(2) _ that] by (simp add: r'_def)
  qed
  then show ?thesis
    using vo(1) f mutated_read [OF ok run] mutated_contents [OF ok run] m(3,10) changes_only_inode(1,5) [OF u]
    unfolding r'_def by blast
qed

text \<open>
  C2: a prepared file mutation does what its request says.  On the volume with the
  images of the plan the file has the contents that the request specifies, a write at an
  offset, behind the end with a gap of zeros, or a complete replacement, and the next
  generation.  The volume stays consistent, and every other file and every directory
  listing is unchanged.
\<close>

theorem PrepareFileMutation_correct:
  assumes "volume_ok r" "PrepareFileMutation r n request = Inr plan"
  shows "volume_ok (reload (mutation_images plan) r)
    \<and> (\<exists>inode inode'. ReadInode r n = Inr inode \<and> ReadInode (reload (mutation_images plan) r) n = Inr inode'
      \<and> file_contents (reload (mutation_images plan) r) inode' = file_after request (file_contents r inode)
      \<and> generation inode' = generation inode + 1 \<and> mode inode' = mode inode)
    \<and> (\<forall>m i. m \<noteq> n \<and> ReadInode r m = Inr i \<longrightarrow> ReadInode (reload (mutation_images plan) r) m = Inr i
         \<and> file_contents (reload (mutation_images plan) r) i = file_contents r i)
    \<and> (\<forall>m es. ListDirectory r m = Inr es \<longrightarrow> ListDirectory (reload (mutation_images plan) r) m = Inr es)"
  by (rule mutation_effect [OF assms])

theorem PrepareFileMutation_correct_witness:
  "\<exists>plan inode'. PrepareFileMutation volume_reader 3 volume_request = Inr plan
    \<and> ReadInode (reload (mutation_images plan) volume_reader) 3 = Inr inode'
    \<and> file_contents (reload (mutation_images plan) volume_reader) inode' = [0, 0, 7, 8, 9]"
proof -
  obtain plan where plan: "PrepareFileMutation volume_reader 3 volume_request = Inr plan" using volume_plan by blast
  have "file_contents volume_reader volume_file = []" by (simp add: file_contents_def volume_file_def)
  moreover have "file_after volume_request [] = [0, 0, 7, 8, 9]" by code_simp
  ultimately have "file_after volume_request (file_contents volume_reader volume_file) = [0, 0, 7, 8, 9]" by simp
  then show ?thesis using PrepareFileMutation_correct [OF volume_reader_ok plan] plan volume_reader_inodes(2) by auto
qed

text \<open>
  C11: the planner succeeds whenever it should: on a consistent volume every request that
  fits the size limit, on a regular file with the expected generation, gets a plan when
  there is one free block for every block to rewrite and one more.
\<close>

theorem PrepareFileMutation_succeeds:
  assumes "volume_ok r" "ReadInode r n = Inr inode" "S_ISREG (mode inode)" "mutation_fits request"
    and "replaces request \<longrightarrow> generation inode = expected_generation request" "generation inode \<noteq> 0xFFFFFFFFFFFFFFFF"
    and "changed_to inode request - changed_from inode request < card (free_bits (block_allocator r))"
  shows "\<exists>plan. PrepareFileMutation r n request = Inr plan"
  by (rule PrepareFileMutation_succeeds_aux [OF assms])

theorem PrepareFileMutation_succeeds_witness:
  "\<exists>plan. PrepareFileMutation volume_reader 3 volume_request = Inr plan"
proof (rule PrepareFileMutation_succeeds [OF volume_reader_ok volume_reader_inodes(2)])
  show "S_ISREG (mode volume_file)" "generation volume_file \<noteq> 0xFFFFFFFFFFFFFFFF" "mutation_fits volume_request"
    "replaces volume_request \<longrightarrow> generation volume_file = expected_generation volume_request"
    by (rule volume_request_ok)+
  show "changed_to volume_file volume_request - changed_from volume_file volume_request
      < card (free_bits (block_allocator volume_reader))" by (rule volume_room)
qed

text \<open>
  C1: a file mutation survives a crash.  The transaction of a plan is executed on the
  disk that the plan was made from, the machine stops at any point of it with any subset
  of the unsynced writes on the disk, and recovery runs, itself interrupted any number of
  times.  Then recovery succeeds, the disk opens as a consistent volume, the file has
  exactly its old or exactly its new contents and no other file has changed: the old
  contents before the COMMIT record was written, the new ones once it was synced.
\<close>

theorem file_mutation_crash_safe:
  assumes "volume_ok r" "open_disk sb d = Inr r" "\<forall>n. length (d n) = kBlockSize" "quiescent sb cur copy d"
    and "PrepareFileMutation r n request = Inr plan"
    and "PlanRingReservation cur (length (mutation_metadata plan)) = Inr p"
    and "\<forall>x \<in> set (mutation_metadata plan). isl (DecodeCommit (snd x))"
    and "ExecuteJournalTransaction (Inr (quiet_device d (image_size sb))) (mutation_before plan) (mutation_ordered plan)
      (mutation_metadata plan) (mutation_total_blocks plan) (mutation_uuid plan) = (res, fail_closed, Some s)"
    and "crash_after d (take k (dev_log (store_device s))) img"
    and "tears_detected sb d (dev_blocks (store_device s)) img"
    and "recovery_attempts sb d (dev_blocks (store_device s)) img img'"
  shows "\<exists>committed action dev r' inode inode'. res = Inr () \<and> RecoverImage (image_size sb) img' = (Inr action, dev)
    \<and> open_disk sb (dev_blocks dev) = Inr r' \<and> volume_ok r'
    \<and> ReadInode r n = Inr inode \<and> ReadInode r' n = Inr inode'
    \<and> file_contents r' inode' = (if committed then file_after request (file_contents r inode) else file_contents r inode)
    \<and> (\<forall>m i. m \<noteq> n \<and> ReadInode r m = Inr i \<longrightarrow> ReadInode r' m = Inr i \<and> file_contents r' i = file_contents r i)
    \<and> (syncs (take k (dev_log (store_device s))) < length (ordered_phase (mutation_ordered plan)) + 2 \<longrightarrow> \<not> committed)
    \<and> (length (ordered_phase (mutation_ordered plan)) + 3 \<le> syncs (take k (dev_log (store_device s))) \<longrightarrow> committed)"
proof -
  have mnt: "mountable sb cur copy d" using assms(4) by (simp add: quiescent_def)
  have r: "r = disk_reader sb cur copy d" by (rule open_disk_is_reader(1) [OF mnt assms(3,2)])
  note id = mountable_identity [OF mnt assms(3) [rule_format]]
  obtain inode old ps mapping ind a tb bs where run: "mutation_run r n request plan inode old ps mapping ind a tb bs"
    by (rule PrepareFileMutation_run [OF assms(1,5)])
  note tx = mutation_transaction_ok [OF assms(1) run r id(3,1,2) assms(6)] and f = mutation_run_facts [OF assms(1) run]
  have sb: "superblock r = sb" by (simp add: r disk_reader_def)
  have pl: "mutation_total_blocks plan = total_blocks sb" "mutation_uuid plan = filesystem_uuid sb"
    using run unfolding mutation_run_def sb by blast+
  have tset: "tx_setup sb cur copy d (mutation_before plan) (mutation_ordered plan) (mutation_metadata plan) p"
    using assms(4,7) tx by (simp add: tx_setup_def)
  have e: "res = Inr ()" "dev_log (store_device s) = phase_log (tx_phases sb copy p (mutation_ordered plan) (mutation_metadata plan))"
    "dev_blocks (store_device s) = tx_final sb copy p (mutation_ordered plan) (mutation_metadata plan) d"
    using Execute_quiet [OF mnt tx] assms(8) unfolding pl by (auto simp: tx_final_def)
  have free: "\<forall>b \<in> keys (mutation_ordered plan). region_start (data sb) \<le> unat b \<and> \<not> TestBit (block_bitmap_bytes r) (unat b)"
    using f(2) unfolding mutation_keys(2) [OF run] sb by (auto simp: taken_blocks_def)
  note eff = mutation_effect [OF assms(1,5)]
  have after: "volume_ok (reload (mutation_ordered plan @ mutation_metadata plan) r)" using eff by (simp add: mutation_images_def)
  obtain committed action dev r' where c: "RecoverImage (image_size sb) img' = (Inr action, dev)"
    "open_disk sb (dev_blocks dev) = Inr r'" "volume_ok r'"
    "same_files (if committed then reload (mutation_images plan) r else r) r'"
    "syncs (take k (dev_log (store_device s))) < length (ordered_phase (mutation_ordered plan)) + 2 \<longrightarrow> \<not> committed"
    "length (ordered_phase (mutation_ordered plan)) + 3 \<le> syncs (take k (dev_log (store_device s))) \<longrightarrow> committed"
    using volume_crash [OF assms(1-3) tset free after] assms(9-11) unfolding e(2,3) mutation_images_def by blast
  obtain inode inode1 where i: "ReadInode r n = Inr inode" "ReadInode (reload (mutation_images plan) r) n = Inr inode1"
    "file_contents (reload (mutation_images plan) r) inode1 = file_after request (file_contents r inode)" using eff by blast
  define inode' where "inode' = (if committed then inode1 else inode)"
  have "ReadInode r' n = Inr inode'"
    "file_contents r' inode' = (if committed then file_after request (file_contents r inode) else file_contents r inode)"
    using c(4) i by (auto simp: same_files_def inode'_def)
  moreover have "ReadInode r' m = Inr j \<and> file_contents r' j = file_contents r j" if "m \<noteq> n" "ReadInode r m = Inr j" for m j
  proof -
    have "ReadInode (reload (mutation_images plan) r) m = Inr j"
      "file_contents (reload (mutation_images plan) r) j = file_contents r j" using eff that by blast+
    then show ?thesis using same_files_file [OF c(4), of m j] that(2) by (cases committed) simp_all
  qed
  ultimately show ?thesis using e(1) c i(1) by blast
qed

lemma volume_metadata:
  assumes plan: "PrepareFileMutation volume_reader 3 request = Inr plan" and small: "\<not> new_indirect_needed volume_file request"
  shows "length (mutation_metadata plan) \<le> 2" "\<forall>x \<in> set (mutation_metadata plan). isl (DecodeCommit (snd x))"
proof -
  obtain inode old ps mapping ind a tb bs where run: "mutation_run volume_reader 3 request plan inode old ps mapping ind a tb bs"
    by (rule PrepareFileMutation_run [OF volume_reader_ok plan])
  note f = mutation_run_facts [OF volume_reader_ok run] and k = mutation_keys [OF run]
  have i: "inode = volume_file" using f(10) volume_reader_inodes(2) by simp
  have ni: "\<not> new_indirect_needed inode request" using small by (simp add: i)
  have tbl: "InodeTableBlock volume_superblock 3 = 3" "InodeOffsetInBlock 3 = 256"
    by (simp_all add: InodeTableBlock_def InodeOffsetInBlock_def Let_def volume_superblock_fields)
  let ?bp = "bitmap_puts (block_bitmap volume_superblock) volume_block_bits (bitmap_of a) (bitmap_of a) [0..<1]"
  have md: "mutation_metadata plan = map_put 3 (put_bytes 256 bs tb) (puts ?bp [])"
    and tb: "ReadBlock volume_reader 3 = Inr tb"
    using run ni unfolding mutation_run_def volume_reader_fields tbl by (simp_all add: volume_superblock_fields)
  have bp: "set ?bp \<subseteq> {(2, BitmapBlock (bitmap_of a) 0)}" by (auto simp: bitmap_puts_def volume_superblock_fields)
  have st: "set (mutation_metadata plan) \<subseteq> {(3, put_bytes 256 bs tb), (2, BitmapBlock (bitmap_of a) 0)}"
    unfolding md using set_map_put [of 3 "put_bytes 256 bs tb" "puts ?bp []"] set_puts [of ?bp "[]"] bp by auto
  have "distinct (mutation_metadata plan)" using k(5) by (simp add: strict_sorted_iff distinct_map)
  then have "length (mutation_metadata plan) = card (set (mutation_metadata plan))" by (simp add: distinct_card)
  also have "\<dots> \<le> card {(3 :: u32, put_bytes 256 bs tb), (2, BitmapBlock (bitmap_of a) 0)}" using st by (intro card_mono) simp_all
  also have "\<dots> \<le> 2" by (simp add: card_insert_le_m1)
  finally show "length (mutation_metadata plan) \<le> 2" .
  have tbv: "tb = volume_table"
    using tb ReadBlock_whole [OF volume_okD(1,2) [OF volume_reader_ok], of 3]
    by (simp add: volume_reader_fields volume_superblock_fields disk_pread_def volume_disk_def)
  have "get_bytes 0 8 (put_bytes 256 bs tb) = replicate 8 0"
    using volume_inodes run by (auto simp: tbv volume_table_def byte_simps mutation_run_def EncodeInode_def Let_def split: if_splits)
  moreover have "replicate 8 0 \<noteq> kCommitMagic" by (auto simp: kCommitMagic_def dest!: arg_cong [where f = "\<lambda>l. l ! 0"])
  ultimately have c1: "isl (DecodeCommit (put_bytes 256 bs tb))" by (simp only: DecodeCommit_def) simp
  have "file_blocks volume_reader volume_file = {}"
    by (simp add: file_blocks_def map_blocks_def RequiredBlocks_def volume_file_def sample_inode_def)
  then have "TestBit (bitmap_of a) 1"
    using f(4) [of 1] volume_bits(3) [of 1] gone_blocks_owned [OF run] by (auto simp: volume_reader_fields i)
  then have b1: "bit (bitmap_of a ! 0) 1" by (simp add: TestBit_iff)
  have c2: "isl (DecodeCommit (BitmapBlock (bitmap_of a) 0))"
  proof (rule ccontr)
    assume "\<not> isl (DecodeCommit (BitmapBlock (bitmap_of a) 0))"
    then have "get_bytes 0 8 (BitmapBlock (bitmap_of a) 0) = kCommitMagic" by (auto simp: DecodeCommit_def split: if_splits)
    then have "get_bytes 0 8 (BitmapBlock (bitmap_of a) 0) ! 0 = 0x45" by (simp add: kCommitMagic_def)
    moreover have "length (bitmap_of a) = 4096" using f(3) by (simp add: volume_reader_fields volume_block_bits_def)
    ultimately have "bitmap_of a ! 0 = 0x45" by (simp add: BitmapBlock_def get_bytes_def)
    then show False using b1 by simp
  qed
  show "\<forall>x \<in> set (mutation_metadata plan). isl (DecodeCommit (snd x))" using st c1 c2 by auto
qed

theorem file_mutation_crash_safe_witness:
  "\<exists>plan action dev r' inode'. PrepareFileMutation volume_reader 3 volume_request = Inr plan
    \<and> RecoverImage (image_size volume_superblock) volume_disk = (Inr action, dev)
    \<and> open_disk volume_superblock (dev_blocks dev) = Inr r' \<and> volume_ok r'
    \<and> ReadInode r' 3 = Inr inode' \<and> file_contents r' inode' = []"
proof -
  obtain plan where plan: "PrepareFileMutation volume_reader 3 volume_request = Inr plan" using volume_plan by blast
  note m = volume_metadata [OF plan volume_request_small]
  obtain inode old ps mapping ind a tb bs where run: "mutation_run volume_reader 3 volume_request plan inode old ps mapping ind a tb bs"
    by (rule PrepareFileMutation_run [OF volume_reader_ok plan])
  have "0 < length (mutation_metadata plan)" using mutation_keys(6) [OF run] by simp
  then have "\<exists>p. PlanRingReservation volume_current (length (mutation_metadata plan)) = Inr p"
    unfolding PlanRingReservation_Inr using m(1)
    by (simp add: ValidateControlFields_nat volume_current_def volume_control_def sample_ring_control_def)
  then obtain p where p: "PlanRingReservation volume_current (length (mutation_metadata plan)) = Inr p" by blast
  have whole: "\<forall>n. length (volume_disk n) = kBlockSize" using volume_disk_whole by blast
  note id = mountable_identity [OF volume_mountable volume_disk_whole]
  note tx = mutation_transaction_ok [OF volume_reader_ok run volume_reader_def id(3,1,2) p]
  have pl: "mutation_total_blocks plan = total_blocks volume_superblock" "mutation_uuid plan = filesystem_uuid volume_superblock"
    using run unfolding mutation_run_def volume_reader_fields by blast+
  obtain s where s: "ExecuteJournalTransaction (Inr (quiet_device volume_disk (image_size volume_superblock))) (mutation_before plan)
      (mutation_ordered plan) (mutation_metadata plan) (mutation_total_blocks plan) (mutation_uuid plan) = (Inr (), False, Some s)"
    using Execute_quiet [OF volume_mountable tx] unfolding pl by blast
  have ca: "crash_after volume_disk (take 0 (dev_log (store_device s))) volume_disk" by (simp add: crash_after_def crash_image_def)
  have td: "tears_detected volume_superblock volume_disk (dev_blocks (store_device s)) volume_disk" by (simp add: tears_detected_def)
  have "file_contents volume_reader volume_file = []" by (simp add: file_contents_def volume_file_def)
  then show ?thesis
    using file_mutation_crash_safe [OF volume_reader_ok volume_open whole volume_quiescent plan p m(2) s ca td attempts_none]
      plan volume_reader_inodes(2) by fastforce
qed

end
