(* ===== verification/ImageSession.thy ===== *)
theory ImageSession
  imports VolumeTransactions
begin

text \<open>
  The owner of an open image (\<^verbatim>\<open>src/src/storage/mounted_image_session.{h,cpp}\<close>): it holds
  the locked descriptor and duplicates it for the journal and for the reader.  The FUSE
  mount and the object backend both run their transactions through a session, so the lemmas
  on a transaction that succeeds under arbitrary answers of the operating system are here.
\<close>

section \<open>Sessions\<close>

text \<open>
  A session owns the image file: its blocks and its length.  The answers that the operating
  system gives during one operation are arguments: the result of duplicating the descriptor
  for the journal and for the reader, the script of the journal's system calls, and the
  answers that the new reader gets.
\<close>

record MountedImageSession =
  session_blocks :: disk
  session_bytes :: nat

record os_answers =
  dup_for_journal :: "errno option"
  journal_script :: "io_outcome list"
  dup_for_reader :: "errno option"
  reader_getfl :: "errno + bool"
  reader_fstat :: "errno option"
  reader_faults :: "nat \<Rightarrow> errno option"

definition SessionOpen ::
  "string \<Rightarrow> (string \<Rightarrow> errno + MountedImageSession) \<Rightarrow> (MountedImageSession \<Rightarrow> errno option) \<Rightarrow> errno + MountedImageSession" where
  "SessionOpen image_path open_call flock_call =
    (if image_path = [] then Inl EINVAL
     else case open_call image_path of
       Inl e \<Rightarrow> Inl e
     | Inr fd \<Rightarrow>
       (case flock_call fd of
          Some e \<Rightarrow> Inl (if e = EAGAIN then EBUSY else e)
        | None \<Rightarrow> Inr fd))"

definition DuplicateFd :: "errno option \<Rightarrow> 'fd \<Rightarrow> errno + 'fd" where
  "DuplicateFd answer fd = (case answer of Some e \<Rightarrow> Inl e | None \<Rightarrow> Inr fd)"

text \<open>The duplicated descriptor in the hands of the journal and of the reader.\<close>

definition journal_device :: "io_outcome list \<Rightarrow> MountedImageSession \<Rightarrow> device" where
  "journal_device script session = \<lparr>dev_blocks = session_blocks session, dev_size = session_bytes session,
     dev_rdwr = True, dev_log = [], dev_script = script\<rparr>"

definition session_pread :: "(nat \<Rightarrow> errno option) \<Rightarrow> MountedImageSession \<Rightarrow> nat \<Rightarrow> errno + bytes" where
  "session_pread faults session n = (case faults n of Some e \<Rightarrow> Inl e | None \<Rightarrow> Inr (session_blocks session n))"

definition SessionReader :: "os_answers \<Rightarrow> MountedImageSession \<Rightarrow> errno + ImageReader" where
  "SessionReader ans session =
    bind_result (DuplicateFd (dup_for_reader ans) session) (\<lambda>fd.
    ReaderAdoptLockedFd (reader_getfl ans)
      (case reader_fstat ans of Some e \<Rightarrow> Inl e | None \<Rightarrow> Inr (session_bytes fd))
      (session_pread (reader_faults ans) fd))"

text \<open>One transaction of a session: the blocks of the image file afterwards.\<close>

definition SessionExecute ::
  "os_answers \<Rightarrow> block_map \<Rightarrow> block_map \<Rightarrow> block_map \<Rightarrow> u32 \<Rightarrow> bytes \<Rightarrow> MountedImageSession
    \<Rightarrow> (errno + unit) \<times> bool \<times> MountedImageSession" where
  "SessionExecute ans before_images ordered_images metadata_images blocks uuid session =
    (case ExecuteJournalTransaction (DuplicateFd (dup_for_journal ans) (journal_device (journal_script ans) session))
        before_images ordered_images metadata_images blocks uuid of
       (res, fail_closed, None) \<Rightarrow> (res, fail_closed, session)
     | (res, fail_closed, Some store) \<Rightarrow>
         (res, fail_closed, session\<lparr>session_blocks := dev_blocks (store_device store)\<rparr>))"

text \<open>Recovery at the start of a session.\<close>

definition SessionRecover ::
  "os_answers \<Rightarrow> MountedImageSession \<Rightarrow> (errno + RecoveryAction) \<times> MountedImageSession" where
  "SessionRecover ans session =
    (case DuplicateFd (dup_for_journal ans) (journal_device (journal_script ans) session) of
       Inl e \<Rightarrow> (Inl e, session)
     | Inr dev \<Rightarrow>
       (case AdoptLockedFd dev of
          (Inl e, _) \<Rightarrow> (Inl e, session)
        | (Inr store, _) \<Rightarrow>
          (case ResolveRecovery store of
             (res, store) \<Rightarrow> (res, session\<lparr>session_blocks := dev_blocks (store_device store)\<rparr>))))"

section \<open>Successful operations met no fault\<close>

text \<open>
  A successful operation consumed only successful answers of the script, so it did what it
  does on a device without faults.
\<close>

definition no_faults :: "device \<Rightarrow> device" where
  "no_faults dev = dev\<lparr>dev_script := []\<rparr>"

definition no_store_faults :: "JournalStore \<Rightarrow> JournalStore" where
  "no_store_faults s = s\<lparr>store_device := no_faults (store_device s)\<rparr>"

named_theorems no_faults \<open>a successful operation on the device without faults\<close>

lemma no_faults_sel [simp]:
  "dev_blocks (no_faults dev) = dev_blocks dev" "dev_size (no_faults dev) = dev_size dev" "dev_rdwr (no_faults dev) = dev_rdwr dev"
  "dev_log (no_faults dev) = dev_log dev" "dev_script (no_faults dev) = []"
  by (simp_all add: no_faults_def)

lemma no_store_faults_sel [simp]:
  "store_device (no_store_faults s) = no_faults (store_device s)" "store_superblock (no_store_faults s) = store_superblock s"
  "current (no_store_faults s) = current s" "current_copy (no_store_faults s) = current_copy s"
  "durable_body (no_store_faults s) = durable_body s" "metadata_after_images (no_store_faults s) = metadata_after_images s"
  "commit_durable (no_store_faults s) = commit_durable s" "checkpointed (no_store_faults s) = checkpointed s"
  "reload_required (no_store_faults s) = reload_required s"
  by (simp_all add: no_store_faults_def)

lemma no_faults_device [no_faults]:
  "Fstat dev = (Inr v, dev') \<Longrightarrow> Fstat (no_faults dev) = (Inr v, no_faults dev')"
  "Fcntl dev = (Inr b, dev') \<Longrightarrow> Fcntl (no_faults dev) = (Inr b, no_faults dev')"
  "PreadBlock n dev = (Inr x, dev') \<Longrightarrow> PreadBlock n (no_faults dev) = (Inr x, no_faults dev')"
  "PwriteBlock n c dev = (Inr u, dev') \<Longrightarrow> PwriteBlock n c (no_faults dev) = (Inr u, no_faults dev')"
  "Fdatasync dev = (Inr u, dev') \<Longrightarrow> Fdatasync (no_faults dev) = (Inr u, no_faults dev')"
  by (auto simp: Fstat_def Fcntl_def PreadBlock_def PwriteBlock_def Fdatasync_def next_outcome_def no_faults_def store_block_def
      split: list.splits io_outcome.splits if_splits)

lemma step_Inr_iff:
  "(case p of (Inl e, s) \<Rightarrow> (Inl e, g e s) | (Inr v, s) \<Rightarrow> h v s) = (Inr w, t) \<longleftrightarrow> (\<exists>v s. p = (Inr v, s) \<and> h v s = (Inr w, t))"
  by (auto split: prod.splits sum.splits)

lemma step_if_iff: "(if c then (Inl e, s) else x) = (Inr w, t) \<longleftrightarrow> \<not> c \<and> x = (Inr w, t)"
  by auto

lemma step_sum_iff:
  "(case x of Inl a \<Rightarrow> (Inl (f a), s) | Inr b \<Rightarrow> g b) = (Inr w, t) \<longleftrightarrow> (\<exists>b. x = Inr b \<and> g b = (Inr w, t))"
  "(case y of None \<Rightarrow> (Inl e, s) | Some k \<Rightarrow> h k) = (Inr w, t) \<longleftrightarrow> (\<exists>k. y = Some k \<and> h k = (Inr w, t))"
  by (auto split: sum.splits option.splits)

lemmas step_iffs = step_Inr_iff step_if_iff step_sum_iff

lemma no_faults_PwriteBlocks [no_faults]:
  "PwriteBlocks ws dev = (Inr u, dev') \<Longrightarrow> PwriteBlocks ws (no_faults dev) = (Inr u, no_faults dev')"
proof (induction ws dev rule: PwriteBlocks.induct)
  case (2 n content rest dev)
  then show ?case by (auto simp: step_iffs no_faults_device(4))
qed simp

lemma no_faults_store [no_faults]:
  "StoreWrite ws s = (Inr u, s') \<Longrightarrow> StoreWrite ws (no_store_faults s) = (Inr u, no_store_faults s')"
  "StoreSync s = (Inr u, s') \<Longrightarrow> StoreSync (no_store_faults s) = (Inr u, no_store_faults s')"
  by (auto simp: StoreWrite_def StoreSync_def no_store_faults_def step_iffs no_faults_PwriteBlocks no_faults_device(5))

lemma no_faults_WriteAndSync [no_faults]:
  "WriteAndSync ws s = (Inr u, s') \<Longrightarrow> WriteAndSync ws (no_store_faults s) = (Inr u, no_store_faults s')"
  by (auto simp: WriteAndSync_def step_iffs no_faults_store)

lemma no_faults_Observe [simp]: "Observe stage (no_store_faults s) = no_store_faults (Observe stage s)"
  by (simp add: Observe_def no_store_faults_def)

lemma no_faults_update [simp]:
  "no_store_faults s\<lparr>current := c, current_copy := copy\<rparr> = no_store_faults (s\<lparr>current := c, current_copy := copy\<rparr>)"
  "no_store_faults s\<lparr>durable_body := b, metadata_after_images := m\<rparr> = no_store_faults (s\<lparr>durable_body := b, metadata_after_images := m\<rparr>)"
  "no_store_faults s\<lparr>commit_durable := x\<rparr> = no_store_faults (s\<lparr>commit_durable := x\<rparr>)"
  "no_store_faults s\<lparr>checkpointed := x\<rparr> = no_store_faults (s\<lparr>checkpointed := x\<rparr>)"
  "no_store_faults s\<lparr>store_device := no_faults dev\<rparr> = no_store_faults (s\<lparr>store_device := dev\<rparr>)"
  by (simp_all add: no_store_faults_def)

lemma no_faults_PersistNext [no_faults]:
  "PersistNext c s = (Inr u, s') \<Longrightarrow> PersistNext c (no_store_faults s) = (Inr u, no_store_faults s')"
  by (auto simp: PersistNext_def Let_def step_iffs no_faults_WriteAndSync)

lemma no_faults_WritePayloads [no_faults]:
  "WritePayloads is images s = (Inr u, s') \<Longrightarrow> WritePayloads is images (no_store_faults s) = (Inr u, no_store_faults s')"
proof (induction "is" images s rule: WritePayloads.induct)
  case (1 index indices home payload rest s)
  from 1(2) obtain n t where n: "RingOffset (store_superblock s) index = Some n" "StoreWrite [(unat n, payload)] s = (Inr (), t)"
    "WritePayloads indices rest t = (Inr u, s')" by (auto simp: step_iffs)
  show ?case using 1(1) [OF n(1) n(2) [symmetric] refl n(3)] no_faults_store(1) [OF n(2)] n(1) by simp
qed simp_all

lemma no_faults_WriteUnexposedBody [no_faults]:
  assumes "WriteUnexposedBody p images s = (Inr u, s')"
  shows "WriteUnexposedBody p images (no_store_faults s) = (Inr u, no_store_faults s')"
proof -
  obtain e d c n s1 s2 s3 where c: "\<not> reload_required s" "\<not> (used_blocks (current s) \<noteq> 0 \<or> durable_body s \<noteq> None)"
    "PlanRingReservation (current s) (length images) = Inr e" "\<not> \<not> SameReservation p e"
    "\<not> \<not> list_all (\<lambda>(home, _). IsValidMetadataTarget (store_superblock s) home) images"
    "EncodeDescriptor (make_descriptor (store_superblock s) p images) = Inr (d, c)"
    "RingOffset (store_superblock s) (plan_descriptor_ring_index p) = Some n"
    "StoreWrite [(unat n, d)] s = (Inr (), s1)" "WritePayloads (payload_ring_indices p) images s1 = (Inr (), s2)"
    "StoreSync s2 = (Inr (), s3)"
    "u = \<lparr>reservation = p, body_entry_count = of_nat (length images), body_descriptor_crc32c = c\<rparr>"
    "s' = (Observe kJournalBody s3)\<lparr>durable_body := Some u, metadata_after_images := images\<rparr>"
    using assms unfolding WriteUnexposedBody_def Let_def step_iffs split_paired_Ex prod.case
    by - (elim exE conjE, rule that, assumption+, simp_all add: unit_eq, elim conjE, hypsubst, rule refl)
  show ?thesis
    unfolding WriteUnexposedBody_def Let_def no_store_faults_sel c(3) sum.case c(6,7) prod.case option.case
      no_faults_store(1) [OF c(8)] no_faults_WritePayloads [OF c(9)] no_faults_store(2) [OF c(10)]
      if_not_P [OF c(1)] if_not_P [OF c(2)] if_not_P [OF c(4)] if_not_P [OF c(5)]
    by (simp add: c(11,12))
qed

lemma no_faults_CheckBeforeImages [no_faults]:
  "CheckBeforeImages images s = (Inr u, s') \<Longrightarrow> CheckBeforeImages images (no_store_faults s) = (Inr u, no_store_faults s')"
proof (induction images s rule: CheckBeforeImages.induct)
  case (2 block expected rest s)
  from 2(2) obtain dev where d: "\<not> total_blocks (store_superblock s) \<le> block" "PreadBlock (unat block) (store_device s) = (Inr expected, dev)"
    "CheckBeforeImages rest (s\<lparr>store_device := dev\<rparr>) = (Inr u, s')" by (auto simp: step_iffs)
  show ?case using 2(1) [OF d(1) d(2) [symmetric] refl _ d(3)] no_faults_device(3) [OF d(2)] d(1) by simp
qed simp

lemma no_faults_WriteOrdered [no_faults]:
  assumes "WriteOrderedDataAndUnexposedBody t u b om m s = (Inr x, s')"
  shows "WriteOrderedDataAndUnexposedBody t u b om m (no_store_faults s) = (Inr x, no_store_faults s')"
proof -
  let ?rest = "\<lambda>p s1. if om = [] then WriteUnexposedBody p m s1
          else case WriteAndSync (home_writes om) s1 of (Inl e, s) \<Rightarrow> (Inl e, s)
          | (Inr _, s) \<Rightarrow> WriteUnexposedBody p m (Observe kOrderedData s)"
  have rest: "?rest p (no_store_faults s1) = (Inr x, no_store_faults s')" if r: "?rest p s1 = (Inr x, s')" for p s1
  proof (cases "om = []")
    case False
    then obtain y s2 where "WriteAndSync (home_writes om) s1 = (Inr y, s2)" "WriteUnexposedBody p m (Observe kOrderedData s2) = (Inr x, s')"
      using r by (auto simp: step_Inr_iff)
    then show ?thesis using False no_faults_WriteAndSync no_faults_WriteUnexposedBody by fastforce
  qed (use r no_faults_WriteUnexposedBody in simp)
  show ?thesis
    using assms unfolding WriteOrderedDataAndUnexposedBody_def Let_def step_iffs no_store_faults_sel
    by - (elim exE conjE, intro conjI exI, assumption+, erule no_faults_CheckBeforeImages, erule rest)
qed

lemma no_faults_WriteHomeBlocks [no_faults]:
  "WriteHomeBlocks images s = (Inr u, s') \<Longrightarrow> WriteHomeBlocks images (no_store_faults s) = (Inr u, no_store_faults s')"
proof (induction images s rule: WriteHomeBlocks.induct)
  case (2 home content rest s)
  from 2(2) obtain t where t: "IsValidMetadataTarget (store_superblock s) home" "StoreWrite [(unat home, content)] s = (Inr (), t)"
    "WriteHomeBlocks rest t = (Inr u, s')" by (auto simp: step_iffs)
  show ?case using 2(1) [OF _ t(2) [symmetric] refl t(3)] no_faults_store(1) [OF t(2)] t(1) by simp
qed simp

lemma no_faults_stages [no_faults]:
  "ExposeDurableBody s = (Inr u, s') \<Longrightarrow> ExposeDurableBody (no_store_faults s) = (Inr u, no_store_faults s')"
  "WriteCommit s = (Inr u, s') \<Longrightarrow> WriteCommit (no_store_faults s) = (Inr u, no_store_faults s')"
  unfolding ExposeDurableBody_def WriteCommit_def
  by (auto simp: step_iffs no_faults_WriteAndSync no_faults_PersistNext)

lemma no_faults_Complete [no_faults]:
  assumes "CompleteCommittedTransaction s = (Inr u, s')"
  shows "CompleteCommittedTransaction (no_store_faults s) = (Inr u, no_store_faults s')"
proof -
  obtain s1 s2 s3 where c: "\<not> reload_required s" "\<not> (durable_body s = None \<or> \<not> commit_durable s \<or> metadata_after_images s = [])"
    "\<not> checkpointed s" "WriteHomeBlocks (metadata_after_images s) s = (Inr (), s1)" "StoreSync s1 = (Inr (), s2)"
    "PersistNext (clean_control (current (Observe kHomeBlocks s2))) (Observe kHomeBlocks s2) = (Inr (), s3)"
    "s' = (Observe kCheckpoint s3)\<lparr>checkpointed := True\<rparr>"
    using assms unfolding CompleteCommittedTransaction_def Let_def step_iffs
    by - (elim exE conjE, rule that, assumption+, simp_all add: unit_eq, erule sym)
  show ?thesis
    unfolding CompleteCommittedTransaction_def Let_def no_store_faults_sel no_faults_WriteHomeBlocks [OF c(4)]
      no_faults_store(2) [OF c(5)] prod.case sum.case no_faults_Observe no_faults_PersistNext [OF c(6)]
      if_not_P [OF c(1)] if_not_P [OF c(2)] if_not_P [OF c(3)]
    by (simp add: c(7))
qed

lemma no_faults_Load [no_faults]:
  "LoadControlStateFromFd dev = (Inr v, dev') \<Longrightarrow> LoadControlStateFromFd (no_faults dev) = (Inr v, no_faults dev')"
  unfolding LoadControlStateFromFd_def
  by (auto simp: step_iffs no_faults_device)

lemma no_faults_Adopt [no_faults]:
  assumes "AdoptLockedFd dev = (Inr s, dev')"
  shows "AdoptLockedFd (no_faults dev) = (Inr (no_store_faults s), no_faults dev')"
proof -
  obtain d1 sb cur copy where a: "Fcntl dev = (Inr True, d1)" "LoadControlStateFromFd d1 = (Inr (sb, cur, copy), dev')"
    "s = MakeStore dev' sb cur copy" using assms unfolding AdoptLockedFd_def by (auto simp: step_iffs split: prod.splits)
  show ?thesis using no_faults_device(2) [OF a(1)] no_faults_Load [OF a(2)] a(3)
    by (simp add: AdoptLockedFd_def MakeStore_def no_store_faults_def)
qed

lemma no_faults_Execute:
  assumes "ExecuteJournalTransaction (Inr dev) b om m t u = (Inr x, f, st)"
  shows "f = False \<and> (\<exists>s. st = Some s
    \<and> ExecuteJournalTransaction (Inr (no_faults dev)) b om m t u = (Inr (), False, Some (no_store_faults s)))"
proof -
  obtain s0 d0 s1 v1 s2 v2 s3 v3 s where a: "AdoptLockedFd dev = (Inr s0, d0)"
    "WriteOrderedDataAndUnexposedBody t u b om m s0 = (Inr v1, s1)" "ExposeDurableBody s1 = (Inr v2, s2)"
    "WriteCommit s2 = (Inr v3, s3)" "CompleteCommittedTransaction s3 = (Inr (), s)" "st = Some s" "f = False"
    using assms unfolding ExecuteJournalTransaction_def by (auto split: prod.splits sum.splits)
  show ?thesis
    using no_faults_Adopt [OF a(1)] no_faults_WriteOrdered [OF a(2)] no_faults_stages(1) [OF a(3)]
      no_faults_stages(2) [OF a(4)] no_faults_Complete [OF a(5)] a(6,7)
    by (simp add: ExecuteJournalTransaction_def)
qed

section \<open>Committed transactions of a session\<close>

lemma completed_outcome:
  assumes tset: "tx_setup sb cur copy d before ordered images p"
  defines "d' \<equiv> tx_final sb copy p ordered images d"
  shows "\<exists>c. quiescent sb c copy d' \<and> tx_outcome sb ordered images True d d'"
proof -
  note s = setup_facts [OF tset]
  have t: "tears_detected sb d (tx_final sb copy p ordered images d) d'"
    by (simp add: tears_detected_def d'_def)
  let ?phases = "tx_phases sb copy p ordered images"
  have c: "crash_image (apply_writes (concat (take (length ?phases) ?phases)) d) (phase_at ?phases (length ?phases)) d'"
    by (simp add: d'_def tx_final_def phase_at_def crash_image_def)
  have "length ?phases = length (ordered_phase ordered) + 5" by (simp add: tx_phases_def tx_tail_def)
  then have C: "tx_class sb copy p ordered images d True d'" using crash_class(3) [OF tset c t] by simp
  have closed: "d' (control_block sb copy) = closing_block p" using tx_final_journal(2) [OF s(2)] by (simp add: d'_def)
  have "RecoverImage (image_size sb) d' = (Inr kNoAction, quiet_device d' (image_size sb))"
    using RecoverImage_clean [OF exposed_state_mount(1) [OF tset]] C plan_control_copies(6) [OF s(3)] closed
    by (simp add: tx_class_def committed_state_def)
  then show ?thesis using recover_class [OF tset t C] by auto
qed

text \<open>
  The invariant of a mounted session with the reader that was opened on it: an image of
  whole blocks with an empty journal, which the reader shows as a consistent volume.
\<close>

definition session_ok :: "Superblock \<Rightarrow> MountedImageSession \<Rightarrow> ImageReader \<Rightarrow> bool" where
  "session_ok sb session r \<longleftrightarrow> session_bytes session = image_size sb
    \<and> (\<forall>n. length (session_blocks session n) = kBlockSize)
    \<and> (\<exists>cur copy. quiescent sb cur copy (session_blocks session))
    \<and> open_disk sb (session_blocks session) = Inr r \<and> volume_ok r"

definition healthy_reader :: "os_answers \<Rightarrow> bool" where
  "healthy_reader ans \<longleftrightarrow> dup_for_reader ans = None \<and> reader_getfl ans = Inr False \<and> reader_fstat ans = None
    \<and> reader_faults ans = (\<lambda>_. None)"

lemma SessionReader_healthy:
  assumes "healthy_reader ans" "session_bytes session = image_size sb"
  shows "SessionReader ans session = open_disk sb (session_blocks session)"
proof -
  have "session_pread (\<lambda>_. None) session = disk_pread (session_blocks session)"
    by (simp add: session_pread_def disk_pread_def fun_eq_iff)
  then show ?thesis using assms by (simp add: healthy_reader_def SessionReader_def DuplicateFd_def open_disk_def)
qed

lemma quiet_reservation:
  assumes "mountable sb cur copy d"
    and "ExecuteJournalTransaction (Inr (quiet_device d (image_size sb))) b om m t u = (Inr x, f, st)"
  shows "\<exists>p. PlanRingReservation cur (length m) = Inr p"
proof -
  have "AdoptLockedFd (quiet_device d (image_size sb)) = (Inr (MakeStore (quiet_device d (image_size sb)) sb cur copy), quiet_device d (image_size sb))"
    using AdoptLockedFd_ok [of sb cur copy "quiet_device d (image_size sb)"] assms(1) by simp
  then obtain v s1 where w: "WriteOrderedDataAndUnexposedBody t u b om m (MakeStore (quiet_device d (image_size sb)) sb cur copy) = (Inr v, s1)"
    using assms(2) unfolding ExecuteJournalTransaction_def by (auto split: prod.splits sum.splits)
  have "current (MakeStore (quiet_device d (image_size sb)) sb cur copy) = cur" by (simp add: MakeStore_def)
  then show ?thesis using w unfolding WriteOrderedDataAndUnexposedBody_def Let_def step_iffs by metis
qed

lemma SessionExecute_failure:
  assumes "SessionExecute ans b om m t u session = (Inl e, f, session')"
  shows "f \<or> session' = session"
  using assms unfolding SessionExecute_def ExecuteJournalTransaction_def
  by (auto split: prod.splits sum.splits option.splits)

text \<open>
  A transaction on free blocks that leads to a consistent volume: when it succeeds, under
  whatever answers of the operating system, the session is consistent again and shows the
  new files.
\<close>

lemma SessionExecute_commits:
  assumes ok: "session_ok sb session r"
    and run: "SessionExecute ans before ordered images (total_blocks sb) (filesystem_uuid sb) session = (Inr x, f, session')"
    and tx: "\<And>cur copy p. quiescent sb cur copy (session_blocks session) \<Longrightarrow> PlanRingReservation cur (length images) = Inr p \<Longrightarrow>
      transaction_ok sb cur (session_blocks session) before ordered images p"
    and commits: "\<forall>x \<in> set images. isl (DecodeCommit (snd x))"
    and after: "volume_ok (reload (ordered @ images) r)"
  shows "\<not> f \<and> (\<exists>r'. session_ok sb session' r' \<and> same_files (reload (ordered @ images) r) r')"
proof -
  let ?d = "session_blocks session"
  obtain cur copy where s: "session_bytes session = image_size sb" "\<forall>n. length (?d n) = kBlockSize" "quiescent sb cur copy ?d"
    "open_disk sb ?d = Inr r" "volume_ok r" using ok by (auto simp: session_ok_def)
  have mnt: "mountable sb cur copy ?d" using s(3) by (simp add: quiescent_def)
  obtain st where e: "dup_for_journal ans = None"
    "ExecuteJournalTransaction (Inr (journal_device (journal_script ans) session)) before ordered images (total_blocks sb) (filesystem_uuid sb)
      = (Inr x, f, st)" "session' = (case st of None \<Rightarrow> session | Some t \<Rightarrow> session\<lparr>session_blocks := dev_blocks (store_device t)\<rparr>)"
    using run unfolding SessionExecute_def DuplicateFd_def
    by (cases "dup_for_journal ans") (auto simp: ExecuteJournalTransaction_def split: prod.splits option.splits)
  have nf: "no_faults (journal_device (journal_script ans) session) = quiet_device ?d (image_size sb)"
    by (simp add: no_faults_def journal_device_def s(1))
  obtain t where t: "\<not> f" "st = Some t" "ExecuteJournalTransaction (Inr (quiet_device ?d (image_size sb))) before ordered images
      (total_blocks sb) (filesystem_uuid sb) = (Inr (), False, Some (no_store_faults t))"
    using no_faults_Execute [OF e(2)] unfolding nf by blast
  obtain p where p: "PlanRingReservation cur (length images) = Inr p" using quiet_reservation [OF mnt t(3)] by blast
  have tset: "tx_setup sb cur copy ?d before ordered images p" using s(3) tx [OF s(3) p] commits by (simp add: tx_setup_def)
  note sf = setup_facts [OF tset]
  have d': "dev_blocks (store_device t) = tx_final sb copy p ordered images ?d"
    using Execute_quiet [OF sf(1,2)] t(3) by (auto simp: tx_final_def)
  obtain c where c: "quiescent sb c copy (dev_blocks (store_device t))"
    "tx_outcome sb ordered images True ?d (dev_blocks (store_device t))" using completed_outcome [OF tset] unfolding d' by blast
  have whole: "\<forall>n. length (dev_blocks (store_device t) n) = kBlockSize"
    using apply_writes_whole [OF s(2) tx_phases_whole [OF sf(2)]] unfolding d' tx_final_def by blast
  have rd: "r = disk_reader sb cur copy ?d" by (rule open_disk_is_reader(1) [OF mnt s(2,4)])
  have rf: "superblock r = sb" "reader_image_size r = image_size sb" "reader_pread r = disk_pread ?d"
    by (simp_all add: rd disk_reader_def)
  have so: "sorted_wrt (<) (map fst ordered)" "sorted_wrt (<) (map fst images)" "keys ordered \<inter> keys images = {}"
    using sf(2,3) by (auto simp: transaction_ok_def plan_ok_def images_ok_def keys_def)
  have pr: "reader_pread (reload (ordered @ images) r) n = Inr (dev_blocks (store_device t) n)" if "n \<notin> {n. in_journal sb n}" for n
    using c(2) that committed_view [OF so] by (simp add: tx_outcome_def agree_outside_def rf)
  have "open_disk sb (dev_blocks (store_device t)) = Inr (disk_reader sb c copy (dev_blocks (store_device t)))
    \<and> volume_ok (disk_reader sb c copy (dev_blocks (store_device t)))
    \<and> same_files (reload (ordered @ images) r) (disk_reader sb c copy (dev_blocks (store_device t)))"
    by (rule disk_view [OF after _ _ _ whole, where W = "{n. in_journal sb n}"]) (use pr rf c(1) in \<open>auto simp: quiescent_def\<close>)
  then show ?thesis using t(1,2) e(3) c(1) whole s(1) by (auto simp: session_ok_def)
qed

lemma session_mutation:
  assumes ok: "session_ok sb session r" and plan: "PrepareFileMutation r n request = Inr plan"
    and commits: "\<forall>x \<in> set (mutation_metadata plan). isl (DecodeCommit (snd x))"
    and run: "SessionExecute ans (mutation_before plan) (mutation_ordered plan) (mutation_metadata plan)
      (mutation_total_blocks plan) (mutation_uuid plan) session = (Inr x, f, session')"
  shows "\<not> f \<and> (\<exists>r'. session_ok sb session' r' \<and> same_files (reload (mutation_images plan) r) r')"
proof -
  have vo: "volume_ok r" and op: "open_disk sb (session_blocks session) = Inr r" and
    wh: "\<forall>n. length (session_blocks session n) = kBlockSize" using ok by (simp_all add: session_ok_def)
  obtain inode old ps mapping ind a tb bs where mr: "mutation_run r n request plan inode old ps mapping ind a tb bs"
    by (rule PrepareFileMutation_run [OF vo plan])
  have sb: "superblock r = sb"
    using ok open_disk_is_reader(1) by (fastforce simp: session_ok_def quiescent_def disk_reader_def)
  have pl: "mutation_total_blocks plan = total_blocks sb" "mutation_uuid plan = filesystem_uuid sb"
    using mr unfolding mutation_run_def sb by blast+
  have tx: "transaction_ok sb cur (session_blocks session) (mutation_before plan) (mutation_ordered plan) (mutation_metadata plan) p"
    if q: "quiescent sb cur copy (session_blocks session)" and p: "PlanRingReservation cur (length (mutation_metadata plan)) = Inr p" for cur copy p
  proof -
    have m: "mountable sb cur copy (session_blocks session)" using q by (simp add: quiescent_def)
    show ?thesis
      by (rule mutation_transaction_ok [OF vo mr open_disk_is_reader(1) [OF m wh op] _ _ _ p])
        (use mountable_identity [OF m wh [rule_format]] in auto)
  qed
  have after: "volume_ok (reload (mutation_ordered plan @ mutation_metadata plan) r)"
    using mutation_effect [OF vo plan] by (simp add: mutation_images_def)
  show ?thesis
    using SessionExecute_commits [OF ok run [unfolded pl] tx commits after] by (simp add: mutation_images_def)
qed

section \<open>What a session shows after a file mutation\<close>

lemma option_Inr_iff: "(case x of None \<Rightarrow> Inl e | Some y \<Rightarrow> f y) = Inr z \<longleftrightarrow> (\<exists>y. x = Some y \<and> f y = Inr z)"
  by (cases x) auto

lemma ResolveComponents_same:
  assumes "\<And>m es. ListDirectory r m = Inr es \<Longrightarrow> ListDirectory r' m = Inr es"
  shows "ResolveComponents r cur rest = Inr k \<Longrightarrow> ResolveComponents r' cur rest = Inr k"
proof (induction "length rest" arbitrary: cur rest rule: less_induct)
  case less
  let ?component = "takeWhile (\<lambda>c. c \<noteq> 47) rest" and ?after = "dropWhile (\<lambda>c. c \<noteq> 47) rest"
  show ?case
  proof (cases "rest = []")
    case True
    then show ?thesis using less(2) unfolding True ResolveComponents.simps [of r cur "[]"] ResolveComponents.simps [of r' cur "[]"] by simp
  next
    case False
    then obtain es found where c: "\<not> (?component = [] \<or> ?component = [46] \<or> ?component = [46, 46])"
      "ListDirectory r cur = Inr es" "find (\<lambda>entry. entry_name entry = ?component) es = Some found"
      "(if ?after = [] then Inr (entry_inode found) else ResolveComponents r (entry_inode found) (tl ?after)) = Inr k"
      using less(2) unfolding ResolveComponents.simps [of r cur rest] Let_def if_not_P [OF False] guard_Inr bind_result_Inr_iff option_Inr_iff
      by blast
    have "ResolveComponents r' (entry_inode found) (tl ?after) = Inr k" if nonempty: "?after \<noteq> []"
    proof (rule less(1))
      have "length ?after \<le> length rest" by (rule length_dropWhile_le)
      moreover have "0 < length ?after" using nonempty by (cases ?after) blast+
      ultimately show "length (tl ?after) < length rest" unfolding length_tl by linarith
      show "ResolveComponents r (entry_inode found) (tl ?after) = Inr k" using c(4) unfolding if_not_P [OF nonempty] .
    qed
    then have tail: "(if ?after = [] then Inr (entry_inode found) else ResolveComponents r' (entry_inode found) (tl ?after)) = Inr k"
      using c(4) by (cases "?after = []") auto
    show ?thesis
      unfolding ResolveComponents.simps [of r' cur rest] Let_def if_not_P [OF False] if_not_P [OF c(1)] assms [OF c(2)]
        bind_result.simps c(3) option.case tail ..
  qed
qed

lemma ResolvePath_same:
  assumes "\<And>m es. ListDirectory r m = Inr es \<Longrightarrow> ListDirectory r' m = Inr es" "superblock r' = superblock r"
    and "ResolvePath r p = Inr (n, i)" "ReadInode r' n = Inr i'"
  shows "ResolvePath r' p = Inr (n, i')"
  using assms(2-4) ResolveComponents_same [OF assms(1)]
  by (auto simp: ResolvePath_def bind_result_Inr_iff split: if_splits)

lemma ResolvePath_reads: "ResolvePath r p = Inr (n, i) \<Longrightarrow> ReadInode r n = Inr i"
  by (auto simp: ResolvePath_def bind_result_Inr_iff split: if_splits)

lemma session_superblock:
  assumes "session_ok sb session r"
  shows "superblock r = sb"
  using assms open_disk_is_reader(1) by (fastforce simp: session_ok_def quiescent_def disk_reader_def)

text \<open>The view of a session after a successful mutation of one file.\<close>

definition mutated_view :: "ImageReader \<Rightarrow> ImageReader \<Rightarrow> u32 \<Rightarrow> FileMutationRequest \<Rightarrow> bool" where
  "mutated_view r r' n request \<longleftrightarrow>
    (\<exists>inode inode'. ReadInode r n = Inr inode \<and> ReadInode r' n = Inr inode'
      \<and> file_contents r' inode' = file_after request (file_contents r inode)
      \<and> generation inode' = generation inode + 1 \<and> mode inode' = mode inode \<and> S_ISREG (mode inode))
    \<and> (\<forall>m i. m \<noteq> n \<and> ReadInode r m = Inr i \<longrightarrow> ReadInode r' m = Inr i \<and> file_contents r' i = file_contents r i)
    \<and> (\<forall>m es. ListDirectory r m = Inr es \<longrightarrow> ListDirectory r' m = Inr es)"

lemma session_mutated:
  assumes ok: "session_ok sb session r" and plan: "PrepareFileMutation r n request = Inr plan"
    and commits: "\<forall>x \<in> set (mutation_metadata plan). isl (DecodeCommit (snd x))"
    and run: "SessionExecute ans (mutation_before plan) (mutation_ordered plan) (mutation_metadata plan)
      (mutation_total_blocks plan) (mutation_uuid plan) session = (Inr x, f, session')"
  shows "\<not> f \<and> (\<exists>r'. session_ok sb session' r' \<and> mutated_view r r' n request)"
proof -
  obtain r' where r': "\<not> f" "session_ok sb session' r'" "same_files (reload (mutation_images plan) r) r'"
    using session_mutation [OF assms] by blast
  have "volume_ok r" using ok by (simp add: session_ok_def)
  note eff = mutation_effect [OF this plan]
  let ?r = "reload (mutation_images plan) r"
  have reg: "S_ISREG (mode j)" if "ReadInode r n = Inr j" for j
    using PrepareFileMutation_run [OF \<open>volume_ok r\<close> plan] mutation_runD(3) mutation_run_facts(10) [OF \<open>volume_ok r\<close>] that
    by (metis sum.inject(2))
  obtain inode inode' where i: "ReadInode r n = Inr inode" "ReadInode ?r n = Inr inode'"
    "file_contents ?r inode' = file_after request (file_contents r inode)"
    "generation inode' = generation inode + 1" "mode inode' = mode inode" using eff by blast
  have "ReadInode r' n = Inr inode'" "file_contents r' inode' = file_after request (file_contents r inode)"
    using same_files_file [OF r'(3) i(2)] i(3) by simp_all
  moreover have "ReadInode r' m = Inr j \<and> file_contents r' j = file_contents r j" if "m \<noteq> n" "ReadInode r m = Inr j" for m j
    using eff that same_files_file [OF r'(3), of m j] by metis
  moreover have "ListDirectory r' m = Inr es" if "ListDirectory r m = Inr es" for m es
    using eff that r'(3) unfolding same_files_def by blast
  ultimately show ?thesis using r'(1,2) i reg [OF i(1)] unfolding mutated_view_def by blast
qed

section \<open>What a successful transaction has written\<close>

text \<open>
  Whatever the answers of the operating system were: a successful transaction has put its
  ordered and its metadata images at their places and changed nothing else outside the
  journal.
\<close>

definition written_outside :: "Superblock \<Rightarrow> (nat \<times> bytes) list \<Rightarrow> disk \<Rightarrow> disk \<Rightarrow> bool" where
  "written_outside sb ws d d' \<longleftrightarrow> (\<forall>n. \<not> in_journal sb n \<longrightarrow> d' n = apply_writes ws d n)"

definition store_written :: "(nat \<times> bytes) list \<Rightarrow> JournalStore \<Rightarrow> JournalStore \<Rightarrow> bool" where
  "store_written ws s s' \<longleftrightarrow> store_superblock s' = store_superblock s
    \<and> written_outside (store_superblock s) ws (dev_blocks (store_device s)) (dev_blocks (store_device s'))"

lemma apply_writes_cong: "d n = e n \<Longrightarrow> apply_writes ws d n = apply_writes ws e n"
proof (induction ws arbitrary: d e)
  case (Cons w ws)
  obtain k c where "w = (k, c)" by (cases w)
  then show ?case using Cons.IH [of "d(k := c)" "e(k := c)"] Cons.prems by (simp del: fun_upd_apply) (simp add: fun_upd_def)
qed simp

lemma store_written_trans:
  "store_written ws s s1 \<Longrightarrow> store_written vs s1 s2 \<Longrightarrow> store_written (ws @ vs) s s2"
  by (auto simp: store_written_def written_outside_def apply_writes_append intro: apply_writes_cong)

lemma store_written_trans_Nil:
  "store_written [] s s1 \<Longrightarrow> store_written vs s1 s2 \<Longrightarrow> store_written vs s s2"
  "store_written ws s s1 \<Longrightarrow> store_written [] s1 s2 \<Longrightarrow> store_written ws s s2"
  using store_written_trans [of "[]" s s1 vs s2] store_written_trans [of ws s s1 "[]" s2] by simp_all

lemma store_written_same:
  "store_superblock s' = store_superblock s \<Longrightarrow> dev_blocks (store_device s') = dev_blocks (store_device s) \<Longrightarrow> store_written [] s s'"
  by (simp add: store_written_def written_outside_def)

lemma device_written:
  "PwriteBlocks ws dev = (Inr x, dev') \<Longrightarrow> dev_blocks dev' = apply_writes ws (dev_blocks dev)"
  "Fdatasync dev = (Inr x, dev') \<Longrightarrow> dev_blocks dev' = dev_blocks dev"
  "PreadBlock n dev = (Inr content, dev') \<Longrightarrow> dev_blocks dev' = dev_blocks dev \<and> content = dev_blocks dev n"
  "Fstat dev = (Inr k, dev') \<Longrightarrow> dev_blocks dev' = dev_blocks dev"
  "Fcntl dev = (Inr rw, dev') \<Longrightarrow> dev_blocks dev' = dev_blocks dev"
proof -
  have next_blocks: "next_outcome dev = (oc, dev') \<Longrightarrow> dev_blocks dev' = dev_blocks dev" for dev dev' oc
    by (auto simp: next_outcome_def split: list.splits)
  have one: "dev_blocks dev' = (dev_blocks dev)(n := c)" if "PwriteBlock n c dev = (Inr x, dev')" for n c x dev dev'
    using that by (auto simp: PwriteBlock_def store_block_def split: prod.splits io_outcome.splits dest!: next_blocks)
  show "PwriteBlocks ws dev = (Inr x, dev') \<Longrightarrow> dev_blocks dev' = apply_writes ws (dev_blocks dev)"
  proof (induction ws arbitrary: dev)
    case (Cons w ws)
    obtain n c where w: "w = (n, c)" by (cases w)
    obtain y d1 where d1: "PwriteBlock n c dev = (Inr y, d1)" "PwriteBlocks ws d1 = (Inr x, dev')"
      using Cons.prems by (auto simp: w split: prod.splits sum.splits)
    show ?case unfolding w apply_writes.simps Cons.IH [OF d1(2)] one [OF d1(1)] ..
  qed simp
  show "Fdatasync dev = (Inr x, dev') \<Longrightarrow> dev_blocks dev' = dev_blocks dev"
    "PreadBlock n dev = (Inr content, dev') \<Longrightarrow> dev_blocks dev' = dev_blocks dev \<and> content = dev_blocks dev n"
    "Fstat dev = (Inr k, dev') \<Longrightarrow> dev_blocks dev' = dev_blocks dev"
    "Fcntl dev = (Inr rw, dev') \<Longrightarrow> dev_blocks dev' = dev_blocks dev"
    by (auto simp: Fdatasync_def PreadBlock_def Fstat_def Fcntl_def split: prod.splits io_outcome.splits if_splits dest!: next_blocks)
qed

lemma io_written:
  "StoreWrite ws s = (Inr x, s') \<Longrightarrow> store_written ws s s' \<and> metadata_after_images s' = metadata_after_images s"
  "StoreSync s = (Inr x, s') \<Longrightarrow> store_written [] s s' \<and> metadata_after_images s' = metadata_after_images s"
  "WriteAndSync ws s = (Inr x, s') \<Longrightarrow> store_written ws s s' \<and> metadata_after_images s' = metadata_after_images s"
  by (auto simp: StoreWrite_def StoreSync_def WriteAndSync_def store_written_def written_outside_def
      split: prod.splits sum.splits dest!: device_written(1,2))

lemma journal_writes:
  assumes "store_written [(n, content)] s s'" "in_journal (store_superblock s) n"
  shows "store_written [] s s'"
  using assms by (auto simp: store_written_def written_outside_def)

lemma RingOffset_in_journal: "RingOffset sb i = Some n \<Longrightarrow> in_journal sb (unat n)"
  using u32_bound [of "start_block (journal sb)"] u32_bound [of i]
  by (auto simp: RingOffset_def in_journal_def Let_def word_le_nat_alt word_less_nat_alt unat_add_ucast unat_word_ariths
      split: if_splits)

lemma PersistNext_written:
  assumes "PersistNext next s = (Inr x, s')" "ValidateSuperblock (store_superblock s) = Inr ()"
  shows "store_written [] s s' \<and> metadata_after_images s' = metadata_after_images s"
proof -
  let ?target = "control_block (store_superblock s) (other_copy (current_copy s))"
  obtain content y s1 c k where w: "WriteAndSync [(?target, content)] s = (Inr y, s1)"
    "s' = s1\<lparr>current := c, current_copy := k\<rparr>"
    using assms(1) by (auto simp: PersistNext_def Let_def split: prod.splits sum.splits if_splits)
  have "store_written [] s s1" "metadata_after_images s1 = metadata_after_images s"
    using io_written(3) [OF w(1)] journal_writes control_in_journal(1) [OF assms(2)] by blast+
  then show ?thesis by (simp add: w(2) store_written_def)
qed

lemma WritePayloads_written:
  "WritePayloads is images s = (Inr x, s') \<Longrightarrow> store_written [] s s' \<and> metadata_after_images s' = metadata_after_images s"
proof (induction "is" images s rule: WritePayloads.induct)
  case (1 i "is" home payload rest s)
  obtain n y s1 where w: "RingOffset (store_superblock s) i = Some n" "StoreWrite [(unat n, payload)] s = (Inr y, s1)"
    "WritePayloads is rest s1 = (Inr x, s')"
    using "1.prems" by (auto split: prod.splits sum.splits option.splits)
  have "store_written [] s s1" "metadata_after_images s1 = metadata_after_images s"
    using io_written(1) [OF w(2)] journal_writes RingOffset_in_journal [OF w(1)] by blast+
  moreover have "store_written [] s1 s' \<and> metadata_after_images s' = metadata_after_images s1"
    using "1.IH" [OF w(1) w(2) [symmetric] refl] w(3) by simp
  ultimately show ?case using store_written_trans_Nil(1) by metis
qed (auto intro: store_written_same)

lemma WriteUnexposedBody_written:
  assumes "WriteUnexposedBody plan images s = (Inr x, s')"
  shows "store_written [] s s' \<and> metadata_after_images s' = images"
proof -
  obtain n content y1 s1 y2 s2 y3 s3 body where w: "RingOffset (store_superblock s) (plan_descriptor_ring_index plan) = Some n"
    "StoreWrite [(unat n, content)] s = (Inr y1, s1)" "WritePayloads (payload_ring_indices plan) images s1 = (Inr y2, s2)"
    "StoreSync s2 = (Inr y3, s3)" "s' = (Observe kJournalBody s3)\<lparr>durable_body := body, metadata_after_images := images\<rparr>"
    using assms by (auto simp: WriteUnexposedBody_def Let_def split: prod.splits sum.splits option.splits if_splits)
  have "store_written [] s s1" using io_written(1) [OF w(2)] journal_writes RingOffset_in_journal [OF w(1)] by blast
  then have "store_written [] s s3"
    using WritePayloads_written [OF w(3)] io_written(2) [OF w(4)] store_written_trans_Nil(1) by metis
  then show ?thesis by (simp add: w(5) store_written_def Observe_def)
qed

lemma CheckBeforeImages_written:
  "CheckBeforeImages images s = (Inr x, s') \<Longrightarrow> store_written [] s s'"
proof (induction images s rule: CheckBeforeImages.induct)
  case (2 block expected rest s)
  obtain content dev where w: "PreadBlock (unat block) (store_device s) = (Inr content, dev)"
    "\<not> total_blocks (store_superblock s) \<le> block" "content = expected"
    "CheckBeforeImages rest (s\<lparr>store_device := dev\<rparr>) = (Inr x, s')"
    using "2.prems" by (auto split: prod.splits sum.splits if_splits)
  have "store_written [] s (s\<lparr>store_device := dev\<rparr>)"
    using device_written(3) [OF w(1)] by (intro store_written_same) simp_all
  moreover have "store_written [] (s\<lparr>store_device := dev\<rparr>) s'"
    using "2.IH" [OF w(2) w(1) [symmetric] refl] w(3,4) by simp
  ultimately show ?case by (rule store_written_trans_Nil(1))
qed (auto intro: store_written_same)

lemma WriteOrdered_written:
  assumes "WriteOrderedDataAndUnexposedBody t u before ordered images s = (Inr x, s')"
  shows "store_written (home_writes ordered) s s' \<and> metadata_after_images s' = images"
proof -
  obtain plan y s1 where c: "CheckBeforeImages before s = (Inr y, s1)"
    "(if ordered = [] then WriteUnexposedBody plan images s1
      else case WriteAndSync (home_writes ordered) s1 of (Inl e, s) \<Rightarrow> (Inl e, s)
        | (Inr _, s) \<Rightarrow> WriteUnexposedBody plan images (Observe kOrderedData s)) = (Inr x, s')"
    using assms unfolding WriteOrderedDataAndUnexposedBody_def Let_def step_iffs by blast
  note c1 = CheckBeforeImages_written [OF c(1)]
  show ?thesis
  proof (cases "ordered = []")
    case True
    then show ?thesis
      using WriteUnexposedBody_written [of plan images s1 x s'] c(2) store_written_trans_Nil(1) [OF c1] by (simp add: home_writes_def)
  next
    case False
    then obtain z s2 where w: "WriteAndSync (home_writes ordered) s1 = (Inr z, s2)"
      "WriteUnexposedBody plan images (Observe kOrderedData s2) = (Inr x, s')"
      using c(2) by (auto split: prod.splits sum.splits)
    have "store_written (home_writes ordered) s s2"
      using store_written_trans_Nil(1) [OF c1] io_written(3) [OF w(1)] by blast
    moreover have "store_written [] s2 s'"
      using WriteUnexposedBody_written [OF w(2)] by (simp add: store_written_def Observe_def)
    ultimately show ?thesis using WriteUnexposedBody_written [OF w(2)] store_written_trans_Nil(2) by blast
  qed
qed

lemma stages_written:
  assumes "ValidateSuperblock (store_superblock s) = Inr ()"
  shows "ExposeDurableBody s = (Inr x, s') \<Longrightarrow> store_written [] s s' \<and> metadata_after_images s' = metadata_after_images s"
    "WriteCommit s = (Inr x, s') \<Longrightarrow> store_written [] s s' \<and> metadata_after_images s' = metadata_after_images s"
proof -
  show "store_written [] s s' \<and> metadata_after_images s' = metadata_after_images s" if run: "ExposeDurableBody s = (Inr x, s')"
  proof -
    obtain body where body: "\<not> reload_required s" "used_blocks (current s) = 0" "durable_body s = Some body"
      using run by (auto simp: ExposeDurableBody_def split: option.splits if_splits)
    obtain y s1 where s1: "PersistNext (exposed_control (reservation body)) s = (y, s1)" by fastforce
    then obtain z where "y = Inr z" "s' = Observe kControlExposure s1"
      using run body by (auto simp: ExposeDurableBody_def split: sum.splits)
    then show ?thesis using PersistNext_written [OF _ assms, of _ z s1] s1 by (simp add: store_written_def Observe_def)
  qed
  show "store_written [] s s' \<and> metadata_after_images s' = metadata_after_images s" if run: "WriteCommit s = (Inr x, s')"
  proof -
    obtain i n content y s1 where w: "RingOffset (store_superblock s) i = Some n" "WriteAndSync [(unat n, content)] s = (Inr y, s1)"
      "s' = (Observe kCommit s1)\<lparr>commit_durable := True\<rparr>"
      using run by (auto simp: WriteCommit_def split: prod.splits sum.splits option.splits if_splits)
    have "store_written [] s s1" "metadata_after_images s1 = metadata_after_images s"
      using io_written(3) [OF w(2)] journal_writes RingOffset_in_journal [OF w(1)] by blast+
    then show ?thesis by (simp add: w(3) store_written_def Observe_def)
  qed
qed

lemma WriteHomeBlocks_written: "WriteHomeBlocks images s = (Inr x, s') \<Longrightarrow> store_written (home_writes images) s s'"
proof (induction images s rule: WriteHomeBlocks.induct)
  case (2 home content rest s)
  obtain y s1 where w: "IsValidMetadataTarget (store_superblock s) home" "StoreWrite [(unat home, content)] s = (Inr y, s1)"
    "WriteHomeBlocks rest s1 = (Inr x, s')"
    using "2.prems" by (auto split: prod.splits sum.splits if_splits)
  have "store_written (home_writes rest) s1 s'" using "2.IH" [OF _ w(2) [symmetric] refl] w(1,3) by simp
  then show ?case using store_written_trans [of "[(unat home, content)]" s s1] io_written(1) [OF w(2)] by (simp add: home_writes_def)
qed (auto intro: store_written_same simp: home_writes_def)

lemma Complete_written:
  assumes "CompleteCommittedTransaction s = (Inr x, s')" "ValidateSuperblock (store_superblock s) = Inr ()"
  shows "store_written (home_writes (metadata_after_images s)) s s'"
proof -
  obtain y1 s1 y2 s2 c y3 s3 where w: "WriteHomeBlocks (metadata_after_images s) s = (Inr y1, s1)" "StoreSync s1 = (Inr y2, s2)"
    "PersistNext c (Observe kHomeBlocks s2) = (Inr y3, s3)" "s' = (Observe kCheckpoint s3)\<lparr>checkpointed := True\<rparr>"
    using assms(1) by (auto simp: CompleteCommittedTransaction_def Let_def split: prod.splits sum.splits if_splits)
  have w2: "store_written (home_writes (metadata_after_images s)) s s2"
    using WriteHomeBlocks_written [OF w(1)] io_written(2) [OF w(2)] store_written_trans_Nil(2) by blast
  then have v: "ValidateSuperblock (store_superblock (Observe kHomeBlocks s2)) = Inr ()"
    using assms(2) by (simp add: store_written_def Observe_def)
  have "store_written [] s2 s'"
    using PersistNext_written [OF w(3) v] by (simp add: store_written_def Observe_def w(4))
  then show ?thesis by (rule store_written_trans_Nil(2) [OF w2])
qed

lemma Adopt_written:
  assumes "AdoptLockedFd dev = (Inr s, dev')"
  shows "dev_blocks (store_device s) = dev_blocks dev" "DecodeSuperblock (dev_blocks dev 0) = Inr (store_superblock s)"
  using assms
  by (auto simp: AdoptLockedFd_def LoadControlStateFromFd_def step_iffs MakeStore_def split: prod.splits dest!: device_written(3-5))

lemma Execute_written:
  assumes "ExecuteJournalTransaction (Inr dev) before ordered images t u = (Inr x, f, st)"
  shows "\<exists>s sb. st = Some s \<and> DecodeSuperblock (dev_blocks dev 0) = Inr sb
    \<and> written_outside sb (home_writes (ordered @ images)) (dev_blocks dev) (dev_blocks (store_device s))"
proof -
  obtain s0 d0 s1 v1 s2 v2 s3 v3 s where a: "AdoptLockedFd dev = (Inr s0, d0)"
    "WriteOrderedDataAndUnexposedBody t u before ordered images s0 = (Inr v1, s1)" "ExposeDurableBody s1 = (Inr v2, s2)"
    "WriteCommit s2 = (Inr v3, s3)" "CompleteCommittedTransaction s3 = (Inr (), s)" "st = Some s"
    using assms unfolding ExecuteJournalTransaction_def by (auto split: prod.splits sum.splits)
  note ad = Adopt_written [OF a(1)] and w1 = WriteOrdered_written [OF a(2)]
  have v: "ValidateSuperblock (store_superblock s0) = Inr ()" by (rule DecodeSuperblock_valid [OF ad(2)])
  have v1: "ValidateSuperblock (store_superblock s1) = Inr ()" using w1 v by (simp add: store_written_def)
  note w2 = stages_written(1) [OF v1 a(3)]
  have v2: "ValidateSuperblock (store_superblock s2) = Inr ()" using w2 v1 by (simp add: store_written_def)
  note w3 = stages_written(2) [OF v2 a(4)]
  have v3: "ValidateSuperblock (store_superblock s3) = Inr ()" using w3 v2 by (simp add: store_written_def)
  have "store_written (home_writes images) s3 s" using Complete_written [OF a(5) v3] w1 w2 w3 by simp
  moreover have "store_written (home_writes ordered) s0 s3" using w1 w2 w3 store_written_trans_Nil(2) by metis
  ultimately have "store_written (home_writes (ordered @ images)) s0 s"
    using store_written_trans by (fastforce simp: home_writes_def)
  then show ?thesis using a(6) ad by (auto simp: store_written_def)
qed

lemma SessionExecute_written:
  assumes "SessionExecute ans before ordered images t u session = (Inr x, f, session')"
  shows "\<exists>sb. DecodeSuperblock (session_blocks session 0) = Inr sb
    \<and> written_outside sb (home_writes (ordered @ images)) (session_blocks session) (session_blocks session')"
proof -
  obtain st where e: "ExecuteJournalTransaction (Inr (journal_device (journal_script ans) session)) before ordered images t u = (Inr x, f, st)"
    "session' = (case st of None \<Rightarrow> session | Some s \<Rightarrow> session\<lparr>session_blocks := dev_blocks (store_device s)\<rparr>)"
    using assms unfolding SessionExecute_def DuplicateFd_def
    by (cases "dup_for_journal ans") (auto simp: ExecuteJournalTransaction_def split: prod.splits option.splits)
  then show ?thesis using Execute_written [OF e(1)] by (auto simp: journal_device_def)
qed

end
