(* ===== verification/NewObject.thy ===== *)
theory NewObject
  imports FileMutation
begin

text \<open>
  Creating a file in the root directory (\<^verbatim>\<open>src/src/metadata/new_object_plan.{h,cpp}\<close> and
  \<^verbatim>\<open>empty_file_create_plan.{h,cpp}\<close>): one transaction that writes the contents into free
  blocks and publishes the inode, the directory entry and the bitmaps.  The directory
  grows by a block when no existing block has room.
\<close>

section \<open>Data\<close>

record NewObjectPlan =
  object_inode_number :: u32
  object_size :: u64
  object_directory_block :: u32
  root_indirect_block :: u32
  file_indirect_block :: u32
  directory_grew :: bool
  object_data_blocks :: "u32 list"
  object_total_blocks :: u32
  object_uuid :: bytes
  object_before :: block_map
  object_ordered :: block_map
  object_metadata :: block_map

definition IsValidRootObjectName :: "bytes \<Rightarrow> bool" where
  "IsValidRootObjectName name \<longleftrightarrow> name \<noteq> [] \<and> name \<noteq> [46] \<and> name \<noteq> [46, 46]
    \<and> length name \<le> kMaxNameLength \<and> 47 \<notin> set name \<and> 0 \<notin> set name"

section \<open>Steps\<close>

text \<open>
  The current after-image of a metadata block, read and remembered as before-image on
  first use.  The caller stores the edited block with \<open>store_metadata\<close>, which stands
  for the assignment through the returned pointer.
\<close>

definition MutableMetadataBlock :: "ImageReader \<Rightarrow> u32 \<Rightarrow> NewObjectPlan \<Rightarrow> errno + bytes \<times> NewObjectPlan" where
  "MutableMetadataBlock r block_number plan = (case map_of (object_metadata plan) block_number of
     Some img \<Rightarrow> Inr (img, plan)
   | None \<Rightarrow> bind_result (ReadBlock r block_number) (\<lambda>before.
       Inr (before, plan\<lparr>object_before := map_put block_number before (object_before plan),
                         object_metadata := map_put block_number before (object_metadata plan)\<rparr>)))"

definition store_metadata :: "u32 \<Rightarrow> bytes \<Rightarrow> NewObjectPlan \<Rightarrow> NewObjectPlan" where
  "store_metadata block_number img plan =
    plan\<lparr>object_metadata := map_put block_number img (object_metadata plan)\<rparr>"

text \<open>
  \<open>TryInsertDirectoryEntry\<close> returns true, or false with or without a detail.
\<close>

datatype insert_result = Inserted bytes | NoRoom | BadDirectory

definition insert_at :: "nat \<Rightarrow> bytes \<Rightarrow> string + bytes \<Rightarrow> insert_result" where
  "insert_at offset block encoded = (case encoded of
     Inl _ \<Rightarrow> BadDirectory | Inr bs \<Rightarrow> Inserted (take offset block @ bs))"

function InsertFrom :: "DirectoryEntry \<Rightarrow> bytes \<Rightarrow> nat \<Rightarrow> insert_result" where
  "InsertFrom new_entry block offset =
    (if offset \<ge> length block then NoRoom
     else case DecodeDirectoryEntry (drop offset block) of
       Inl _ \<Rightarrow> BadDirectory
     | Inr cur \<Rightarrow>
       let rec_len = unat (record_length cur);
           new_minimum = MinimumDirectoryRecordLength (length (entry_name new_entry))
       in
       if rec_len = 0 then NoRoom
       else if entry_inode cur = 0 then
         if rec_len \<ge> new_minimum
           then insert_at offset block (EncodeDirectoryEntry new_entry (of_nat rec_len) (drop offset block))
         else InsertFrom new_entry block (offset + rec_len)
       else
         let current_minimum = MinimumDirectoryRecordLength (length (entry_name cur))
         in
         if rec_len - current_minimum \<ge> new_minimum then
           case EncodeDirectoryEntry cur (of_nat current_minimum) (drop offset block) of
             Inl _ \<Rightarrow> BadDirectory
           | Inr bs \<Rightarrow>
             let block = take offset block @ bs
             in insert_at (offset + current_minimum) block
                  (EncodeDirectoryEntry new_entry (of_nat (rec_len - current_minimum))
                    (drop (offset + current_minimum) block))
         else InsertFrom new_entry block (offset + rec_len))"
  by pat_completeness auto
termination
  by (relation "measure (\<lambda>(new_entry, block, offset). length block - offset)") auto

definition TryInsertDirectoryEntry :: "DirectoryEntry \<Rightarrow> bytes \<Rightarrow> insert_result" where
  "TryInsertDirectoryEntry new_entry block = InsertFrom new_entry block 0"

declare InsertFrom.simps [simp del]

fun AddBitmapAfterImages ::
  "ImageReader \<Rightarrow> Region \<Rightarrow> bytes \<Rightarrow> bytes \<Rightarrow> nat list \<Rightarrow> NewObjectPlan \<Rightarrow> errno + NewObjectPlan" where
  "AddBitmapAfterImages r region before after [] plan = Inr plan"
| "AddBitmapAfterImages r region before after (local # rest) plan =
    (let before_block = BitmapBlock before local;
         after_block = BitmapBlock after local
     in
     if before_block = after_block then AddBitmapAfterImages r region before after rest plan
     else
       let home = start_block region + of_nat local
       in
       bind_result (ReadBlock r home) (\<lambda>physical_before.
         if physical_before \<noteq> before_block then Inl ESTALE
         else AddBitmapAfterImages r region before after rest
           (plan\<lparr>object_before := map_put home before_block (object_before plan),
                 object_metadata := map_put home after_block (object_metadata plan)\<rparr>)))"

text \<open>The search for a directory block with room.\<close>

fun InsertIntoDirectory ::
  "ImageReader \<Rightarrow> InodeRecord \<Rightarrow> DirectoryEntry \<Rightarrow> nat list \<Rightarrow> NewObjectPlan \<Rightarrow> errno + NewObjectPlan" where
  "InsertIntoDirectory r root new_entry [] plan = Inr plan"
| "InsertIntoDirectory r root new_entry (logical # rest) plan =
    bind_result (MapLogicalBlock r root (of_nat logical)) (\<lambda>physical.
    bind_result (ReadBlock r physical) (\<lambda>directory_before.
    case TryInsertDirectoryEntry new_entry directory_before of
      Inserted directory_after \<Rightarrow>
        Inr (plan\<lparr>object_directory_block := physical,
              object_before := map_put physical directory_before (object_before plan),
              object_metadata := map_put physical directory_after (object_metadata plan)\<rparr>)
    | NoRoom \<Rightarrow> InsertIntoDirectory r root new_entry rest plan
    | BadDirectory \<Rightarrow> Inl EUCLEAN))"

text \<open>A new directory block, with a new indirect block when the direct ones are used up.\<close>

definition GrowDirectory ::
  "ImageReader \<Rightarrow> InodeRecord \<Rightarrow> DirectoryEntry \<Rightarrow> AllocatorState \<Rightarrow> NewObjectPlan
    \<Rightarrow> errno + InodeRecord \<times> AllocatorState \<times> NewObjectPlan" where
  "GrowDirectory r root new_entry allocator plan =
    (let root_block_count = ucast (file_size root div 4096) :: u32
     in
     if root_block_count \<ge> ucast (kMaxFileSize div 4096) then Inl ENOSPC
     else
       bind_result (ReserveBlock allocator) (\<lambda>(allocator, directory_block).
       let plan = plan\<lparr>object_directory_block := directory_block, directory_grew := True\<rparr>
       in
       bind_result (MutableMetadataBlock r directory_block plan) (\<lambda>(_, plan).
       case EncodeDirectoryEntry new_entry 4096 (replicate kBlockSize 0) of
         Inl _ \<Rightarrow> Inl EINVAL
       | Inr directory_after \<Rightarrow>
         let plan = store_metadata directory_block directory_after plan;
             root = root\<lparr>file_size := file_size root + 4096\<rparr>
         in
         if root_block_count < 12 then
           Inr (root\<lparr>direct_blocks := (direct_blocks root)[unat root_block_count := directory_block]\<rparr>,
                allocator, plan)
         else
           bind_result (ReserveBlock allocator) (\<lambda>(allocator, new_indirect).
           let plan = plan\<lparr>root_indirect_block := new_indirect\<rparr>
           in
           bind_result (MutableMetadataBlock r new_indirect plan) (\<lambda>(_, plan).
           bind_result (if indirect_block root \<noteq> 0 then ReadBlock r (indirect_block root)
               else Inr (replicate kBlockSize 0)) (\<lambda>indirect_after.
           Inr (root\<lparr>indirect_block := new_indirect\<rparr>, allocator,
                store_metadata new_indirect
                  (PutLe32 (unat (root_block_count - 12) * 4) directory_block indirect_after) plan)))))))"

fun AddDataBlocks ::
  "ImageReader \<Rightarrow> bytes \<Rightarrow> nat list \<Rightarrow> AllocatorState \<Rightarrow> NewObjectPlan \<Rightarrow> errno + AllocatorState \<times> NewObjectPlan" where
  "AddDataBlocks r payload [] allocator plan = Inr (allocator, plan)"
| "AddDataBlocks r payload (logical # rest) allocator plan =
    bind_result (ReserveBlock allocator) (\<lambda>(allocator, physical).
    bind_result (ReadBlock r physical) (\<lambda>before.
    AddDataBlocks r payload rest allocator
      (plan\<lparr>object_before := map_put physical before (object_before plan),
            object_ordered := map_put physical (ReplaceBlock payload logical) (object_ordered plan),
            object_data_blocks := object_data_blocks plan @ [physical]\<rparr>)))"

definition AddFileIndirect ::
  "ImageReader \<Rightarrow> nat \<Rightarrow> AllocatorState \<Rightarrow> NewObjectPlan \<Rightarrow> errno + AllocatorState \<times> NewObjectPlan" where
  "AddFileIndirect r file_block_count allocator plan =
    (if file_block_count > kDirectBlockCount then
       bind_result (ReserveBlock allocator) (\<lambda>(allocator, new_indirect).
       let plan = plan\<lparr>file_indirect_block := new_indirect\<rparr>
       in
       bind_result (MutableMetadataBlock r new_indirect plan) (\<lambda>(_, plan).
       Inr (allocator, store_metadata new_indirect (IndirectImage (object_data_blocks plan) file_block_count) plan)))
     else Inr (allocator, plan))"

definition NewFileInode :: "NewObjectPlan \<Rightarrow> bytes \<Rightarrow> u32 \<Rightarrow> u32 \<Rightarrow> u32 \<Rightarrow> u64 \<Rightarrow> InodeRecord" where
  "NewFileInode plan payload permissions user grp timestamp =
    \<lparr>inode_number = object_inode_number plan, mode = 0x8000 OR (permissions AND 0x1FF), uid = user, gid = grp,
     link_count = 1, file_size = of_nat (length payload), atime_ns = timestamp, mtime_ns = timestamp,
     ctime_ns = timestamp, flags = 0, generation = 1,
     direct_blocks = take 12 (object_data_blocks plan) @ replicate (12 - length (object_data_blocks plan)) 0,
     indirect_block = file_indirect_block plan\<rparr>"

text \<open>An inode is stored into its slot of the inode table.\<close>

definition StoreInode :: "ImageReader \<Rightarrow> u32 \<Rightarrow> InodeRecord \<Rightarrow> NewObjectPlan \<Rightarrow> errno + NewObjectPlan" where
  "StoreInode r number inode plan =
    (let table = InodeTableBlock (superblock r) number
     in
     bind_result (MutableMetadataBlock r table plan) (\<lambda>(img, plan).
     case EncodeInode inode of
       Inl _ \<Rightarrow> Inl EUCLEAN
     | Inr bs \<Rightarrow> Inr (store_metadata table (put_bytes (InodeOffsetInBlock number) bs img) plan)))"

section \<open>The planner\<close>

definition PrepareNewRootObject ::
  "ImageReader \<Rightarrow> bytes \<Rightarrow> bytes \<Rightarrow> u32 \<Rightarrow> u32 \<Rightarrow> u32 \<Rightarrow> u64 \<Rightarrow> errno + NewObjectPlan" where
  "PrepareNewRootObject r name payload permissions user grp timestamp =
    (let sb = superblock r
     in
     if \<not> IsValidRootObjectName name then Inl EINVAL
     else if length payload > unat kMaxFileSize then Inl EFBIG
     else bind_result (ReadInode r (root_inode sb)) (\<lambda>root.
       if \<not> S_ISDIR (mode root) then Inl EUCLEAN
       else bind_result (ListDirectory r (root_inode sb)) (\<lambda>existing.
       if \<exists>e \<in> set existing. entry_name e = name then Inl EEXIST
       else bind_result (LoadRegion r (inode_bitmap sb)) (\<lambda>inode_bits.
       bind_result (LoadRegion r (block_bitmap sb)) (\<lambda>block_bits.
         let inode_allocator = \<lparr>bitmap_of = inode_bits, valid_bits = total_inodes sb, first_allocatable_bit = 0\<rparr>;
             block_allocator = \<lparr>bitmap_of = block_bits, valid_bits = total_blocks sb,
               first_allocatable_bit = start_block (data sb)\<rparr>
         in
         if isl (AllocatorValidate inode_allocator) \<or> isl (AllocatorValidate block_allocator) then Inl EUCLEAN
         else bind_result (ReserveBlock inode_allocator) (\<lambda>(inode_allocator, inode_bit).
           let number = inode_bit + 1;
               candidate = \<lparr>object_inode_number = number, object_size = of_nat (length payload),
                 object_directory_block = 0, root_indirect_block = 0, file_indirect_block = 0,
                 directory_grew = False, object_data_blocks = [], object_total_blocks = total_blocks sb,
                 object_uuid = filesystem_uuid sb, object_before = [], object_ordered = [], object_metadata = []\<rparr>;
               new_entry = \<lparr>entry_inode = number, file_type = kRegular, entry_name = name, record_length = 0\<rparr>;
               root_block_count = unat (ucast (file_size root div 4096) :: u32);
               old_root_indirect = indirect_block root;
               file_block_count = unat (PlanRequiredBlocks (of_nat (length payload)))
           in
           bind_result (InsertIntoDirectory r root new_entry [0..<root_block_count] candidate) (\<lambda>plan.
           bind_result (if object_directory_block plan = 0 then GrowDirectory r root new_entry block_allocator plan
               else Inr (root, block_allocator, plan)) (\<lambda>(root, block_allocator, plan).
           bind_result (AddDataBlocks r payload [0..<file_block_count] block_allocator plan) (\<lambda>(block_allocator, plan).
           bind_result (AddFileIndirect r file_block_count block_allocator plan) (\<lambda>(block_allocator, plan).
           bind_result (if root_indirect_block plan \<noteq> 0 \<and> old_root_indirect \<noteq> 0
               then ReleaseAllocated block_allocator old_root_indirect else Inr block_allocator) (\<lambda>block_allocator.
           bind_result (StoreInode r (root_inode sb) (root\<lparr>mtime_ns := timestamp, ctime_ns := timestamp\<rparr>) plan) (\<lambda>plan.
           bind_result (StoreInode r number (NewFileInode plan payload permissions user grp timestamp) plan) (\<lambda>plan.
           bind_result (AddBitmapAfterImages r (inode_bitmap sb) inode_bits (Snapshot inode_allocator)
               [0..<unat (block_count (inode_bitmap sb))] plan) (\<lambda>plan.
           AddBitmapAfterImages r (block_bitmap sb) block_bits (Snapshot block_allocator)
               [0..<unat (block_count (block_bitmap sb))] plan))))))))))))))"

section \<open>The planner for an empty root\<close>

record EmptyFileCreatePlan =
  create_inode_number :: u32
  create_directory_block :: u32
  create_total_blocks :: u32
  create_uuid :: bytes
  create_before :: block_map
  create_after :: block_map
  write_order :: "u32 list"

definition MutableExistingBlock :: "ImageReader \<Rightarrow> u32 \<Rightarrow> block_map \<Rightarrow> errno + bytes \<times> block_map" where
  "MutableExistingBlock r block_number blocks = (case map_of blocks block_number of
     Some img \<Rightarrow> Inr (img, blocks)
   | None \<Rightarrow> bind_result (ReadBlock r block_number) (\<lambda>before. Inr (before, map_put block_number before blocks)))"

definition PrepareRootEmptyFileCreate ::
  "ImageReader \<Rightarrow> bytes \<Rightarrow> u32 \<Rightarrow> u32 \<Rightarrow> u32 \<Rightarrow> u64 \<Rightarrow> errno + EmptyFileCreatePlan" where
  "PrepareRootEmptyFileCreate r name permissions user grp timestamp =
    (let sb = superblock r
     in
     bind_result (ReadInode r (root_inode sb)) (\<lambda>root.
     if \<not> S_ISDIR (mode root) then Inl EUCLEAN
     else if file_size root \<noteq> 0 \<or> indirect_block root \<noteq> 0 \<or> \<not> list_all (\<lambda>b. b = 0) (direct_blocks root)
       then Inl EOPNOTSUPP
     else bind_result (LoadRegion r (inode_bitmap sb)) (\<lambda>inode_bits.
     bind_result (LoadRegion r (block_bitmap sb)) (\<lambda>block_bits.
       let inode_allocator = \<lparr>bitmap_of = inode_bits, valid_bits = total_inodes sb, first_allocatable_bit = 0\<rparr>;
           block_allocator = \<lparr>bitmap_of = block_bits, valid_bits = total_blocks sb,
             first_allocatable_bit = start_block (data sb)\<rparr>
       in
       if isl (AllocatorValidate inode_allocator) \<or> isl (AllocatorValidate block_allocator) then Inl EUCLEAN
       else bind_result (ReserveBlock inode_allocator) (\<lambda>(inode_allocator, inode_bit).
       bind_result (ReserveBlock block_allocator) (\<lambda>(block_allocator, directory_block).
         let number = inode_bit + 1;
             inode_bitmap_local = unat inode_bit div 32768;
             inode_bitmap_home = start_block (inode_bitmap sb) + of_nat inode_bitmap_local;
             block_bitmap_local = unat directory_block div 32768;
             block_bitmap_home = start_block (block_bitmap sb) + of_nat block_bitmap_local;
             root_table = InodeTableBlock sb (root_inode sb);
             file_table = InodeTableBlock sb number;
             root = root\<lparr>file_size := 4096, direct_blocks := (direct_blocks root)[0 := directory_block],
               mtime_ns := timestamp, ctime_ns := timestamp\<rparr>;
             created = \<lparr>inode_number = number, mode = 0x8000 OR (permissions AND 0x1FF), uid = user, gid = grp,
               link_count = 1, file_size = 0, atime_ns = timestamp, mtime_ns = timestamp, ctime_ns = timestamp,
               flags = 0, generation = 1, direct_blocks = replicate 12 0, indirect_block = 0\<rparr>;
             new_entry = \<lparr>entry_inode = number, file_type = kRegular, entry_name = name, record_length = 0\<rparr>
         in
         bind_result (ReadBlock r inode_bitmap_home) (\<lambda>inode_bitmap_before.
         bind_result (ReadBlock r block_bitmap_home) (\<lambda>block_bitmap_before.
         let before = map_put block_bitmap_home block_bitmap_before (map_put inode_bitmap_home inode_bitmap_before []);
             after = map_put block_bitmap_home (BitmapBlock (Snapshot block_allocator) block_bitmap_local)
               (map_put inode_bitmap_home (BitmapBlock (Snapshot inode_allocator) inode_bitmap_local) [])
         in
         bind_result (MutableExistingBlock r root_table after) (\<lambda>(root_image, after).
         let before = map_put root_table root_image before
         in
         case EncodeInode root of
           Inl _ \<Rightarrow> Inl EUCLEAN
         | Inr root_bytes \<Rightarrow>
           let after = map_put root_table (put_bytes (InodeOffsetInBlock (root_inode sb)) root_bytes root_image) after
           in
           bind_result (MutableExistingBlock r file_table after) (\<lambda>(file_image, after).
           case EncodeInode created of
             Inl _ \<Rightarrow> Inl EINVAL
           | Inr file_bytes \<Rightarrow>
             let after = map_put file_table (put_bytes (InodeOffsetInBlock number) file_bytes file_image) after
             in
             bind_result (ReadBlock r directory_block) (\<lambda>directory_before.
             case EncodeDirectoryEntry new_entry 4096 (replicate kBlockSize 0) of
               Inl _ \<Rightarrow> Inl EINVAL
             | Inr directory_after \<Rightarrow>
               Inr \<lparr>create_inode_number = number, create_directory_block = directory_block,
                    create_total_blocks = total_blocks sb, create_uuid = filesystem_uuid sb,
                    create_before = map_put directory_block directory_before before,
                    create_after = map_put directory_block directory_after after,
                    write_order = [directory_block, inode_bitmap_home, block_bitmap_home, root_table]\<rparr>)))))))))))"

end
