(* ===== verification/FuseMount.thy ===== *)
theory FuseMount
  imports ImageSession NewObject
begin

text \<open>
  The mounted file system (\<^verbatim>\<open>src/src/fuse/mount_state.{h,cpp}\<close> and
  \<^verbatim>\<open>src/src/fuse/operations.cpp\<close>): opening an image with recovery, the reading callbacks on
  the current reader, and the writing callbacks that run one journal transaction and reload
  the reader, or close the mount when the outcome of the transaction is not certain.

  The callbacks run under the mutex of the mount, so each is one step of the model.  The
  kernel's part, the clock, the caller's identity and the answers to the system calls, are
  arguments.  The messages on the error stream are left out.
\<close>

section \<open>Mount state\<close>

record FuseMountState =
  mount_session :: MountedImageSession
  mount_reader :: "ImageReader option"
  mount_fatal_error :: "errno option"

definition mount_usable :: "FuseMountState \<Rightarrow> bool" where
  "mount_usable st \<longleftrightarrow> mount_fatal_error st = None \<and> mount_reader st \<noteq> None"

definition FailClosed :: "errno \<Rightarrow> FuseMountState \<Rightarrow> FuseMountState" where
  "FailClosed err st = st\<lparr>mount_reader := None, mount_fatal_error := Some err\<rparr>"

definition ReloadReader :: "os_answers \<Rightarrow> FuseMountState \<Rightarrow> (errno + unit) \<times> FuseMountState" where
  "ReloadReader ans st =
    (if mount_fatal_error st \<noteq> None then (Inl EIO, st)
     else case SessionReader ans (mount_session st) of
       Inl e \<Rightarrow> (Inl e, FailClosed e st)
     | Inr candidate \<Rightarrow> (Inr (), st\<lparr>mount_reader := Some candidate\<rparr>))"

text \<open>The second component is the image file afterwards, when it could be opened and locked.\<close>

definition OpenFuseMountState ::
  "string \<Rightarrow> (string \<Rightarrow> errno + MountedImageSession) \<Rightarrow> (MountedImageSession \<Rightarrow> errno option) \<Rightarrow> os_answers
    \<Rightarrow> (errno + RecoveryAction \<times> FuseMountState) \<times> MountedImageSession option" where
  "OpenFuseMountState image_path open_call flock_call ans =
    (if image_path = [] then (Inl EINVAL, None)
     else case SessionOpen image_path open_call flock_call of
       Inl e \<Rightarrow> (Inl e, None)
     | Inr session \<Rightarrow>
       (case SessionRecover ans session of
          (Inl e, session) \<Rightarrow> (Inl e, Some session)
        | (Inr action, session) \<Rightarrow>
          (case SessionReader ans session of
             Inl e \<Rightarrow> (Inl e, Some session)
           | Inr r \<Rightarrow> (Inr (action, \<lparr>mount_session = session, mount_reader = Some r, mount_fatal_error = None\<rparr>),
               Some session))))"

section \<open>Reading callbacks\<close>

text \<open>
  A \<^verbatim>\<open>const char*\<close> argument is an optional byte string without the final NUL; a handle of
  \<^verbatim>\<open>fuse_file_info\<close> is its \<open>fh\<close> field, where 0 means that there is none.
\<close>

definition SetTimestamp :: "u64 \<Rightarrow> u64 \<times> u64" where
  "SetTimestamp nanoseconds = (nanoseconds div 1000000000, nanoseconds mod 1000000000)"

record file_stat =
  st_ino :: u64
  st_mode :: u32
  st_uid :: u32
  st_gid :: u32
  st_nlink :: u32
  st_size :: u64
  st_blksize :: nat
  st_blocks :: u64
  st_atim :: "u64 \<times> u64"
  st_mtim :: "u64 \<times> u64"
  st_ctim :: "u64 \<times> u64"

definition FillStat :: "u32 \<Rightarrow> InodeRecord \<Rightarrow> file_stat" where
  "FillStat number inode = \<lparr>st_ino = ucast number, st_mode = mode inode, st_uid = uid inode, st_gid = gid inode,
     st_nlink = link_count inode, st_size = file_size inode, st_blksize = kBlockSize,
     st_blocks = (file_size inode + 511) div 512, st_atim = SetTimestamp (atime_ns inode),
     st_mtim = SetTimestamp (mtime_ns inode), st_ctim = SetTimestamp (ctime_ns inode)\<rparr>"

definition mount_view :: "FuseMountState \<Rightarrow> errno + ImageReader" where
  "mount_view st = (if \<not> mount_usable st then Inl EIO
     else case mount_reader st of None \<Rightarrow> Inl EIO | Some r \<Rightarrow> Inr r)"

definition FuseResolve :: "FuseMountState \<Rightarrow> bytes option \<Rightarrow> errno + u32 \<times> InodeRecord" where
  "FuseResolve st path = (case path of
     None \<Rightarrow> Inl EINVAL
   | Some p \<Rightarrow> bind_result (mount_view st) (\<lambda>r. ResolvePath r p))"

definition Getattr :: "FuseMountState \<Rightarrow> bytes option \<Rightarrow> errno + file_stat" where
  "Getattr st path = bind_result (FuseResolve st path) (\<lambda>(number, inode). Inr (FillStat number inode))"

definition Opendir :: "FuseMountState \<Rightarrow> bytes option \<Rightarrow> errno + u64" where
  "Opendir st path = bind_result (FuseResolve st path) (\<lambda>(number, inode).
     if \<not> S_ISDIR (mode inode) then Inl ENOTDIR else Inr (ucast number))"

text \<open>
  The enumeration passes name and next offset of every entry to the kernel's \<open>filler\<close>; it
  stops when the filler, which sees what it already has, reports a full buffer.
\<close>

function FillEntries :: "(bytes \<times> nat) list \<Rightarrow> ((bytes \<times> nat) list \<Rightarrow> bytes \<times> nat \<Rightarrow> bool) \<Rightarrow> DirectoryEntry list \<Rightarrow> nat
    \<Rightarrow> (bytes \<times> nat) list" where
  "FillEntries filled filler listing index =
    (if index \<ge> length listing + 2 then filled
     else
       let name = (if index = 0 then [46] else if index = 1 then [46, 46]
             else takeWhile (\<lambda>b. b \<noteq> 0) (entry_name (listing ! (index - 2))))
       in
       if filler filled (name, index + 1) then filled
       else FillEntries (filled @ [(name, index + 1)]) filler listing (index + 1))"
  by pat_completeness auto
termination by (relation "measure (\<lambda>(filled, filler, listing, index). length listing + 2 - index)") auto

definition Readdir ::
  "FuseMountState \<Rightarrow> bytes option \<Rightarrow> ((bytes \<times> nat) list \<Rightarrow> bytes \<times> nat \<Rightarrow> bool) \<Rightarrow> int \<Rightarrow> u64 option
    \<Rightarrow> errno + (bytes \<times> nat) list" where
  "Readdir st path filler offset file_info =
    (if offset < 0 then Inl EINVAL
     else bind_result (mount_view st) (\<lambda>r.
       bind_result
         (case file_info of
            Some fh \<Rightarrow>
              if fh \<noteq> 0 then bind_result (ReadInode r (ucast fh)) (\<lambda>inode. Inr (ucast fh, inode))
              else FuseResolve st path
          | None \<Rightarrow> FuseResolve st path)
         (\<lambda>(number, inode).
       if \<not> S_ISDIR (mode inode) then Inl ENOTDIR
       else bind_result (ListDirectory r number) (\<lambda>listing.
         Inr (FillEntries [] filler listing (nat offset))))))"

definition FuseOpen :: "FuseMountState \<Rightarrow> bytes option \<Rightarrow> u32 \<Rightarrow> errno + u64" where
  "FuseOpen st path open_flags =
    (let access_mode = open_flags AND 3
     in
     if (access_mode \<noteq> 0 \<and> access_mode \<noteq> 1) \<or> open_flags AND 0x200 \<noteq> 0 then Inl EOPNOTSUPP
     else bind_result (FuseResolve st path) (\<lambda>(number, inode).
       if \<not> S_ISREG (mode inode) then Inl EISDIR else Inr (ucast number)))"

definition handle_inode :: "FuseMountState \<Rightarrow> bytes option \<Rightarrow> u64 option \<Rightarrow> errno + u32" where
  "handle_inode st path file_info = (case file_info of
     Some fh \<Rightarrow> if fh \<noteq> 0 then Inr (ucast fh) else bind_result (FuseResolve st path) (\<lambda>(number, _). Inr number)
   | None \<Rightarrow> bind_result (FuseResolve st path) (\<lambda>(number, _). Inr number))"

definition FuseRead :: "FuseMountState \<Rightarrow> bytes option \<Rightarrow> nat \<Rightarrow> int \<Rightarrow> u64 option \<Rightarrow> errno + bytes" where
  "FuseRead st path bytes_wanted offset file_info =
    (if offset < 0 then Inl EINVAL
     else bind_result (mount_view st) (\<lambda>r.
       bind_result (handle_inode st path file_info) (\<lambda>number.
       ReadFile r number (of_int offset) (min bytes_wanted 0x7FFFFFFF))))"

section \<open>Writing callbacks\<close>

definition ApplyJournalTransaction ::
  "os_answers \<Rightarrow> block_map \<Rightarrow> block_map \<Rightarrow> block_map \<Rightarrow> u32 \<Rightarrow> bytes \<Rightarrow> FuseMountState
    \<Rightarrow> (errno + unit) \<times> FuseMountState" where
  "ApplyJournalTransaction ans before_images ordered_images metadata_images blocks uuid st =
    (case SessionExecute ans before_images ordered_images metadata_images blocks uuid (mount_session st) of
       (Inl e, fail_closed, session) \<Rightarrow>
         if fail_closed then (Inl e, FailClosed e (st\<lparr>mount_session := session\<rparr>))
         else (Inl e, st\<lparr>mount_session := session\<rparr>)
     | (Inr _, _, session) \<Rightarrow> ReloadReader ans (st\<lparr>mount_session := session\<rparr>))"

text \<open>\<^verbatim>\<open>clock_gettime\<close>: seconds and nanoseconds, or a failure.\<close>

definition timestamp_of :: "(int \<times> int) option \<Rightarrow> errno + u64" where
  "timestamp_of clock = (case clock of
     None \<Rightarrow> Inl EIO
   | Some (tv_sec, tv_nsec) \<Rightarrow> if tv_sec < 0 then Inl EIO else Inr (of_int tv_sec * 1000000000 + of_int tv_nsec))"

definition FuseCreate ::
  "os_answers \<Rightarrow> (int \<times> int) option \<Rightarrow> u32 \<times> u32 \<Rightarrow> bytes option \<Rightarrow> u32 \<Rightarrow> u64 option \<Rightarrow> FuseMountState
    \<Rightarrow> (errno + u64) \<times> FuseMountState" where
  "FuseCreate ans clock owner path file_mode file_info st =
    (case (path, file_info) of
       (Some full_path, Some _) \<Rightarrow>
         if length full_path < 2 \<or> hd full_path \<noteq> 47 \<or> 47 \<in> set (tl full_path) then (Inl EOPNOTSUPP, st)
         else (case mount_view st of
           Inl e \<Rightarrow> (Inl e, st)
         | Inr r \<Rightarrow>
           (case ResolvePath r full_path of
              Inr _ \<Rightarrow> (Inl EEXIST, st)
            | Inl e \<Rightarrow>
              if e \<noteq> ENOENT then (Inl e, st)
              else (case timestamp_of clock of
                Inl e \<Rightarrow> (Inl e, st)
              | Inr timestamp \<Rightarrow>
                (case PrepareRootEmptyFileCreate r (tl full_path) file_mode (fst owner) (snd owner) timestamp of
                   Inl e \<Rightarrow> (Inl e, st)
                 | Inr plan \<Rightarrow>
                   (case ApplyJournalTransaction ans (create_before plan) [] (create_after plan)
                       (create_total_blocks plan) (create_uuid plan) st of
                      (Inl e, st) \<Rightarrow> (Inl e, st)
                    | (Inr _, st) \<Rightarrow> (Inr (ucast (create_inode_number plan)), st))))))
     | _ \<Rightarrow> (Inl EINVAL, st))"

definition FuseWrite ::
  "os_answers \<Rightarrow> (int \<times> int) option \<Rightarrow> bytes option \<Rightarrow> bytes option \<Rightarrow> int \<Rightarrow> u64 option \<Rightarrow> FuseMountState
    \<Rightarrow> (errno + nat) \<times> FuseMountState" where
  "FuseWrite ans clock path buffer offset file_info st =
    (case (buffer, file_info) of
       (Some payload, Some fh) \<Rightarrow>
         if offset < 0 then (Inl EINVAL, st)
         else if payload = [] then (Inr 0, st)
         else if length payload > 0x7FFFFFFF then (Inl EFBIG, st)
         else (case mount_view st of
           Inl e \<Rightarrow> (Inl e, st)
         | Inr r \<Rightarrow>
           (case handle_inode st path (Some fh) of
              Inl e \<Rightarrow> (Inl e, st)
            | Inr number \<Rightarrow>
              (case timestamp_of clock of
                 Inl e \<Rightarrow> (Inl e, st)
               | Inr timestamp \<Rightarrow>
                 (case PrepareFileWrite r number (of_int offset) payload timestamp of
                    Inl e \<Rightarrow> (Inl e, st)
                  | Inr plan \<Rightarrow>
                    (case ApplyJournalTransaction ans (mutation_before plan) (mutation_ordered plan)
                        (mutation_metadata plan) (mutation_total_blocks plan) (mutation_uuid plan) st of
                       (Inl e, st) \<Rightarrow> (Inl e, st)
                     | (Inr _, st) \<Rightarrow> (Inr (length payload), st))))))
     | _ \<Rightarrow> (Inl EINVAL, st))"

text \<open>The callbacks that the file system does not implement.\<close>

datatype unsupported_call = TruncateCall | MkdirCall | UnlinkCall | RmdirCall | RenameCall

definition ReadOnlyCall :: "unsupported_call \<Rightarrow> FuseMountState \<Rightarrow> (errno + unit) \<times> FuseMountState" where
  "ReadOnlyCall call st = (Inl EROFS, st)"

section \<open>The invariant of a mount\<close>

definition mount_ok :: "Superblock \<Rightarrow> FuseMountState \<Rightarrow> bool" where
  "mount_ok sb st \<longleftrightarrow> mount_fatal_error st = None
    \<and> (\<exists>r. mount_reader st = Some r \<and> session_ok sb (mount_session st) r)"

definition mount_closed :: "FuseMountState \<Rightarrow> bool" where
  "mount_closed st \<longleftrightarrow> mount_fatal_error st \<noteq> None \<and> mount_reader st = None"

lemma mount_ok_view:
  assumes "mount_ok sb st"
  shows "\<exists>r. mount_view st = Inr r \<and> mount_reader st = Some r \<and> session_ok sb (mount_session st) r"
  using assms by (auto simp: mount_ok_def mount_view_def mount_usable_def)

lemma ApplyJournalTransaction_failure:
  assumes "ApplyJournalTransaction ans b om m t u st = (Inl e, st')" "mount_view st = Inr r"
  shows "st' = st \<or> mount_closed st'"
proof -
  obtain res f session where run: "SessionExecute ans b om m t u (mount_session st) = (res, f, session)" by (metis prod_cases3)
  have nf: "mount_fatal_error st = None" using assms(2) by (auto simp: mount_view_def mount_usable_def split: if_splits)
  show ?thesis
  proof (cases res)
    case (Inl e')
    then show ?thesis using assms(1) run SessionExecute_failure [of ans b om m t u "mount_session st" e' f session]
      by (auto simp: ApplyJournalTransaction_def FailClosed_def mount_closed_def split: if_splits)
  next
    case (Inr x)
    then show ?thesis using assms(1) run nf
      by (auto simp: ApplyJournalTransaction_def ReloadReader_def FailClosed_def mount_closed_def split: sum.splits if_splits)
  qed
qed

lemma ApplyJournalTransaction_success:
  assumes "ApplyJournalTransaction ans b om m t u st = (Inr x, st')"
  shows "\<exists>f session r'. SessionExecute ans b om m t u (mount_session st) = (Inr (), f, session)
    \<and> SessionReader ans session = Inr r' \<and> mount_fatal_error st = None
    \<and> st' = st\<lparr>mount_session := session, mount_reader := Some r'\<rparr>"
  using assms by (auto simp: ApplyJournalTransaction_def ReloadReader_def split: prod.splits sum.splits if_splits)

text \<open>The steps that a successful write of a non-empty buffer took.\<close>

lemma FuseWrite_success:
  assumes "FuseWrite ans clock path (Some payload) offset (Some fh) st = (Inr written, st')" "payload \<noteq> []"
  obtains r number timestamp plan session f r' where "0 \<le> offset" "mount_view st = Inr r"
    "handle_inode st path (Some fh) = Inr number" "timestamp_of clock = Inr timestamp"
    "PrepareFileWrite r number (of_int offset) payload timestamp = Inr plan"
    "SessionExecute ans (mutation_before plan) (mutation_ordered plan) (mutation_metadata plan)
      (mutation_total_blocks plan) (mutation_uuid plan) (mount_session st) = (Inr (), f, session)"
    "SessionReader ans session = Inr r'" "st' = st\<lparr>mount_session := session, mount_reader := Some r'\<rparr>"
    "written = length payload" "length payload \<le> 0x7FFFFFFF" "mount_fatal_error st = None"
proof -
  obtain r number timestamp plan x st1 where c: "0 \<le> offset" "mount_view st = Inr r"
    "handle_inode st path (Some fh) = Inr number" "timestamp_of clock = Inr timestamp"
    "PrepareFileWrite r number (of_int offset) payload timestamp = Inr plan"
    "ApplyJournalTransaction ans (mutation_before plan) (mutation_ordered plan) (mutation_metadata plan)
      (mutation_total_blocks plan) (mutation_uuid plan) st = (Inr x, st')" "written = length payload" "length payload \<le> 0x7FFFFFFF"
    using assms by (auto simp: FuseWrite_def step_iffs)
  show ?thesis using ApplyJournalTransaction_success [OF c(6)] c that by blast
qed

lemma FuseWrite_mutates:
  assumes ok: "mount_ok sb st" and healthy: "healthy_reader ans"
    and run: "FuseWrite ans clock path (Some payload) offset (Some fh) st = (Inr written, st')" "payload \<noteq> []"
    and plain: "\<forall>r number timestamp plan. mount_reader st = Some r
      \<and> handle_inode st path (Some fh) = Inr number \<and> timestamp_of clock = Inr timestamp
      \<and> PrepareFileWrite r number (of_int offset) payload timestamp = Inr plan
      \<longrightarrow> (\<forall>x \<in> set (mutation_metadata plan). isl (DecodeCommit (snd x)))"
  shows "\<exists>r r' number timestamp. mount_view st = Inr r \<and> mount_view st' = Inr r' \<and> mount_ok sb st'
    \<and> handle_inode st path (Some fh) = Inr number \<and> written = length payload \<and> 0 \<le> offset \<and> length payload \<le> 0x7FFFFFFF
    \<and> mutated_view r r' number \<lparr>request_mode = kWriteRange, request_offset = of_int offset, request_data = payload,
       request_timestamp_ns = timestamp, expected_generation = 0\<rparr>"
proof -
  obtain r number timestamp plan session f r' where c: "0 \<le> offset" "mount_view st = Inr r"
    "handle_inode st path (Some fh) = Inr number" "timestamp_of clock = Inr timestamp"
    "PrepareFileWrite r number (of_int offset) payload timestamp = Inr plan"
    "SessionExecute ans (mutation_before plan) (mutation_ordered plan) (mutation_metadata plan)
      (mutation_total_blocks plan) (mutation_uuid plan) (mount_session st) = (Inr (), f, session)"
    "SessionReader ans session = Inr r'" "st' = st\<lparr>mount_session := session, mount_reader := Some r'\<rparr>"
    "written = length payload" "length payload \<le> 0x7FFFFFFF" "mount_fatal_error st = None" by (rule FuseWrite_success [OF run])
  obtain r0 where r0: "mount_view st = Inr r0" "mount_reader st = Some r0" "session_ok sb (mount_session st) r0"
    using mount_ok_view [OF ok] by blast
  have rr: "r0 = r" using r0(1) c(2) by simp
  have plan: "PrepareFileMutation r number \<lparr>request_mode = kWriteRange, request_offset = of_int offset, request_data = payload,
       request_timestamp_ns = timestamp, expected_generation = 0\<rparr> = Inr plan"
    using c(5) run(2) by (simp add: PrepareFileWrite_def)
  obtain r1 where r1: "session_ok sb session r1" "mutated_view r r1 number \<lparr>request_mode = kWriteRange, request_offset = of_int offset,
       request_data = payload, request_timestamp_ns = timestamp, expected_generation = 0\<rparr>"
    using session_mutated [OF r0(3) [unfolded rr] plan _ c(6)] plain r0(2) rr c(3-5) by blast
  have "SessionReader ans session = Inr r1"
    using SessionReader_healthy [OF healthy, of session sb] r1(1) by (simp add: session_ok_def)
  then have "r1 = r'" using c(7) by simp
  then show ?thesis using c r1 by (auto simp: mount_ok_def mount_view_def mount_usable_def)
qed

lemma read_written:
  "take (length payload) (drop (unat off) (file_after \<lparr>request_mode = kWriteRange, request_offset = off, request_data = payload,
      request_timestamp_ns = t, expected_generation = 0\<rparr> old)) = payload"
proof -
  let ?x = "old @ replicate (unat off + length payload - length old) 0"
  have "get_bytes (unat off) (length payload) (put_bytes (unat off) payload ?x) = payload"
    by (rule get_put_same) simp_all
  then show ?thesis by (simp add: file_after_def replaces_def get_bytes_def)
qed

lemma FuseRead_contents:
  assumes "mount_ok sb st" "mount_view st = Inr r" "handle_inode st path fi = Inr n" "0 \<le> offset"
    and "ReadInode r n = Inr i" "S_ISREG (mode i)"
  shows "FuseRead st path wanted offset fi = Inr (take (min wanted 0x7FFFFFFF) (drop (unat (of_int offset :: u64)) (file_contents r i)))"
proof -
  have "volume_ok r" using mount_ok_view [OF assms(1)] assms(2) by (auto simp: session_ok_def)
  then show ?thesis
    using assms ReadFile_cut [OF assms(5,6) volume_file_readable [OF _ assms(5)]] by (simp add: FuseRead_def)
qed

lemma handle_inode_mutated:
  assumes "mount_view st = Inr r" "mount_view st' = Inr r'" "superblock r' = superblock r" "mutated_view r r' number request"
    and "handle_inode st path fi = Inr number"
  shows "handle_inode st' path fi = Inr number"
proof -
  obtain inode' where i: "ReadInode r' number = Inr inode'" using assms(4) by (auto simp: mutated_view_def)
  have "\<exists>x. FuseResolve st' path = Inr (number, x)" if res: "FuseResolve st path = Inr (number, x)" for x
  proof -
    obtain p where p: "path = Some p" "ResolvePath r p = Inr (number, x)"
      using res assms(1) by (auto simp: FuseResolve_def split: option.splits)
    have "ResolvePath r' p = Inr (number, inode')"
      by (rule ResolvePath_same [OF _ assms(3) p(2) i]) (use assms(4) in \<open>auto simp: mutated_view_def\<close>)
    then show ?thesis using p(1) assms(2) by (simp add: FuseResolve_def)
  qed
  then have path: "bind_result (FuseResolve st' path) (\<lambda>(number, _). Inr number) = Inr number"
    if "bind_result (FuseResolve st path) (\<lambda>(number, _). Inr number) = Inr number"
    using that by (auto simp: bind_result_Inr_iff)
  show ?thesis
  proof (cases fi)
    case (Some fh)
    then show ?thesis using assms(5) path by (cases "fh = 0") (simp_all add: handle_inode_def)
  qed (use assms(5) path in \<open>simp add: handle_inode_def\<close>)
qed

lemma FuseRead_other:
  assumes ok: "mount_ok sb st" "mount_ok sb st'" and v: "mount_view st = Inr r" "mount_view st' = Inr r'"
    and m: "mutated_view r r' number request" and o: "ucast other \<noteq> number" "other \<noteq> 0"
    and read: "\<not> isl (FuseRead st path wanted position (Some other))"
  shows "FuseRead st' path wanted position (Some other) = FuseRead st path wanted position (Some other)"
proof -
  obtain i where i: "ReadInode r (ucast other) = Inr i" "S_ISREG (mode i)" "0 \<le> position"
  proof -
    obtain bs where "FuseRead st path wanted position (Some other) = Inr bs" using read by (metis isl_def sum.exhaust)
    then have "\<not> position < 0" "ReadFile r (ucast other) (of_int position) (min wanted 0x7FFFFFFF) = Inr bs"
      using v(1) o(2) unfolding FuseRead_def guard_Inr by (simp_all add: handle_inode_def)
    then show ?thesis using that unfolding ReadFile_def bind_result_Inr_iff guard_Inr by auto
  qed
  have i': "ReadInode r' (ucast other) = Inr i" "file_contents r' i = file_contents r i"
    using m o(1) i(1) unfolding mutated_view_def by blast+
  have h: "handle_inode st path (Some other) = Inr (ucast other)" "handle_inode st' path (Some other) = Inr (ucast other)"
    using o(2) by (simp_all add: handle_inode_def)
  show ?thesis
    using FuseRead_contents [OF ok(1) v(1) h(1) i(3,1,2)] FuseRead_contents [OF ok(2) v(2) h(2) i(3) i'(1) i(2)] i'(2) by simp
qed

text \<open>The callbacks that may change the image, as one step, and runs of them.\<close>

datatype fuse_call =
    CallCreate "(int \<times> int) option" "u32 \<times> u32" "bytes option" u32 "u64 option"
  | CallWrite "(int \<times> int) option" "bytes option" "bytes option" int "u64 option"
  | CallUnsupported unsupported_call

definition empty_write :: "fuse_call \<Rightarrow> bool" where
  "empty_write call = (case call of CallWrite _ _ buffer _ _ \<Rightarrow> buffer = Some [] | _ \<Rightarrow> False)"

definition fuse_step :: "os_answers \<Rightarrow> fuse_call \<Rightarrow> FuseMountState \<Rightarrow> (errno + u64) \<times> FuseMountState" where
  "fuse_step ans call st = (case call of
     CallCreate clock owner path file_mode file_info \<Rightarrow> FuseCreate ans clock owner path file_mode file_info st
   | CallWrite clock path buffer offset file_info \<Rightarrow>
       (case FuseWrite ans clock path buffer offset file_info st of
          (Inl e, st) \<Rightarrow> (Inl e, st) | (Inr n, st) \<Rightarrow> (Inr (of_nat n), st))
   | CallUnsupported c \<Rightarrow> (case ReadOnlyCall c st of (Inl e, st) \<Rightarrow> (Inl e, st) | (Inr _, st) \<Rightarrow> (Inr 0, st)))"

fun fuse_run :: "(os_answers \<times> fuse_call) list \<Rightarrow> FuseMountState \<Rightarrow> (errno + u64) list \<times> FuseMountState" where
  "fuse_run [] st = ([], st)"
| "fuse_run ((ans, call) # calls) st =
    (case fuse_step ans call st of (res, st) \<Rightarrow>
       (case fuse_run calls st of (results, st) \<Rightarrow> (res # results, st)))"

lemma mount_view_Inr: "mount_view st = Inr r \<longleftrightarrow> mount_fatal_error st = None \<and> mount_reader st = Some r"
  by (auto simp: mount_view_def mount_usable_def split: option.splits)

lemma mount_view_closed: "mount_closed st \<Longrightarrow> mount_view st = Inl EIO"
  by (simp add: mount_view_def mount_usable_def mount_closed_def)

lemma ApplyJournalTransaction_alive:
  assumes "ApplyJournalTransaction ans b om m t u st = (Inr x, st')"
  shows "mount_usable st'"
  using ApplyJournalTransaction_success [OF assms] by (auto simp: mount_usable_def)

definition call_outcome :: "FuseMountState \<Rightarrow> (errno + 'a) \<times> FuseMountState \<Rightarrow> bool" where
  "call_outcome st result \<longleftrightarrow> (case result of
     (Inl e, st') \<Rightarrow> st' = st \<or> mount_closed st' | (Inr _, st') \<Rightarrow> mount_usable st')"

lemma transaction_outcome:
  assumes "mount_view st = Inr r"
  shows "call_outcome st (case ApplyJournalTransaction ans b om m t u st of (Inl e, st) \<Rightarrow> (Inl e, st) | (Inr _, st) \<Rightarrow> (Inr v, st))"
proof (cases "ApplyJournalTransaction ans b om m t u st")
  case (Pair res st1)
  then show ?thesis
    using ApplyJournalTransaction_failure [OF _ assms] ApplyJournalTransaction_alive
    by (cases res) (auto simp: call_outcome_def)
qed

lemma call_refused: "call_outcome st (Inl e, st)"
  by (simp add: call_outcome_def)

lemma FuseCreate_outcome: "call_outcome st (FuseCreate ans clock owner path file_mode fi st)"
  unfolding FuseCreate_def
  by (auto simp: call_refused transaction_outcome split: option.splits sum.splits)

lemma FuseWrite_outcome:
  assumes "mount_usable st \<or> buffer \<noteq> Some []"
  shows "call_outcome st (FuseWrite ans clock path buffer offset fi st)"
  using assms unfolding FuseWrite_def
  by (auto simp: call_refused transaction_outcome call_outcome_def [of _ "(Inr _, _)"] split: option.splits sum.splits)

lemma fuse_step_outcome:
  assumes "mount_usable st \<or> \<not> empty_write call"
  shows "call_outcome st (fuse_step ans call st)"
proof (cases call)
  case (CallWrite clock path buffer offset fi)
  have "call_outcome st (FuseWrite ans clock path buffer offset fi st)"
    by (rule FuseWrite_outcome) (use assms CallWrite in \<open>auto simp: empty_write_def\<close>)
  then show ?thesis using CallWrite by (auto simp: fuse_step_def call_outcome_def split: prod.splits sum.splits)
qed (simp_all add: fuse_step_def FuseCreate_outcome ReadOnlyCall_def call_refused)

lemma fuse_step_closed:
  assumes "mount_closed st"
  shows "snd (fuse_step ans call st) = st" "isl (fst (fuse_step ans call st)) \<or> empty_write call"
  using assms mount_view_closed [OF assms]
  by (auto simp: fuse_step_def FuseCreate_def FuseWrite_def ReadOnlyCall_def empty_write_def
      split: fuse_call.splits option.splits)

lemma fuse_run_closed: "mount_closed st \<Longrightarrow> snd (fuse_run calls st) = st"
  by (induction calls st rule: fuse_run.induct) (auto simp: fuse_step_closed split: prod.splits, metis fuse_step_closed(1) snd_conv)

lemma fuse_run_split:
  "snd (fuse_run (xs @ ys) st) = snd (fuse_run ys (snd (fuse_run xs st)))"
  "fst (fuse_run (xs @ ys) st) = fst (fuse_run xs st) @ fst (fuse_run ys (snd (fuse_run xs st)))"
  by (induction xs st rule: fuse_run.induct) (auto split: prod.splits)

lemma fuse_step_state:
  assumes "mount_usable st \<or> mount_closed st"
  shows "(mount_usable (snd (fuse_step ans call st)) \<or> mount_closed (snd (fuse_step ans call st)))
    \<and> (isl (fst (fuse_step ans call st)) \<longrightarrow> snd (fuse_step ans call st) = st \<or> mount_closed (snd (fuse_step ans call st)))"
proof (cases "mount_closed st")
  case True
  then show ?thesis using fuse_step_closed(1) by simp
next
  case False
  then have u: "mount_usable st" using assms by blast
  then have "call_outcome st (fuse_step ans call st)" using fuse_step_outcome by blast
  then show ?thesis using u by (auto simp: call_outcome_def split: prod.splits sum.splits)
qed

lemma fuse_run_state:
  "mount_usable st \<or> mount_closed st \<Longrightarrow> mount_usable (snd (fuse_run calls st)) \<or> mount_closed (snd (fuse_run calls st))"
proof (induction calls st rule: fuse_run.induct)
  case (2 ans call calls st)
  obtain res st1 where s: "fuse_step ans call st = (res, st1)" by fastforce
  then have "mount_usable st1 \<or> mount_closed st1" using fuse_step_state [OF 2(2), of ans call] by simp
  then show ?case using 2(1) [OF s [symmetric]] s by (auto split: prod.splits)
qed simp

lemma fuse_run_closed_results:
  "mount_closed st \<Longrightarrow> k < length calls \<Longrightarrow> isl (fst (fuse_run calls st) ! k) \<or> empty_write (snd (calls ! k))"
proof (induction calls st arbitrary: k rule: fuse_run.induct)
  case (2 ans call calls st)
  obtain res st1 where s: "fuse_step ans call st = (res, st1)" by fastforce
  then have c: "st1 = st" "isl res \<or> empty_write call" using fuse_step_closed [OF 2(2), of ans call] by simp_all
  have "isl (fst (fuse_run calls st) ! j) \<or> empty_write (snd (calls ! j))" if "j < length calls" for j
    using 2(1) [OF s [symmetric], of j] that 2(2) c(1) by simp
  moreover obtain results st2 where "fuse_run calls st = (results, st2)" by fastforce
  ultimately show ?case using s c 2(3) by (cases k) auto
qed simp

section \<open>A mounted sample volume\<close>

definition volume_mount :: FuseMountState where
  "volume_mount = \<lparr>mount_session = \<lparr>session_blocks = volume_disk, session_bytes = image_size volume_superblock\<rparr>,
     mount_reader = Some volume_reader, mount_fatal_error = None\<rparr>"

definition quiet_answers :: os_answers where
  "quiet_answers = \<lparr>dup_for_journal = None, journal_script = [], dup_for_reader = None, reader_getfl = Inr False,
     reader_fstat = None, reader_faults = (\<lambda>_. None)\<rparr>"

lemma volume_mount_ok: "mount_ok volume_superblock volume_mount"
  using volume_quiescent volume_open volume_reader_ok volume_disk_whole
  by (auto simp: mount_ok_def volume_mount_def session_ok_def)

lemma volume_mount_device:
  "journal_device (journal_script quiet_answers) (mount_session volume_mount) = quiet_device volume_disk (image_size volume_superblock)"
  "dup_for_journal quiet_answers = None" "mount_session volume_mount\<lparr>session_blocks := b\<rparr> = \<lparr>session_blocks = b, session_bytes = image_size volume_superblock\<rparr>"
  by (simp_all add: journal_device_def quiet_answers_def volume_mount_def)

lemma volume_mount_call:
  "mount_view volume_mount = Inr volume_reader" "handle_inode volume_mount path (Some 3) = Inr 3" "timestamp_of (Some (0, 5)) = Inr 5"
  "mount_fatal_error volume_mount = None"
  by (simp_all add: mount_view_Inr volume_mount_def handle_inode_def timestamp_of_def)

lemma volume_mount_reader: "mount_reader volume_mount = Some volume_reader"
  by (simp add: volume_mount_def)

lemma quiet_healthy: "healthy_reader quiet_answers"
  by (simp add: healthy_reader_def quiet_answers_def)

lemma volume_write_plan:
  "PrepareFileWrite volume_reader 3 2 [7, 8, 9] 5 = PrepareFileMutation volume_reader 3 volume_request"
  by (simp add: PrepareFileWrite_def volume_request_def)

lemma volume_execute:
  assumes plan: "PrepareFileMutation volume_reader 3 request = Inr plan" and small: "\<not> new_indirect_needed volume_file request"
  shows "\<exists>s. ExecuteJournalTransaction (Inr (quiet_device volume_disk (image_size volume_superblock))) (mutation_before plan)
      (mutation_ordered plan) (mutation_metadata plan) (mutation_total_blocks plan) (mutation_uuid plan) = (Inr (), False, Some s)"
proof -
  obtain inode old ps mapping ind a tb bs where run: "mutation_run volume_reader 3 request plan inode old ps mapping ind a tb bs"
    by (rule PrepareFileMutation_run [OF volume_reader_ok plan])
  have "0 < length (mutation_metadata plan)" using mutation_keys(6) [OF run] by simp
  then have "\<exists>p. PlanRingReservation volume_current (length (mutation_metadata plan)) = Inr p"
    unfolding PlanRingReservation_Inr using volume_metadata(1) [OF plan small]
    by (simp add: ValidateControlFields_nat volume_current_def volume_control_def sample_ring_control_def)
  then obtain p where p: "PlanRingReservation volume_current (length (mutation_metadata plan)) = Inr p" by blast
  note id = mountable_identity [OF volume_mountable volume_disk_whole]
  note tx = mutation_transaction_ok [OF volume_reader_ok run volume_reader_def id(3,1,2) p]
  have pl: "mutation_total_blocks plan = total_blocks volume_superblock" "mutation_uuid plan = filesystem_uuid volume_superblock"
    using run unfolding mutation_run_def volume_reader_fields by blast+
  show ?thesis using Execute_quiet [OF volume_mountable tx] unfolding pl by blast
qed

lemma volume_write:
  "\<exists>st. FuseWrite quiet_answers (Some (0, 5)) None (Some [7, 8, 9]) 2 (Some 3) volume_mount = (Inr 3, st)"
proof -
  obtain plan where plan: "PrepareFileMutation volume_reader 3 volume_request = Inr plan" using volume_plan by blast
  obtain s where s: "ExecuteJournalTransaction (Inr (quiet_device volume_disk (image_size volume_superblock))) (mutation_before plan)
      (mutation_ordered plan) (mutation_metadata plan) (mutation_total_blocks plan) (mutation_uuid plan) = (Inr (), False, Some s)"
    using volume_execute [OF plan volume_request_small] by blast
  let ?session = "\<lparr>session_blocks = dev_blocks (store_device s), session_bytes = image_size volume_superblock\<rparr>"
  have e: "SessionExecute quiet_answers (mutation_before plan) (mutation_ordered plan) (mutation_metadata plan)
      (mutation_total_blocks plan) (mutation_uuid plan) (mount_session volume_mount) = (Inr (), False, ?session)"
    using s by (simp add: SessionExecute_def DuplicateFd_def volume_mount_device)
  have so: "session_ok volume_superblock (mount_session volume_mount) volume_reader"
    using volume_mount_ok by (simp add: mount_ok_def volume_mount_def)
  obtain r' where "session_ok volume_superblock ?session r'"
    using session_mutated [OF so plan volume_metadata(2) [OF plan volume_request_small] e] by blast
  then have "SessionReader quiet_answers ?session = Inr r'"
    using SessionReader_healthy [OF quiet_healthy, of ?session volume_superblock] by (simp add: session_ok_def)
  then show ?thesis
    using plan e
    by (simp add: FuseWrite_def volume_mount_call volume_write_plan ApplyJournalTransaction_def ReloadReader_def)
qed

section \<open>Properties\<close>

text \<open>
  C6: a completed write is what the next read returns.  On a mounted consistent volume let a
  write callback succeed, whatever the kernel answered to the system calls of its journal
  transaction.  Then it wrote the whole buffer, the mount is consistent again, a read of the
  same range through the same handle or path returns exactly the buffer, and reads of every
  other inode return what they returned before.  (The metadata blocks of the write must not
  look like a COMMIT record.)
\<close>

theorem FuseWrite_then_read:
  assumes "mount_ok sb st" "healthy_reader ans" "payload \<noteq> []"
    and "FuseWrite ans clock path (Some payload) offset (Some fh) st = (Inr written, st')"
    and "\<forall>r number timestamp plan. mount_reader st = Some r
      \<and> handle_inode st path (Some fh) = Inr number \<and> timestamp_of clock = Inr timestamp
      \<and> PrepareFileWrite r number (of_int offset) payload timestamp = Inr plan
      \<longrightarrow> (\<forall>x \<in> set (mutation_metadata plan). isl (DecodeCommit (snd x)))"
  shows "written = length payload \<and> mount_ok sb st'
    \<and> FuseRead st' path (length payload) offset (Some fh) = Inr payload
    \<and> (\<exists>number. handle_inode st path (Some fh) = Inr number
      \<and> (\<forall>other wanted position. ucast other \<noteq> number \<and> other \<noteq> 0 \<and> \<not> isl (FuseRead st path wanted position (Some other))
        \<longrightarrow> FuseRead st' path wanted position (Some other) = FuseRead st path wanted position (Some other)))"
proof -
  obtain r r' number timestamp where c: "mount_view st = Inr r" "mount_view st' = Inr r'" "mount_ok sb st'"
    "handle_inode st path (Some fh) = Inr number" "written = length payload" "0 \<le> offset" "length payload \<le> 0x7FFFFFFF"
    and m: "mutated_view r r' number \<lparr>request_mode = kWriteRange, request_offset = of_int offset, request_data = payload,
       request_timestamp_ns = timestamp, expected_generation = 0\<rparr>"
    using FuseWrite_mutates [OF assms(1,2,4,3,5)] by blast
  have sb: "superblock r' = superblock r"
    using session_superblock mount_ok_view [OF assms(1)] mount_ok_view [OF c(3)] c(1,2) by fastforce
  obtain i' old where i: "ReadInode r' number = Inr i'" "S_ISREG (mode i')"
    "file_contents r' i' = file_after \<lparr>request_mode = kWriteRange, request_offset = of_int offset, request_data = payload,
       request_timestamp_ns = timestamp, expected_generation = 0\<rparr> old"
    using m unfolding mutated_view_def by fastforce
  have "FuseRead st' path (length payload) offset (Some fh) = Inr payload"
    using FuseRead_contents [OF c(3,2) handle_inode_mutated [OF c(1,2) sb m c(4)] c(6) i(1,2), of "length payload"] c(7)
    by (simp add: i(3) read_written)
  then show ?thesis using FuseRead_other [OF assms(1) c(3,1,2) m] c by blast
qed

theorem FuseWrite_then_read_witness:
  "\<exists>st. FuseWrite quiet_answers (Some (0, 5)) None (Some [7, 8, 9]) 2 (Some 3) volume_mount = (Inr 3, st)
    \<and> FuseRead st None (length [7 :: byte, 8, 9]) 2 (Some 3) = Inr [7, 8, 9]"
proof -
  obtain st where st: "FuseWrite quiet_answers (Some (0, 5)) None (Some [7, 8, 9]) 2 (Some 3) volume_mount = (Inr 3, st)"
    using volume_write by blast
  have "\<forall>r number timestamp plan. mount_reader volume_mount = Some r
      \<and> handle_inode volume_mount None (Some 3) = Inr number \<and> timestamp_of (Some (0, 5)) = Inr timestamp
      \<and> PrepareFileWrite r number (of_int 2) [7, 8, 9] timestamp = Inr plan
      \<longrightarrow> (\<forall>x \<in> set (mutation_metadata plan). isl (DecodeCommit (snd x)))"
    proof (intro allI impI, elim conjE)
    fix r number timestamp plan
    assume "mount_reader volume_mount = Some r" "handle_inode volume_mount None (Some 3) = Inr number"
      "timestamp_of (Some (0, 5)) = Inr timestamp" "PrepareFileWrite r number (of_int 2) [7, 8, 9] timestamp = Inr plan"
    then have "PrepareFileMutation volume_reader 3 volume_request = Inr plan"
      by (simp add: volume_mount_call volume_mount_reader flip: volume_write_plan)
    then show "\<forall>x \<in> set (mutation_metadata plan). isl (DecodeCommit (snd x))" by (rule volume_metadata(2) [OF _ volume_request_small])
  qed
  then show ?thesis using FuseWrite_then_read [OF volume_mount_ok quiet_healthy _ st] st by blast
qed

text \<open>
  C38: a mount never serves a state it is not sure of.  In every run of creating, writing and
  unsupported callbacks, with any failures of the operating system in between, a callback
  that fails has left the image and the reader untouched or has closed the mount, and once
  the mount is closed no callback changes the image any more and all of them fail, empty
  writes excepted.
\<close>

theorem fuse_run_fails_closed:
  assumes "mount_usable st \<or> mount_closed st" "snd (fuse_run before st) = st0" "fuse_step ans call st0 = (res, st1)"
  shows "(mount_usable st1 \<or> mount_closed st1) \<and> (isl res \<longrightarrow> st1 = st0 \<or> mount_closed st1)
    \<and> (mount_closed st1 \<longrightarrow> snd (fuse_run after st1) = st1
      \<and> (\<forall>k < length after. isl (fst (fuse_run after st1) ! k) \<or> empty_write (snd (after ! k))))"
proof -
  have "mount_usable st0 \<or> mount_closed st0" using fuse_run_state [OF assms(1), of before] unfolding assms(2) .
  then show ?thesis using fuse_step_state [of st0 ans call] fuse_run_closed [of st1 after] fuse_run_closed_results [of st1]
    unfolding assms(3) by auto
qed

theorem fuse_run_fails_closed_witness:
  "\<exists>st. fuse_step (quiet_answers\<lparr>journal_script := [IoFail EIO 0]\<rparr>) (CallWrite (Some (0, 5)) None (Some [7, 8, 9]) 2 (Some 3)) volume_mount
      = (Inl EIO, st) \<and> mount_closed st
    \<and> snd (fuse_run [(quiet_answers, CallWrite (Some (0, 5)) None (Some [7, 8, 9]) 2 (Some 3))] st) = st"
proof -
  let ?ans = "quiet_answers\<lparr>journal_script := [IoFail EIO 0]\<rparr>" and ?call = "CallWrite (Some (0, 5)) None (Some [7, 8, 9]) 2 (Some 3)"
  obtain plan where plan: "PrepareFileMutation volume_reader 3 volume_request = Inr plan" using volume_plan by blast
  have "SessionExecute ?ans (mutation_before plan) (mutation_ordered plan) (mutation_metadata plan) (mutation_total_blocks plan)
      (mutation_uuid plan) (mount_session volume_mount) = (Inl EIO, True, mount_session volume_mount)"
    by (simp add: SessionExecute_def DuplicateFd_def quiet_answers_def ExecuteJournalTransaction_def AdoptLockedFd_def Fcntl_def
        next_outcome_def journal_device_def)
  then have step: "fuse_step ?ans ?call volume_mount = (Inl EIO, FailClosed EIO volume_mount)"
    using plan by (simp add: fuse_step_def FuseWrite_def volume_mount_call volume_write_plan ApplyJournalTransaction_def FailClosed_def)
  have "mount_usable volume_mount" by (simp add: mount_usable_def volume_mount_def)
  moreover have "mount_closed (FailClosed EIO volume_mount)" by (simp add: mount_closed_def FailClosed_def)
  ultimately show ?thesis
    using fuse_run_fails_closed [of volume_mount "[]" volume_mount, OF _ _ step, of "[(quiet_answers, ?call)]"] step by simp
qed

end
