(* ===== verification/RequestLedgerFormat.thy ===== *)
theory RequestLedgerFormat
  imports OnDiskFormat
begin

text \<open>
  The identity of a remote request and its persistent record
  (\<^verbatim>\<open>src/src/object/request_fingerprint.{h,cpp}\<close>,
  \<^verbatim>\<open>src/src/object/request_ledger_format.{h,cpp}\<close>): the canonical byte string that is
  hashed into the fingerprint of a request, and the 128-byte slot that stores its outcome.

  SHA-256 is the argument \<open>evp_digest\<close>, the result of \<^verbatim>\<open>EVP_Digest\<close> on a byte string or
  \<open>None\<close> where it fails; nothing is assumed of it.  Null pointer checks and the texts of
  errors that only reach \<^verbatim>\<open>detail\<close> strings of callers have no counterpart.
\<close>

section \<open>Request fingerprints\<close>

abbreviation (input) kSha256Size :: nat where "kSha256Size \<equiv> 32"
abbreviation (input) kRequestIdSize :: nat where "kRequestIdSize \<equiv> 16"

datatype MutationOperation = kCreateIfAbsent | kReplaceIfVersion | kOtherOperation u8

definition operation_to_byte :: "MutationOperation \<Rightarrow> u8" where
  "operation_to_byte t = (case t of kCreateIfAbsent \<Rightarrow> 1 | kReplaceIfVersion \<Rightarrow> 2 | kOtherOperation b \<Rightarrow> b)"

definition byte_to_operation :: "u8 \<Rightarrow> MutationOperation" where
  "byte_to_operation b = (if b = 1 then kCreateIfAbsent else if b = 2 then kReplaceIfVersion
    else kOtherOperation b)"

record MutationIdentityInput =
  identity_operation :: MutationOperation
  identity_key :: bytes
  payload_size :: u64
  payload_sha256 :: bytes
  identity_timestamp_ns :: u64
  expected_inode :: u32
  expected_generation :: u64

definition kFingerprintFormatVersion :: u8 where
  "kFingerprintFormatVersion = 2"

definition AppendLe16 :: "u16 \<Rightarrow> bytes \<Rightarrow> bytes" where
  "AppendLe16 v out = out @ le_bytes 2 v"

definition AppendLe32 :: "u32 \<Rightarrow> bytes \<Rightarrow> bytes" where
  "AppendLe32 v out = out @ le_bytes 4 v"

definition AppendLe64 :: "u64 \<Rightarrow> bytes \<Rightarrow> bytes" where
  "AppendLe64 v out = out @ le_bytes 8 v"

definition CanonicalIdentity :: "MutationIdentityInput \<Rightarrow> bytes" where
  "CanonicalIdentity v =
    (let canonical = [kFingerprintFormatVersion];
         canonical = canonical @ [operation_to_byte (identity_operation v)];
         canonical = AppendLe16 (of_nat (length (identity_key v))) canonical;
         canonical = canonical @ identity_key v;
         canonical = AppendLe64 (payload_size v) canonical;
         canonical = canonical @ payload_sha256 v;
         canonical = AppendLe64 (identity_timestamp_ns v) canonical;
         canonical = canonical @ [if identity_operation v = kCreateIfAbsent then 1 else 2];
         canonical = AppendLe32 (expected_inode v) canonical
     in AppendLe64 (expected_generation v) canonical)"

definition BuildRequestFingerprint ::
  "(bytes \<Rightarrow> bytes option) \<Rightarrow> MutationIdentityInput \<Rightarrow> errno + bytes" where
  "BuildRequestFingerprint evp_digest v =
    (if identity_key v = [] \<or> length (identity_key v) > kMaxNameLength
        \<or> length (identity_key v) > 65535 \<or> payload_size v > kMaxFileSize then Inl EINVAL
     else
       let create = identity_operation v = kCreateIfAbsent;
           replace = identity_operation v = kReplaceIfVersion
       in
       if \<not> create \<and> \<not> replace
          \<or> create \<and> (expected_inode v \<noteq> 0 \<or> expected_generation v \<noteq> 0)
          \<or> replace \<and> (expected_inode v = 0 \<or> expected_generation v = 0) then Inl EINVAL
       else case evp_digest (CanonicalIdentity v) of
         None \<Rightarrow> Inl EIO
       | Some digest \<Rightarrow> if length digest \<noteq> kSha256Size then Inl EIO else Inr digest)"

section \<open>Ledger records\<close>

abbreviation (input) kRequestLedgerRecordSize :: nat where "kRequestLedgerRecordSize \<equiv> 128"
abbreviation (input) kRequestLedgerFormatVersion :: u16 where "kRequestLedgerFormatVersion \<equiv> 1"
abbreviation (input) kChecksumOffset :: nat where "kChecksumOffset \<equiv> 92"
abbreviation (input) kReservedOffset :: nat where "kReservedOffset \<equiv> 96"

text \<open>The bytes of \<^verbatim>\<open>.eufs.request-ledger\<close>.\<close>

definition kRequestLedgerName :: bytes where
  "kRequestLedgerName = [0x2E, 0x65, 0x75, 0x66, 0x73, 0x2E, 0x72, 0x65, 0x71, 0x75, 0x65, 0x73, 0x74,
     0x2D, 0x6C, 0x65, 0x64, 0x67, 0x65, 0x72]"

definition kRequestLedgerInodeNumber :: u32 where
  "kRequestLedgerInodeNumber = 2"

definition kLedgerMagic :: bytes where
  "kLedgerMagic = [0x45, 0x55, 0x4C, 0x47]"

datatype LedgerResultKind = kLedgerCommitted | kLedgerNotApplied | kOtherKind u8

datatype LedgerResultCode = kOk | kAlreadyExists | kVersionMismatch | kNotFound | kOtherCode u32

definition kind_to_byte :: "LedgerResultKind \<Rightarrow> u8" where
  "kind_to_byte t = (case t of kLedgerCommitted \<Rightarrow> 1 | kLedgerNotApplied \<Rightarrow> 2 | kOtherKind b \<Rightarrow> b)"

definition byte_to_kind :: "u8 \<Rightarrow> LedgerResultKind" where
  "byte_to_kind b = (if b = 1 then kLedgerCommitted else if b = 2 then kLedgerNotApplied else kOtherKind b)"

definition code_to_word :: "LedgerResultCode \<Rightarrow> u32" where
  "code_to_word t = (case t of kOk \<Rightarrow> 1 | kAlreadyExists \<Rightarrow> 2 | kVersionMismatch \<Rightarrow> 3 | kNotFound \<Rightarrow> 4
     | kOtherCode b \<Rightarrow> b)"

definition word_to_code :: "u32 \<Rightarrow> LedgerResultCode" where
  "word_to_code b = (if b = 1 then kOk else if b = 2 then kAlreadyExists else if b = 3 then kVersionMismatch
     else if b = 4 then kNotFound else kOtherCode b)"

record RequestLedgerRecord =
  operation :: MutationOperation
  result_kind :: LedgerResultKind
  request_id :: bytes
  fingerprint :: bytes
  result_code :: LedgerResultCode
  committed_inode :: u32
  committed_generation :: u64
  current_inode :: u32
  current_generation :: u64
  sequence :: u64

datatype LedgerDecodeStatus = kEmpty | kRecord RequestLedgerRecord | kCorrupt

definition HasNonzeroRequestId :: "bytes \<Rightarrow> bool" where
  "HasNonzeroRequestId v \<longleftrightarrow> list_ex (\<lambda>b. b \<noteq> 0) v"

definition ValidateRecord :: "RequestLedgerRecord \<Rightarrow> string + unit" where
  "ValidateRecord v =
    (let create = operation v = kCreateIfAbsent;
         replace = operation v = kReplaceIfVersion
     in
     if \<not> create \<and> \<not> replace \<or> \<not> HasNonzeroRequestId (request_id v) \<or> sequence v = 0
       then Inl ''ledger operation, request id, or sequence is invalid''
     else
       let committed = result_kind v = kLedgerCommitted;
           not_applied = result_kind v = kLedgerNotApplied
       in
       if \<not> committed \<and> \<not> not_applied then Inl ''ledger result kind is invalid''
       else
         let has_committed_version = committed_inode v \<noteq> 0 \<and> committed_generation v \<noteq> 0;
             has_current_version = current_inode v \<noteq> 0 \<and> current_generation v \<noteq> 0;
             committed_version_empty = committed_inode v = 0 \<and> committed_generation v = 0;
             current_version_empty = current_inode v = 0 \<and> current_generation v = 0
         in
         if committed then
           if result_code v \<noteq> kOk \<or> \<not> has_committed_version \<or> \<not> current_version_empty
             then Inl ''committed ledger result has inconsistent versions''
           else Inr ()
         else
           let expected_rejection = create \<and> result_code v = kAlreadyExists
                 \<or> replace \<and> (result_code v = kVersionMismatch \<or> result_code v = kNotFound)
           in
           if \<not> expected_rejection \<or> \<not> committed_version_empty
             then Inl ''not-applied ledger result is inconsistent''
           else if result_code v = kNotFound then
             if \<not> current_version_empty then Inl ''not-found ledger result must not contain a version''
             else Inr ()
           else if \<not> has_current_version then Inl ''rejected ledger result is missing the current version''
           else Inr ())"

definition ComputeChecksum :: "bytes \<Rightarrow> u32" where
  "ComputeChecksum bs = Crc32c (PutLe32 kChecksumOffset 0 bs)"

definition EncodeLedgerFields :: "RequestLedgerRecord \<Rightarrow> bytes" where
  "EncodeLedgerFields v =
    (PutLe64 84 (sequence v) \<circ> PutLe64 76 (current_generation v) \<circ> PutLe32 72 (current_inode v)
     \<circ> PutLe64 64 (committed_generation v) \<circ> PutLe32 60 (committed_inode v)
     \<circ> PutLe32 56 (code_to_word (result_code v)) \<circ> put_bytes 24 (fingerprint v)
     \<circ> put_bytes 8 (request_id v) \<circ> put_bytes 7 [kind_to_byte (result_kind v)]
     \<circ> put_bytes 6 [operation_to_byte (operation v)] \<circ> PutLe16 4 kRequestLedgerFormatVersion
     \<circ> put_bytes 0 kLedgerMagic) (replicate kRequestLedgerRecordSize 0)"

definition EncodeRequestLedgerRecord :: "RequestLedgerRecord \<Rightarrow> string + bytes" where
  "EncodeRequestLedgerRecord v =
    bind_result (ValidateRecord v) (\<lambda>_.
      let encoded = EncodeLedgerFields v
      in Inr (PutLe32 kChecksumOffset (ComputeChecksum encoded) encoded))"

definition DecodeLedgerFields :: "bytes \<Rightarrow> RequestLedgerRecord" where
  "DecodeLedgerFields bs =
    \<lparr>operation = byte_to_operation (hd (get_bytes 6 1 bs)), result_kind = byte_to_kind (hd (get_bytes 7 1 bs)),
     request_id = get_bytes 8 16 bs, fingerprint = get_bytes 24 32 bs,
     result_code = word_to_code (GetLe32 56 bs), committed_inode = GetLe32 60 bs,
     committed_generation = GetLe64 64 bs, current_inode = GetLe32 72 bs,
     current_generation = GetLe64 76 bs, sequence = GetLe64 84 bs\<rparr>"

definition DecodeRequestLedgerRecord :: "bytes \<Rightarrow> u64 \<Rightarrow> LedgerDecodeStatus" where
  "DecodeRequestLedgerRecord bs expected_sequence =
    (if expected_sequence = 0 then kCorrupt
     else if list_all (\<lambda>b. b = 0) bs then kEmpty
     else if get_bytes 0 4 bs \<noteq> kLedgerMagic \<or> GetLe16 4 bs \<noteq> kRequestLedgerFormatVersion then kCorrupt
     else if GetLe32 kChecksumOffset bs \<noteq> ComputeChecksum bs then kCorrupt
     else if \<not> BytesAreZero kReservedOffset 32 bs then kCorrupt
     else
       let decoded = DecodeLedgerFields bs
       in
       if sequence decoded \<noteq> expected_sequence then kCorrupt
       else case ValidateRecord decoded of Inl _ \<Rightarrow> kCorrupt | Inr _ \<Rightarrow> kRecord decoded)"

section \<open>Lemmas of the fingerprint\<close>

lemma operation_roundtrip: "byte_to_operation (operation_to_byte t) = t \<longleftrightarrow> t \<notin> {kOtherOperation 1, kOtherOperation 2}"
  by (cases t) (auto simp: byte_to_operation_def operation_to_byte_def)

lemma operation_to_byte_of_byte [simp]: "operation_to_byte (byte_to_operation b) = b"
  by (simp add: byte_to_operation_def operation_to_byte_def)

lemma le_bytes_inject:
  fixes v w :: "'a::len word"
  assumes "LENGTH('a) \<le> n * 8"
  shows "le_bytes n v = le_bytes n w \<longleftrightarrow> v = w"
  using le_word_le_bytes [OF assms, of v] le_word_le_bytes [OF assms, of w] by metis

definition identity_ok :: "MutationIdentityInput \<Rightarrow> bool" where
  "identity_ok v \<longleftrightarrow> length (identity_key v) \<le> 255 \<and> length (payload_sha256 v) = kSha256Size
    \<and> identity_operation v \<in> {kCreateIfAbsent, kReplaceIfVersion}"

lemma CanonicalIdentity_inject:
  assumes "identity_ok a" "identity_ok b" "CanonicalIdentity a = CanonicalIdentity b"
  shows "a = b"
proof -
  note u = CanonicalIdentity_def AppendLe16_def AppendLe32_def AppendLe64_def Let_def
  have op: "operation_to_byte (identity_operation a) = operation_to_byte (identity_operation b)"
    and len: "le_bytes 2 (of_nat (length (identity_key a)) :: u16) = le_bytes 2 (of_nat (length (identity_key b)) :: u16)"
    using assms(3) by (simp_all add: u)
  have o: "identity_operation a = identity_operation b"
    using op assms(1,2) by (auto simp: identity_ok_def operation_to_byte_def)
  have "(of_nat (length (identity_key a)) :: u16) = of_nat (length (identity_key b))"
    using len by (simp add: le_bytes_inject)
  then have k: "length (identity_key a) = length (identity_key b)"
    using assms(1,2) by (simp add: identity_ok_def word_unat_eq_iff unat_of_nat)
  show ?thesis
    using assms o k by (simp add: u identity_ok_def le_bytes_inject)
qed

section \<open>Lemmas of the record codec\<close>

lemma kind_to_byte_of_byte [simp]: "kind_to_byte (byte_to_kind b) = b"
  by (simp add: byte_to_kind_def kind_to_byte_def)

lemma code_to_word_of_word [simp]: "code_to_word (word_to_code b) = b"
  by (simp add: word_to_code_def code_to_word_def)

lemma ValidateRecord_enums:
  assumes "ValidateRecord v = Inr ()"
  shows "byte_to_operation (operation_to_byte (operation v)) = operation v"
    "byte_to_kind (kind_to_byte (result_kind v)) = result_kind v"
    "word_to_code (code_to_word (result_code v)) = result_code v" "sequence v \<noteq> 0"
  using assms
  by (auto simp: ValidateRecord_def Let_def byte_to_operation_def operation_to_byte_def byte_to_kind_def
      kind_to_byte_def word_to_code_def code_to_word_def split: if_splits)

lemma length_EncodeLedgerFields [simp]: "length (EncodeLedgerFields v) = 128"
  by (simp add: EncodeLedgerFields_def)

lemma length_kLedgerMagic [simp]: "length kLedgerMagic = 4"
  by (simp add: kLedgerMagic_def)

lemma ledger_roundtrip:
  assumes "ValidateRecord v = Inr ()" "length (request_id v) = 16" "length (fingerprint v) = 32"
  shows "\<exists>bs. EncodeRequestLedgerRecord v = Inr bs \<and> length bs = 128
    \<and> DecodeRequestLedgerRecord bs (sequence v) = kRecord v"
proof -
  let ?f = "EncodeLedgerFields v"
  let ?b = "PutLe32 92 (ComputeChecksum ?f) ?f"
  note eq = EncodeLedgerFields_def get_le_defs byte_simps
  have "get_bytes 92 4 ?f = replicate 4 0" using assms by (simp add: eq)
  then have z: "PutLe32 92 0 ?b = ?f" "PutLe32 92 0 ?f = ?f"
    using PutLe32_zero_again by (auto simp: PutLe32_def put_get_id)
  have h: "get_bytes 0 4 ?b = kLedgerMagic" "GetLe16 4 ?b = 1" "BytesAreZero 96 32 ?b"
    "GetLe32 92 ?b = ComputeChecksum ?f" using assms by (simp_all add: eq BytesAreZero_def)
  have "\<not> list_all (\<lambda>b. b = 0) ?b"
  proof
    assume "list_all (\<lambda>b. b = 0) ?b"
    then have "get_bytes 0 4 ?b = replicate 4 0" by (simp add: list_all_zero_iff byte_simps)
    then have "kLedgerMagic ! 0 = replicate 4 0 ! 0" using h(1) by metis
    then show False by (simp add: kLedgerMagic_def)
  qed
  moreover have "DecodeLedgerFields ?b = v"
    using assms by (simp add: DecodeLedgerFields_def eq ValidateRecord_enums)
  ultimately have "DecodeRequestLedgerRecord ?b (sequence v) = kRecord v"
    using h z ValidateRecord_enums(4) [OF assms(1)] assms(1)
    by (simp add: DecodeRequestLedgerRecord_def ComputeChecksum_def)
  then show ?thesis using assms(1) by (simp add: EncodeRequestLedgerRecord_def Let_def)
qed

lemma EncodeLedgerFields_decode:
  assumes "length bs = 128" "get_bytes 0 4 bs = kLedgerMagic" "GetLe16 4 bs = 1" "BytesAreZero 96 32 bs"
  shows "EncodeLedgerFields (DecodeLedgerFields bs) = PutLe32 92 0 bs" (is "?e = ?b")
proof -
  have v: "le_bytes 2 (1 :: u16) = get_bytes 4 2 bs"
    unfolding assms(3) [symmetric] using assms(1) by (simp add: get_le_defs)
  have one: "[hd (get_bytes i 1 bs)] = get_bytes i 1 bs" if "i < 128" for i
  proof -
    have "length (get_bytes i 1 bs) = 1" using that assms(1) by simp
    then show ?thesis by (cases "get_bytes i 1 bs") simp_all
  qed
  have "same_segments 0 [4,2,1,1,16,32,4,4,8,4,8,8,4,32] ?e ?b"
    using assms v one [of 6] one [of 7]
    by (simp add: EncodeLedgerFields_def DecodeLedgerFields_def GetLe32_def GetLe64_def
        byte_simps BytesAreZero_iff)
  then show ?thesis by (rule same_segments_eq) (use assms in simp_all)
qed

lemma ledger_codec_bijective:
  assumes "length bs = 128" "length (request_id v) = 16" "length (fingerprint v) = 32"
  shows "DecodeRequestLedgerRecord bs n = kRecord v \<longleftrightarrow> EncodeRequestLedgerRecord v = Inr bs \<and> sequence v = n"
proof
  assume "DecodeRequestLedgerRecord bs n = kRecord v"
  then have h: "get_bytes 0 4 bs = kLedgerMagic" "GetLe16 4 bs = 1" "BytesAreZero 96 32 bs"
    and c: "GetLe32 92 bs = ComputeChecksum bs"
    and v: "v = DecodeLedgerFields bs" "sequence v = n" "ValidateRecord v = Inr ()"
    by (auto simp: DecodeRequestLedgerRecord_def Let_def split: if_splits sum.splits)
  note f = EncodeLedgerFields_decode [OF assms(1) h, folded v(1)]
  have "ComputeChecksum (EncodeLedgerFields v) = GetLe32 92 bs"
    using c assms(1) by (simp add: f ComputeChecksum_def PutLe32_def put_put_same)
  then show "EncodeRequestLedgerRecord v = Inr bs \<and> sequence v = n"
    using v(2,3) assms(1) by (simp add: EncodeRequestLedgerRecord_def f PutLe32_restore)
next
  assume e: "EncodeRequestLedgerRecord v = Inr bs \<and> sequence v = n"
  then have "ValidateRecord v = Inr ()" by (auto simp: EncodeRequestLedgerRecord_def bind_result_Inr_iff)
  then show "DecodeRequestLedgerRecord bs n = kRecord v" using ledger_roundtrip [of v] assms e by auto
qed

lemma DecodeRequestLedgerRecord_kEmpty:
  assumes "length bs = 128"
  shows "DecodeRequestLedgerRecord bs n = kEmpty \<longleftrightarrow> n \<noteq> 0 \<and> bs = replicate 128 0"
  using assms by (auto simp: DecodeRequestLedgerRecord_def list_all_zero_iff Let_def split: sum.splits)

lemma DecodeRequestLedgerRecord_lengths:
  "DecodeRequestLedgerRecord bs n = kRecord v \<Longrightarrow> length bs = 128
    \<Longrightarrow> length (request_id v) = 16 \<and> length (fingerprint v) = 32"
  by (auto simp: DecodeRequestLedgerRecord_def Let_def DecodeLedgerFields_def split: if_splits sum.splits)

lemma DecodeRequestLedgerRecord_byte_change:
  assumes "DecodeRequestLedgerRecord bs n = kRecord v" "length bs = 128" "i < 128" "x \<noteq> bs ! i"
  shows "DecodeRequestLedgerRecord (bs[i := x]) m = kCorrupt"
proof -
  have c: "checksum_ok 92 bs" and magic: "get_bytes 0 4 bs = kLedgerMagic"
    using assms(1) by (auto simp: DecodeRequestLedgerRecord_def ComputeChecksum_def checksum_ok_def split: if_splits)
  have no: "\<not> checksum_ok 92 (bs[i := x])" using c assms(2-) by (intro checksum_ok_single_byte) auto
  obtain j where j: "j \<noteq> i" "j < 4" by (metis zero_less_numeral zero_neq_one one_less_numeral_iff semiring_norm(76))
  have "get_bytes 0 4 bs ! j = bs ! j" using j assms(2) by (simp add: nth_get_bytes)
  moreover have "kLedgerMagic ! j \<noteq> 0" using j(2) by (auto simp: kLedgerMagic_def nth_Cons' split: if_splits)
  ultimately have "(bs[i := x]) ! j \<noteq> 0" using magic j(1) by simp
  then have "\<not> list_all (\<lambda>b. b = 0) (bs[i := x])" using j assms(2) by (auto simp: list_all_length intro!: exI [of _ j])
  then show ?thesis using no
    by (auto simp: DecodeRequestLedgerRecord_def checksum_ok_def ComputeChecksum_def)
qed

section \<open>Properties\<close>

definition sample_identity :: MutationIdentityInput where
  "sample_identity = \<lparr>identity_operation = kReplaceIfVersion, identity_key = [97, 98], payload_size = 10,
     payload_sha256 = replicate 32 5, identity_timestamp_ns = 77, expected_inode = 3, expected_generation = 4\<rparr>"

definition sample_record :: RequestLedgerRecord where
  "sample_record = \<lparr>operation = kCreateIfAbsent, result_kind = kLedgerCommitted, request_id = replicate 16 1,
     fingerprint = replicate 32 2, result_code = kOk, committed_inode = 3, committed_generation = 1,
     current_inode = 0, current_generation = 0, sequence = 1\<rparr>"

lemma sample_record_valid: "ValidateRecord sample_record = Inr ()"
  by (simp add: sample_record_def ValidateRecord_def HasNonzeroRequestId_def list_ex_iff)

text \<open>
  C36: two mutations with the same fingerprint are the same mutation, unless their two
  different canonical encodings collide under the digest: every field of the identity
  enters the hashed bytes unambiguously.
\<close>

theorem fingerprint_identifies:
  assumes "BuildRequestFingerprint evp a = Inr f" "BuildRequestFingerprint evp b = Inr f"
    and "length (payload_sha256 a) = kSha256Size" "length (payload_sha256 b) = kSha256Size"
  shows "a = b \<or> CanonicalIdentity a \<noteq> CanonicalIdentity b
    \<and> evp (CanonicalIdentity a) = Some f \<and> evp (CanonicalIdentity b) = Some f"
proof -
  have "identity_ok a" "identity_ok b" "evp (CanonicalIdentity a) = Some f" "evp (CanonicalIdentity b) = Some f"
    using assms by (auto simp: BuildRequestFingerprint_def identity_ok_def Let_def split: option.splits if_splits)
  then show ?thesis using CanonicalIdentity_inject by blast
qed

theorem fingerprint_identifies_witness:
  "CanonicalIdentity sample_identity \<noteq> CanonicalIdentity (sample_identity\<lparr>expected_generation := 5\<rparr>)"
proof -
  have "BuildRequestFingerprint (\<lambda>_. Some (replicate 32 0)) sample_identity = Inr (replicate 32 0)"
    "BuildRequestFingerprint (\<lambda>_. Some (replicate 32 0)) (sample_identity\<lparr>expected_generation := 5\<rparr>) = Inr (replicate 32 0)"
    by (simp_all add: BuildRequestFingerprint_def sample_identity_def kMaxFileSize_def)
  from fingerprint_identifies [OF this] show ?thesis by (simp add: sample_identity_def)
qed

text \<open>
  C37: a ledger slot and a record determine each other: a slot decodes to a record exactly
  when it is the encoding of that record and the record carries the sequence number of
  the slot; exactly the zero slot is empty; and any change of a single byte of a stored
  record is reported as corruption, for every slot number.
\<close>

theorem ledger_record_codec:
  assumes "length bs = kRequestLedgerRecordSize" "length (request_id v) = kRequestIdSize"
    and "length (fingerprint v) = kSha256Size"
  shows "(DecodeRequestLedgerRecord bs n = kRecord v \<longleftrightarrow> EncodeRequestLedgerRecord v = Inr bs \<and> sequence v = n)
    \<and> (DecodeRequestLedgerRecord bs n = kEmpty \<longleftrightarrow> n \<noteq> 0 \<and> bs = replicate kRequestLedgerRecordSize 0)
    \<and> (EncodeRequestLedgerRecord v = Inr bs \<longrightarrow> (\<forall>i x m. i < kRequestLedgerRecordSize \<longrightarrow> x \<noteq> bs ! i
         \<longrightarrow> DecodeRequestLedgerRecord (bs[i := x]) m = kCorrupt))"
  using ledger_codec_bijective [OF assms] DecodeRequestLedgerRecord_kEmpty [OF assms(1)]
    DecodeRequestLedgerRecord_byte_change assms(1) by blast

theorem ledger_record_codec_witness:
  "\<exists>bs. EncodeRequestLedgerRecord sample_record = Inr bs \<and> DecodeRequestLedgerRecord bs 1 = kRecord sample_record
    \<and> DecodeRequestLedgerRecord (bs[3 := bs ! 3 + 1]) 1 = kCorrupt"
proof -
  obtain bs where e: "EncodeRequestLedgerRecord sample_record = Inr bs" "length bs = 128"
    using ledger_roundtrip [OF sample_record_valid] by (auto simp: sample_record_def)
  have "length (request_id sample_record) = 16" "length (fingerprint sample_record) = 32"
    "sequence sample_record = 1" by (simp_all add: sample_record_def)
  with ledger_record_codec [OF e(2), of sample_record 1] e show ?thesis by auto
qed

end
