(* ===== verification/RequestLedger.thy ===== *)
theory RequestLedger
  imports RequestLedgerFormat ReaderFrame JournalRecovery
begin

text \<open>
  The persistent request ledger of the object service
  (\<^verbatim>\<open>src/src/object/request_ledger_index.{h,cpp}\<close>,
  \<^verbatim>\<open>src/src/object/request_ledger_plan.{h,cpp}\<close>): the start-up scan that builds the index
  of executed requests, the append of a committed record to the index, the block plan of
  an append, and its merge into the transaction of an object.

  The ordered table of the index is an association list in the order of insertion; the
  source never iterates over it.  Whether a node can be allocated is the argument
  \<open>node_allocated\<close> of the append.  The tests that only compare argument addresses have no
  counterpart.
\<close>

section \<open>Index\<close>

abbreviation (input) kEntriesPerBlock :: nat where "kEntriesPerBlock \<equiv> 32"

record RequestLedgerIndex =
  capacity :: u64
  next_sequence :: u64
  records :: "(bytes \<times> RequestLedgerRecord) list"

definition index_full :: "RequestLedgerIndex \<Rightarrow> bool" where
  "index_full idx \<longleftrightarrow> of_nat (length (records idx)) = capacity idx"

definition FindRequest :: "RequestLedgerIndex \<Rightarrow> bytes \<Rightarrow> RequestLedgerRecord option" where
  "FindRequest idx id_bytes = map_of (records idx) id_bytes"

definition AppendCommitted ::
  "bool \<Rightarrow> RequestLedgerRecord \<Rightarrow> RequestLedgerIndex \<Rightarrow> errno + RequestLedgerIndex" where
  "AppendCommitted node_allocated rec idx =
    (if index_full idx then Inl ENOSPC
     else if sequence rec \<noteq> next_sequence idx then Inl EUCLEAN
     else case EncodeRequestLedgerRecord rec of
       Inl _ \<Rightarrow> Inl EUCLEAN
     | Inr _ \<Rightarrow>
       if \<not> node_allocated then Inl ENOMEM
       else if map_of (records idx) (request_id rec) \<noteq> None then Inl EEXIST
       else Inr (idx\<lparr>records := records idx @ [(request_id rec, rec)],
                    next_sequence := next_sequence idx + 1\<rparr>))"

section \<open>Scan\<close>

definition block_slots :: "bytes \<Rightarrow> bytes list" where
  "block_slots block = map (\<lambda>local. get_bytes (local * kRequestLedgerRecordSize) kRequestLedgerRecordSize block)
     [0..<kEntriesPerBlock]"

fun ScanSlots :: "bytes list \<Rightarrow> u64 \<Rightarrow> bool \<Rightarrow> (bytes \<times> RequestLedgerRecord) list
    \<Rightarrow> errno + u64 \<times> bool \<times> (bytes \<times> RequestLedgerRecord) list" where
  "ScanSlots [] seq saw_empty recs = Inr (seq, saw_empty, recs)"
| "ScanSlots (slot # rest) seq saw_empty recs =
    (case DecodeRequestLedgerRecord slot seq of
       kCorrupt \<Rightarrow> Inl EUCLEAN
     | kEmpty \<Rightarrow> ScanSlots rest (seq + 1) True recs
     | kRecord rec \<Rightarrow>
       if saw_empty then Inl EUCLEAN
       else if map_of recs (request_id rec) \<noteq> None then Inl EUCLEAN
       else ScanSlots rest (seq + 1) saw_empty (recs @ [(request_id rec, rec)]))"

fun ScanLedgerBlocks :: "ImageReader \<Rightarrow> InodeRecord \<Rightarrow> nat list \<Rightarrow> u64 \<Rightarrow> bool
    \<Rightarrow> (bytes \<times> RequestLedgerRecord) list \<Rightarrow> errno + u64 \<times> bool \<times> (bytes \<times> RequestLedgerRecord) list" where
  "ScanLedgerBlocks r inode [] seq saw_empty recs = Inr (seq, saw_empty, recs)"
| "ScanLedgerBlocks r inode (logical # rest) seq saw_empty recs =
    bind_result (MapLogicalBlock r inode (of_nat logical)) (\<lambda>physical.
    bind_result (ReadBlock r physical) (\<lambda>block.
    bind_result (ScanSlots (block_slots block) seq saw_empty recs) (\<lambda>(seq, saw_empty, recs).
    ScanLedgerBlocks r inode rest seq saw_empty recs)))"

definition ledger_path :: bytes where
  "ledger_path = 47 # kRequestLedgerName"

definition ledger_geometry_bad :: "u32 \<Rightarrow> InodeRecord \<Rightarrow> bool" where
  "ledger_geometry_bad number inode \<longleftrightarrow> number \<noteq> kRequestLedgerInodeNumber \<or> \<not> S_ISREG (mode inode)
    \<or> link_count inode \<noteq> 1 \<or> file_size inode = 0 \<or> file_size inode mod 4096 \<noteq> 0
    \<or> file_size inode mod 128 \<noteq> 0"

definition ResolveLedger :: "ImageReader \<Rightarrow> errno + u32 \<times> InodeRecord" where
  "ResolveLedger r = (case ResolvePath r ledger_path of
     Inl e \<Rightarrow> Inl (if e = ENOENT then EUCLEAN else e) | Inr v \<Rightarrow> Inr v)"

definition ScanRequestLedger :: "ImageReader \<Rightarrow> errno + RequestLedgerIndex" where
  "ScanRequestLedger r =
    (if feature_incompat (superblock r) AND kFeatureIncompatRequestLedger = 0 then Inl EOPNOTSUPP
     else if feature_incompat (superblock r) AND NOT kSupportedFeatureIncompat \<noteq> 0 then Inl EOPNOTSUPP
     else bind_result (ResolveLedger r) (\<lambda>(number, inode).
       if ledger_geometry_bad number inode then Inl EUCLEAN
       else
         let slots = file_size inode div 128
         in
         if unat slots > 2 ^ 64 - 1 then Inl EOVERFLOW
         else
           let block_total = ucast (file_size inode div 4096) :: u32
           in
           bind_result (ScanLedgerBlocks r inode [0..<unat block_total] 1 False []) (\<lambda>(seq, saw_empty, recs).
           Inr \<lparr>capacity = slots, next_sequence = of_nat (length recs) + 1, records = recs\<rparr>)))"

section \<open>Append plan\<close>

record RequestLedgerAppendPlan =
  plan_sequence :: u64
  logical_block :: u32
  physical_block :: u32
  ledger_total_blocks :: u32
  ledger_uuid :: bytes
  ledger_record :: RequestLedgerRecord
  ledger_before_image :: bytes
  ledger_after_image :: bytes

definition IsZeroSlot :: "bytes \<Rightarrow> nat \<Rightarrow> bool" where
  "IsZeroSlot block offset \<longleftrightarrow> list_all (\<lambda>b. b = 0) (get_bytes offset kRequestLedgerRecordSize block)"

definition ValidateAppendPlan :: "RequestLedgerAppendPlan \<Rightarrow> errno + unit" where
  "ValidateAppendPlan plan =
    (if plan_sequence plan = 0 \<or> sequence (ledger_record plan) \<noteq> plan_sequence plan
        \<or> ledger_total_blocks plan = 0 \<or> physical_block plan \<ge> ledger_total_blocks plan then Inl EINVAL
     else
       let slot_index = plan_sequence plan - 1;
           expected_logical = slot_index div 32
       in
       if expected_logical > 0xFFFFFFFF \<or> logical_block plan \<noteq> ucast expected_logical then Inl EINVAL
       else
         let inside = unat (slot_index mod 32) * kRequestLedgerRecordSize
         in
         if \<not> IsZeroSlot (ledger_before_image plan) inside then Inl EINVAL
         else case EncodeRequestLedgerRecord (ledger_record plan) of
           Inl _ \<Rightarrow> Inl EINVAL
         | Inr encoded \<Rightarrow>
           if put_bytes inside encoded (ledger_before_image plan) \<noteq> ledger_after_image plan then Inl EINVAL
           else Inr ())"

definition PrepareRequestLedgerAppend ::
  "ImageReader \<Rightarrow> RequestLedgerIndex \<Rightarrow> RequestLedgerRecord \<Rightarrow> errno + RequestLedgerAppendPlan" where
  "PrepareRequestLedgerAppend r idx record_without_sequence =
    (if index_full idx then Inl ENOSPC
     else if feature_incompat (superblock r) AND kFeatureIncompatRequestLedger = 0 then Inl EOPNOTSUPP
     else bind_result (ResolveLedger r) (\<lambda>(number, inode).
       if ledger_geometry_bad number inode \<or> file_size inode div 128 \<noteq> capacity idx then Inl EUCLEAN
       else
         let seq = next_sequence idx
         in
         if seq = 0 \<or> seq > capacity idx then Inl EUCLEAN
         else
           let slot_index = seq - 1;
               logical = slot_index div 32
           in
           if logical > 0xFFFFFFFF then Inl EOVERFLOW
           else
             bind_result (MapLogicalBlock r inode (ucast logical)) (\<lambda>physical.
             bind_result (ReadBlock r physical) (\<lambda>before.
               let inside = unat (slot_index mod 32) * kRequestLedgerRecordSize
               in
               if \<not> IsZeroSlot before inside then Inl EUCLEAN
               else
                 let rec = record_without_sequence\<lparr>sequence := seq\<rparr>
                 in
                 case EncodeRequestLedgerRecord rec of
                   Inl _ \<Rightarrow> Inl EINVAL
                 | Inr encoded \<Rightarrow>
                   Inr \<lparr>plan_sequence = seq, logical_block = ucast logical, physical_block = physical,
                        ledger_total_blocks = total_blocks (superblock r),
                        ledger_uuid = filesystem_uuid (superblock r), ledger_record = rec,
                        ledger_before_image = before,
                        ledger_after_image = put_bytes inside encoded before\<rparr>))))"

definition MergeRequestLedgerAppend ::
  "RequestLedgerAppendPlan \<Rightarrow> u32 \<Rightarrow> bytes \<Rightarrow> block_map \<Rightarrow> block_map \<Rightarrow> block_map
    \<Rightarrow> errno + block_map \<times> block_map \<times> block_map" where
  "MergeRequestLedgerAppend ledger object_total object_uuid before_images ordered_images metadata_images =
    bind_result (ValidateAppendPlan ledger) (\<lambda>_.
      if ledger_total_blocks ledger \<noteq> object_total \<or> ledger_uuid ledger \<noteq> object_uuid then Inl EINVAL
      else
        let block = physical_block ledger
        in
        if block \<in> keys before_images \<or> block \<in> keys ordered_images \<or> block \<in> keys metadata_images
          then Inl EINVAL
        else Inr (map_emplace block (ledger_before_image ledger) before_images, ordered_images,
                  map_emplace block (ledger_after_image ledger) metadata_images))"

section \<open>Scanning a list of slots\<close>

definition ledger_record_ok :: "RequestLedgerRecord \<Rightarrow> bool" where
  "ledger_record_ok rec \<longleftrightarrow> ValidateRecord rec = Inr () \<and> length (request_id rec) = kRequestIdSize
    \<and> length (fingerprint rec) = kSha256Size"

definition slot_of :: "RequestLedgerRecord \<Rightarrow> bytes" where
  "slot_of rec = projr (EncodeRequestLedgerRecord rec)"

definition zero_slot :: bytes where
  "zero_slot = replicate kRequestLedgerRecordSize 0"

definition index_entries :: "RequestLedgerRecord list \<Rightarrow> (bytes \<times> RequestLedgerRecord) list" where
  "index_entries recs = map (\<lambda>rec. (request_id rec, rec)) recs"

text \<open>The records number their slots from a given sequence number on.\<close>

definition numbered :: "nat \<Rightarrow> RequestLedgerRecord list \<Rightarrow> bool" where
  "numbered n recs \<longleftrightarrow> (\<forall>i < length recs. ledger_record_ok (recs ! i) \<and> sequence (recs ! i) = of_nat (Suc (n + i)))"

lemma numbered_Cons [simp]:
  "numbered n (rec # recs) \<longleftrightarrow> ledger_record_ok rec \<and> sequence rec = of_nat (Suc n) \<and> numbered (Suc n) recs"
  by (simp add: numbered_def all_less_Suc_length)

lemma numbered_Nil [simp]: "numbered n []"
  by (simp add: numbered_def)

lemma numbered_append: "numbered n (xs @ ys) \<longleftrightarrow> numbered n xs \<and> numbered (n + length xs) ys"
  by (induction xs arbitrary: n) auto

lemma slot_of_ok:
  assumes "ledger_record_ok rec"
  shows "EncodeRequestLedgerRecord rec = Inr (slot_of rec)" "length (slot_of rec) = 128"
    "DecodeRequestLedgerRecord (slot_of rec) (sequence rec) = kRecord rec"
  using ledger_roundtrip [of rec] assms by (auto simp: ledger_record_ok_def slot_of_def)

lemma decode_slot_of:
  "ledger_record_ok rec \<Longrightarrow> sequence rec = n \<Longrightarrow> DecodeRequestLedgerRecord (slot_of rec) n = kRecord rec"
  using slot_of_ok(3) by blast

lemma decode_kRecord_slot:
  assumes "length slot = 128" "DecodeRequestLedgerRecord slot n = kRecord rec"
  shows "ledger_record_ok rec" "slot_of rec = slot" "sequence rec = n"
proof -
  note l = DecodeRequestLedgerRecord_lengths [OF assms(2,1)]
  have "EncodeRequestLedgerRecord rec = Inr slot \<and> sequence rec = n"
    using ledger_codec_bijective assms l by blast
  then show "ledger_record_ok rec" "slot_of rec = slot" "sequence rec = n"
    using l by (auto simp: ledger_record_ok_def slot_of_def EncodeRequestLedgerRecord_def bind_result_Inr_iff)
qed

lemma of_nat_Suc_nonzero: "n < 18446744073709551615 \<Longrightarrow> (of_nat (Suc n) :: u64) \<noteq> 0"
proof
  assume "n < 18446744073709551615" "(of_nat (Suc n) :: u64) = 0"
  then have "unat (of_nat (Suc n) :: u64) = 0" "Suc n < 2 ^ LENGTH(64)" by simp_all
  then show False by (simp only: unat_of_nat) simp
qed

lemma ScanSlots_zeros:
  "n + m < 18446744073709551615 \<Longrightarrow>
    ScanSlots (replicate m zero_slot) (of_nat (Suc n)) saw recs = Inr (of_nat (Suc (n + m)), saw \<or> m > 0, recs)"
proof (induction m arbitrary: n saw)
  case (Suc m)
  have "DecodeRequestLedgerRecord zero_slot (of_nat (Suc n)) = kEmpty"
    using Suc.prems of_nat_Suc_nonzero [of n] by (simp add: zero_slot_def DecodeRequestLedgerRecord_kEmpty)
  moreover have "(of_nat (Suc n) + 1 :: u64) = of_nat (Suc (Suc n))" by (simp add: add.commute)
  ultimately show ?case using Suc.IH [of "Suc n" True] Suc.prems by simp
qed simp

lemma ScanSlots_complete:
  assumes "numbered n new" "n + length new + m < 18446744073709551615"
    and "distinct (map fst (recs @ index_entries new))"
  shows "ScanSlots (map slot_of new @ replicate m zero_slot) (of_nat (Suc n)) False recs
    = Inr (of_nat (Suc (n + length new + m)), m > 0, recs @ index_entries new)"
  using assms
proof (induction new arbitrary: n recs)
  case Nil
  then show ?case using ScanSlots_zeros [of n m False recs] by (simp add: index_entries_def)
next
  case (Cons rec new)
  have "map_of recs (request_id rec) = None"
    using Cons.prems(3) by (auto simp: map_of_eq_None_iff index_entries_def)
  moreover have "(of_nat (Suc n) + 1 :: u64) = of_nat (Suc (Suc n))" by (simp add: add.commute)
  moreover have "DecodeRequestLedgerRecord (slot_of rec) (of_nat (Suc n)) = kRecord rec"
    using Cons.prems(1) by (intro decode_slot_of) simp_all
  moreover have "distinct (map fst ((recs @ [(request_id rec, rec)]) @ index_entries new))"
    using Cons.prems(3) by (simp add: index_entries_def)
  ultimately show ?case
    using Cons.IH [of "Suc n" "recs @ [(request_id rec, rec)]"] Cons.prems(1,2) by (simp add: index_entries_def)
qed

lemma ScanSlots_sound:
  assumes "ScanSlots slots (of_nat (Suc n)) saw recs = Inr (seq, saw', recs')"
    and "\<forall>slot \<in> set slots. length slot = 128" "distinct (map fst recs)"
  shows "\<exists>new m. slots = map slot_of new @ replicate m zero_slot \<and> numbered n new
    \<and> recs' = recs @ index_entries new \<and> distinct (map fst recs') \<and> (saw \<longrightarrow> new = [])"
  using assms
proof (induction slots arbitrary: n saw recs)
  case Nil
  then show ?case by (intro exI [of _ "[]"] exI [of _ 0]) (simp add: index_entries_def)
next
  case (Cons slot slots)
  have suc: "(of_nat (Suc n) + 1 :: u64) = of_nat (Suc (Suc n))" by (simp add: add.commute)
  have len: "length slot = 128" "\<forall>slot \<in> set slots. length slot = 128" using Cons.prems(2) by simp_all
  show ?case
  proof (cases "DecodeRequestLedgerRecord slot (of_nat (Suc n))")
    case kEmpty
    then have "ScanSlots slots (of_nat (Suc (Suc n))) True recs = Inr (seq, saw', recs')"
      using Cons.prems(1) suc by simp
    from Cons.IH [OF this len(2) Cons.prems(3)] obtain m where
      "slots = replicate m zero_slot" "recs' = recs @ index_entries []" "distinct (map fst recs')" by auto
    moreover have "slot = zero_slot" using kEmpty len(1) by (simp add: DecodeRequestLedgerRecord_kEmpty zero_slot_def)
    ultimately show ?thesis by (intro exI [of _ "[]"] exI [of _ "Suc m"]) simp
  next
    case (kRecord rec)
    then have s: "\<not> saw" "map_of recs (request_id rec) = None"
      "ScanSlots slots (of_nat (Suc (Suc n))) False (recs @ [(request_id rec, rec)]) = Inr (seq, saw', recs')"
      using Cons.prems(1) suc by (auto split: if_splits)
    then have "distinct (map fst (recs @ [(request_id rec, rec)]))"
      using Cons.prems(3) by (simp add: map_of_eq_None_iff)
    from Cons.IH [OF s(3) len(2) this] obtain new m where
      "slots = map slot_of new @ replicate m zero_slot" "numbered (Suc n) new"
      "recs' = (recs @ [(request_id rec, rec)]) @ index_entries new" "distinct (map fst recs')" by auto
    with decode_kRecord_slot [OF len(1) kRecord] s(1) show ?thesis
      by (intro exI [of _ "rec # new"] exI [of _ m]) (simp add: index_entries_def)
  qed (use Cons.prems in simp)
qed

lemma ScanSlots_append:
  "ScanSlots (xs @ ys) seq saw recs =
    bind_result (ScanSlots xs seq saw recs) (\<lambda>(seq, saw, recs). ScanSlots ys seq saw recs)"
  by (induction xs arbitrary: seq saw recs) (auto split: LedgerDecodeStatus.split)

section \<open>The ledger file\<close>

definition ledger_slots :: "ImageReader \<Rightarrow> InodeRecord \<Rightarrow> bytes list" where
  "ledger_slots r inode = concat (map (\<lambda>l. block_slots (block_content r inode l)) [0..<unat (RequiredBlocks inode)])"

lemma length_block_slots [simp]: "length (block_slots b) = 32"
  by (simp add: block_slots_def del: upt_rec_numeral)

lemma nth_block_slots [simp]: "j < 32 \<Longrightarrow> block_slots b ! j = get_bytes (j * 128) 128 b"
  by (simp add: block_slots_def del: upt_rec_numeral)

lemma block_slots_length: "length b = 4096 \<Longrightarrow> slot \<in> set (block_slots b) \<Longrightarrow> length slot = 128"
  by (auto simp: block_slots_def simp del: upt_rec_numeral)

lemma concat_chunks: "concat (map (\<lambda>i. get_bytes (i * s) s d) [0..<n]) = take (n * s) d"
proof (induction n)
  case (Suc n)
  have "take (n * s + s) d = take (n * s) d @ take s (drop (n * s) d)" by (rule take_add)
  with Suc show ?case by (simp add: get_bytes_def add.commute)
qed simp

lemma concat_block_slots: "length b = 4096 \<Longrightarrow> concat (block_slots b) = b"
  by (simp add: block_slots_def concat_chunks del: upt_rec_numeral)

lemma ResolvePath_ReadInode: "ResolvePath r path = Inr (n, inode) \<Longrightarrow> ReadInode r n = Inr inode"
  by (auto simp: ResolvePath_def bind_result_Inr_iff split: if_splits)

lemma ResolveLedger_Inr: "ResolveLedger r = Inr v \<longleftrightarrow> ResolvePath r ledger_path = Inr v"
  by (auto simp: ResolveLedger_def split: sum.splits)

lemma whole_blocks:
  assumes "file_size inode \<le> kMaxFileSize" "file_size inode mod 4096 = 0"
  shows "unat (file_size inode) = unat (RequiredBlocks inode) * 4096"
    "unat (ucast (file_size inode div 4096) :: u32) = unat (RequiredBlocks inode)"
    "unat (file_size inode div 128) = unat (RequiredBlocks inode) * 32"
proof -
  have "unat (file_size inode mod 4096) = 0" using assms(2) by simp
  then have m: "unat (file_size inode) mod 4096 = 0" by (simp add: unat_mod)
  define q where "q = unat (file_size inode) div 4096"
  have q: "unat (file_size inode) = q * 4096" using m by (simp add: q_def mod_0_imp_dvd)
  have r: "unat (RequiredBlocks inode) = q" using unat_RequiredBlocks(1) [OF assms(1)] q by simp
  have le: "q \<le> 1036" using unat_RequiredBlocks(2) [OF assms(1)] r by simp
  show "unat (file_size inode) = unat (RequiredBlocks inode) * 4096" using q r by simp
  show "unat (ucast (file_size inode div 4096) :: u32) = unat (RequiredBlocks inode)"
    using q r le by (subst unat_ucast_u32) (simp_all add: unat_div)
  show "unat (file_size inode div 128) = unat (RequiredBlocks inode) * 32" using q r by (simp add: unat_div)
qed

lemma ReadBlock_file:
  assumes "inode_ok r inode" "l < unat (RequiredBlocks inode)"
  shows "ReadBlock r (file_pointer r inode l) = ReadExact r (unat (file_pointer r inode l) * kBlockSize) kBlockSize"
  using assms by (auto simp: inode_ok_def file_block_ok_def ReadBlock_def)

lemma ScanLedgerBlocks_slots:
  assumes "inode_ok r inode" "\<forall>l \<in> set ls. l < unat (RequiredBlocks inode)" "file_readable r inode"
  shows "ScanLedgerBlocks r inode ls seq saw recs
    = ScanSlots (concat (map (\<lambda>l. block_slots (block_content r inode l)) ls)) seq saw recs"
  using assms(2)
proof (induction ls arbitrary: seq saw recs)
  case (Cons l ls)
  then have l: "l < unat (RequiredBlocks inode)" by simp
  show ?case
    using MapLogicalBlock_ok [OF assms(1) l] ReadBlock_file [OF assms(1) l] block_content_ok(1) [OF assms(3) l] Cons
    by (simp add: ScanSlots_append) (rule bind_result_cong, auto)
qed simp

lemma ScanLedgerBlocks_readable:
  assumes "inode_ok r inode" "\<forall>l \<in> set ls. l < unat (RequiredBlocks inode)"
    and "ScanLedgerBlocks r inode ls seq saw recs = Inr v"
  shows "\<forall>l \<in> set ls. \<not> isl (ReadExact r (unat (file_pointer r inode l) * kBlockSize) kBlockSize)"
  using assms(2,3)
proof (induction ls arbitrary: seq saw recs)
  case (Cons l ls)
  then have l: "l < unat (RequiredBlocks inode)" by simp
  show ?case
    using Cons MapLogicalBlock_ok [OF assms(1) l] ReadBlock_file [OF assms(1) l]
    by (fastforce simp: bind_result_Inr_iff)
qed simp

definition ledger_features :: "ImageReader \<Rightarrow> bool" where
  "ledger_features r \<longleftrightarrow> feature_incompat (superblock r) AND kFeatureIncompatRequestLedger \<noteq> 0
    \<and> feature_incompat (superblock r) AND NOT kSupportedFeatureIncompat = 0"

lemma ScanRequestLedger_slots:
  "ScanRequestLedger r = Inr idx \<longleftrightarrow> ledger_features r \<and> (\<exists>number inode seq saw recs.
    ResolvePath r ledger_path = Inr (number, inode) \<and> \<not> ledger_geometry_bad number inode
    \<and> file_readable r inode \<and> ScanSlots (ledger_slots r inode) 1 False [] = Inr (seq, saw, recs)
    \<and> idx = \<lparr>capacity = file_size inode div 128, next_sequence = of_nat (length recs) + 1, records = recs\<rparr>)"
proof -
  have key: "ScanLedgerBlocks r inode [0..<unat (ucast (file_size inode div 4096) :: u32)] 1 False [] = Inr v
      \<longleftrightarrow> file_readable r inode \<and> ScanSlots (ledger_slots r inode) 1 False [] = Inr v"
    if "ResolvePath r ledger_path = Inr (number, inode)" "\<not> ledger_geometry_bad number inode" for number inode v
  proof -
    have i: "inode_ok r inode" using ReadInode_ok(1) [OF ResolvePath_ReadInode [OF that(1)]] .
    have "file_size inode \<le> kMaxFileSize" "file_size inode mod 4096 = 0"
      using i that(2) by (simp_all add: inode_ok_def ledger_geometry_bad_def)
    note n = whole_blocks(2) [OF this]
    let ?ls = "[0..<unat (RequiredBlocks inode)]"
    have "file_readable r inode" if "ScanLedgerBlocks r inode ?ls 1 False [] = Inr v"
      unfolding file_readable_def list_all_iff using ScanLedgerBlocks_readable [OF i _ that] by simp
    moreover have "ScanLedgerBlocks r inode ?ls 1 False [] = ScanSlots (ledger_slots r inode) 1 False []"
      if "file_readable r inode"
      unfolding ledger_slots_def using ScanLedgerBlocks_slots [OF i _ that, of ?ls] by simp
    ultimately show ?thesis unfolding n by auto
  qed
  have small: "unat (w :: u64) \<le> 2 ^ 64 - 1" for w using unsigned_less [where 'a = nat and w = w] by simp
  show ?thesis
    unfolding ScanRequestLedger_def Let_def ledger_features_def
    using small by (auto simp: bind_result_Inr_iff ResolveLedger_Inr key not_less)
qed

lemma ledger_slots_facts:
  assumes "inode_ok r inode" "file_readable r inode" "file_size inode mod 4096 = 0"
  shows "length (ledger_slots r inode) = unat (RequiredBlocks inode) * 32"
    "\<And>slot. slot \<in> set (ledger_slots r inode) \<Longrightarrow> length slot = 128"
    "concat (ledger_slots r inode) = file_contents r inode"
    "unat (RequiredBlocks inode) * 32 \<le> 33152"
proof -
  note b = block_content_ok(2) [OF assms(2)]
  have sz: "file_size inode \<le> kMaxFileSize" using assms(1) by (simp add: inode_ok_def)
  let ?n = "unat (RequiredBlocks inode)"
  show "length (ledger_slots r inode) = ?n * 32" unfolding ledger_slots_def by (rule length_concat_equal) simp
  show "length slot = 128" if s: "slot \<in> set (ledger_slots r inode)" for slot
  proof -
    obtain l where "l < ?n" "slot \<in> set (block_slots (block_content r inode l))"
      using s by (auto simp: ledger_slots_def)
    then show ?thesis using block_slots_length b by blast
  qed
  have "concat (concat (map (\<lambda>l. block_slots (block_content r inode l)) [0..<k]))
      = concat (map (block_content r inode) [0..<k])" if "k \<le> ?n" for k
    using that by (induction k) (simp_all add: concat_block_slots b)
  moreover have "length (concat (map (block_content r inode) [0..<?n])) = ?n * 4096"
    using b by (intro length_concat_equal) simp
  ultimately show "concat (ledger_slots r inode) = file_contents r inode"
    using whole_blocks(1) [OF sz assms(3)] by (simp add: ledger_slots_def file_contents_def)
  show "?n * 32 \<le> 33152" using unat_RequiredBlocks(2) [OF sz] by simp
qed

definition ledger_layout :: "RequestLedgerRecord list \<Rightarrow> nat \<Rightarrow> bytes list" where
  "ledger_layout recs m = map slot_of recs @ replicate m zero_slot"

lemma ledger_layout_lengths:
  assumes "numbered n recs"
  shows "length (ledger_layout recs m) = length recs + m" "\<And>slot. slot \<in> set (ledger_layout recs m) \<Longrightarrow> length slot = 128"
proof -
  show "length (ledger_layout recs m) = length recs + m" by (simp add: ledger_layout_def)
  show "length slot = 128" if "slot \<in> set (ledger_layout recs m)" for slot
    using that assms slot_of_ok(2) by (auto simp: ledger_layout_def zero_slot_def numbered_def in_set_conv_nth)
qed

lemma ScanSlots_layout:
  assumes "\<And>slot. slot \<in> set slots \<Longrightarrow> length slot = 128" "length slots \<le> 33152"
  shows "(\<exists>seq saw. ScanSlots slots 1 False [] = Inr (seq, saw, found)) \<longleftrightarrow>
    (\<exists>recs m. slots = ledger_layout recs m \<and> numbered 0 recs \<and> distinct (map request_id recs)
      \<and> found = index_entries recs)"
proof
  assume "\<exists>seq saw. ScanSlots slots 1 False [] = Inr (seq, saw, found)"
  then obtain seq saw where "ScanSlots slots (of_nat (Suc 0)) False [] = Inr (seq, saw, found)" by auto
  from ScanSlots_sound [OF this] assms(1) obtain new m where
    "slots = map slot_of new @ replicate m zero_slot" "numbered 0 new" "found = index_entries new"
    "distinct (map fst found)" by auto
  moreover have "map fst (index_entries new) = map request_id new" by (simp add: index_entries_def)
  ultimately show "\<exists>recs m. slots = ledger_layout recs m \<and> numbered 0 recs \<and> distinct (map request_id recs)
      \<and> found = index_entries recs" unfolding ledger_layout_def by metis
next
  assume "\<exists>recs m. slots = ledger_layout recs m \<and> numbered 0 recs \<and> distinct (map request_id recs)
      \<and> found = index_entries recs"
  then obtain recs m where r: "slots = ledger_layout recs m" "numbered 0 recs" "distinct (map request_id recs)"
    "found = index_entries recs" by blast
  have "length recs + m \<le> 33152" using assms(2) r(1) by (simp add: ledger_layout_def)
  moreover have "map fst (index_entries recs) = map request_id recs" by (simp add: index_entries_def)
  ultimately have "ScanSlots (map slot_of recs @ replicate m zero_slot) (of_nat (Suc 0)) False []
      = Inr (of_nat (Suc (0 + length recs + m)), m > 0, [] @ index_entries recs)"
    using r(2,3) by (intro ScanSlots_complete) simp_all
  then show "\<exists>seq saw. ScanSlots slots 1 False [] = Inr (seq, saw, found)"
    using r by (simp add: ledger_layout_def)
qed

lemma length_index_entries [simp]: "length (index_entries recs) = length recs"
  by (simp add: index_entries_def)

lemma ScanRequestLedger_layout:
  assumes "ResolvePath r ledger_path = Inr (number, inode)"
  shows "ScanRequestLedger r = Inr idx \<longleftrightarrow> ledger_features r \<and> \<not> ledger_geometry_bad number inode
    \<and> file_readable r inode \<and> (\<exists>recs m. ledger_slots r inode = ledger_layout recs m \<and> numbered 0 recs
      \<and> distinct (map request_id recs) \<and> idx = \<lparr>capacity = of_nat (length recs + m),
          next_sequence = of_nat (length recs) + 1, records = index_entries recs\<rparr>)"
proof -
  have i: "inode_ok r inode" using ReadInode_ok(1) [OF ResolvePath_ReadInode [OF assms]] .
  have sz: "file_size inode \<le> kMaxFileSize" using i by (simp add: inode_ok_def)
  show ?thesis
  proof (cases "file_readable r inode \<and> \<not> ledger_geometry_bad number inode")
    case True
    then have m: "file_size inode mod 4096 = 0" by (simp add: ledger_geometry_bad_def)
    have f: "file_readable r inode" using True by simp
    note l = ledger_slots_facts [OF i f m]
    have cap: "file_size inode div 128 = of_nat (length (ledger_slots r inode))"
      unfolding l(1) whole_blocks(3) [OF sz m, symmetric] by simp
    have "(\<exists>seq saw recs. ScanSlots (ledger_slots r inode) 1 False [] = Inr (seq, saw, recs)
        \<and> idx = \<lparr>capacity = file_size inode div 128, next_sequence = of_nat (length recs) + 1, records = recs\<rparr>)
      \<longleftrightarrow> (\<exists>recs m. ledger_slots r inode = ledger_layout recs m \<and> numbered 0 recs \<and> distinct (map request_id recs)
        \<and> idx = \<lparr>capacity = of_nat (length recs + m), next_sequence = of_nat (length recs) + 1,
            records = index_entries recs\<rparr>)" (is "?L \<longleftrightarrow> ?R")
    proof
      assume ?L
      then obtain found where e: "\<exists>seq saw. ScanSlots (ledger_slots r inode) 1 False [] = Inr (seq, saw, found)"
        "idx = \<lparr>capacity = file_size inode div 128, next_sequence = of_nat (length found) + 1, records = found\<rparr>"
        by blast
      with ScanSlots_layout [of "ledger_slots r inode" found] l obtain recs m where
        "ledger_slots r inode = ledger_layout recs m" "numbered 0 recs" "distinct (map request_id recs)"
        "found = index_entries recs" by auto
      then show ?R using e(2) cap by (auto simp: ledger_layout_def)
    next
      assume ?R
      then obtain recs m where e: "ledger_slots r inode = ledger_layout recs m" "numbered 0 recs" "distinct (map request_id recs)"
        "idx = \<lparr>capacity = of_nat (length recs + m), next_sequence = of_nat (length recs) + 1,
            records = index_entries recs\<rparr>" by blast
      then have "\<exists>seq saw. ScanSlots (ledger_slots r inode) 1 False [] = Inr (seq, saw, index_entries recs)"
        using ScanSlots_layout [of "ledger_slots r inode" "index_entries recs"] l by auto
      moreover have "file_size inode div 128 = of_nat (length recs + m)" using e(1) cap by (simp add: ledger_layout_def)
      ultimately show ?L using e(4) by auto
    qed
    then show ?thesis using True assms by (simp add: ScanRequestLedger_slots)
  next
    case False
    then show ?thesis using assms by (auto simp: ScanRequestLedger_slots)
  qed
qed

lemma concat_zero_slots: "concat (replicate m zero_slot) = replicate (m * 128) 0"
  by (induction m) (simp_all add: zero_slot_def replicate_add)

lemma equal_chunks:
  assumes "\<And>x. x \<in> set xs \<Longrightarrow> length x = k" "\<And>y. y \<in> set ys \<Longrightarrow> length y = k" "k > 0"
  shows "concat xs = concat ys \<longleftrightarrow> xs = ys"
proof
  have len: "length (concat zs) = length zs * k" if "\<And>z. z \<in> set zs \<Longrightarrow> length z = k" for zs :: "'a list list"
    using that by (induction zs) auto
  assume e: "concat xs = concat ys"
  then have "length xs * k = length ys * k" using len [of xs] len [of ys] assms by metis
  then have "length xs = length ys" using assms(3) by simp
  moreover have "\<forall>(x, y) \<in> set (zip xs ys). length x = length y"
  proof clarify
    fix x y assume "(x, y) \<in> set (zip xs ys)"
    then show "length x = length y" using assms(1,2) set_zip_leftD set_zip_rightD by metis
  qed
  ultimately show "xs = ys" using e concat_injective by blast
qed simp

lemma ledger_contents_layout:
  assumes "inode_ok r inode" "file_readable r inode" "file_size inode mod 4096 = 0" "numbered 0 recs"
  shows "ledger_slots r inode = ledger_layout recs m
    \<longleftrightarrow> file_contents r inode = concat (map slot_of recs) @ replicate (m * 128) 0"
proof -
  have "concat (ledger_slots r inode) = concat (ledger_layout recs m) \<longleftrightarrow> ledger_slots r inode = ledger_layout recs m"
    using ledger_slots_facts(2) [OF assms(1-3)] ledger_layout_lengths(2) [OF assms(4)] by (intro equal_chunks) auto
  then show ?thesis
    using ledger_slots_facts(3) [OF assms(1-3)] by (auto simp: ledger_layout_def concat_zero_slots)
qed

section \<open>Appending a record\<close>

lemma block_slots_put:
  assumes "length b = 4096" "length slot = 128" "j < 32"
  shows "block_slots (put_bytes (j * 128) slot b) = (block_slots b)[j := slot]"
proof (rule nth_equalityI)
  fix i assume "i < length (block_slots (put_bytes (j * 128) slot b))"
  then have i: "i < 32" by simp
  have le: "i * 128 + 128 \<le> 4096" "j * 128 + 128 \<le> 4096" using i assms(3) by linarith+
  show "block_slots (put_bytes (j * 128) slot b) ! i = (block_slots b)[j := slot] ! i"
  proof (cases "i = j")
    case True
    then show ?thesis using i le assms by (simp add: get_put_same)
  next
    case False
    then have "i * 128 + 128 \<le> j * 128 \<or> j * 128 + 128 \<le> i * 128" by linarith
    then show ?thesis using i le assms False by (simp add: get_put_other)
  qed
qed simp

lemma ReadExact_update:
  assumes "ReadExact r (n * 4096) 4096 = Inr old" "length content = 4096"
  shows "ReadExact (r\<lparr>reader_pread := (reader_pread r)(n := Inr content)\<rparr>) (n * 4096) 4096 = Inr content"
    "m \<noteq> n \<Longrightarrow> ReadExact (r\<lparr>reader_pread := (reader_pread r)(n := Inr content)\<rparr>) (m * 4096) 4096
      = ReadExact r (m * 4096) 4096"
  using assms by (auto simp: ReadExact_def get_bytes_def)

definition ledger_blocks_distinct :: "ImageReader \<Rightarrow> InodeRecord \<Rightarrow> bool" where
  "ledger_blocks_distinct r inode \<longleftrightarrow>
    distinct (indirect_block inode # map (file_pointer r inode) [0..<unat (RequiredBlocks inode)])"

definition with_block :: "u32 \<Rightarrow> bytes \<Rightarrow> ImageReader \<Rightarrow> ImageReader" where
  "with_block b content r = r\<lparr>reader_pread := (reader_pread r)(unat b := Inr content)\<rparr>"

lemma with_block_file:
  assumes "inode_ok r inode" "file_readable r inode" "ledger_blocks_distinct r inode"
    and "k < unat (RequiredBlocks inode)" "length content = 4096"
    and "r' = with_block (file_pointer r inode k) content r"
  shows "\<And>l. l < unat (RequiredBlocks inode) \<Longrightarrow> file_pointer r' inode l = file_pointer r inode l"
    "file_readable r' inode"
    "\<And>l. l < unat (RequiredBlocks inode) \<Longrightarrow> block_content r' inode l = (if l = k then content else block_content r inode l)"
proof -
  let ?n = "unat (RequiredBlocks inode)"
  let ?p = "file_pointer r inode"
  note old = block_content_ok(1) [OF assms(2) assms(4)]
  have inj: "?p l = ?p k \<Longrightarrow> l = k" if "l < ?n" for l
    using assms(3,4) that by (auto simp: ledger_blocks_distinct_def distinct_map inj_on_def)
  have ind: "indirect_block inode \<noteq> ?p k"
    using assms(3,4) by (auto simp: ledger_blocks_distinct_def)
  have other: "ReadExact r' (unat b * 4096) 4096 = ReadExact r (unat b * 4096) 4096" if "b \<noteq> ?p k" for b
    using ReadExact_update(2) [OF old assms(5), of "unat b"] that
    by (simp add: assms(6) with_block_def word_unat_eq_iff)
  have same: "ReadExact r' (unat (?p k) * 4096) 4096 = Inr content"
    using ReadExact_update(1) [OF old assms(5)] by (simp add: assms(6) with_block_def)
  show p: "file_pointer r' inode l = ?p l" if "l < ?n" for l
    using other [OF ind] by (simp add: file_pointer_def)
  have c: "ReadExact r' (unat (file_pointer r' inode l) * 4096) 4096
      = Inr (if l = k then content else block_content r inode l)" if "l < ?n" for l
    using p [OF that] same other [of "?p l"] inj [OF that] block_content_ok(1) [OF assms(2) that] by auto
  then show "file_readable r' inode" by (simp add: file_readable_def list_all_iff)
  show "block_content r' inode l = (if l = k then content else block_content r inode l)" if "l < ?n" for l
    using c [OF that] by (simp add: block_content_def)
qed

lemma ledger_slots_update:
  assumes "inode_ok r inode" "file_readable r inode" "ledger_blocks_distinct r inode"
    and "k < unat (RequiredBlocks inode) * 32" "length slot = 128"
    and "r' = with_block (file_pointer r inode (k div 32))
      (put_bytes (k mod 32 * 128) slot (block_content r inode (k div 32))) r"
  shows "file_readable r' inode" "ledger_slots r' inode = (ledger_slots r inode)[k := slot]"
proof -
  let ?n = "unat (RequiredBlocks inode)"
  have d: "k div 32 < ?n" using assms(4) by (simp add: less_mult_imp_div_less)
  have l: "length (put_bytes (k mod 32 * 128) slot (block_content r inode (k div 32))) = 4096"
    using block_content_ok(2) [OF assms(2) d] by simp
  note w = with_block_file [OF assms(1-3) d l assms(6)]
  show "file_readable r' inode" by (rule w(2))
  have len: "length (ledger_slots q inode) = ?n * 32" for q
    unfolding ledger_slots_def by (rule length_concat_equal) simp
  have nth: "ledger_slots q inode ! i = block_slots (block_content q inode (i div 32)) ! (i mod 32)" if "i < ?n * 32" for q i
    unfolding ledger_slots_def using that by (intro concat_equal_nth) simp_all
  have put: "block_slots (put_bytes (k mod 32 * 128) slot (block_content r inode (k div 32)))
      = (block_slots (block_content r inode (k div 32)))[k mod 32 := slot]"
    using block_content_ok(2) [OF assms(2) d] assms(5) by (intro block_slots_put) simp_all
  show "ledger_slots r' inode = (ledger_slots r inode)[k := slot]"
  proof (rule nth_equalityI)
    fix i assume "i < length (ledger_slots r' inode)"
    then have i: "i < ?n * 32" by (simp add: len)
    then have di: "i div 32 < ?n" by (simp add: less_mult_imp_div_less)
    have eq: "i = k \<longleftrightarrow> i div 32 = k div 32 \<and> i mod 32 = k mod 32" by (metis div_mult_mod_eq)
    have "ledger_slots r' inode ! i = (if i div 32 = k div 32 then (block_slots (block_content r inode (k div 32)))[k mod 32 := slot]
        else block_slots (block_content r inode (i div 32))) ! (i mod 32)"
      unfolding nth [OF i] w(3) [OF di] by (simp only: put split: if_split) simp
    also have "\<dots> = (if i = k then slot else block_slots (block_content r inode (i div 32)) ! (i mod 32))"
      unfolding eq by (simp add: nth_list_update)
    also have "\<dots> = (ledger_slots r inode)[k := slot] ! i"
      using i nth [OF i, of r] by (cases "i = k") (simp_all add: len)
    finally show "ledger_slots r' inode ! i = (ledger_slots r inode)[k := slot] ! i" .
  qed (simp add: len)
qed

lemma PrepareRequestLedgerAppend_plan:
  assumes "ResolvePath r ledger_path = Inr (number, inode)" "file_readable r inode"
    and "next_sequence idx = of_nat k + 1" "k \<le> 33152"
    and "PrepareRequestLedgerAppend r idx rec = Inr plan"
    and "length (request_id rec) = kRequestIdSize" "length (fingerprint rec) = kSha256Size"
  shows "k < unat (RequiredBlocks inode) * 32" "\<not> index_full idx"
    "physical_block plan = file_pointer r inode (k div 32)"
    "ledger_record plan = rec\<lparr>sequence := of_nat (Suc k)\<rparr>" "ledger_record_ok (ledger_record plan)"
    "ledger_before_image plan = block_content r inode (k div 32)"
    "ledger_after_image plan
      = put_bytes (k mod 32 * 128) (slot_of (ledger_record plan)) (block_content r inode (k div 32))"
    "ValidateAppendPlan plan = Inr ()" "plan_sequence plan = of_nat (Suc k)"
    "ledger_total_blocks plan = total_blocks (superblock r)" "ledger_uuid plan = filesystem_uuid (superblock r)"
proof -
  have i: "inode_ok r inode" using ReadInode_ok(1) [OF ResolvePath_ReadInode [OF assms(1)]] .
  let ?seq = "of_nat k + 1 :: u64"
  have s0: "?seq - 1 = of_nat k" by simp
  have uk: "unat (of_nat k :: u64) = k" using assms(4) by (simp add: unat_of_nat)
  have us: "unat ?seq = Suc k" using assms(4) by (simp add: unat_word_ariths unat_of_nat)
  have ul: "(ucast (of_nat k div 32 :: u64) :: u32) = of_nat (k div 32)"
    using assms(4) uk by (simp add: word_unat_eq_iff unat_div unat_ucast_u32 unat_of_nat)
  have um: "unat (of_nat k mod 32 :: u64) = k mod 32" using uk by (simp add: unat_mod)
  from assms(5) obtain physical before encoded where
    c: "\<not> index_full idx" "\<not> ledger_geometry_bad number inode" "file_size inode div 128 = capacity idx"
      "\<not> ?seq > capacity idx"
    and m: "MapLogicalBlock r inode (of_nat (k div 32)) = Inr physical" "ReadBlock r physical = Inr before"
      "IsZeroSlot before (k mod 32 * 128)"
    and e: "EncodeRequestLedgerRecord (rec\<lparr>sequence := ?seq\<rparr>) = Inr encoded"
    and plan: "plan = \<lparr>plan_sequence = ?seq, logical_block = of_nat (k div 32), physical_block = physical,
      ledger_total_blocks = total_blocks (superblock r), ledger_uuid = filesystem_uuid (superblock r),
      ledger_record = rec\<lparr>sequence := ?seq\<rparr>, ledger_before_image = before,
      ledger_after_image = put_bytes (k mod 32 * 128) encoded before\<rparr>"
    unfolding PrepareRequestLedgerAppend_def Let_def assms(3) s0
    by (auto simp: bind_result_Inr_iff case_sum_Inr_iff ResolveLedger_Inr assms(1) ul um)
  have sz: "file_size inode \<le> kMaxFileSize" "file_size inode mod 4096 = 0"
    using i c(2) by (simp_all add: inode_ok_def ledger_geometry_bad_def)
  have "Suc k \<le> unat (file_size inode div 128)" using c(3,4) us by (simp add: word_less_nat_alt not_less)
  then show k: "k < unat (RequiredBlocks inode) * 32" unfolding whole_blocks(3) [OF sz] by simp
  then have d: "k div 32 < unat (RequiredBlocks inode)" by (simp add: less_mult_imp_div_less)
  have phys: "physical = file_pointer r inode (k div 32)" using m(1) MapLogicalBlock_ok [OF i d] by simp
  have bef: "before = block_content r inode (k div 32)"
    using m(2) ReadBlock_file [OF i d] block_content_ok(1) [OF assms(2) d] by (simp add: phys)
  have seq: "?seq = of_nat (Suc k)" by simp
  have ok: "ledger_record_ok (rec\<lparr>sequence := ?seq\<rparr>)"
    using e assms(6,7) by (auto simp: ledger_record_ok_def EncodeRequestLedgerRecord_def bind_result_Inr_iff)
  show "\<not> index_full idx" "physical_block plan = file_pointer r inode (k div 32)"
    "ledger_record plan = rec\<lparr>sequence := of_nat (Suc k)\<rparr>" "ledger_record_ok (ledger_record plan)"
    "ledger_before_image plan = block_content r inode (k div 32)"
    "ledger_after_image plan = put_bytes (k mod 32 * 128) (slot_of (ledger_record plan)) (block_content r inode (k div 32))"
    "plan_sequence plan = of_nat (Suc k)"
    "ledger_total_blocks plan = total_blocks (superblock r)" "ledger_uuid plan = filesystem_uuid (superblock r)"
    using c(1) phys bef ok e by (simp_all add: plan slot_of_def add.commute)
  have bl: "physical < total_blocks (superblock r)" using m(2) by (auto simp: ReadBlock_def)
  have sm: "\<not> 0xFFFFFFFF < (of_nat k div 32 :: u64)"
    using assms(4) uk by (simp add: word_less_nat_alt unat_div)
  have "?seq \<noteq> 0" using us by auto
  then show "ValidateAppendPlan plan = Inr ()"
    using bl m(3) e unfolding ValidateAppendPlan_def Let_def
    using assms(4) by (auto simp: plan s0 ul um sm not_le)
qed

lemma ledger_append_scan:
  assumes "ScanRequestLedger r = Inr idx" "PrepareRequestLedgerAppend r idx rec = Inr plan"
    and "FindRequest idx (request_id rec) = None"
    and "length (request_id rec) = kRequestIdSize" "length (fingerprint rec) = kSha256Size"
    and "ResolvePath r ledger_path = Inr (number, inode)" "ledger_blocks_distinct r inode"
    and "r' = with_block (physical_block plan) (ledger_after_image plan) r"
    and "ResolvePath r' ledger_path = Inr (number, inode)"
  shows "\<exists>idx'. AppendCommitted True (ledger_record plan) idx = Inr idx' \<and> ScanRequestLedger r' = Inr idx'
    \<and> FindRequest idx' (request_id rec) = Some (ledger_record plan)"
proof -
  from assms(1,6) obtain recs m where f: "ledger_features r" "\<not> ledger_geometry_bad number inode" "file_readable r inode"
    and l: "ledger_slots r inode = ledger_layout recs m" "numbered 0 recs" "distinct (map request_id recs)"
    and idx: "idx = \<lparr>capacity = of_nat (length recs + m), next_sequence = of_nat (length recs) + 1,
          records = index_entries recs\<rparr>"
    by (auto simp: ScanRequestLedger_layout)
  have i: "inode_ok r inode" using ReadInode_ok(1) [OF ResolvePath_ReadInode [OF assms(6)]] .
  have md: "file_size inode mod 4096 = 0" using f(2) by (simp add: ledger_geometry_bad_def)
  have n: "length recs + m = unat (RequiredBlocks inode) * 32" "length recs \<le> 33152"
    using ledger_slots_facts(1,4) [OF i f(3) md] l(1) by (simp_all add: ledger_layout_def)
  define k where "k = length recs"
  have seq: "next_sequence idx = of_nat k + 1" and k: "k \<le> 33152" using n by (simp_all add: idx k_def)
  note p = PrepareRequestLedgerAppend_plan [OF assms(6) f(3) seq k assms(2,4,5)]
  let ?rec = "ledger_record plan"
  have id: "request_id ?rec = request_id rec" "sequence ?rec = of_nat (Suc k)" by (simp_all add: p(4))
  have fresh: "request_id rec \<notin> set (map request_id recs)"
    using assms(3) by (simp add: FindRequest_def idx map_of_eq_None_iff index_entries_def image_image)
  have r': "r' = with_block (file_pointer r inode (k div 32))
      (put_bytes (k mod 32 * 128) (slot_of ?rec) (block_content r inode (k div 32))) r"
    unfolding assms(8) p(3,7) ..
  note u = ledger_slots_update [OF i f(3) assms(7) p(1) slot_of_ok(2) [OF p(5)] r']
  obtain m' where m': "m = Suc m'" using p(1) n(1) k_def by (cases m) auto
  have "ledger_slots r' inode = ledger_layout (recs @ [?rec]) m'"
    unfolding u(2) l(1) by (simp add: ledger_layout_def m' k_def list_update_append)
  moreover have "numbered 0 (recs @ [?rec])" using l(2) p(5) id(2) by (simp add: numbered_append k_def)
  moreover have "distinct (map request_id (recs @ [?rec]))" using l(3) fresh id(1) by simp
  moreover have "ledger_features r'" using f(1) by (simp add: ledger_features_def assms(8) with_block_def)
  ultimately have scan: "ScanRequestLedger r' = Inr \<lparr>capacity = of_nat (length (recs @ [?rec]) + m'),
      next_sequence = of_nat (length (recs @ [?rec])) + 1, records = index_entries (recs @ [?rec])\<rparr>"
    unfolding ScanRequestLedger_layout [OF assms(9)] using f(2) u(1) by blast
  have enc: "EncodeRequestLedgerRecord ?rec = Inr (slot_of ?rec)" by (rule slot_of_ok(1) [OF p(5)])
  have none: "map_of (index_entries recs) (request_id rec) = None"
    using assms(3) by (simp add: FindRequest_def idx)
  have "AppendCommitted True ?rec idx = Inr (idx\<lparr>records := records idx @ [(request_id ?rec, ?rec)],
      next_sequence := next_sequence idx + 1\<rparr>)"
    using p(2) enc none id seq by (simp add: AppendCommitted_def idx)
  moreover have "idx\<lparr>records := records idx @ [(request_id ?rec, ?rec)], next_sequence := next_sequence idx + 1\<rparr>
      = \<lparr>capacity = of_nat (length (recs @ [?rec]) + m'),
      next_sequence = of_nat (length (recs @ [?rec])) + 1, records = index_entries (recs @ [?rec])\<rparr>"
    by (simp add: idx m' index_entries_def)
  ultimately show ?thesis
    using scan none id by (auto simp: FindRequest_def index_entries_def map_add_def split: option.split)
qed

section \<open>Properties\<close>

text \<open>
  C13: The start-up scan of the request ledger reads the ledger as a log.  It succeeds
  exactly when the file is a sequence of encoded records, numbered from one and with
  distinct request ids, followed by zeros only, and then the index holds exactly these
  records, the number of slots and the next sequence number.
\<close>

theorem ledger_scan_contents:
  assumes "ResolvePath r ledger_path = Inr (number, inode)" "ledger_features r"
    and "\<not> ledger_geometry_bad number inode" "file_readable r inode"
  shows "ScanRequestLedger r = Inr idx \<longleftrightarrow> (\<exists>recs m.
    file_contents r inode = concat (map slot_of recs) @ replicate (m * kRequestLedgerRecordSize) 0
    \<and> numbered 0 recs \<and> distinct (map request_id recs)
    \<and> idx = \<lparr>capacity = of_nat (length recs + m), next_sequence = of_nat (length recs) + 1,
             records = index_entries recs\<rparr>)"
proof -
  have i: "inode_ok r inode" using ReadInode_ok(1) [OF ResolvePath_ReadInode [OF assms(1)]] .
  have md: "file_size inode mod 4096 = 0" using assms(3) by (simp add: ledger_geometry_bad_def)
  show ?thesis
    using ledger_contents_layout [OF i assms(4) md] assms(2-4) unfolding ScanRequestLedger_layout [OF assms(1)] by metis
qed

end
