(* ===== verification/ObjectStore.thy ===== *)
theory ObjectStore
  imports FuseMount RequestLedger
begin

text \<open>
  The object backend (\<^verbatim>\<open>object/object_backend.cpp\<close>): opening, conditional creation and replacement
  with and without a request identity, and reads.  Every operation is one step under the mutex of
  the backend; the answers of the operating system and the allocation of an index node are
  arguments.  A request executes at most once and keeps its answer, the reported outcome
  is what happened to the image, uncertain outcomes close the backend, and a committed
  replacement is what the next read returns.
\<close>

section \<open>Data\<close>

record ObjectBackendOptions =
  option_permissions :: u32
  option_uid :: u32
  option_gid :: u32

record ObjectStat =
  stat_inode_number :: u32
  stat_bytes :: u64
  stat_mtime_ns :: u64
  stat_generation :: u64

record ObjectVersion =
  version_inode :: u32
  version_generation :: u64

datatype MutationOutcome = OutcomeNotApplied | OutcomeCommitted | OutcomeUnknown

record MutationResult =
  outcome :: MutationOutcome
  committed_version :: ObjectVersion
  current_version :: ObjectVersion

record RequestIdentity =
  identity_request_id :: bytes
  identity_fingerprint :: bytes

datatype RequestDisposition = kExecuted | kReplayed | kRequestIdConflict | kLedgerFull

record IdempotentMutationResult =
  mutation_result :: MutationResult
  disposition :: RequestDisposition

record ObjectBackend =
  backend_options :: ObjectBackendOptions
  backend_session :: MountedImageSession
  backend_reader :: "ImageReader option"
  request_ledger :: "RequestLedgerIndex option"
  backend_fatal_error :: "errno option"

definition no_version :: ObjectVersion where
  "no_version = \<lparr>version_inode = 0, version_generation = 0\<rparr>"

definition fresh_mutation :: MutationResult where
  "fresh_mutation = \<lparr>outcome = OutcomeNotApplied, committed_version = no_version, current_version = no_version\<rparr>"

definition fresh_result :: IdempotentMutationResult where
  "fresh_result = \<lparr>mutation_result = fresh_mutation, disposition = kExecuted\<rparr>"

definition inode_version :: "u32 \<Rightarrow> InodeRecord \<Rightarrow> ObjectVersion" where
  "inode_version number inode = \<lparr>version_inode = number, version_generation = generation inode\<rparr>"

definition MakeObjectStat :: "u32 \<Rightarrow> InodeRecord \<Rightarrow> ObjectStat" where
  "MakeObjectStat number inode = \<lparr>stat_inode_number = number, stat_bytes = file_size inode,
     stat_mtime_ns = mtime_ns inode, stat_generation = generation inode\<rparr>"

definition MakeCommittedRecord :: "MutationOperation \<Rightarrow> RequestIdentity \<Rightarrow> ObjectVersion \<Rightarrow> RequestLedgerRecord" where
  "MakeCommittedRecord op identity version = \<lparr>operation = op, result_kind = kLedgerCommitted,
     request_id = identity_request_id identity, fingerprint = identity_fingerprint identity, result_code = kOk,
     committed_inode = version_inode version, committed_generation = version_generation version,
     current_inode = 0, current_generation = 0, sequence = 0\<rparr>"

definition MakeRejectedRecord ::
  "MutationOperation \<Rightarrow> RequestIdentity \<Rightarrow> LedgerResultCode \<Rightarrow> ObjectVersion \<Rightarrow> RequestLedgerRecord" where
  "MakeRejectedRecord op identity code current_token = \<lparr>operation = op, result_kind = kLedgerNotApplied,
     request_id = identity_request_id identity, fingerprint = identity_fingerprint identity, result_code = code,
     committed_inode = 0, committed_generation = 0,
     current_inode = version_inode current_token, current_generation = version_generation current_token, sequence = 0\<rparr>"

section \<open>Opening\<close>

definition BackendOpen ::
  "string \<Rightarrow> ObjectBackendOptions \<Rightarrow> (string \<Rightarrow> errno + MountedImageSession) \<Rightarrow> (MountedImageSession \<Rightarrow> errno option)
    \<Rightarrow> os_answers \<Rightarrow> (errno + RecoveryAction \<times> ObjectBackend) \<times> MountedImageSession option" where
  "BackendOpen image_path options open_call flock_call ans =
    (if image_path = [] \<or> option_permissions options AND NOT 0x1FF \<noteq> 0 then (Inl EINVAL, None)
     else case SessionOpen image_path open_call flock_call of
       Inl e \<Rightarrow> (Inl e, None)
     | Inr session \<Rightarrow>
       (case SessionRecover ans session of
          (Inl e, session) \<Rightarrow> (Inl e, Some session)
        | (Inr action, session) \<Rightarrow>
          (case SessionReader ans session of
             Inl e \<Rightarrow> (Inl e, Some session)
           | Inr r \<Rightarrow>
             (case (if feature_incompat (superblock r) AND kFeatureIncompatRequestLedger \<noteq> 0
                    then bind_result (ScanRequestLedger r) (\<lambda>idx. Inr (Some idx)) else Inr None) of
                Inl e \<Rightarrow> (Inl e, Some session)
              | Inr ledger \<Rightarrow>
                  (Inr (action, \<lparr>backend_options = options, backend_session = session, backend_reader = Some r,
                     request_ledger = ledger, backend_fatal_error = None\<rparr>), Some session)))))"

section \<open>State of the backend\<close>

definition backend_usable :: "ObjectBackend \<Rightarrow> bool" where
  "backend_usable b \<longleftrightarrow> backend_fatal_error b = None \<and> backend_reader b \<noteq> None"

text \<open>The reader of a usable backend, after the test that every operation starts with.\<close>

definition CheckUsableLocked :: "ObjectBackend \<Rightarrow> errno + ImageReader" where
  "CheckUsableLocked b = (if \<not> backend_usable b then Inl EIO
     else case backend_reader b of None \<Rightarrow> Inl EIO | Some r \<Rightarrow> Inr r)"

definition FailClosedLocked :: "errno \<Rightarrow> ObjectBackend \<Rightarrow> ObjectBackend" where
  "FailClosedLocked err b = b\<lparr>backend_reader := None, backend_fatal_error := Some err\<rparr>"

definition ReloadReaderLocked :: "os_answers \<Rightarrow> ObjectBackend \<Rightarrow> (errno + unit) \<times> ObjectBackend" where
  "ReloadReaderLocked ans b = (case SessionReader ans (backend_session b) of
     Inl e \<Rightarrow> (Inl e, FailClosedLocked e b)
   | Inr candidate \<Rightarrow> (Inr (), b\<lparr>backend_reader := Some candidate\<rparr>))"

definition ResolveRegularLocked :: "ImageReader \<Rightarrow> bytes \<Rightarrow> errno + u32 \<times> InodeRecord" where
  "ResolveRegularLocked r name =
    (if \<not> IsValidRootObjectName name then Inl EINVAL
     else bind_result (ResolvePath r (47 # name)) (\<lambda>(number, inode).
       if \<not> S_ISREG (mode inode) then Inl EISDIR else Inr (number, inode)))"

text \<open>
  The ledger's answer to a request: the result, whether the request is handled already, and
  the state to report.
\<close>

definition CheckRequestLocked ::
  "RequestIdentity \<Rightarrow> MutationOperation \<Rightarrow> ObjectBackend \<Rightarrow> (errno + unit) \<times> bool \<times> IdempotentMutationResult" where
  "CheckRequestLocked identity op b =
    (if \<not> HasNonzeroRequestId (identity_request_id identity) then (Inl EINVAL, False, fresh_result)
     else case request_ledger b of
       None \<Rightarrow> (Inl EOPNOTSUPP, True, fresh_result)
     | Some idx \<Rightarrow>
       (case FindRequest idx (identity_request_id identity) of
          Some existing \<Rightarrow>
            if operation existing \<noteq> op \<or> fingerprint existing \<noteq> identity_fingerprint identity
            then (Inl EALREADY, True, fresh_result\<lparr>disposition := kRequestIdConflict\<rparr>)
            else if result_kind existing = kLedgerCommitted
            then (Inr (), True, \<lparr>mutation_result = fresh_mutation\<lparr>outcome := OutcomeCommitted,
                committed_version := \<lparr>version_inode = committed_inode existing,
                  version_generation = committed_generation existing\<rparr>\<rparr>, disposition = kReplayed\<rparr>)
            else
              (Inl (if result_code existing = kAlreadyExists then EEXIST
                    else if result_code existing = kVersionMismatch then ESTALE
                    else if result_code existing = kNotFound then ENOENT else EUCLEAN), True,
               \<lparr>mutation_result = fresh_mutation\<lparr>current_version := \<lparr>version_inode = current_inode existing,
                  version_generation = current_generation existing\<rparr>\<rparr>, disposition = kReplayed\<rparr>)
        | None \<Rightarrow>
            if index_full idx then (Inl ENOSPC, True, fresh_result\<lparr>disposition := kLedgerFull\<rparr>)
            else (Inr (), False, fresh_result)))"

section \<open>Transactions\<close>

definition ApplyLocked ::
  "os_answers \<Rightarrow> block_map \<Rightarrow> block_map \<Rightarrow> block_map \<Rightarrow> u32 \<Rightarrow> bytes \<Rightarrow> ObjectBackend
    \<Rightarrow> (errno + unit) \<times> MutationOutcome \<times> ObjectBackend" where
  "ApplyLocked ans before_images ordered_images metadata_images blocks uuid b =
    (case SessionExecute ans before_images ordered_images metadata_images blocks uuid (backend_session b) of
       (Inl e, fail_closed, session) \<Rightarrow>
         if fail_closed then (Inl e, OutcomeUnknown, FailClosedLocked e (b\<lparr>backend_session := session\<rparr>))
         else (Inl e, OutcomeNotApplied, b\<lparr>backend_session := session\<rparr>)
     | (Inr _, _, session) \<Rightarrow>
         (case ReloadReaderLocked ans (b\<lparr>backend_session := session\<rparr>) of (res, b) \<Rightarrow> (res, OutcomeCommitted, b)))"

definition PublishLedgerRecordLocked ::
  "bool \<Rightarrow> RequestLedgerRecord \<Rightarrow> ObjectBackend \<Rightarrow> (errno + unit) \<times> ObjectBackend" where
  "PublishLedgerRecordLocked node_allocated rec b = (case request_ledger b of
     None \<Rightarrow> (Inr (), b)
   | Some idx \<Rightarrow>
     (case AppendCommitted node_allocated rec idx of
        Inl e \<Rightarrow> (Inl e, FailClosedLocked e b)
      | Inr idx \<Rightarrow> (Inr (), b\<lparr>request_ledger := Some idx\<rparr>)))"

definition CommitLedgerOnlyLocked ::
  "os_answers \<Rightarrow> bool \<Rightarrow> RequestLedgerRecord \<Rightarrow> ImageReader \<Rightarrow> RequestLedgerIndex \<Rightarrow> ObjectBackend
    \<Rightarrow> (errno + unit) \<times> MutationOutcome \<times> ObjectBackend" where
  "CommitLedgerOnlyLocked ans node_allocated rec r idx b =
    (case bind_result (PrepareRequestLedgerAppend r idx rec) (\<lambda>ledger.
        bind_result (MergeRequestLedgerAppend ledger (ledger_total_blocks ledger) (ledger_uuid ledger) [] [] [])
          (\<lambda>images. Inr (ledger, images))) of
       Inl e \<Rightarrow> (Inl e, OutcomeNotApplied, b)
     | Inr (ledger, before_images, ordered_images, metadata_images) \<Rightarrow>
       (case ApplyLocked ans before_images ordered_images metadata_images (ledger_total_blocks ledger)
           (ledger_uuid ledger) b of
          (Inr _, OutcomeCommitted, b) \<Rightarrow>
            (case PublishLedgerRecordLocked node_allocated (ledger_record ledger) b of (res, b) \<Rightarrow> (res, OutcomeCommitted, b))
        | result \<Rightarrow> result))"

section \<open>Idempotent mutations\<close>

text \<open>
  A rejection is recorded in the ledger before it is answered with \<open>code\<close>; \<open>candidate\<close>
  carries the current version to report.
\<close>

definition RejectLocked ::
  "os_answers \<Rightarrow> bool \<Rightarrow> RequestLedgerRecord \<Rightarrow> errno \<Rightarrow> IdempotentMutationResult \<Rightarrow> ImageReader \<Rightarrow> RequestLedgerIndex
    \<Rightarrow> ObjectBackend \<Rightarrow> (errno + unit) \<times> IdempotentMutationResult \<times> ObjectBackend" where
  "RejectLocked ans node_allocated rec code candidate r idx b =
    (case CommitLedgerOnlyLocked ans node_allocated rec r idx b of
       (ledger_result, OutcomeUnknown, b) \<Rightarrow>
         (ledger_result, candidate\<lparr>mutation_result := (mutation_result candidate)\<lparr>outcome := OutcomeUnknown,
            current_version := no_version\<rparr>\<rparr>, b)
     | (Inl e, _, b) \<Rightarrow> (Inl e, candidate, b)
     | (Inr _, _, b) \<Rightarrow> (Inl code, candidate, b))"

text \<open>
  The object transaction and the ledger record are one transaction; the record enters the
  index once the transaction is committed and the reader is reloaded.
\<close>

definition CommitObjectLocked ::
  "os_answers \<Rightarrow> bool \<Rightarrow> RequestLedgerRecord \<Rightarrow> ObjectVersion \<Rightarrow> IdempotentMutationResult
    \<Rightarrow> block_map \<Rightarrow> block_map \<Rightarrow> block_map \<Rightarrow> u32 \<Rightarrow> bytes \<Rightarrow> ImageReader \<Rightarrow> RequestLedgerIndex
    \<Rightarrow> ObjectBackend \<Rightarrow> (errno + unit) \<times> IdempotentMutationResult \<times> ObjectBackend" where
  "CommitObjectLocked ans node_allocated rec version candidate before_images ordered_images metadata_images blocks uuid r idx b =
    (case bind_result (PrepareRequestLedgerAppend r idx rec) (\<lambda>ledger.
        bind_result (MergeRequestLedgerAppend ledger blocks uuid before_images ordered_images metadata_images)
          (\<lambda>images. Inr (ledger, images))) of
       Inl e \<Rightarrow> (Inl e, candidate, b)
     | Inr (ledger, before_images, ordered_images, metadata_images) \<Rightarrow>
       (case ApplyLocked ans before_images ordered_images metadata_images blocks uuid b of
          (res, OutcomeCommitted, b) \<Rightarrow>
            let candidate = candidate\<lparr>mutation_result := \<lparr>outcome = OutcomeCommitted, committed_version = version,
                  current_version = version\<rparr>\<rparr>
            in (case res of
                  Inl e \<Rightarrow> (Inl e, candidate, b)
                | Inr _ \<Rightarrow> (case PublishLedgerRecordLocked node_allocated (ledger_record ledger) b of
                    (res, b) \<Rightarrow> (res, candidate, b)))
        | (res, OutcomeUnknown, b) \<Rightarrow>
            (res, candidate\<lparr>mutation_result := (mutation_result candidate)\<lparr>outcome := OutcomeUnknown,
               current_version := no_version\<rparr>\<rparr>, b)
        | (res, OutcomeNotApplied, b) \<Rightarrow> (res, candidate, b)))"

definition PutIfAbsentIdempotent ::
  "os_answers \<Rightarrow> bool \<Rightarrow> bytes \<Rightarrow> bytes \<Rightarrow> u64 \<Rightarrow> RequestIdentity \<Rightarrow> ObjectBackend
    \<Rightarrow> (errno + unit) \<times> IdempotentMutationResult \<times> ObjectBackend" where
  "PutIfAbsentIdempotent ans node_allocated name payload timestamp identity b =
    (case CheckUsableLocked b of
       Inl e \<Rightarrow> (Inl e, fresh_result, b)
     | Inr r \<Rightarrow>
       (case (CheckRequestLocked identity kCreateIfAbsent b, request_ledger b) of
          ((Inr _, False, candidate), Some idx) \<Rightarrow>
            (case PrepareNewRootObject r name payload (option_permissions (backend_options b))
                (option_uid (backend_options b)) (option_gid (backend_options b)) timestamp of
               Inl e \<Rightarrow>
                 if e = EEXIST then
                   (case ResolveRegularLocked r name of
                      Inl e \<Rightarrow> (Inl e, candidate, b)
                    | Inr (number, inode) \<Rightarrow>
                        RejectLocked ans node_allocated
                          (MakeRejectedRecord kCreateIfAbsent identity kAlreadyExists (inode_version number inode)) EEXIST
                          (candidate\<lparr>mutation_result := (mutation_result candidate)\<lparr>current_version := inode_version number inode\<rparr>\<rparr>)
                          r idx b)
                 else (Inl e, candidate, b)
             | Inr plan \<Rightarrow>
                 let version = \<lparr>version_inode = object_inode_number plan, version_generation = 1\<rparr>
                 in CommitObjectLocked ans node_allocated (MakeCommittedRecord kCreateIfAbsent identity version) version candidate
                      (object_before plan) (object_ordered plan) (object_metadata plan) (object_total_blocks plan)
                      (object_uuid plan) r idx b)
        | ((res, _, candidate), _) \<Rightarrow> (res, candidate, b)))"

definition ReplaceIfVersionIdempotent ::
  "os_answers \<Rightarrow> bool \<Rightarrow> bytes \<Rightarrow> ObjectVersion \<Rightarrow> bytes \<Rightarrow> u64 \<Rightarrow> RequestIdentity \<Rightarrow> ObjectBackend
    \<Rightarrow> (errno + unit) \<times> IdempotentMutationResult \<times> ObjectBackend" where
  "ReplaceIfVersionIdempotent ans node_allocated name expected payload timestamp identity b =
    (case CheckUsableLocked b of
       Inl e \<Rightarrow> (Inl e, fresh_result, b)
     | Inr r \<Rightarrow>
       (case (CheckRequestLocked identity kReplaceIfVersion b, request_ledger b) of
          ((Inr _, False, candidate), Some idx) \<Rightarrow>
            (case ResolveRegularLocked r name of
               Inl e \<Rightarrow>
                 if e = ENOENT then
                   RejectLocked ans node_allocated (MakeRejectedRecord kReplaceIfVersion identity kNotFound no_version) ENOENT
                     candidate r idx b
                 else (Inl e, candidate, b)
             | Inr (number, inode) \<Rightarrow>
                 let candidate = candidate\<lparr>mutation_result := (mutation_result candidate)\<lparr>current_version := inode_version number inode\<rparr>\<rparr>
                 in
                 if version_inode expected \<noteq> number \<or> version_generation expected \<noteq> generation inode then
                   RejectLocked ans node_allocated
                     (MakeRejectedRecord kReplaceIfVersion identity kVersionMismatch (inode_version number inode)) ESTALE
                     candidate r idx b
                 else
                   (case PrepareObjectReplace r number (version_generation expected) payload timestamp of
                      Inl e \<Rightarrow> (Inl e, candidate, b)
                    | Inr plan \<Rightarrow>
                        let version = \<lparr>version_inode = number, version_generation = new_generation plan\<rparr>
                        in CommitObjectLocked ans node_allocated (MakeCommittedRecord kReplaceIfVersion identity version) version
                             candidate (mutation_before plan) (mutation_ordered plan) (mutation_metadata plan)
                             (mutation_total_blocks plan) (mutation_uuid plan) r idx b))
        | ((res, _, candidate), _) \<Rightarrow> (res, candidate, b)))"

section \<open>Mutations without a request identity\<close>

definition finish_plain ::
  "ObjectVersion \<Rightarrow> MutationResult \<Rightarrow> (errno + unit) \<times> MutationOutcome \<times> ObjectBackend
    \<Rightarrow> (errno + unit) \<times> MutationResult \<times> ObjectBackend" where
  "finish_plain version candidate applied = (case applied of
     (res, OutcomeCommitted, b) \<Rightarrow>
       (res, \<lparr>outcome = OutcomeCommitted, committed_version = version, current_version = version\<rparr>, b)
   | (res, OutcomeUnknown, b) \<Rightarrow> (res, candidate\<lparr>outcome := OutcomeUnknown, current_version := no_version\<rparr>, b)
   | (res, OutcomeNotApplied, b) \<Rightarrow> (res, candidate, b))"

definition PutIfAbsent ::
  "os_answers \<Rightarrow> bytes \<Rightarrow> bytes \<Rightarrow> u64 \<Rightarrow> ObjectBackend \<Rightarrow> (errno + unit) \<times> MutationResult \<times> ObjectBackend" where
  "PutIfAbsent ans name payload timestamp b =
    (case CheckUsableLocked b of
       Inl e \<Rightarrow> (Inl e, fresh_mutation, b)
     | Inr r \<Rightarrow>
       (case PrepareNewRootObject r name payload (option_permissions (backend_options b))
           (option_uid (backend_options b)) (option_gid (backend_options b)) timestamp of
          Inl e \<Rightarrow>
            (Inl e,
             (case (e, ResolveRegularLocked r name) of
                (EEXIST, Inr (number, inode)) \<Rightarrow> fresh_mutation\<lparr>current_version := inode_version number inode\<rparr>
              | _ \<Rightarrow> fresh_mutation), b)
        | Inr plan \<Rightarrow>
            finish_plain \<lparr>version_inode = object_inode_number plan, version_generation = 1\<rparr> fresh_mutation
              (ApplyLocked ans (object_before plan) (object_ordered plan) (object_metadata plan)
                (object_total_blocks plan) (object_uuid plan) b)))"

definition ReplaceIfVersion ::
  "os_answers \<Rightarrow> bytes \<Rightarrow> ObjectVersion \<Rightarrow> bytes \<Rightarrow> u64 \<Rightarrow> ObjectBackend
    \<Rightarrow> (errno + unit) \<times> MutationResult \<times> ObjectBackend" where
  "ReplaceIfVersion ans name expected payload timestamp b =
    (case CheckUsableLocked b of
       Inl e \<Rightarrow> (Inl e, fresh_mutation, b)
     | Inr r \<Rightarrow>
       (case ResolveRegularLocked r name of
          Inl e \<Rightarrow> (Inl e, fresh_mutation, b)
        | Inr (number, inode) \<Rightarrow>
            let candidate = fresh_mutation\<lparr>current_version := inode_version number inode\<rparr>
            in
            if version_inode expected \<noteq> number \<or> version_generation expected \<noteq> generation inode
            then (Inl ESTALE, candidate, b)
            else
              (case PrepareObjectReplace r number (version_generation expected) payload timestamp of
                 Inl e \<Rightarrow> (Inl e, candidate, b)
               | Inr plan \<Rightarrow>
                   finish_plain \<lparr>version_inode = number, version_generation = new_generation plan\<rparr> candidate
                     (ApplyLocked ans (mutation_before plan) (mutation_ordered plan) (mutation_metadata plan)
                       (mutation_total_blocks plan) (mutation_uuid plan) b))))"

section \<open>Reads\<close>

definition GetObjectData :: "bytes \<Rightarrow> ObjectBackend \<Rightarrow> errno + bytes \<times> ObjectStat" where
  "GetObjectData name b =
    bind_result (CheckUsableLocked b) (\<lambda>r.
    bind_result (ResolveRegularLocked r name) (\<lambda>(number, inode).
    bind_result (if file_size inode = 0 then Inr [] else ReadFile r number 0 (unat (file_size inode))) (\<lambda>candidate.
      if length candidate \<noteq> unat (file_size inode) then Inl EUCLEAN
      else Inr (candidate, MakeObjectStat number inode))))"

definition StatObjectData :: "bytes \<Rightarrow> ObjectBackend \<Rightarrow> errno + ObjectStat" where
  "StatObjectData name b =
    bind_result (CheckUsableLocked b) (\<lambda>r.
    bind_result (ResolveRegularLocked r name) (\<lambda>(number, inode). Inr (MakeObjectStat number inode)))"

section \<open>Calls and runs\<close>

text \<open>The mutating calls of a backend as steps, each with the answers of the operating system.\<close>

datatype backend_call =
    PutCall bytes bytes u64 RequestIdentity
  | ReplaceCall bytes ObjectVersion bytes u64 RequestIdentity
  | PlainPutCall bytes bytes u64
  | PlainReplaceCall bytes ObjectVersion bytes u64

definition plain_step ::
  "(errno + unit) \<times> MutationResult \<times> ObjectBackend \<Rightarrow> (errno + unit) \<times> IdempotentMutationResult \<times> ObjectBackend" where
  "plain_step result = (case result of (res, m, b) \<Rightarrow> (res, \<lparr>mutation_result = m, disposition = kExecuted\<rparr>, b))"

definition backend_step ::
  "os_answers \<times> bool \<Rightarrow> backend_call \<Rightarrow> ObjectBackend \<Rightarrow> (errno + unit) \<times> IdempotentMutationResult \<times> ObjectBackend" where
  "backend_step env call b = (case call of
     PutCall name payload timestamp identity \<Rightarrow> PutIfAbsentIdempotent (fst env) (snd env) name payload timestamp identity b
   | ReplaceCall name expected payload timestamp identity \<Rightarrow>
       ReplaceIfVersionIdempotent (fst env) (snd env) name expected payload timestamp identity b
   | PlainPutCall name payload timestamp \<Rightarrow> plain_step (PutIfAbsent (fst env) name payload timestamp b)
   | PlainReplaceCall name expected payload timestamp \<Rightarrow>
       plain_step (ReplaceIfVersion (fst env) name expected payload timestamp b))"

definition call_identity :: "backend_call \<Rightarrow> RequestIdentity option" where
  "call_identity call = (case call of PutCall _ _ _ identity \<Rightarrow> Some identity | ReplaceCall _ _ _ _ identity \<Rightarrow> Some identity
     | _ \<Rightarrow> None)"

definition call_operation :: "backend_call \<Rightarrow> MutationOperation" where
  "call_operation call = (case call of ReplaceCall _ _ _ _ _ \<Rightarrow> kReplaceIfVersion | _ \<Rightarrow> kCreateIfAbsent)"

fun backend_run :: "((os_answers \<times> bool) \<times> backend_call) list \<Rightarrow> ObjectBackend \<Rightarrow> ObjectBackend" where
  "backend_run [] b = b"
| "backend_run ((env, call) # calls) b = backend_run calls (snd (snd (backend_step env call b)))"

definition ledger_find :: "ObjectBackend \<Rightarrow> bytes \<Rightarrow> RequestLedgerRecord option" where
  "ledger_find b rid = (case request_ledger b of None \<Rightarrow> None | Some idx \<Rightarrow> FindRequest idx rid)"

section \<open>The ledger only grows\<close>

definition ledger_extends :: "ObjectBackend \<Rightarrow> ObjectBackend \<Rightarrow> bool" where
  "ledger_extends b b' \<longleftrightarrow> (\<forall>rid rec. ledger_find b rid = Some rec \<longrightarrow> ledger_find b' rid = Some rec)
    \<and> (\<not> backend_usable b \<longrightarrow> b' = b)"

lemma ApplyLocked_ledger:
  "ApplyLocked ans bm om mm t u b = (res, oc, b') \<Longrightarrow> request_ledger b' = request_ledger b \<and> backend_options b' = backend_options b"
  by (auto simp: ApplyLocked_def ReloadReaderLocked_def FailClosedLocked_def split: prod.splits sum.splits if_splits)

lemma ApplyLocked_outcome:
  assumes "ApplyLocked ans bm om mm t u b = (res, oc, b')" "backend_usable b"
  shows "case oc of OutcomeUnknown \<Rightarrow> isl res \<and> \<not> backend_usable b'
    | OutcomeNotApplied \<Rightarrow> isl res \<and> b' = b
    | OutcomeCommitted \<Rightarrow> backend_usable b' \<longleftrightarrow> \<not> isl res"
proof -
  obtain r f session where run: "SessionExecute ans bm om mm t u (backend_session b) = (r, f, session)" by (metis prod_cases3)
  show ?thesis
  proof (cases r)
    case (Inl e)
    then show ?thesis
      using assms run SessionExecute_failure [of ans bm om mm t u "backend_session b" e f session]
      by (auto simp: ApplyLocked_def FailClosedLocked_def backend_usable_def split: if_splits)
  next
    case (Inr x)
    then show ?thesis using assms run
      by (auto simp: ApplyLocked_def ReloadReaderLocked_def FailClosedLocked_def backend_usable_def split: sum.splits)
  qed
qed

lemma AppendCommitted_finds:
  assumes "AppendCommitted alloc rec idx = Inr idx'"
  shows "FindRequest idx' (request_id rec) = Some rec" "FindRequest idx rid = Some rec' \<Longrightarrow> FindRequest idx' rid = Some rec'"
    "FindRequest idx (request_id rec) = None"
  using assms
  by (auto simp: AppendCommitted_def FindRequest_def map_add_def split: if_splits sum.splits option.splits)

lemma PublishLedgerRecordLocked_ledger:
  assumes "PublishLedgerRecordLocked alloc rec b = (res, b')"
  shows "isl res \<Longrightarrow> request_ledger b' = request_ledger b \<and> \<not> backend_usable b'"
    "\<not> isl res \<Longrightarrow> backend_usable b' = backend_usable b"
    "\<not> isl res \<Longrightarrow> request_ledger b \<noteq> None \<Longrightarrow> ledger_find b' (request_id rec) = Some rec"
    "ledger_find b rid = Some rec' \<Longrightarrow> ledger_find b' rid = Some rec'"
  using assms
  by (auto simp: PublishLedgerRecordLocked_def ledger_find_def FailClosedLocked_def backend_usable_def
      split: option.splits sum.splits dest: AppendCommitted_finds)

lemma PrepareRequestLedgerAppend_record:
  "PrepareRequestLedgerAppend r idx rec = Inr plan \<Longrightarrow> \<exists>seq. ledger_record plan = rec\<lparr>sequence := seq\<rparr>"
  by (auto simp: PrepareRequestLedgerAppend_def Let_def bind_result_Inr_iff case_sum_Inr_iff split: if_splits prod.splits)

lemma CommitLedgerOnlyLocked_ledger:
  assumes "CommitLedgerOnlyLocked ans alloc rec r idx b = (res, oc, b')" "backend_usable b" "request_ledger b = Some idx"
  shows "isl res \<Longrightarrow> request_ledger b' = request_ledger b"
    "\<not> isl res \<Longrightarrow> oc = OutcomeCommitted \<and> backend_usable b' \<and> (\<exists>seq. ledger_find b' (request_id rec) = Some (rec\<lparr>sequence := seq\<rparr>))"
    "ledger_find b rid = Some rec' \<Longrightarrow> ledger_find b' rid = Some rec'"
    "oc = OutcomeUnknown \<Longrightarrow> isl res \<and> \<not> backend_usable b'"
    "oc = OutcomeNotApplied \<Longrightarrow> isl res \<and> b' = b"
    "oc = OutcomeCommitted \<Longrightarrow> backend_usable b' \<longleftrightarrow> \<not> isl res"
proof -
  let ?prep = "bind_result (PrepareRequestLedgerAppend r idx rec) (\<lambda>ledger.
        bind_result (MergeRequestLedgerAppend ledger (ledger_total_blocks ledger) (ledger_uuid ledger) [] [] [])
          (\<lambda>images. Inr (ledger, images)))"
  have "(isl res \<longrightarrow> request_ledger b' = request_ledger b)
    \<and> (\<not> isl res \<longrightarrow> oc = OutcomeCommitted \<and> backend_usable b' \<and> (\<exists>seq. ledger_find b' (request_id rec) = Some (rec\<lparr>sequence := seq\<rparr>)))
    \<and> (\<forall>rid rec'. ledger_find b rid = Some rec' \<longrightarrow> ledger_find b' rid = Some rec')
    \<and> (oc = OutcomeUnknown \<longrightarrow> isl res \<and> \<not> backend_usable b') \<and> (oc = OutcomeNotApplied \<longrightarrow> isl res \<and> b' = b)
    \<and> (oc = OutcomeCommitted \<longrightarrow> backend_usable b' = (\<not> isl res))"
  proof (cases ?prep)
    case (Inl e)
    then show ?thesis using assms by (auto simp: CommitLedgerOnlyLocked_def)
  next
    case (Inr x)
    obtain ledger bm om mm where x: "x = (ledger, bm, om, mm)" by (metis prod_cases4)
    have "\<exists>seq. ledger_record ledger = rec\<lparr>sequence := seq\<rparr>"
      using Inr x PrepareRequestLedgerAppend_record by (auto simp: bind_result_Inr_iff)
    then obtain seq where seq: "ledger_record ledger = rec\<lparr>sequence := seq\<rparr>" by blast
    obtain res1 oc1 b1 where a: "ApplyLocked ans bm om mm (ledger_total_blocks ledger) (ledger_uuid ledger) b = (res1, oc1, b1)"
      by (metis prod_cases3)
    note al = ApplyLocked_ledger [OF a] and ao = ApplyLocked_outcome [OF a assms(2)]
    have find: "ledger_find b1 = ledger_find b" using al by (simp add: ledger_find_def fun_eq_iff)
    show ?thesis
    proof (cases "oc1 = OutcomeCommitted \<and> \<not> isl res1")
      case True
      obtain res2 b2 where p: "PublishLedgerRecordLocked alloc (ledger_record ledger) b1 = (res2, b2)" by fastforce
      have eq: "res = res2" "oc = OutcomeCommitted" "b' = b2"
        using assms(1) Inr x a True p by (auto simp: CommitLedgerOnlyLocked_def split: sum.splits)
      have "request_ledger b1 \<noteq> None" "backend_usable b1" using al assms(3) ao True by auto
      then show ?thesis
        using PublishLedgerRecordLocked_ledger [OF p] al unfolding eq find seq by auto
    next
      case False
      have "(res, oc, b') = (res1, oc1, b1)"
        using assms(1) Inr x a False by (auto simp: CommitLedgerOnlyLocked_def split: sum.splits MutationOutcome.splits)
      then show ?thesis using False ao al find by (auto split: MutationOutcome.splits)
    qed
  qed
  then show "isl res \<Longrightarrow> request_ledger b' = request_ledger b"
    "\<not> isl res \<Longrightarrow> oc = OutcomeCommitted \<and> backend_usable b' \<and> (\<exists>seq. ledger_find b' (request_id rec) = Some (rec\<lparr>sequence := seq\<rparr>))"
    "ledger_find b rid = Some rec' \<Longrightarrow> ledger_find b' rid = Some rec'"
    "oc = OutcomeUnknown \<Longrightarrow> isl res \<and> \<not> backend_usable b'"
    "oc = OutcomeNotApplied \<Longrightarrow> isl res \<and> b' = b"
    "oc = OutcomeCommitted \<Longrightarrow> backend_usable b' \<longleftrightarrow> \<not> isl res" by blast+
qed

text \<open>
  What a call on a usable backend leaves behind: the ledger extends the old one; a record of
  the request, when there is none before and one after the call, is the one the answer was
  made from; and the reported outcome is the state of the backend.
\<close>

definition replay_result :: "RequestLedgerRecord \<Rightarrow> errno + unit" where
  "replay_result rec = (if result_kind rec = kLedgerCommitted then Inr ()
     else Inl (if result_code rec = kAlreadyExists then EEXIST else if result_code rec = kVersionMismatch then ESTALE
       else if result_code rec = kNotFound then ENOENT else EUCLEAN))"

definition replay_mutation :: "RequestLedgerRecord \<Rightarrow> MutationResult" where
  "replay_mutation rec = (if result_kind rec = kLedgerCommitted
     then fresh_mutation\<lparr>outcome := OutcomeCommitted, committed_version :=
       \<lparr>version_inode = committed_inode rec, version_generation = committed_generation rec\<rparr>\<rparr>
     else fresh_mutation\<lparr>current_version := \<lparr>version_inode = current_inode rec, version_generation = current_generation rec\<rparr>\<rparr>)"

definition recorded_answer :: "MutationOperation \<Rightarrow> RequestIdentity \<Rightarrow> RequestLedgerRecord \<Rightarrow> errno + unit \<Rightarrow> MutationResult \<Rightarrow> bool" where
  "recorded_answer op identity rec res m \<longleftrightarrow> operation rec = op \<and> fingerprint rec = identity_fingerprint identity
    \<and> res = replay_result rec \<and> outcome m = outcome (replay_mutation rec)
    \<and> committed_version m = committed_version (replay_mutation rec)
    \<and> (isl res \<longrightarrow> current_version m = current_version (replay_mutation rec))"

definition outcome_ok :: "ObjectBackend \<Rightarrow> errno + unit \<Rightarrow> MutationResult \<Rightarrow> ObjectBackend \<Rightarrow> bool" where
  "outcome_ok b res m b' \<longleftrightarrow> (case outcome m of
     OutcomeUnknown \<Rightarrow> isl res \<and> \<not> backend_usable b' \<and> current_version m = no_version
   | OutcomeCommitted \<Rightarrow> backend_usable b' = (\<not> isl res)
   | OutcomeNotApplied \<Rightarrow> isl res \<and> (b' = b \<or> \<not> backend_usable b' \<or> request_ledger b' \<noteq> request_ledger b))"

definition call_ok ::
  "MutationOperation \<Rightarrow> RequestIdentity \<Rightarrow> ObjectBackend \<Rightarrow> (errno + unit) \<times> IdempotentMutationResult \<times> ObjectBackend \<Rightarrow> bool" where
  "call_ok op identity b result \<longleftrightarrow> (case result of (res, out, b') \<Rightarrow>
     (\<forall>rid rec. ledger_find b rid = Some rec \<longrightarrow> ledger_find b' rid = Some rec)
     \<and> (\<forall>rec. ledger_find b (identity_request_id identity) = None \<longrightarrow> ledger_find b' (identity_request_id identity) = Some rec
       \<longrightarrow> recorded_answer op identity rec res (mutation_result out))
     \<and> (isl res \<or> ledger_find b' (identity_request_id identity) \<noteq> None)
     \<and> outcome_ok b res (mutation_result out) b')"

lemma RejectLocked_ok:
  assumes u: "backend_usable b" "request_ledger b = Some idx" "outcome (mutation_result candidate) = OutcomeNotApplied"
      "ledger_find b (identity_request_id identity) = None"
    and rec: "request_id rec = identity_request_id identity"
      "\<And>seq. recorded_answer op identity (rec\<lparr>sequence := seq\<rparr>) (Inl code) (mutation_result candidate)"
  shows "call_ok op identity b (RejectLocked ans alloc rec code candidate r idx b)"
proof -
  obtain res oc b' where c: "CommitLedgerOnlyLocked ans alloc rec r idx b = (res, oc, b')" by (metis prod_cases3)
  note l = CommitLedgerOnlyLocked_ledger [OF c u(1,2)]
  have same: "ledger_find b' = ledger_find b" if "isl res" using l(1) [OF that] by (simp add: ledger_find_def fun_eq_iff)
  show ?thesis
  proof (cases res)
    case (Inl e)
    show ?thesis
    proof (cases oc)
      case OutcomeUnknown
      then show ?thesis using Inl c l(4) same u(4) by (simp add: RejectLocked_def call_ok_def outcome_ok_def)
    next
      case OutcomeNotApplied
      then show ?thesis using Inl c l(5) same u(3,4) by (simp add: RejectLocked_def call_ok_def outcome_ok_def)
    next
      case OutcomeCommitted
      then show ?thesis using Inl c l(6) same u(3,4) by (simp add: RejectLocked_def call_ok_def outcome_ok_def)
    qed
  next
    case (Inr x)
    then obtain seq where s: "oc = OutcomeCommitted" "ledger_find b' (identity_request_id identity) = Some (rec\<lparr>sequence := seq\<rparr>)"
      using l(2) rec(1) by auto
    then have "request_ledger b' \<noteq> request_ledger b" using u(4) by (auto simp: ledger_find_def)
    then show ?thesis using Inr c s l(3) u(3) rec(2) by (simp add: RejectLocked_def call_ok_def outcome_ok_def)
  qed
qed

lemma CommitObjectLocked_ok:
  assumes u: "backend_usable b" "request_ledger b = Some idx" "outcome (mutation_result candidate) = OutcomeNotApplied"
      "ledger_find b (identity_request_id identity) = None"
    and rec: "request_id rec = identity_request_id identity"
      "\<And>seq. recorded_answer op identity (rec\<lparr>sequence := seq\<rparr>) (Inr ())
        \<lparr>outcome = OutcomeCommitted, committed_version = version, current_version = version\<rparr>"
  shows "call_ok op identity b (CommitObjectLocked ans alloc rec version candidate bm om mm t un r idx b)"
proof -
  let ?prep = "bind_result (PrepareRequestLedgerAppend r idx rec) (\<lambda>ledger.
        bind_result (MergeRequestLedgerAppend ledger t un bm om mm) (\<lambda>images. Inr (ledger, images)))"
  show ?thesis
  proof (cases ?prep)
    case (Inl e)
    then show ?thesis using u(3,4) by (simp add: CommitObjectLocked_def call_ok_def outcome_ok_def)
  next
    case (Inr x)
    obtain ledger bm' om' mm' where x: "x = (ledger, bm', om', mm')" by (metis prod_cases4)
    have "\<exists>seq. ledger_record ledger = rec\<lparr>sequence := seq\<rparr>"
      using Inr x PrepareRequestLedgerAppend_record by (auto simp: bind_result_Inr_iff)
    then obtain seq where seq: "ledger_record ledger = rec\<lparr>sequence := seq\<rparr>" by blast
    obtain res oc b1 where a: "ApplyLocked ans bm' om' mm' t un b = (res, oc, b1)" by (metis prod_cases3)
    note al = ApplyLocked_ledger [OF a] and ao = ApplyLocked_outcome [OF a u(1)]
    have find: "ledger_find b1 = ledger_find b" using al by (simp add: ledger_find_def fun_eq_iff)
    show ?thesis
    proof (cases oc)
      case OutcomeCommitted
      show ?thesis
      proof (cases res)
        case (Inl e)
        then show ?thesis using OutcomeCommitted Inr x a find u(4) ao
          by (simp add: CommitObjectLocked_def call_ok_def outcome_ok_def)
      next
        case res: (Inr y)
        obtain res2 b2 where p: "PublishLedgerRecordLocked alloc (ledger_record ledger) b1 = (res2, b2)" by fastforce
        note pl = PublishLedgerRecordLocked_ledger [OF p, unfolded find]
        have "CommitObjectLocked ans alloc rec version candidate bm om mm t un r idx b
            = (res2, candidate\<lparr>mutation_result := \<lparr>outcome = OutcomeCommitted, committed_version = version,
                  current_version = version\<rparr>\<rparr>, b2)"
          using OutcomeCommitted res Inr x a p by (simp add: CommitObjectLocked_def)
        moreover have "ledger_find b2 = ledger_find b1 \<and> \<not> backend_usable b2" if "isl res2"
          using pl(1) [OF that] by (simp add: ledger_find_def fun_eq_iff)
        moreover have "backend_usable b1" "request_ledger b1 \<noteq> None" using ao OutcomeCommitted res al u(2) by auto
        ultimately show ?thesis using pl(2-4) seq rec find u(4)
          by (cases res2) (auto simp: call_ok_def outcome_ok_def)
      qed
    next
      case OutcomeUnknown
      then show ?thesis using Inr x a find u(4) ao by (simp add: CommitObjectLocked_def call_ok_def outcome_ok_def)
    next
      case OutcomeNotApplied
      then show ?thesis using Inr x a find u(3,4) ao by (simp add: CommitObjectLocked_def call_ok_def outcome_ok_def)
    qed
  qed
qed

lemma CheckUsable_iff: "CheckUsableLocked b = Inr r \<longleftrightarrow> backend_fatal_error b = None \<and> backend_reader b = Some r"
  by (auto simp: CheckUsableLocked_def backend_usable_def split: option.splits)

lemma CheckUsable_cases:
  "backend_usable b \<Longrightarrow> \<exists>r. CheckUsableLocked b = Inr r" "\<not> backend_usable b \<Longrightarrow> CheckUsableLocked b = Inl EIO"
  by (auto simp: CheckUsableLocked_def backend_usable_def)

lemma CheckRequest_cases:
  obtains (replay) rec where "ledger_find b (identity_request_id identity) = Some rec" "operation rec = op"
      "fingerprint rec = identity_fingerprint identity"
      "CheckRequestLocked identity op b = (replay_result rec, True, \<lparr>mutation_result = replay_mutation rec, disposition = kReplayed\<rparr>)"
  | (conflict) rec where "ledger_find b (identity_request_id identity) = Some rec"
      "CheckRequestLocked identity op b = (Inl EALREADY, True, fresh_result\<lparr>disposition := kRequestIdConflict\<rparr>)"
  | (refused) e h d where "CheckRequestLocked identity op b = (Inl e, h, fresh_result\<lparr>disposition := d\<rparr>)"
      "ledger_find b (identity_request_id identity) = None \<or> \<not> HasNonzeroRequestId (identity_request_id identity)" "d \<noteq> kReplayed"
  | (fresh) idx where "CheckRequestLocked identity op b = (Inr (), False, fresh_result)" "request_ledger b = Some idx"
      "ledger_find b (identity_request_id identity) = None"
proof -
  have d: "fresh_result\<lparr>disposition := kExecuted\<rparr> = fresh_result" by (simp add: fresh_result_def)
  consider "\<not> HasNonzeroRequestId (identity_request_id identity)"
    | "HasNonzeroRequestId (identity_request_id identity)" "request_ledger b = None"
    | idx where "HasNonzeroRequestId (identity_request_id identity)" "request_ledger b = Some idx" by fastforce
  then show thesis
  proof cases
    case 1
    then show ?thesis using refused [of EINVAL False kExecuted] d by (simp add: CheckRequestLocked_def)
  next
    case 2
    then show ?thesis using refused [of EOPNOTSUPP True kExecuted] d by (simp add: CheckRequestLocked_def ledger_find_def)
  next
    case (3 idx)
    show ?thesis
    proof (cases "FindRequest idx (identity_request_id identity)")
      case None
      then show ?thesis using refused [of ENOSPC True kLedgerFull] fresh [of idx] 3
        by (cases "index_full idx") (simp_all add: CheckRequestLocked_def ledger_find_def)
    next
      case (Some rec)
      then have f: "ledger_find b (identity_request_id identity) = Some rec" using 3 by (simp add: ledger_find_def)
      show ?thesis
      proof (cases "operation rec \<noteq> op \<or> fingerprint rec \<noteq> identity_fingerprint identity")
        case True
        then show ?thesis using conflict [OF f] 3 Some by (simp add: CheckRequestLocked_def)
      next
        case False
        then show ?thesis using replay [OF f] 3 Some
          by (simp add: CheckRequestLocked_def replay_result_def replay_mutation_def)
      qed
    qed
  qed
qed

lemma candidate_fields [simp]:
  "outcome (mutation_result fresh_result) = OutcomeNotApplied" "mutation_result (fresh_result\<lparr>disposition := d\<rparr>) = fresh_mutation"
  "outcome fresh_mutation = OutcomeNotApplied" "committed_version fresh_mutation = no_version" "current_version fresh_mutation = no_version"
  "mutation_result fresh_result = fresh_mutation"
  by (simp_all add: fresh_result_def fresh_mutation_def)

lemma rejected_answer:
  assumes "replay_result (MakeRejectedRecord op identity code v) = Inl e" "outcome m = OutcomeNotApplied"
    "committed_version m = no_version" "current_version m = v"
  shows "recorded_answer op identity (MakeRejectedRecord op identity code v\<lparr>sequence := seq\<rparr>) (Inl e) m"
  using assms by (auto simp: recorded_answer_def replay_result_def replay_mutation_def MakeRejectedRecord_def)

lemma committed_answer:
  "recorded_answer op identity (MakeCommittedRecord op identity version\<lparr>sequence := seq\<rparr>) (Inr ())
     \<lparr>outcome = OutcomeCommitted, committed_version = version, current_version = version\<rparr>"
  by (simp add: recorded_answer_def replay_result_def replay_mutation_def MakeCommittedRecord_def)

lemma refused_ok: "outcome (mutation_result out) = OutcomeNotApplied \<Longrightarrow> call_ok op identity b (Inl e, out, b)"
  by (auto simp: call_ok_def outcome_ok_def)

lemma replayed_ok:
  assumes "backend_usable b"
  shows "ledger_find b (identity_request_id identity) = Some rec \<Longrightarrow>
    call_ok op identity b (replay_result rec, \<lparr>mutation_result = replay_mutation rec, disposition = d\<rparr>, b)"
  using assms by (auto simp: call_ok_def outcome_ok_def replay_result_def replay_mutation_def)

lemma handled_calls:
  assumes "CheckUsableLocked b = Inr r"
  shows "CheckRequestLocked identity kCreateIfAbsent b = (res, True, out) \<Longrightarrow>
      PutIfAbsentIdempotent ans alloc name payload timestamp identity b = (res, out, b)"
    "CheckRequestLocked identity kReplaceIfVersion b = (res, True, out) \<Longrightarrow>
      ReplaceIfVersionIdempotent ans alloc name expected payload timestamp identity b = (res, out, b)"
  using assms by (cases res; simp add: PutIfAbsentIdempotent_def ReplaceIfVersionIdempotent_def)+

lemma PutIfAbsentIdempotent_ok:
  assumes u: "backend_usable b"
  shows "call_ok kCreateIfAbsent identity b (PutIfAbsentIdempotent ans alloc name payload timestamp identity b)"
proof -
  obtain r where r: "CheckUsableLocked b = Inr r" using CheckUsable_cases(1) [OF u] by blast
  show ?thesis
  proof (cases rule: CheckRequest_cases [of b identity kCreateIfAbsent])
    case (fresh idx)
    note c = RejectLocked_ok [OF u fresh(2) _ fresh(3)] CommitObjectLocked_ok [OF u fresh(2) _ fresh(3)]
    show ?thesis
      using r fresh
      by (auto simp: PutIfAbsentIdempotent_def Let_def split: sum.splits intro!: refused_ok c rejected_answer committed_answer)
        (simp_all add: MakeRejectedRecord_def MakeCommittedRecord_def replay_result_def inode_version_def)
  next
    case (replay rec)
    then show ?thesis using handled_calls(1) [OF r replay(4)] replayed_ok [OF u replay(1)] by simp
  qed (use r u in \<open>auto simp: PutIfAbsentIdempotent_def intro!: refused_ok\<close>)
qed

lemma ReplaceIfVersionIdempotent_ok:
  assumes u: "backend_usable b"
  shows "call_ok kReplaceIfVersion identity b (ReplaceIfVersionIdempotent ans alloc name expected payload timestamp identity b)"
proof -
  obtain r where r: "CheckUsableLocked b = Inr r" using CheckUsable_cases(1) [OF u] by blast
  show ?thesis
  proof (cases rule: CheckRequest_cases [of b identity kReplaceIfVersion])
    case (fresh idx)
    note c = RejectLocked_ok [OF u fresh(2) _ fresh(3)] CommitObjectLocked_ok [OF u fresh(2) _ fresh(3)]
    show ?thesis
      using r fresh
      by (auto simp: ReplaceIfVersionIdempotent_def Let_def
          split: sum.splits intro!: refused_ok c rejected_answer committed_answer)
        (simp_all add: MakeRejectedRecord_def MakeCommittedRecord_def replay_result_def inode_version_def)
  next
    case (replay rec)
    then show ?thesis using handled_calls(2) [OF r replay(4)] replayed_ok [OF u replay(1)] by simp
  qed (use r u in \<open>auto simp: ReplaceIfVersionIdempotent_def intro!: refused_ok\<close>)
qed

lemma finish_plain_ok:
  assumes a: "ApplyLocked ans bm om mm t un b = applied" and u: "backend_usable b" "outcome candidate = OutcomeNotApplied"
    and f: "finish_plain version candidate applied = (res, m, b')"
  shows "request_ledger b' = request_ledger b \<and> outcome_ok b res m b'"
proof -
  obtain r oc b1 where p: "applied = (r, oc, b1)" by (metis prod_cases3)
  note al = ApplyLocked_ledger [OF a [unfolded p]] and ao = ApplyLocked_outcome [OF a [unfolded p] u(1)]
  show ?thesis using f al ao u(2) by (cases oc) (auto simp: finish_plain_def p outcome_ok_def)
qed

lemma plain_refused: "outcome c = OutcomeNotApplied \<Longrightarrow> outcome_ok b (Inl e) c b"
  by (simp add: outcome_ok_def)

lemma plain_calls_ok:
  assumes u: "backend_usable b"
  shows "PutIfAbsent ans name payload timestamp b = (res, m, b') \<Longrightarrow> request_ledger b' = request_ledger b \<and> outcome_ok b res m b'"
    "ReplaceIfVersion ans name expected payload timestamp b = (res, m, b') \<Longrightarrow> request_ledger b' = request_ledger b \<and> outcome_ok b res m b'"
proof -
  obtain r where r: "CheckUsableLocked b = Inr r" using CheckUsable_cases(1) [OF u] by blast
  show "request_ledger b' = request_ledger b \<and> outcome_ok b res m b'" if "PutIfAbsent ans name payload timestamp b = (res, m, b')"
  proof (cases "PrepareNewRootObject r name payload (option_permissions (backend_options b))
           (option_uid (backend_options b)) (option_gid (backend_options b)) timestamp")
    case (Inl e)
    have "outcome (case (e, ResolveRegularLocked r name) of
                (EEXIST, Inr (number, inode)) \<Rightarrow> fresh_mutation\<lparr>current_version := inode_version number inode\<rparr>
              | _ \<Rightarrow> fresh_mutation) = OutcomeNotApplied" by (auto split: errno.splits sum.splits)
    then show ?thesis using that Inl r plain_refused by (auto simp: PutIfAbsent_def)
  next
    case (Inr plan)
    then show ?thesis using that r finish_plain_ok [OF refl u, of fresh_mutation] by (simp add: PutIfAbsent_def)
  qed
  show "request_ledger b' = request_ledger b \<and> outcome_ok b res m b'" if "ReplaceIfVersion ans name expected payload timestamp b = (res, m, b')"
    using that r
    by (auto simp: ReplaceIfVersion_def Let_def plain_refused split: sum.splits if_splits
        dest!: finish_plain_ok [OF refl u, rotated])
qed

text \<open>Every call of a backend.\<close>

lemma backend_step_closed: "\<not> backend_usable b \<Longrightarrow> snd (snd (backend_step env call b)) = b"
  "\<not> backend_usable b \<Longrightarrow> fst (backend_step env call b) = Inl EIO"
  using CheckUsable_cases(2) [of b]
  by (auto simp: backend_step_def plain_step_def PutIfAbsentIdempotent_def ReplaceIfVersionIdempotent_def PutIfAbsent_def
      ReplaceIfVersion_def split: backend_call.splits)

lemma backend_step_ok:
  assumes u: "backend_usable b" and s: "backend_step env call b = (res, out, b')"
  shows "(\<forall>rid rec. ledger_find b rid = Some rec \<longrightarrow> ledger_find b' rid = Some rec) \<and> outcome_ok b res (mutation_result out) b'"
proof (cases call)
  case (PutCall name payload timestamp identity)
  then show ?thesis using s PutIfAbsentIdempotent_ok [OF u, of identity "fst env" "snd env" name payload timestamp]
    by (simp add: backend_step_def call_ok_def)
next
  case (ReplaceCall name expected payload timestamp identity)
  then show ?thesis using s ReplaceIfVersionIdempotent_ok [OF u, of identity "fst env" "snd env" name expected payload timestamp]
    by (simp add: backend_step_def call_ok_def)
next
  case (PlainPutCall name payload timestamp)
  then show ?thesis using s plain_calls_ok(1) [OF u, of "fst env" name payload timestamp]
    by (auto simp: backend_step_def plain_step_def ledger_find_def split: prod.splits)
next
  case (PlainReplaceCall name expected payload timestamp)
  then show ?thesis using s plain_calls_ok(2) [OF u, of "fst env" name expected payload timestamp]
    by (auto simp: backend_step_def plain_step_def ledger_find_def split: prod.splits)
qed

lemma backend_run_closed: "\<not> backend_usable b \<Longrightarrow> backend_run calls b = b"
  by (induction calls b rule: backend_run.induct) (simp_all add: backend_step_closed)

lemma backend_run_ledger:
  "ledger_find b rid = Some rec \<Longrightarrow> ledger_find (backend_run calls b) rid = Some rec"
proof (induction calls b rule: backend_run.induct)
  case (2 env call calls b)
  obtain res out b' where s: "backend_step env call b = (res, out, b')" by (metis prod_cases3)
  have "ledger_find b' rid = Some rec"
    using backend_step_ok [OF _ s] backend_step_closed(1) [of b env call] s 2(2) by (cases "backend_usable b") auto
  then show ?case using 2(1) s by simp
qed simp

lemma identified_step:
  assumes u: "backend_usable b" and c: "call_identity call = Some identity"
  shows "CheckRequestLocked identity (call_operation call) b = (res, True, out) \<Longrightarrow> backend_step env call b = (res, out, b)"
    "call_ok (call_operation call) identity b (backend_step env call b)"
    "CheckRequestLocked identity (call_operation call) b = (Inl e, h, out) \<Longrightarrow> backend_step env call b = (Inl e, out, b)"
proof -
  obtain r where r: "CheckUsableLocked b = Inr r" using CheckUsable_cases(1) [OF u] by blast
  show "CheckRequestLocked identity (call_operation call) b = (res, True, out) \<Longrightarrow> backend_step env call b = (res, out, b)"
    using c handled_calls [OF r] by (cases call) (simp_all add: call_operation_def call_identity_def backend_step_def)
  show "call_ok (call_operation call) identity b (backend_step env call b)"
    using c PutIfAbsentIdempotent_ok [OF u] ReplaceIfVersionIdempotent_ok [OF u]
    by (cases call) (simp_all add: call_operation_def call_identity_def backend_step_def)
  show "CheckRequestLocked identity (call_operation call) b = (Inl e, h, out) \<Longrightarrow> backend_step env call b = (Inl e, out, b)"
    using c r by (cases call) (simp_all add: call_operation_def call_identity_def backend_step_def PutIfAbsentIdempotent_def ReplaceIfVersionIdempotent_def)
qed

text \<open>What a call has put into the ledger, and what every later call with the same identity gets.\<close>

lemma recorded_call:
  assumes "backend_step env call b = (res, out, b1)" "call_identity call = Some identity" "backend_usable b"
    and "HasNonzeroRequestId (identity_request_id identity)" "\<not> isl res \<or> ledger_find b1 (identity_request_id identity) \<noteq> None"
    and "disposition out \<noteq> kRequestIdConflict"
  shows "\<exists>rec. ledger_find b1 (identity_request_id identity) = Some rec
    \<and> recorded_answer (call_operation call) identity rec res (mutation_result out)"
proof -
  let ?id = "identity_request_id identity" and ?op = "call_operation call"
  have ok: "call_ok ?op identity b (res, out, b1)" using identified_step(2) [OF assms(3,2), of env] assms(1) by simp
  then obtain rec where rec: "ledger_find b1 ?id = Some rec" using assms(5) by (auto simp: call_ok_def)
  have "recorded_answer ?op identity rec res (mutation_result out)"
  proof (cases rule: CheckRequest_cases [of b identity ?op])
    case (replay rec')
    have s: "(res, out, b1) = (replay_result rec', \<lparr>mutation_result = replay_mutation rec', disposition = kReplayed\<rparr>, b)"
      using identified_step(1) [OF assms(3,2) replay(4)] assms(1) by simp
    then have "rec' = rec" using rec replay(1) by simp
    then show ?thesis using s replay(2,3) by (auto simp: recorded_answer_def replay_result_def)
  next
    case (conflict rec')
    then show ?thesis using identified_step(1) [OF assms(3,2) conflict(2), of env] assms(1,6) by auto
  next
    case (refused e h d)
    then show ?thesis using identified_step(3) [OF assms(3,2) refused(1)] assms(1,4) rec by simp
  next
    case (fresh idx)
    then show ?thesis using ok rec by (simp add: call_ok_def)
  qed
  with rec show ?thesis by blast
qed

lemma recorded_replay:
  assumes "backend_usable b" "call_identity call = Some identity" "HasNonzeroRequestId (identity_request_id identity)"
    and "ledger_find b (identity_request_id identity) = Some rec"
  shows "backend_step env call b =
    (if operation rec = call_operation call \<and> fingerprint rec = identity_fingerprint identity
     then (replay_result rec, \<lparr>mutation_result = replay_mutation rec, disposition = kReplayed\<rparr>, b)
     else (Inl EALREADY, fresh_result\<lparr>disposition := kRequestIdConflict\<rparr>, b))"
proof -
  obtain idx where idx: "request_ledger b = Some idx" "FindRequest idx (identity_request_id identity) = Some rec"
    using assms(4) by (auto simp: ledger_find_def split: option.splits)
  show ?thesis
  proof (cases rule: CheckRequest_cases [of b identity "call_operation call"])
    case (replay rec')
    then show ?thesis using identified_step(1) [OF assms(1,2) replay(4), of env] assms(4) by simp
  next
    case (conflict rec')
    moreover have "\<not> (operation rec = call_operation call \<and> fingerprint rec = identity_fingerprint identity)"
      using conflict(2) idx assms(3) by (auto simp: CheckRequestLocked_def fresh_result_def split: if_splits)
    ultimately show ?thesis using identified_step(1) [OF assms(1,2) conflict(2), of env] by auto
  next
    case (refused e h d)
    then show ?thesis using assms(3,4) by simp
  next
    case (fresh idx)
    then show ?thesis using assms(4) by simp
  qed
qed

lemma usable_before:
  assumes "backend_step env call b = (res, out, b1)" "backend_usable (backend_run calls b1)"
  shows "backend_usable b1" "backend_usable b"
proof -
  show u1: "backend_usable b1" using assms(2) backend_run_closed [of b1 calls] by (cases "backend_usable b1") auto
  show "backend_usable b" using u1 backend_step_closed(1) [of b env call] assms(1) by (cases "backend_usable b") auto
qed

section \<open>Properties\<close>

text \<open>
  C8: a request executes at most once and is answered the same way for ever.  When a call
  with a request identity has succeeded, or its record is in the ledger, then after any further
  calls with any failures of the operating system, a repetition of the call on a backend that
  is still usable gives the same result, the same outcome and the same committed version, and
  for a rejection the same current version; it is marked as a replay and changes nothing.
\<close>

theorem request_replayed:
  assumes "backend_step env call b = (res, out, b1)" "call_identity call = Some identity"
    and "HasNonzeroRequestId (identity_request_id identity)" "\<not> isl res \<or> ledger_find b1 (identity_request_id identity) \<noteq> None"
    and "disposition out \<noteq> kRequestIdConflict" "backend_usable (backend_run calls b1)"
  shows "\<exists>out'. backend_step env' call (backend_run calls b1) = (res, out', backend_run calls b1)
    \<and> disposition out' = kReplayed \<and> outcome (mutation_result out') = outcome (mutation_result out)
    \<and> committed_version (mutation_result out') = committed_version (mutation_result out)
    \<and> (isl res \<longrightarrow> current_version (mutation_result out') = current_version (mutation_result out))"
proof -
  obtain rec where rec: "ledger_find b1 (identity_request_id identity) = Some rec"
      "recorded_answer (call_operation call) identity rec res (mutation_result out)"
    using recorded_call [OF assms(1,2) usable_before(2) [OF assms(1,6)] assms(3-5)] by blast
  show ?thesis
    using recorded_replay [OF assms(6,2,3) backend_run_ledger [OF rec(1)]] rec(2) by (auto simp: recorded_answer_def)
qed

section \<open>The reported outcome is the truth\<close>

text \<open>
  The blocks that a call plans to write, computed from the state before it: those of the object,
  and for an identified call those of its ledger record in the same transaction.
\<close>

definition put_plan ::
  "bytes \<Rightarrow> bytes \<Rightarrow> u64 \<Rightarrow> ObjectBackendOptions \<Rightarrow> ImageReader
    \<Rightarrow> errno + ObjectVersion \<times> block_map \<times> block_map \<times> block_map \<times> u32 \<times> bytes" where
  "put_plan name payload timestamp options r =
    bind_result (PrepareNewRootObject r name payload (option_permissions options) (option_uid options) (option_gid options) timestamp)
      (\<lambda>plan. Inr (\<lparr>version_inode = object_inode_number plan, version_generation = 1\<rparr>, object_before plan, object_ordered plan,
         object_metadata plan, object_total_blocks plan, object_uuid plan))"

definition replace_plan ::
  "bytes \<Rightarrow> ObjectVersion \<Rightarrow> bytes \<Rightarrow> u64 \<Rightarrow> ImageReader
    \<Rightarrow> errno + ObjectVersion \<times> block_map \<times> block_map \<times> block_map \<times> u32 \<times> bytes" where
  "replace_plan name expected payload timestamp r =
    bind_result (ResolveRegularLocked r name) (\<lambda>(number, inode).
      if expected \<noteq> inode_version number inode then Inl ESTALE
      else bind_result (PrepareObjectReplace r number (version_generation expected) payload timestamp)
        (\<lambda>plan. Inr (\<lparr>version_inode = number, version_generation = new_generation plan\<rparr>, mutation_before plan,
           mutation_ordered plan, mutation_metadata plan, mutation_total_blocks plan, mutation_uuid plan)))"

definition call_plan ::
  "backend_call \<Rightarrow> ObjectBackendOptions \<Rightarrow> ImageReader
    \<Rightarrow> errno + ObjectVersion \<times> block_map \<times> block_map \<times> block_map \<times> u32 \<times> bytes" where
  "call_plan call options r = (case call of
     PutCall name payload timestamp _ \<Rightarrow> put_plan name payload timestamp options r
   | PlainPutCall name payload timestamp \<Rightarrow> put_plan name payload timestamp options r
   | ReplaceCall name expected payload timestamp _ \<Rightarrow> replace_plan name expected payload timestamp r
   | PlainReplaceCall name expected payload timestamp \<Rightarrow> replace_plan name expected payload timestamp r)"

definition record_blocks ::
  "RequestLedgerRecord \<Rightarrow> ImageReader \<Rightarrow> RequestLedgerIndex \<Rightarrow> (RequestLedgerAppendPlan \<Rightarrow> u32 \<times> bytes)
    \<Rightarrow> block_map \<Rightarrow> block_map \<Rightarrow> block_map \<Rightarrow> errno + block_map" where
  "record_blocks rec r idx target before ordered metadata =
    bind_result (PrepareRequestLedgerAppend r idx rec) (\<lambda>ledger.
    bind_result (MergeRequestLedgerAppend ledger (fst (target ledger)) (snd (target ledger)) before ordered metadata)
      (\<lambda>(_, ordered, metadata). Inr (ordered @ metadata)))"

definition planned_blocks :: "backend_call \<Rightarrow> ObjectBackend \<Rightarrow> errno + ObjectVersion \<times> block_map" where
  "planned_blocks call b =
    bind_result (CheckUsableLocked b) (\<lambda>r.
    bind_result (call_plan call (backend_options b) r) (\<lambda>(version, before, ordered, metadata, blocks, uuid).
      case (call_identity call, request_ledger b) of
        (None, _) \<Rightarrow> Inr (version, ordered @ metadata)
      | (Some identity, None) \<Rightarrow> Inl EOPNOTSUPP
      | (Some identity, Some idx) \<Rightarrow>
          bind_result (record_blocks (MakeCommittedRecord (call_operation call) identity version) r idx (\<lambda>_. (blocks, uuid))
            before ordered metadata) (\<lambda>images. Inr (version, images))))"

text \<open>The blocks of a rejection: those of its ledger record.\<close>

definition rejection_blocks :: "RequestLedgerRecord \<Rightarrow> ObjectBackend \<Rightarrow> errno + block_map" where
  "rejection_blocks rec b = bind_result (CheckUsableLocked b) (\<lambda>r. case request_ledger b of None \<Rightarrow> Inl EOPNOTSUPP
     | Some idx \<Rightarrow> record_blocks rec r idx (\<lambda>ledger. (ledger_total_blocks ledger, ledger_uuid ledger)) [] [] [])"

text \<open>
  The image after a call: outside the journal it is the image before the call with the given
  blocks written, and a reader that is still there has been opened on it.
\<close>

definition image_written :: "os_answers \<Rightarrow> block_map \<Rightarrow> ObjectBackend \<Rightarrow> ObjectBackend \<Rightarrow> bool" where
  "image_written ans images b b' \<longleftrightarrow> (\<exists>sb. DecodeSuperblock (session_blocks (backend_session b) 0) = Inr sb
      \<and> written_outside sb (home_writes images) (session_blocks (backend_session b)) (session_blocks (backend_session b')))
    \<and> (\<forall>r. backend_reader b' = Some r \<longrightarrow> SessionReader ans (backend_session b') = Inr r)"

definition outcome_true ::
  "os_answers \<Rightarrow> backend_call \<Rightarrow> ObjectBackend \<Rightarrow> (errno + unit) \<times> IdempotentMutationResult \<times> ObjectBackend \<Rightarrow> bool" where
  "outcome_true ans call b result \<longleftrightarrow> (case result of (res, out, b1) \<Rightarrow> let m = mutation_result out in
     (case outcome m of
        OutcomeCommitted \<Rightarrow> backend_usable b1 = (\<not> isl res)
          \<and> (if disposition out = kReplayed
             then b1 = b \<and> (\<exists>identity rec. call_identity call = Some identity
               \<and> ledger_find b (identity_request_id identity) = Some rec \<and> m = replay_mutation rec)
             else \<exists>images. planned_blocks call b = Inr (committed_version m, images) \<and> image_written ans images b b1)
      | OutcomeNotApplied \<Rightarrow> isl res \<and> (b1 = b \<or> (\<exists>identity code rec images. call_identity call = Some identity
          \<and> rec = MakeRejectedRecord (call_operation call) identity code (current_version m)
          \<and> rejection_blocks rec b = Inr images \<and> image_written ans images b b1
          \<and> (backend_usable b1 \<longrightarrow> res = replay_result rec)))
      | OutcomeUnknown \<Rightarrow> isl res \<and> \<not> backend_usable b1 \<and> current_version m = no_version))"

lemma ApplyLocked_written:
  assumes "ApplyLocked ans bm om mm t u b = (res, OutcomeCommitted, b')"
  shows "image_written ans (om @ mm) b b'"
proof -
  obtain x f session where e: "SessionExecute ans bm om mm t u (backend_session b) = (Inr x, f, session)"
    using assms by (auto simp: ApplyLocked_def split: prod.splits sum.splits if_splits)
  have "ReloadReaderLocked ans (b\<lparr>backend_session := session\<rparr>) = (res, b')" using assms e by (simp add: ApplyLocked_def split: prod.splits)
  then have "backend_session b' = session" "\<forall>r. backend_reader b' = Some r \<longrightarrow> SessionReader ans session = Inr r"
    by (auto simp: ReloadReaderLocked_def FailClosedLocked_def split: sum.splits)
  then show ?thesis using SessionExecute_written [OF e] by (simp add: image_written_def)
qed

lemma Publish_written:
  assumes "image_written ans images b b1" "PublishLedgerRecordLocked alloc rec b1 = (res, b2)"
  shows "image_written ans images b b2"
  using assms by (auto simp: image_written_def PublishLedgerRecordLocked_def FailClosedLocked_def split: option.splits sum.splits)

lemma refused_true: "outcome (mutation_result out) = OutcomeNotApplied \<Longrightarrow> outcome_true ans call b (Inl e, out, b)"
  by (simp add: outcome_true_def Let_def)

text \<open>The three ends of a call: a plain transaction, a committed record, a recorded rejection.\<close>

lemma finish_plain_true:
  assumes u: "backend_usable b" "outcome candidate = OutcomeNotApplied"
    and plan: "planned_blocks call b = Inr (version, om @ mm)"
  shows "outcome_true ans call b (plain_step (finish_plain version candidate (ApplyLocked ans bm om mm t un b)))"
proof -
  obtain r oc b2 where a: "ApplyLocked ans bm om mm t un b = (r, oc, b2)" by (metis prod_cases3)
  note ao = ApplyLocked_outcome [OF a u(1)]
  show ?thesis
  proof (cases oc)
    case OutcomeCommitted
    then show ?thesis using ApplyLocked_written [of ans bm om mm t un b r b2] a ao plan
      by (auto simp: finish_plain_def plain_step_def outcome_true_def)
  qed (use a ao u(2) in \<open>auto simp: finish_plain_def plain_step_def outcome_true_def\<close>)
qed

lemma CommitObjectLocked_true:
  assumes u: "CheckUsableLocked b = Inr r" "request_ledger b = Some idx" "outcome (mutation_result candidate) = OutcomeNotApplied"
      "disposition candidate = kExecuted"
    and call: "call_identity call = Some identity" "call_plan call (backend_options b) r = Inr (version, bm, om, mm, t, un)"
    and rec: "rec = MakeCommittedRecord (call_operation call) identity version"
  shows "outcome_true ans call b (CommitObjectLocked ans alloc rec version candidate bm om mm t un r idx b)"
proof -
  let ?prep = "bind_result (PrepareRequestLedgerAppend r idx rec) (\<lambda>ledger.
        bind_result (MergeRequestLedgerAppend ledger t un bm om mm) (\<lambda>images. Inr (ledger, images)))"
  have usable: "backend_usable b" using u(1) by (simp add: CheckUsable_iff backend_usable_def)
  show ?thesis
  proof (cases ?prep)
    case (Inl e)
    then show ?thesis using u(3) by (simp add: CommitObjectLocked_def refused_true)
  next
    case (Inr x)
    obtain ledger bm' om' mm' where x: "x = (ledger, bm', om', mm')" by (metis prod_cases4)
    have plan: "planned_blocks call b = Inr (version, om' @ mm')"
      using Inr x u(1,2) call rec by (auto simp: planned_blocks_def record_blocks_def bind_result_Inr_iff)
    obtain res oc b1 where a: "ApplyLocked ans bm' om' mm' t un b = (res, oc, b1)" by (metis prod_cases3)
    note ao = ApplyLocked_outcome [OF a usable]
    obtain res2 b2 where p: "PublishLedgerRecordLocked alloc (ledger_record ledger) b1 = (res2, b2)" by fastforce
    show ?thesis
    proof (cases oc)
      case OutcomeCommitted
      note w = ApplyLocked_written [OF a [unfolded OutcomeCommitted]]
      show ?thesis
        using OutcomeCommitted Inr x a p ao plan w Publish_written [OF w p] PublishLedgerRecordLocked_ledger(1,2) [OF p] u(4)
        by (cases res; cases res2) (auto simp: CommitObjectLocked_def outcome_true_def)
    qed (use Inr x a ao u(3) in \<open>auto simp: CommitObjectLocked_def outcome_true_def\<close>)
  qed
qed

lemma CommitLedgerOnlyLocked_written:
  assumes "CommitLedgerOnlyLocked ans alloc rec r idx b = (res, OutcomeCommitted, b')" "CheckUsableLocked b = Inr r" "request_ledger b = Some idx"
  shows "\<exists>images. rejection_blocks rec b = Inr images \<and> image_written ans images b b'"
proof -
  let ?prep = "bind_result (PrepareRequestLedgerAppend r idx rec) (\<lambda>ledger.
        bind_result (MergeRequestLedgerAppend ledger (ledger_total_blocks ledger) (ledger_uuid ledger) [] [] [])
          (\<lambda>images. Inr (ledger, images)))"
  obtain ledger bm om mm where x: "?prep = Inr (ledger, bm, om, mm)"
    using assms(1) by (cases ?prep) (auto simp: CommitLedgerOnlyLocked_def)
  obtain res1 oc b1 where a: "ApplyLocked ans bm om mm (ledger_total_blocks ledger) (ledger_uuid ledger) b = (res1, oc, b1)"
    by (metis prod_cases3)
  obtain res2 b2 where p: "PublishLedgerRecordLocked alloc (ledger_record ledger) b1 = (res2, b2)" by fastforce
  have oc: "oc = OutcomeCommitted" "b' = b1 \<or> b' = b2"
    using assms(1) x a p by (cases oc; cases res1; auto simp: CommitLedgerOnlyLocked_def)+
  note w = ApplyLocked_written [OF a [unfolded oc(1)]]
  have "rejection_blocks rec b = Inr (om @ mm)"
    using x assms(2,3) by (auto simp: rejection_blocks_def record_blocks_def bind_result_Inr_iff)
  then show ?thesis using oc(2) w Publish_written [OF w p] by auto
qed

lemma RejectLocked_true:
  assumes u: "CheckUsableLocked b = Inr r" "request_ledger b = Some idx" "outcome (mutation_result candidate) = OutcomeNotApplied"
    and call: "call_identity call = Some identity" "call_operation call = op" "current_version (mutation_result candidate) = v"
      "replay_result (MakeRejectedRecord op identity lcode v) = Inl code"
  shows "outcome_true ans call b (RejectLocked ans alloc (MakeRejectedRecord op identity lcode v) code candidate r idx b)"
proof -
  let ?rec = "MakeRejectedRecord op identity lcode v"
  obtain res oc b' where c: "CommitLedgerOnlyLocked ans alloc ?rec r idx b = (res, oc, b')" by (metis prod_cases3)
  have usable: "backend_usable b" using u(1) by (simp add: CheckUsable_iff backend_usable_def)
  note l = CommitLedgerOnlyLocked_ledger [OF c usable u(2)]
  show ?thesis
  proof (cases oc)
    case OutcomeCommitted
    obtain images where "rejection_blocks ?rec b = Inr images" "image_written ans images b b'"
      using CommitLedgerOnlyLocked_written [OF c [unfolded OutcomeCommitted] u(1,2)] by blast
    then show ?thesis using c OutcomeCommitted l(6) u(3) call by (cases res) (fastforce simp: RejectLocked_def outcome_true_def Let_def)+
  qed (use c l(4,5) u(3) in \<open>cases res; auto simp: RejectLocked_def outcome_true_def\<close>)+
qed

lemma call_identity_sel [simp]:
  "call_identity (PutCall name payload timestamp identity) = Some identity"
  "call_identity (ReplaceCall name expected payload timestamp identity) = Some identity"
  "call_identity (PlainPutCall name payload timestamp) = None"
  "call_identity (PlainReplaceCall name expected payload timestamp) = None"
  "call_operation (PutCall name payload timestamp identity) = kCreateIfAbsent"
  "call_operation (ReplaceCall name expected payload timestamp identity) = kReplaceIfVersion"
  by (simp_all add: call_identity_def call_operation_def)

lemma rejected_codes [simp]:
  "replay_result (MakeRejectedRecord op identity kAlreadyExists v) = Inl EEXIST"
  "replay_result (MakeRejectedRecord op identity kVersionMismatch v) = Inl ESTALE"
  "replay_result (MakeRejectedRecord op identity kNotFound v) = Inl ENOENT"
  by (simp_all add: MakeRejectedRecord_def replay_result_def)

lemma fresh_result_sel [simp]:
  "outcome (mutation_result fresh_result) = OutcomeNotApplied" "current_version (mutation_result fresh_result) = no_version"
  "disposition fresh_result = kExecuted" "outcome fresh_mutation = OutcomeNotApplied"
  by (simp_all add: fresh_result_def fresh_mutation_def)

lemma replayed_true:
  assumes "backend_usable b" "call_identity call = Some identity" "ledger_find b (identity_request_id identity) = Some rec"
  shows "outcome_true ans call b (replay_result rec, \<lparr>mutation_result = replay_mutation rec, disposition = kReplayed\<rparr>, b)"
  using assms by (auto simp: outcome_true_def Let_def replay_result_def replay_mutation_def)

lemma PutIfAbsentIdempotent_true:
  assumes u: "backend_usable b"
  shows "outcome_true ans (PutCall name payload timestamp identity) b (PutIfAbsentIdempotent ans alloc name payload timestamp identity b)"
proof -
  obtain r where r: "CheckUsableLocked b = Inr r" using CheckUsable_cases(1) [OF u] by blast
  show ?thesis
  proof (cases rule: CheckRequest_cases [of b identity kCreateIfAbsent])
    case (fresh idx)
    note [simp] = RejectLocked_true [OF r fresh(2)] CommitObjectLocked_true [OF r fresh(2)] refused_true
    show ?thesis
      using r fresh(1,2)
      by (auto simp: PutIfAbsentIdempotent_def call_plan_def put_plan_def Let_def split: sum.splits)
  next
    case (replay rec)
    then show ?thesis using handled_calls(1) [OF r replay(4)] replayed_true [OF u] by simp
  qed (use r u in \<open>auto simp: PutIfAbsentIdempotent_def intro!: refused_true\<close>)
qed

lemma ReplaceIfVersionIdempotent_true:
  assumes u: "backend_usable b"
  shows "outcome_true ans (ReplaceCall name expected payload timestamp identity) b
    (ReplaceIfVersionIdempotent ans alloc name expected payload timestamp identity b)"
proof -
  obtain r where r: "CheckUsableLocked b = Inr r" using CheckUsable_cases(1) [OF u] by blast
  show ?thesis
  proof (cases rule: CheckRequest_cases [of b identity kReplaceIfVersion])
    case (fresh idx)
    note [simp] = RejectLocked_true [OF r fresh(2)] CommitObjectLocked_true [OF r fresh(2)] refused_true
    show ?thesis
      using r fresh(1,2)
      by (auto simp: ReplaceIfVersionIdempotent_def call_plan_def replace_plan_def inode_version_def Let_def split: sum.splits)
  next
    case (replay rec)
    then show ?thesis using handled_calls(2) [OF r replay(4)] replayed_true [OF u] by simp
  qed (use r u in \<open>auto simp: ReplaceIfVersionIdempotent_def intro!: refused_true\<close>)
qed

lemma plain_calls_true:
  assumes u: "backend_usable b"
  shows "outcome_true ans (PlainPutCall name payload timestamp) b (plain_step (PutIfAbsent ans name payload timestamp b))"
    "outcome_true ans (PlainReplaceCall name expected payload timestamp) b (plain_step (ReplaceIfVersion ans name expected payload timestamp b))"
proof -
  obtain r where r: "CheckUsableLocked b = Inr r" using CheckUsable_cases(1) [OF u] by blast
  have refused: "outcome m = OutcomeNotApplied \<Longrightarrow> outcome_true ans call b (plain_step (Inl e, m, b))" for call m e
    by (simp add: plain_step_def refused_true)
  have put: "outcome (case (e, ResolveRegularLocked r name) of
                (EEXIST, Inr (number, inode)) \<Rightarrow> fresh_mutation\<lparr>current_version := inode_version number inode\<rparr>
              | _ \<Rightarrow> fresh_mutation) = OutcomeNotApplied" for e by (auto split: errno.splits sum.splits)
  show "outcome_true ans (PlainPutCall name payload timestamp) b (plain_step (PutIfAbsent ans name payload timestamp b))"
    using r put
    by (auto simp: PutIfAbsent_def refused planned_blocks_def call_plan_def put_plan_def split: sum.split intro!: finish_plain_true [OF u])
  show "outcome_true ans (PlainReplaceCall name expected payload timestamp) b (plain_step (ReplaceIfVersion ans name expected payload timestamp b))"
    using r
    by (auto simp: ReplaceIfVersion_def refused planned_blocks_def call_plan_def replace_plan_def inode_version_def Let_def
        split: sum.splits intro!: finish_plain_true [OF u])
qed

text \<open>
  C39: the outcome that a call reports is the truth, and uncertainty closes the backend.  For
  every answer of the operating system: a call that reports a commit has run its transaction,
  so that outside the journal the image is the old one with exactly the blocks written that
  the call planned for the version it reports, its ledger record among them, and the reader
  shows that image; a replayed commit changes nothing and is the recorded one.  After a
  reported commit the backend is closed exactly when the call still fails.  A call that was
  not applied fails, and either nothing has changed or exactly the ledger record of the
  rejection that is reported has been written.  An unknown outcome comes with an error, no
  current version and a closed backend.  A closed backend stays as it is under all further
  calls, which fail with EIO, as do its reads.
\<close>

theorem backend_outcome_true:
  assumes "backend_usable b" "backend_step env call b = (res, out, b1)"
  shows "(case outcome (mutation_result out) of
       OutcomeCommitted \<Rightarrow> backend_usable b1 = (\<not> isl res)
         \<and> (if disposition out = kReplayed
            then b1 = b \<and> (\<exists>identity rec. call_identity call = Some identity
              \<and> ledger_find b (identity_request_id identity) = Some rec \<and> mutation_result out = replay_mutation rec)
            else \<exists>images. planned_blocks call b = Inr (committed_version (mutation_result out), images)
              \<and> image_written (fst env) images b b1)
     | OutcomeNotApplied \<Rightarrow> isl res \<and> (b1 = b \<or> (\<exists>identity code rec images. call_identity call = Some identity
         \<and> rec = MakeRejectedRecord (call_operation call) identity code (current_version (mutation_result out))
         \<and> rejection_blocks rec b = Inr images \<and> image_written (fst env) images b b1
         \<and> (backend_usable b1 \<longrightarrow> res = replay_result rec)))
     | OutcomeUnknown \<Rightarrow> isl res \<and> \<not> backend_usable b1 \<and> current_version (mutation_result out) = no_version)
    \<and> (\<not> backend_usable b1 \<longrightarrow> backend_run calls b1 = b1 \<and> fst (backend_step env' call' b1) = Inl EIO
      \<and> GetObjectData name b1 = Inl EIO \<and> StatObjectData name b1 = Inl EIO)"
proof -
  have "outcome_true (fst env) call b (backend_step env call b)"
    by (cases call) (simp_all add: backend_step_def PutIfAbsentIdempotent_true [OF assms(1)] ReplaceIfVersionIdempotent_true [OF assms(1)]
        plain_calls_true [OF assms(1)])
  then have "outcome_true (fst env) call b (res, out, b1)" by (simp add: assms(2))
  then show ?thesis
    using backend_run_closed [of b1 calls] backend_step_closed(2) [of b1 env' call'] CheckUsable_cases(2) [of b1]
    by (simp add: outcome_true_def Let_def GetObjectData_def StatObjectData_def)
qed

definition backend_ok :: "Superblock \<Rightarrow> ObjectBackend \<Rightarrow> bool" where
  "backend_ok sb b \<longleftrightarrow> backend_fatal_error b = None
    \<and> (\<exists>r. backend_reader b = Some r \<and> session_ok sb (backend_session b) r)"

lemma backend_ok_reader:
  assumes "backend_ok sb b"
  shows "\<exists>r. CheckUsableLocked b = Inr r \<and> backend_reader b = Some r \<and> session_ok sb (backend_session b) r \<and> volume_ok r \<and> superblock r = sb"
proof -
  obtain r where r: "backend_fatal_error b = None" "backend_reader b = Some r" "session_ok sb (backend_session b) r"
    using assms by (auto simp: backend_ok_def)
  then show ?thesis using session_superblock [OF r(3)] by (auto simp: CheckUsable_iff session_ok_def)
qed

lemma ResolveRegular_Inr:
  "ResolveRegularLocked r name = Inr (n, i) \<longleftrightarrow> IsValidRootObjectName name \<and> ResolvePath r (47 # name) = Inr (n, i) \<and> S_ISREG (mode i)"
  by (auto simp: ResolveRegularLocked_def bind_result_Inr_iff split: if_splits)

lemma ResolveRegular_mutated:
  assumes "mutated_view r r' k request" "superblock r' = superblock r" "ResolveRegularLocked r name = Inr (n, i)"
    and "ReadInode r' n = Inr i'" "mode i' = mode i"
  shows "ResolveRegularLocked r' name = Inr (n, i')"
  using assms(3,5) ResolvePath_same [of r r' "47 # name" n i i'] assms(1,2,4)
  by (auto simp: ResolveRegular_Inr mutated_view_def)

lemma GetObjectData_contents:
  assumes "backend_ok sb b" "backend_reader b = Some r" "ResolveRegularLocked r name = Inr (n, i)"
  shows "GetObjectData name b = Inr (file_contents r i, MakeObjectStat n i)"
proof -
  have c: "CheckUsableLocked b = Inr r" "volume_ok r" using backend_ok_reader [OF assms(1)] assms(2) by auto
  have i: "ReadInode r n = Inr i" "S_ISREG (mode i)" using assms(3) ResolvePath_reads by (auto simp: ResolveRegular_Inr)
  note l = file_contents_nth(1) [OF c(2) i(1)]
  have "ReadFile r n 0 (unat (file_size i)) = Inr (file_contents r i)"
    using ReadFile_cut [OF i volume_file_readable [OF c(2) i(1)], of 0 "unat (file_size i)"] l by simp
  moreover have "file_contents r i = []" if "file_size i = 0" using l that by simp
  ultimately show ?thesis using c(1) assms(3) l by (auto simp: GetObjectData_def)
qed

lemma ReplaceIfVersion_success:
  assumes "ReplaceIfVersion ans name expected payload timestamp b = (Inr x, m, b')"
  obtains r n i plan f session r' where "CheckUsableLocked b = Inr r" "ResolveRegularLocked r name = Inr (n, i)"
    "version_inode expected = n" "version_generation expected = generation i"
    "PrepareObjectReplace r n (version_generation expected) payload timestamp = Inr plan"
    "SessionExecute ans (mutation_before plan) (mutation_ordered plan) (mutation_metadata plan)
      (mutation_total_blocks plan) (mutation_uuid plan) (backend_session b) = (Inr (), f, session)"
    "SessionReader ans session = Inr r'" "b' = b\<lparr>backend_session := session, backend_reader := Some r'\<rparr>"
    "m = \<lparr>outcome = OutcomeCommitted, committed_version = \<lparr>version_inode = n, version_generation = new_generation plan\<rparr>,
       current_version = \<lparr>version_inode = n, version_generation = new_generation plan\<rparr>\<rparr>"
proof -
  obtain r n i where r: "CheckUsableLocked b = Inr r" "ResolveRegularLocked r name = Inr (n, i)"
    using assms by (auto simp: ReplaceIfVersion_def split: sum.splits)
  then obtain plan where p: "version_inode expected = n" "version_generation expected = generation i"
    "PrepareObjectReplace r n (version_generation expected) payload timestamp = Inr plan"
    using assms by (auto simp: ReplaceIfVersion_def Let_def split: sum.splits if_splits)
  let ?v = "\<lparr>version_inode = n, version_generation = new_generation plan\<rparr>"
  have f: "finish_plain ?v (fresh_mutation\<lparr>current_version := inode_version n i\<rparr>) (ApplyLocked ans (mutation_before plan) (mutation_ordered plan)
      (mutation_metadata plan) (mutation_total_blocks plan) (mutation_uuid plan) b) = (Inr x, m, b')"
    using assms r p by (simp add: ReplaceIfVersion_def)
  obtain res g session where e: "SessionExecute ans (mutation_before plan) (mutation_ordered plan) (mutation_metadata plan)
      (mutation_total_blocks plan) (mutation_uuid plan) (backend_session b) = (res, g, session)" by (metis prod_cases3)
  have res: "res = Inr ()" using f e by (cases res) (auto simp: ApplyLocked_def finish_plain_def split: if_splits)
  have "\<exists>r'. SessionReader ans session = Inr r' \<and> b' = b\<lparr>backend_session := session, backend_reader := Some r'\<rparr>
    \<and> m = \<lparr>outcome = OutcomeCommitted, committed_version = ?v, current_version = ?v\<rparr>"
    using f e res by (auto simp: ApplyLocked_def finish_plain_def ReloadReaderLocked_def split: sum.splits)
  then show ?thesis using that r p e res by blast
qed

text \<open>
  C7: a committed replacement is what the next read returns.  On a consistent volume let a
  conditional replacement succeed, whatever the kernel answered to the system calls of its
  journal transaction, while those of the reader that is opened afterwards (dup, fcntl, fstat
  and pread) succeed.  Then the object had the expected version, the backend is consistent again,
  and reading the object returns the complete new payload with the committed version, which
  is the next generation of the same inode; every object on another inode reads as before.
  (The metadata blocks of the plan must not look like a COMMIT record.)
\<close>

theorem ReplaceIfVersion_then_get:
  assumes "backend_ok sb b" "healthy_reader ans"
    and "ReplaceIfVersion ans name expected payload timestamp b = (Inr x, m, b')"
    and "\<forall>r plan. backend_reader b = Some r
      \<and> PrepareObjectReplace r (version_inode expected) (version_generation expected) payload timestamp = Inr plan
      \<longrightarrow> (\<forall>x \<in> set (mutation_metadata plan). isl (DecodeCommit (snd x)))"
  shows "outcome m = OutcomeCommitted \<and> backend_ok sb b'
    \<and> committed_version m = \<lparr>version_inode = version_inode expected, version_generation = version_generation expected + 1\<rparr>
    \<and> (\<exists>st. GetObjectData name b' = Inr (payload, st) \<and> stat_inode_number st = version_inode (committed_version m)
      \<and> stat_generation st = version_generation (committed_version m))
    \<and> (\<forall>other content st. GetObjectData other b = Inr (content, st) \<and> stat_inode_number st \<noteq> version_inode expected
      \<longrightarrow> GetObjectData other b' = Inr (content, st))"
proof -
  obtain r n i plan f session r' where c: "CheckUsableLocked b = Inr r" "ResolveRegularLocked r name = Inr (n, i)"
    "version_inode expected = n" "version_generation expected = generation i"
    "PrepareObjectReplace r n (version_generation expected) payload timestamp = Inr plan"
    "SessionExecute ans (mutation_before plan) (mutation_ordered plan) (mutation_metadata plan)
      (mutation_total_blocks plan) (mutation_uuid plan) (backend_session b) = (Inr (), f, session)"
    "SessionReader ans session = Inr r'" "b' = b\<lparr>backend_session := session, backend_reader := Some r'\<rparr>"
    "m = \<lparr>outcome = OutcomeCommitted, committed_version = \<lparr>version_inode = n, version_generation = new_generation plan\<rparr>,
       current_version = \<lparr>version_inode = n, version_generation = new_generation plan\<rparr>\<rparr>"
    by (rule ReplaceIfVersion_success [OF assms(3)])
  let ?req = "\<lparr>request_mode = kReplaceAll, request_offset = 0, request_data = payload, request_timestamp_ns = timestamp,
      expected_generation = version_generation expected\<rparr>"
  have rd: "backend_reader b = Some r" "session_ok sb (backend_session b) r" "volume_ok r" "superblock r = sb"
    using backend_ok_reader [OF assms(1)] c(1) by auto
  have plan: "PrepareFileMutation r n ?req = Inr plan" using c(5) by (simp add: PrepareObjectReplace_def)
  obtain r1 where r1: "session_ok sb session r1" "mutated_view r r1 n ?req"
    using session_mutated [OF rd(2) plan _ c(6)] assms(4) rd(1) c(3,5) by blast
  have "SessionReader ans session = Inr r1"
    using SessionReader_healthy [OF assms(2), of session sb] r1(1) by (simp add: session_ok_def)
  then have rr: "r1 = r'" using c(7) by simp
  have ok': "backend_ok sb b'" "backend_reader b' = Some r'"
    using assms(1) c(8) r1(1) rr by (auto simp: backend_ok_def)
  have sb': "superblock r' = superblock r" using session_superblock [OF r1(1)] rr rd(4) by simp
  have i: "ReadInode r n = Inr i" using c(2) ResolvePath_reads by (auto simp: ResolveRegular_Inr)
  obtain i' where i': "ReadInode r' n = Inr i'" "file_contents r' i' = payload" "generation i' = generation i + 1" "mode i' = mode i"
    using r1(2) rr i by (auto simp: mutated_view_def file_after_def replaces_def)
  obtain inode old ps mapping ind a tb bs where "mutation_run r n ?req plan inode old ps mapping ind a tb bs"
    by (rule PrepareFileMutation_run [OF rd(3) plan])
  then have gen: "new_generation plan = generation i + 1" using i unfolding mutation_run_def by auto
  have get: "GetObjectData name b' = Inr (payload, MakeObjectStat n i')"
    using GetObjectData_contents [OF ok' ResolveRegular_mutated [OF r1(2) [unfolded rr] sb' c(2) i'(1,4)]] i'(2) by simp
  have "GetObjectData other b' = Inr (content, st)"
    if o: "GetObjectData other b = Inr (content, st)" "stat_inode_number st \<noteq> n" for other content st
  proof -
    obtain k j where k: "ResolveRegularLocked r other = Inr (k, j)"
      using o(1) c(1) by (auto simp: GetObjectData_def bind_result_Inr_iff)
    have g: "content = file_contents r j" "st = MakeObjectStat k j" using GetObjectData_contents [OF assms(1) rd(1) k] o(1) by auto
    have "k \<noteq> n" using o(2) g(2) by (simp add: MakeObjectStat_def)
    moreover have "ReadInode r k = Inr j" using k ResolvePath_reads by (auto simp: ResolveRegular_Inr)
    ultimately have j: "ReadInode r' k = Inr j" "file_contents r' j = file_contents r j"
      using r1(2) rr unfolding mutated_view_def by blast+
    show ?thesis
      using GetObjectData_contents [OF ok' ResolveRegular_mutated [OF r1(2) [unfolded rr] sb' k j(1) refl]] j(2) g by simp
  qed
  then show ?thesis using ok'(1) get c(3,4,9) gen i'(3) by (auto simp: MakeObjectStat_def)
qed

section \<open>A backend on the sample volume\<close>

text \<open>Its ledger holds the record of one committed creation.\<close>

definition backend_identity :: RequestIdentity where
  "backend_identity = \<lparr>identity_request_id = replicate 16 1, identity_fingerprint = replicate 32 2\<rparr>"

definition backend_record :: RequestLedgerRecord where
  "backend_record = (MakeCommittedRecord kCreateIfAbsent backend_identity \<lparr>version_inode = 3, version_generation = 1\<rparr>)\<lparr>sequence := 1\<rparr>"

definition volume_backend :: ObjectBackend where
  "volume_backend = \<lparr>backend_options = \<lparr>option_permissions = 0x1A4, option_uid = 0, option_gid = 0\<rparr>,
     backend_session = mount_session volume_mount, backend_reader = Some volume_reader,
     request_ledger = Some \<lparr>capacity = 4, next_sequence = 2, records = [(replicate 16 1, backend_record)]\<rparr>,
     backend_fatal_error = None\<rparr>"

definition volume_version :: ObjectVersion where
  "volume_version = \<lparr>version_inode = 3, version_generation = 9\<rparr>"

definition volume_replace :: FileMutationRequest where
  "volume_replace = \<lparr>request_mode = kReplaceAll, request_offset = 0, request_data = [1, 2], request_timestamp_ns = 5,
     expected_generation = 9\<rparr>"

lemma volume_backend_ok: "backend_ok volume_superblock volume_backend"
  using volume_mount_ok by (auto simp: backend_ok_def mount_ok_def volume_backend_def volume_mount_def)

lemma volume_backend_reader:
  "CheckUsableLocked volume_backend = Inr volume_reader" "backend_reader volume_backend = Some volume_reader"
  "backend_session volume_backend = mount_session volume_mount"
  by (simp_all add: CheckUsable_iff volume_backend_def)

lemma volume_resolve: "ResolveRegularLocked volume_reader [0x61] = Inr (3, volume_file)"
proof -
  have "IsValidRootObjectName [0x61]" by (simp add: IsValidRootObjectName_def)
  moreover have "ResolvePath volume_reader [47, 0x61] = Inr (3, volume_file)"
    using volume_list volume_reader_inodes(2)
    by (simp add: ResolvePath_def ResolveComponents.simps [of _ _ "[_]"] volume_reader_fields volume_superblock_fields volume_entry_def)
  ultimately show ?thesis using volume_request_ok(1) by (simp add: ResolveRegular_Inr)
qed

lemma volume_replace_plan:
  "PrepareObjectReplace volume_reader 3 9 [1, 2] 5 = PrepareFileMutation volume_reader 3 volume_replace"
  by (simp add: PrepareObjectReplace_def volume_replace_def)

lemma volume_replace_small: "\<not> new_indirect_needed volume_file volume_replace"
  by (simp add: new_indirect_needed_def mutation_length_def volume_replace_def replaces_def volume_file_def PlanRequiredBlocks_def)

lemma volume_replace_prepared: "\<exists>plan. PrepareFileMutation volume_reader 3 volume_replace = Inr plan"
proof (rule PrepareFileMutation_succeeds_aux [OF volume_reader_ok volume_reader_inodes(2) volume_request_ok(1) _ _ volume_request_ok(2)])
  show "mutation_fits volume_replace" by (simp add: mutation_fits_def volume_replace_def replaces_def kMaxFileSize_def)
  show "replaces volume_replace \<longrightarrow> generation volume_file = FileMutationRequest.expected_generation volume_replace"
    by (simp add: volume_replace_def volume_file_def sample_inode_def)
  show "changed_to volume_file volume_replace - changed_from volume_file volume_replace < card (free_bits (block_allocator volume_reader))"
    using volume_free by (simp add: changed_to_def changed_from_def volume_replace_def replaces_def volume_file_def)
qed

lemma volume_replaced:
  "\<exists>x m b. ReplaceIfVersion quiet_answers [0x61] volume_version [1, 2] 5 volume_backend = (Inr x, m, b)"
proof -
  obtain plan where plan: "PrepareFileMutation volume_reader 3 volume_replace = Inr plan" using volume_replace_prepared by blast
  obtain s where s: "ExecuteJournalTransaction (Inr (quiet_device volume_disk (image_size volume_superblock))) (mutation_before plan)
      (mutation_ordered plan) (mutation_metadata plan) (mutation_total_blocks plan) (mutation_uuid plan) = (Inr (), False, Some s)"
    using volume_execute [OF plan volume_replace_small] by blast
  let ?session = "\<lparr>session_blocks = dev_blocks (store_device s), session_bytes = image_size volume_superblock\<rparr>"
  have e: "SessionExecute quiet_answers (mutation_before plan) (mutation_ordered plan) (mutation_metadata plan)
      (mutation_total_blocks plan) (mutation_uuid plan) (mount_session volume_mount) = (Inr (), False, ?session)"
    using s by (simp add: SessionExecute_def DuplicateFd_def volume_mount_device)
  have so: "session_ok volume_superblock (mount_session volume_mount) volume_reader"
    using volume_mount_ok by (simp add: mount_ok_def volume_mount_def)
  obtain r' where "session_ok volume_superblock ?session r'"
    using session_mutated [OF so plan volume_metadata(2) [OF plan volume_replace_small] e] by blast
  then have "SessionReader quiet_answers ?session = Inr r'"
    using SessionReader_healthy [OF quiet_healthy, of ?session volume_superblock] by (simp add: session_ok_def)
  moreover have "generation volume_file = 9" by (simp add: volume_file_def sample_inode_def)
  ultimately show ?thesis
    using plan e
    by (simp add: ReplaceIfVersion_def volume_backend_reader volume_resolve volume_version_def volume_replace_plan ApplyLocked_def
        ReloadReaderLocked_def finish_plain_def)
qed

theorem ReplaceIfVersion_then_get_witness:
  "\<exists>x m b st. ReplaceIfVersion quiet_answers [0x61] volume_version [1, 2] 5 volume_backend = (Inr x, m, b)
    \<and> GetObjectData [0x61] b = Inr ([1, 2], st) \<and> stat_generation st = 10"
proof -
  obtain x m b where b: "ReplaceIfVersion quiet_answers [0x61] volume_version [1, 2] 5 volume_backend = (Inr x, m, b)"
    using volume_replaced by blast
  have "\<forall>r plan. backend_reader volume_backend = Some r
      \<and> PrepareObjectReplace r (version_inode volume_version) (version_generation volume_version) [1, 2] 5 = Inr plan
      \<longrightarrow> (\<forall>x \<in> set (mutation_metadata plan). isl (DecodeCommit (snd x)))"
    using volume_metadata(2) [OF _ volume_replace_small] by (simp add: volume_backend_reader volume_version_def volume_replace_plan)
  from ReplaceIfVersion_then_get [OF volume_backend_ok quiet_healthy b this] b show ?thesis
    by (auto simp: volume_version_def)
qed

definition replace_call :: backend_call where
  "replace_call = PlainReplaceCall [0x61] volume_version [1, 2] 5"

definition put_call :: backend_call where
  "put_call = PutCall [0x61] [7] 5 backend_identity"

lemma volume_run_usable: "backend_usable (backend_run [((quiet_answers, True), replace_call)] volume_backend)"
proof -
  obtain x m b where r: "ReplaceIfVersion quiet_answers [0x61] volume_version [1, 2] 5 volume_backend = (Inr x, m, b)"
    using volume_replaced by blast
  obtain r n i pl f session r' where s: "b = volume_backend\<lparr>backend_session := session, backend_reader := Some r'\<rparr>"
    by (rule ReplaceIfVersion_success [OF r])
  show ?thesis
    by (simp add: replace_call_def backend_step_def plain_step_def r) (simp add: s backend_usable_def volume_backend_def)
qed

definition backend_replay :: IdempotentMutationResult where
  "backend_replay = \<lparr>mutation_result = fresh_mutation\<lparr>outcome := OutcomeCommitted,
    committed_version := \<lparr>version_inode = 3, version_generation = 1\<rparr>\<rparr>, disposition = kReplayed\<rparr>"

lemma backend_identity_nonzero: "HasNonzeroRequestId (identity_request_id backend_identity)"
  by (simp add: backend_identity_def HasNonzeroRequestId_def list_ex_iff)

lemma volume_put_replayed:
  "backend_step env (PutCall name payload timestamp backend_identity) volume_backend = (Inr (), backend_replay, volume_backend)"
proof -
  have "CheckRequestLocked backend_identity kCreateIfAbsent volume_backend = (Inr (), True, backend_replay)"
    using backend_identity_nonzero by (simp add: CheckRequestLocked_def volume_backend_def FindRequest_def backend_replay_def)
      (simp add: backend_record_def MakeCommittedRecord_def backend_identity_def)
  then show ?thesis by (simp add: backend_step_def PutIfAbsentIdempotent_def volume_backend_reader)
qed

theorem request_replayed_witness:
  "\<exists>out b. b = backend_run [((quiet_answers, True), replace_call)] volume_backend
    \<and> backend_step (quiet_answers, True) put_call b = (Inr (), out, b)
    \<and> disposition out = kReplayed \<and> outcome (mutation_result out) = OutcomeCommitted"
proof -
  have "call_identity put_call = Some backend_identity" by (simp add: put_call_def call_identity_def)
  moreover have "backend_step (quiet_answers, True) put_call volume_backend = (Inr (), backend_replay, volume_backend)"
    unfolding put_call_def by (rule volume_put_replayed)
  moreover have "disposition backend_replay = kReplayed" "outcome (mutation_result backend_replay) = OutcomeCommitted"
    by (simp_all add: backend_replay_def)
  ultimately show ?thesis
    using request_replayed [OF _ _ backend_identity_nonzero _ _ volume_run_usable, of _ put_call volume_backend "Inr ()" backend_replay
        "(quiet_answers, True)"] by auto
qed

theorem backend_outcome_true_witness:
  "(\<exists>x out b images. backend_step (quiet_answers, True) replace_call volume_backend = (Inr x, out, b)
      \<and> outcome (mutation_result out) = OutcomeCommitted \<and> backend_usable b
      \<and> planned_blocks replace_call volume_backend = Inr (committed_version (mutation_result out), images)
      \<and> image_written quiet_answers images volume_backend b)
    \<and> (\<exists>out b. backend_step (quiet_answers\<lparr>journal_script := [IoFail EIO 0]\<rparr>, True) replace_call volume_backend = (Inl EIO, out, b)
      \<and> outcome (mutation_result out) = OutcomeUnknown \<and> \<not> backend_usable b
      \<and> backend_run [((quiet_answers, True), put_call)] b = b \<and> GetObjectData [0x61] b = Inl EIO)"
proof
  have usable: "backend_usable volume_backend" by (simp add: backend_usable_def volume_backend_def)
  obtain x m b where r: "ReplaceIfVersion quiet_answers [0x61] volume_version [1, 2] 5 volume_backend = (Inr x, m, b)"
    using volume_replaced by blast
  then have step: "backend_step (quiet_answers, True) replace_call volume_backend = (Inr x, \<lparr>mutation_result = m, disposition = kExecuted\<rparr>, b)"
    by (simp add: backend_step_def replace_call_def plain_step_def)
  obtain r n i pl f session r' v where "m = \<lparr>outcome = OutcomeCommitted, committed_version = v, current_version = v\<rparr>"
    by (rule ReplaceIfVersion_success [OF r])
  then show "\<exists>x out b images. backend_step (quiet_answers, True) replace_call volume_backend = (Inr x, out, b)
      \<and> outcome (mutation_result out) = OutcomeCommitted \<and> backend_usable b
      \<and> planned_blocks replace_call volume_backend = Inr (committed_version (mutation_result out), images)
      \<and> image_written quiet_answers images volume_backend b"
    using step backend_outcome_true [OF usable step] by auto
  let ?ans = "quiet_answers\<lparr>journal_script := [IoFail EIO 0]\<rparr>"
  obtain plan where plan: "PrepareFileMutation volume_reader 3 volume_replace = Inr plan" using volume_replace_prepared by blast
  have "SessionExecute ?ans (mutation_before plan) (mutation_ordered plan) (mutation_metadata plan) (mutation_total_blocks plan)
      (mutation_uuid plan) (mount_session volume_mount) = (Inl EIO, True, mount_session volume_mount)"
    by (simp add: SessionExecute_def DuplicateFd_def quiet_answers_def ExecuteJournalTransaction_def AdoptLockedFd_def Fcntl_def
        next_outcome_def journal_device_def)
  then obtain out b' where lost: "backend_step (?ans, True) replace_call volume_backend = (Inl EIO, out, b')"
    "outcome (mutation_result out) = OutcomeUnknown"
    using plan by (simp add: backend_step_def replace_call_def plain_step_def ReplaceIfVersion_def volume_backend_reader volume_resolve
        volume_version_def volume_replace_plan ApplyLocked_def finish_plain_def volume_file_def sample_inode_def)
  from backend_outcome_true [OF usable lost(1), of "[((quiet_answers, True), put_call)]" _ _ "[0x61]"] lost
  show "\<exists>out b. backend_step (?ans, True) replace_call volume_backend = (Inl EIO, out, b)
      \<and> outcome (mutation_result out) = OutcomeUnknown \<and> \<not> backend_usable b
      \<and> backend_run [((quiet_answers, True), put_call)] b = b \<and> GetObjectData [0x61] b = Inl EIO" by auto
qed

end
