(* ===== verification/RpcQueue.thy ===== *)
theory RpcQueue
  imports Prelude "HOL-Library.Multiset"
begin

text \<open>
  The admission control of the object service: \<^verbatim>\<open>rpc/inflight_byte_limiter.cpp\<close>,
  \<^verbatim>\<open>rpc/bounded_task_queue.cpp\<close> and the threads of \<^verbatim>\<open>rpc/object_service_impl.cpp\<close> around a queue.
  Every critical section is one step, the callback of a task and the return of its lease are two,
  and the threads interleave freely.  The locales
  \<open>byte_budget\<close> and \<open>bounded_fifo\<close> are the contracts of the limiter and of the queue.  The service
  answers every call exactly once, charges a write until it is answered, returns every charged byte,
  and drains after \<^verbatim>\<open>Shutdown\<close>.
\<close>

section \<open>Byte limiter\<close>

record Limiter =
  limit_bytes :: u64
  used_bytes :: u64

text \<open>A lease of the one limiter of a service: whether it still refers to it, and its size.\<close>

record Lease =
  lease_held :: bool
  lease_size :: u64

definition MakeLimiter :: "u64 \<Rightarrow> Limiter" where
  "MakeLimiter limit = \<lparr>limit_bytes = limit, used_bytes = 0\<rparr>"

definition EmptyLease :: Lease where
  "EmptyLease = \<lparr>lease_held = False, lease_size = 0\<rparr>"

definition TryAcquire :: "u64 \<Rightarrow> Limiter \<Rightarrow> Lease option \<times> Limiter" where
  "TryAcquire count_bytes lim =
    (if count_bytes > limit_bytes lim - used_bytes lim then (None, lim)
     else (Some \<lparr>lease_held = True, lease_size = count_bytes\<rparr>, lim\<lparr>used_bytes := used_bytes lim + count_bytes\<rparr>))"

definition LeaseReset :: "Lease \<Rightarrow> Limiter \<Rightarrow> Lease \<times> Limiter" where
  "LeaseReset lease lim =
    (if \<not> lease_held lease then (lease, lim)
     else (EmptyLease, lim\<lparr>used_bytes := used_bytes lim - lease_size lease\<rparr>))"

text \<open>Move assignment of two different leases: the new left and right side.\<close>

definition LeaseAssign :: "Lease \<Rightarrow> Lease \<Rightarrow> Limiter \<Rightarrow> Lease \<times> Lease \<times> Limiter" where
  "LeaseAssign this other lim = (case LeaseReset this lim of (_, lim) \<Rightarrow> (other, EmptyLease, lim))"

section \<open>Queued tasks\<close>

text \<open>
  A callback is an identifier of the call that it completes; an empty
  \<^verbatim>\<open>std::function\<close> is \<^term>\<open>None\<close>.  Invoking callbacks is recorded in a list.
\<close>

datatype Completion = Executed nat | Cancelled nat

record QueuedTask =
  byte_lease :: Lease
  execute_callback :: "nat option"
  cancel_callback :: "nat option"
  task_active :: bool

definition EmptyTask :: QueuedTask where
  "EmptyTask = \<lparr>byte_lease = EmptyLease, execute_callback = None, cancel_callback = None, task_active = False\<rparr>"

definition MakeTask :: "nat option \<Rightarrow> nat option \<Rightarrow> QueuedTask" where
  "MakeTask execute cancel = \<lparr>byte_lease = EmptyLease, execute_callback = execute, cancel_callback = cancel,
     task_active = (execute \<noteq> None \<and> cancel \<noteq> None)\<rparr>"

definition MakeLeasedTask :: "Lease \<Rightarrow> nat option \<Rightarrow> nat option \<Rightarrow> QueuedTask" where
  "MakeLeasedTask lease execute cancel = \<lparr>byte_lease = lease, execute_callback = execute, cancel_callback = cancel,
     task_active = (lease_held lease \<and> execute \<noteq> None \<and> cancel \<noteq> None)\<rparr>"

text \<open>
  The end of a task has two halves that other threads can tell apart: the selected callback
  runs, and afterwards the lease is returned.  An active task has both callbacks
  (\<open>task_ok\<close> below).
\<close>

definition FinishCallback :: "bool \<Rightarrow> QueuedTask \<Rightarrow> Completion list \<Rightarrow> QueuedTask \<times> Completion list" where
  "FinishCallback run task log =
    (task\<lparr>execute_callback := None, cancel_callback := None, task_active := False\<rparr>,
     if run then (case execute_callback task of Some c \<Rightarrow> log @ [Executed c] | None \<Rightarrow> log)
     else (case cancel_callback task of Some c \<Rightarrow> log @ [Cancelled c] | None \<Rightarrow> log))"

definition FinishLease :: "QueuedTask \<Rightarrow> Limiter \<Rightarrow> QueuedTask \<times> Limiter" where
  "FinishLease task lim = (case LeaseReset (byte_lease task) lim of (lease, lim) \<Rightarrow> (task\<lparr>byte_lease := lease\<rparr>, lim))"

definition Finish :: "bool \<Rightarrow> QueuedTask \<Rightarrow> Limiter \<times> Completion list \<Rightarrow> bool \<times> QueuedTask \<times> Limiter \<times> Completion list" where
  "Finish run task w =
    (if \<not> task_active task then (False, task, w)
     else case FinishCallback run task (snd w) of (task, log) \<Rightarrow>
       (case FinishLease task (fst w) of (task, lim) \<Rightarrow> (True, task, lim, log)))"

definition RunTask :: "QueuedTask \<Rightarrow> Limiter \<times> Completion list \<Rightarrow> bool \<times> QueuedTask \<times> Limiter \<times> Completion list" where
  "RunTask = Finish True"

definition CancelTask :: "QueuedTask \<Rightarrow> Limiter \<times> Completion list \<Rightarrow> bool \<times> QueuedTask \<times> Limiter \<times> Completion list" where
  "CancelTask = Finish False"

definition MoveFrom :: "QueuedTask \<Rightarrow> QueuedTask \<Rightarrow> Limiter \<Rightarrow> QueuedTask \<times> QueuedTask \<times> Limiter" where
  "MoveFrom this other lim = (case LeaseAssign (byte_lease this) (byte_lease other) lim of (lease, lease', lim) \<Rightarrow>
     (\<lparr>byte_lease = lease, execute_callback = execute_callback other, cancel_callback = cancel_callback other,
        task_active = task_active other\<rparr>,
      \<lparr>byte_lease = lease', execute_callback = None, cancel_callback = None, task_active = False\<rparr>, lim))"

text \<open>Move assignment of two different tasks: the left side is cancelled first.\<close>

definition AssignTask ::
  "QueuedTask \<Rightarrow> QueuedTask \<Rightarrow> Limiter \<times> Completion list \<Rightarrow> QueuedTask \<times> QueuedTask \<times> Limiter \<times> Completion list" where
  "AssignTask this other w = (case CancelTask this w of (_, this, lim, log) \<Rightarrow>
     (case MoveFrom this other lim of (this, other, lim) \<Rightarrow> (this, other, lim, log)))"

section \<open>Bounded queue\<close>

datatype EnqueueResult = kAccepted | kFull | kStopped | kResourceExhausted | kInvalid

record BoundedTaskQueue =
  queue_capacity :: nat
  queue_tasks :: "QueuedTask list"
  queue_stopped :: bool

definition MakeQueue :: "nat \<Rightarrow> BoundedTaskQueue" where
  "MakeQueue limit = \<lparr>queue_capacity = limit, queue_tasks = [], queue_stopped = False\<rparr>"

text \<open>The task argument is moved into the queue exactly when it is accepted.\<close>

definition TryEnqueue ::
  "bool \<Rightarrow> QueuedTask option \<Rightarrow> BoundedTaskQueue \<Rightarrow> EnqueueResult \<times> QueuedTask option \<times> BoundedTaskQueue" where
  "TryEnqueue allocated argument q = (case argument of
     None \<Rightarrow> (kInvalid, None, q)
   | Some task \<Rightarrow>
     if \<not> task_active task then (kInvalid, argument, q)
     else if queue_stopped q then (kStopped, argument, q)
     else if length (queue_tasks q) \<ge> queue_capacity q then (kFull, argument, q)
     else if \<not> allocated then (kResourceExhausted, argument, q)
     else (kAccepted, Some EmptyTask, q\<lparr>queue_tasks := queue_tasks q @ [task]\<rparr>))"

text \<open>\<^term>\<open>None\<close> is a caller that still waits on the condition variable.\<close>

definition WaitPop ::
  "QueuedTask option \<Rightarrow> BoundedTaskQueue \<Rightarrow> Limiter \<times> Completion list
    \<Rightarrow> (bool \<times> QueuedTask option \<times> BoundedTaskQueue \<times> Limiter \<times> Completion list) option" where
  "WaitPop destination q w = (case destination of
     None \<Rightarrow> Some (False, None, q, w)
   | Some this \<Rightarrow>
     (case queue_tasks q of
        [] \<Rightarrow> if queue_stopped q then Some (False, destination, q, w) else None
      | task # rest \<Rightarrow>
          (case AssignTask this task w of (this, _, w) \<Rightarrow>
             Some (True, Some this, q\<lparr>queue_tasks := rest\<rparr>, w))))"

definition StopAndTakePending :: "BoundedTaskQueue \<Rightarrow> QueuedTask list \<times> BoundedTaskQueue" where
  "StopAndTakePending q = (queue_tasks q, q\<lparr>queue_tasks := [], queue_stopped := True\<rparr>)"

section \<open>The service around a queue\<close>

text \<open>
  The threads of \<^verbatim>\<open>ObjectServiceImpl\<close> around one queue: handlers that have passed the test
  of \<^verbatim>\<open>stopping_\<close>, handlers that own a built task, workers, and the thread in \<^verbatim>\<open>Shutdown\<close>.
  The service has two such queues, one with leases and one worker for writes and one without
  leases and several workers for reads.  A thread that ends a task is visible between the
  callback, which answers the call, and the return of the lease.  The last three components are
  histories: the calls that their handler has answered itself, those that ever passed the test,
  and the writes that became a task, with their sizes.
\<close>

datatype Worker = WaitingWorker | RunningWorker QueuedTask | ReturningWorker QueuedTask | ExitedWorker

record TaskService =
  service_limiter :: Limiter
  service_queue :: BoundedTaskQueue
  service_stopping :: bool
  entered_calls :: "nat list"
  leased_calls :: "(nat \<times> Lease) list"
  leaving_calls :: "nat list"
  admitted_tasks :: "QueuedTask list"
  refused_tasks :: "QueuedTask list"
  returning_tasks :: "QueuedTask list"
  service_workers :: "Worker list"
  pending_tasks :: "QueuedTask list"
  shutdown_task :: "QueuedTask option"
  completions :: "Completion list"
  turned_away :: "nat list"
  seen_calls :: "nat list"
  built_writes :: "(nat \<times> nat) list"

definition MakeService :: "u64 \<Rightarrow> nat \<Rightarrow> nat \<Rightarrow> TaskService" where
  "MakeService limit queue_limit worker_count = \<lparr>service_limiter = MakeLimiter limit, service_queue = MakeQueue queue_limit,
     service_stopping = False, entered_calls = [], leased_calls = [], leaving_calls = [], admitted_tasks = [],
     refused_tasks = [], returning_tasks = [], service_workers = replicate worker_count WaitingWorker,
     pending_tasks = [], shutdown_task = None, completions = [], turned_away = [], seen_calls = [], built_writes = []\<rparr>"

text \<open>
  The handler after the test of \<^verbatim>\<open>stopping_\<close>.  A call that fails its checks leaves and is answered by
  the closure guard of the handler.  A \<^verbatim>\<open>PutObject\<close> call first takes a lease for its attachment; when
  the call fails later, the lease is destroyed before the guard, which is declared first.  The
  other calls build a task at once.
\<close>

definition TurnAway :: "nat \<Rightarrow> TaskService \<Rightarrow> TaskService" where
  "TurnAway call s = s\<lparr>entered_calls := remove1 call (entered_calls s), leaving_calls := leaving_calls s @ [call]\<rparr>"

definition AcquireCall :: "nat \<Rightarrow> u64 \<Rightarrow> TaskService \<Rightarrow> TaskService" where
  "AcquireCall call attachment_size s = (case TryAcquire attachment_size (service_limiter s) of
     (None, lim) \<Rightarrow> TurnAway call (s\<lparr>service_limiter := lim\<rparr>)
   | (Some lease, lim) \<Rightarrow> s\<lparr>service_limiter := lim, entered_calls := remove1 call (entered_calls s),
       leased_calls := leased_calls s @ [(call, lease)]\<rparr>)"

definition AbandonCall :: "nat \<times> Lease \<Rightarrow> TaskService \<Rightarrow> TaskService" where
  "AbandonCall entry s = (case LeaseReset (snd entry) (service_limiter s) of (_, lim) \<Rightarrow>
     s\<lparr>service_limiter := lim, leased_calls := remove1 entry (leased_calls s), leaving_calls := leaving_calls s @ [fst entry]\<rparr>)"

definition AnswerCall :: "nat \<Rightarrow> TaskService \<Rightarrow> TaskService" where
  "AnswerCall call s = s\<lparr>leaving_calls := remove1 call (leaving_calls s), turned_away := turned_away s @ [call]\<rparr>"

definition BuildWrite :: "nat \<times> Lease \<Rightarrow> TaskService \<Rightarrow> TaskService" where
  "BuildWrite entry s = s\<lparr>leased_calls := remove1 entry (leased_calls s),
     admitted_tasks := admitted_tasks s @ [MakeLeasedTask (snd entry) (Some (fst entry)) (Some (fst entry))],
     built_writes := built_writes s @ [(fst entry, unat (lease_size (snd entry)))]\<rparr>"

definition BuildRead :: "nat \<Rightarrow> TaskService \<Rightarrow> TaskService" where
  "BuildRead call s = s\<lparr>entered_calls := remove1 call (entered_calls s),
     admitted_tasks := admitted_tasks s @ [MakeTask (Some call) (Some call)]\<rparr>"

text \<open>
  The enqueueing of a task.  A task that is refused stays with its handler, which cancels it:
  first the callback, then the lease.
\<close>

definition EnqueueCall :: "bool \<Rightarrow> QueuedTask \<Rightarrow> TaskService \<Rightarrow> TaskService" where
  "EnqueueCall allocated task s =
    (let s = s\<lparr>admitted_tasks := remove1 task (admitted_tasks s)\<rparr>
     in case TryEnqueue allocated (Some task) (service_queue s) of
       (kAccepted, _, q) \<Rightarrow> s\<lparr>service_queue := q\<rparr>
     | (_, _, q) \<Rightarrow> s\<lparr>service_queue := q, refused_tasks := refused_tasks s @ [task]\<rparr>)"

definition CancelRefused :: "QueuedTask \<Rightarrow> TaskService \<Rightarrow> TaskService" where
  "CancelRefused task s =
    (let s = s\<lparr>refused_tasks := remove1 task (refused_tasks s)\<rparr>
     in if \<not> task_active task then s
        else case FinishCallback False task (completions s) of (task, log) \<Rightarrow>
          s\<lparr>completions := log, returning_tasks := returning_tasks s @ [task]\<rparr>)"

definition ReturnRefused :: "QueuedTask \<Rightarrow> TaskService \<Rightarrow> TaskService" where
  "ReturnRefused task s = (case FinishLease task (service_limiter s) of (_, lim) \<Rightarrow>
     s\<lparr>service_limiter := lim, returning_tasks := remove1 task (returning_tasks s)\<rparr>)"

text \<open>
  One turn of \<^verbatim>\<open>WriteWorkerMain\<close> and \<^verbatim>\<open>ReadWorkerMain\<close>: the next task, its callback, and the return of
  its lease with the assignment of an empty task.
\<close>

definition WorkerPop :: "nat \<Rightarrow> TaskService \<Rightarrow> TaskService option" where
  "WorkerPop k s = (case WaitPop (Some EmptyTask) (service_queue s) (service_limiter s, completions s) of
     None \<Rightarrow> None
   | Some (True, Some task, q, lim, log) \<Rightarrow> Some (s\<lparr>service_queue := q, service_limiter := lim, completions := log,
       service_workers := (service_workers s)[k := RunningWorker task]\<rparr>)
   | Some (_, _, q, lim, log) \<Rightarrow> Some (s\<lparr>service_queue := q, service_limiter := lim, completions := log,
       service_workers := (service_workers s)[k := ExitedWorker]\<rparr>))"

definition WorkerCall :: "nat \<Rightarrow> QueuedTask \<Rightarrow> TaskService \<Rightarrow> TaskService" where
  "WorkerCall k task s =
    (if \<not> task_active task then s\<lparr>service_workers := (service_workers s)[k := ReturningWorker task]\<rparr>
     else case FinishCallback True task (completions s) of (task, log) \<Rightarrow>
       s\<lparr>completions := log, service_workers := (service_workers s)[k := ReturningWorker task]\<rparr>)"

definition WorkerReturn :: "nat \<Rightarrow> QueuedTask \<Rightarrow> TaskService \<Rightarrow> TaskService" where
  "WorkerReturn k task s = (case FinishLease task (service_limiter s) of (task, lim) \<Rightarrow>
     (case AssignTask task EmptyTask (lim, completions s) of (_, _, lim, log) \<Rightarrow>
        s\<lparr>service_limiter := lim, completions := log, service_workers := (service_workers s)[k := WaitingWorker]\<rparr>))"

text \<open>The steps of \<^verbatim>\<open>Shutdown\<close>, which cancels the pending tasks one after the other.\<close>

definition StopQueue :: "TaskService \<Rightarrow> TaskService" where
  "StopQueue s = (case StopAndTakePending (service_queue s) of (pending, q) \<Rightarrow>
     s\<lparr>service_queue := q, pending_tasks := pending_tasks s @ pending\<rparr>)"

definition CancelPending :: "QueuedTask \<Rightarrow> TaskService \<Rightarrow> TaskService" where
  "CancelPending task s =
    (let s = s\<lparr>pending_tasks := tl (pending_tasks s)\<rparr>
     in if \<not> task_active task then s
        else case FinishCallback False task (completions s) of (task, log) \<Rightarrow>
          s\<lparr>completions := log, shutdown_task := Some task\<rparr>)"

definition ReturnPending :: "QueuedTask \<Rightarrow> TaskService \<Rightarrow> TaskService" where
  "ReturnPending task s = (case FinishLease task (service_limiter s) of (_, lim) \<Rightarrow>
     s\<lparr>service_limiter := lim, shutdown_task := None\<rparr>)"

inductive service_step :: "TaskService \<Rightarrow> TaskService \<Rightarrow> bool" where
  step_enter: "\<not> service_stopping s \<Longrightarrow> call \<notin> set (seen_calls s) \<Longrightarrow>
    service_step s (s\<lparr>entered_calls := entered_calls s @ [call], seen_calls := seen_calls s @ [call]\<rparr>)"
| step_turn_away: "call \<in> set (entered_calls s) \<Longrightarrow> service_step s (TurnAway call s)"
| step_acquire: "call \<in> set (entered_calls s) \<Longrightarrow> service_step s (AcquireCall call attachment_size s)"
| step_abandon: "entry \<in> set (leased_calls s) \<Longrightarrow> service_step s (AbandonCall entry s)"
| step_answer: "call \<in> set (leaving_calls s) \<Longrightarrow> service_step s (AnswerCall call s)"
| step_write: "entry \<in> set (leased_calls s) \<Longrightarrow> service_step s (BuildWrite entry s)"
| step_read: "call \<in> set (entered_calls s) \<Longrightarrow> service_step s (BuildRead call s)"
| step_enqueue: "task \<in> set (admitted_tasks s) \<Longrightarrow> service_step s (EnqueueCall allocated task s)"
| step_refuse: "task \<in> set (refused_tasks s) \<Longrightarrow> service_step s (CancelRefused task s)"
| step_return: "task \<in> set (returning_tasks s) \<Longrightarrow> service_step s (ReturnRefused task s)"
| step_pop: "k < length (service_workers s) \<Longrightarrow> service_workers s ! k = WaitingWorker \<Longrightarrow> WorkerPop k s = Some s' \<Longrightarrow>
    service_step s s'"
| step_call: "k < length (service_workers s) \<Longrightarrow> service_workers s ! k = RunningWorker task \<Longrightarrow>
    service_step s (WorkerCall k task s)"
| step_worker_return: "k < length (service_workers s) \<Longrightarrow> service_workers s ! k = ReturningWorker task \<Longrightarrow>
    service_step s (WorkerReturn k task s)"
| step_stopping: "\<not> service_stopping s \<Longrightarrow> service_step s (s\<lparr>service_stopping := True\<rparr>)"
| step_stop: "service_stopping s \<Longrightarrow> \<not> queue_stopped (service_queue s) \<Longrightarrow> service_step s (StopQueue s)"
| step_cancel: "pending_tasks s = task # rest \<Longrightarrow> shutdown_task s = None \<Longrightarrow> service_step s (CancelPending task s)"
| step_pending_return: "shutdown_task s = Some task \<Longrightarrow> service_step s (ReturnPending task s)"

definition service_reachable :: "u64 \<Rightarrow> nat \<Rightarrow> nat \<Rightarrow> TaskService \<Rightarrow> bool" where
  "service_reachable limit queue_limit worker_count s \<longleftrightarrow> service_step\<^sup>*\<^sup>* (MakeService limit queue_limit worker_count) s"

section \<open>The contracts of the limiter and the queue\<close>

text \<open>A byte budget: an acquisition is granted exactly when it fits, and a release undoes it.\<close>

locale byte_budget =
  fixes used :: "'l \<Rightarrow> nat"
    and bound :: "'l \<Rightarrow> nat"
    and acquire :: "nat \<Rightarrow> 'l \<Rightarrow> 'l option"
    and release :: "nat \<Rightarrow> 'l \<Rightarrow> 'l"
    and admissible :: "nat \<Rightarrow> bool"
  assumes acquire_granted: "admissible n \<Longrightarrow> used l + n \<le> bound l \<Longrightarrow> acquire n l \<noteq> None"
    and acquire_used: "admissible n \<Longrightarrow> used l \<le> bound l \<Longrightarrow> acquire n l = Some l' \<Longrightarrow>
      used l' = used l + n \<and> used l' \<le> bound l \<and> bound l' = bound l"
    and release_used: "admissible n \<Longrightarrow> n \<le> used l \<Longrightarrow> used (release n l) = used l - n \<and> bound (release n l) = bound l"
begin

lemma acquire_iff:
  assumes "admissible n" "used l \<le> bound l"
  shows "(acquire n l \<noteq> None) = (used l + n \<le> bound l)"
proof
  assume "acquire n l \<noteq> None"
  then obtain l' where l': "acquire n l = Some l'" by auto
  show "used l + n \<le> bound l" using acquire_used [OF assms l'] by simp
qed (rule acquire_granted [OF assms(1)])

lemma acquire_release:
  assumes "admissible n" "used l \<le> bound l" "acquire n l = Some l'"
  shows "used (release n l') = used l"
  using acquire_used [OF assms] release_used [of n l'] assms(1) by simp

end

definition acquire_bytes :: "nat \<Rightarrow> Limiter \<Rightarrow> Limiter option" where
  "acquire_bytes n lim = (case TryAcquire (of_nat n) lim of (Some _, lim) \<Rightarrow> Some lim | (None, _) \<Rightarrow> None)"

definition release_bytes :: "nat \<Rightarrow> Limiter \<Rightarrow> Limiter" where
  "release_bytes n lim = snd (LeaseReset \<lparr>lease_held = True, lease_size = of_nat n\<rparr> lim)"

lemma limiter_fits:
  assumes "used_bytes lim \<le> limit_bytes lim" "n \<le> limit_bytes lim - used_bytes lim"
  shows "unat (used_bytes lim + n) = unat (used_bytes lim) + unat n"
    "unat (used_bytes lim) + unat n \<le> unat (limit_bytes lim)"
proof -
  have "unat n \<le> unat (limit_bytes lim) - unat (used_bytes lim)"
    using assms by (simp add: word_le_nat_alt unat_sub)
  then show le: "unat (used_bytes lim) + unat n \<le> unat (limit_bytes lim)"
    using assms(1) by (simp add: word_le_nat_alt)
  have "unat (limit_bytes lim) < 2 ^ 64" using unsigned_less [of "limit_bytes lim"] by simp
  with le show "unat (used_bytes lim + n) = unat (used_bytes lim) + unat n"
    by (simp add: unat_word_ariths)
qed

lemma unat_of_nat_u64: "n < 2 ^ 64 \<Longrightarrow> unat (of_nat n :: u64) = n"
  by (simp add: unat_of_nat take_bit_nat_eq_self)

interpretation limiter: byte_budget "\<lambda>lim. unat (used_bytes lim)" "\<lambda>lim. unat (limit_bytes lim)"
  acquire_bytes release_bytes "\<lambda>n. n < 2 ^ 64"
proof unfold_locales
  fix n :: nat and l l' :: Limiter
  assume n: "n < 2 ^ 64"
  note n' = unat_of_nat_u64 [OF n]
  show "acquire_bytes n l \<noteq> None" if "unat (used_bytes l) + n \<le> unat (limit_bytes l)"
  proof -
    have "unat (of_nat n :: u64) \<le> unat (limit_bytes l - used_bytes l)"
      unfolding n' using that by (simp add: unat_sub word_le_nat_alt)
    then show ?thesis by (simp add: acquire_bytes_def TryAcquire_def word_le_nat_alt linorder_not_less)
  qed
  show "unat (used_bytes l') = unat (used_bytes l) + n \<and> unat (used_bytes l') \<le> unat (limit_bytes l)
      \<and> unat (limit_bytes l') = unat (limit_bytes l)"
    if "unat (used_bytes l) \<le> unat (limit_bytes l)" "acquire_bytes n l = Some l'"
    using that limiter_fits [of l "of_nat n"]
    by (auto simp: acquire_bytes_def TryAcquire_def n' word_le_nat_alt linorder_not_less split: if_splits)
  show "unat (used_bytes (release_bytes n l)) = unat (used_bytes l) - n
      \<and> unat (limit_bytes (release_bytes n l)) = unat (limit_bytes l)" if "n \<le> unat (used_bytes l)"
    using that by (simp add: release_bytes_def LeaseReset_def unat_sub word_le_nat_alt n')
qed

text \<open>
  A bounded first-in first-out queue.  A history is a sequence of calls, a push with its task or a
  pop; its results are the accepted and the delivered tasks and the queue.
\<close>

fun fifo_history :: "('t \<Rightarrow> 'q \<Rightarrow> 'q option) \<Rightarrow> ('q \<Rightarrow> ('t \<times> 'q) option) \<Rightarrow> 't option list \<Rightarrow> 'q
    \<Rightarrow> 't list \<times> 't list \<times> 'q" where
  "fifo_history push pop [] q = ([], [], q)"
| "fifo_history push pop (Some t # calls) q = (case push t q of
     None \<Rightarrow> fifo_history push pop calls q
   | Some q' \<Rightarrow> (case fifo_history push pop calls q' of (accepted, delivered, q'') \<Rightarrow> (t # accepted, delivered, q'')))"
| "fifo_history push pop (None # calls) q = (case pop q of
     None \<Rightarrow> fifo_history push pop calls q
   | Some (t, q') \<Rightarrow> (case fifo_history push pop calls q' of (accepted, delivered, q'') \<Rightarrow> (accepted, t # delivered, q'')))"

locale bounded_fifo =
  fixes contents :: "'q \<Rightarrow> 't list"
    and bound :: "'q \<Rightarrow> nat"
    and push :: "'t \<Rightarrow> 'q \<Rightarrow> 'q option"
    and pop :: "'q \<Rightarrow> ('t \<times> 'q) option"
  assumes push_contents: "push t q = Some q' \<Longrightarrow>
      contents q' = contents q @ [t] \<and> bound q' = bound q \<and> length (contents q) < bound q"
    and pop_contents: "pop q = Some (t, q') \<Longrightarrow> contents q = t # contents q' \<and> bound q' = bound q"
begin

lemma history_fifo:
  "fifo_history push pop calls q = (accepted, delivered, q') \<Longrightarrow> length (contents q) \<le> bound q \<Longrightarrow>
    contents q @ accepted = delivered @ contents q' \<and> length (contents q') \<le> bound q"
proof (induction calls arbitrary: q accepted delivered q')
  case (Cons call calls)
  show ?case
  proof (cases call)
    case None
    with Cons show ?thesis using pop_contents [of q] by (fastforce split: option.splits prod.splits)
  next
    case (Some t)
    with Cons show ?thesis using push_contents [of t q] by (fastforce split: option.splits prod.splits)
  qed
qed simp

end

definition enqueue_task :: "QueuedTask \<Rightarrow> BoundedTaskQueue \<Rightarrow> BoundedTaskQueue option" where
  "enqueue_task task q = (case TryEnqueue True (Some task) q of (kAccepted, _, q) \<Rightarrow> Some q | _ \<Rightarrow> None)"

definition dequeue_task :: "Limiter \<times> Completion list \<Rightarrow> BoundedTaskQueue \<Rightarrow> (QueuedTask \<times> BoundedTaskQueue) option" where
  "dequeue_task w q = (case WaitPop (Some EmptyTask) q w of
     Some (True, Some task, q, _) \<Rightarrow> Some (task, q) | _ \<Rightarrow> None)"

lemma AssignTask_empty [simp]: "AssignTask EmptyTask task (lim, log) = (task, EmptyTask, lim, log)"
  by (simp add: AssignTask_def CancelTask_def Finish_def MoveFrom_def LeaseAssign_def LeaseReset_def EmptyTask_def
      EmptyLease_def)

interpretation task_queue: bounded_fifo queue_tasks queue_capacity enqueue_task "dequeue_task w" for w
proof unfold_locales
  fix t :: QueuedTask and q q' :: BoundedTaskQueue
  show "queue_tasks q' = queue_tasks q @ [t] \<and> queue_capacity q' = queue_capacity q
      \<and> length (queue_tasks q) < queue_capacity q" if "enqueue_task t q = Some q'"
    using that by (auto simp: enqueue_task_def TryEnqueue_def split: if_splits)
  show "queue_tasks q = t # queue_tasks q' \<and> queue_capacity q' = queue_capacity q" if "dequeue_task w q = Some (t, q')"
    using that by (cases w) (auto simp: dequeue_task_def WaitPop_def split: list.splits if_splits)
qed

text \<open>
  C40: Along every sequence of calls of \<^verbatim>\<open>TryEnqueue\<close> and \<^verbatim>\<open>WaitPop\<close> on a new queue, the delivered
  tasks followed by the queued ones are the accepted tasks in the order of their acceptance, and
  at most capacity many tasks are queued at any time.
\<close>

theorem queue_is_fifo:
  assumes "fifo_history enqueue_task (dequeue_task w) calls (MakeQueue queue_limit) = (accepted, delivered, q)"
  shows "accepted = delivered @ queue_tasks q \<and> length (queue_tasks q) \<le> queue_limit"
  using task_queue.history_fifo [OF assms] by (simp add: MakeQueue_def)

theorem queue_is_fifo_witness:
  "\<exists>accepted delivered q. fifo_history enqueue_task (dequeue_task (MakeLimiter 0, []))
     [Some (MakeTask (Some 1) (Some 1)), Some (MakeTask (Some 2) (Some 2)), None, Some (MakeTask (Some 3) (Some 3))] (MakeQueue 1)
       = (accepted, delivered, q)
   \<and> length accepted = 2 \<and> length delivered = 1 \<and> accepted = delivered @ queue_tasks q"
proof -
  define result where "result = fifo_history enqueue_task (dequeue_task (MakeLimiter 0, []))
     [Some (MakeTask (Some 1) (Some 1)), Some (MakeTask (Some 2) (Some 2)), None, Some (MakeTask (Some 3) (Some 3))] (MakeQueue 1)"
  obtain accepted delivered q where r: "result = (accepted, delivered, q)" by (cases result)
  have "length accepted = 2 \<and> length delivered = 1"
    using r by (simp add: result_def enqueue_task_def dequeue_task_def MakeTask_def MakeQueue_def TryEnqueue_def WaitPop_def
        MakeLimiter_def) auto
  with queue_is_fifo [OF r [unfolded result_def]] r show ?thesis
    by (auto simp: result_def)
qed

section \<open>Every call is answered once\<close>

fun completion_call :: "Completion \<Rightarrow> nat" where
  "completion_call (Executed c) = c"
| "completion_call (Cancelled c) = c"

fun running_task :: "Worker \<Rightarrow> QueuedTask list" where
  "running_task (RunningWorker task) = [task]"
| "running_task _ = []"

fun returning_task :: "Worker \<Rightarrow> QueuedTask list" where
  "returning_task (ReturningWorker task) = [task]"
| "returning_task _ = []"

definition task_call :: "QueuedTask \<Rightarrow> nat" where
  "task_call task = (case execute_callback task of Some c \<Rightarrow> c | None \<Rightarrow> 0)"

definition lease_bytes :: "Lease \<Rightarrow> nat" where
  "lease_bytes lease = (if lease_held lease then unat (lease_size lease) else 0)"

definition task_ok :: "QueuedTask \<Rightarrow> bool" where
  "task_ok task \<longleftrightarrow> task_active task \<and> execute_callback task = Some (task_call task)
     \<and> cancel_callback task = Some (task_call task)"

text \<open>The tasks that still have to answer their call, and those that only have to return their lease.\<close>

definition owned :: "TaskService \<Rightarrow> QueuedTask multiset" where
  "owned s = mset (admitted_tasks s) + mset (refused_tasks s) + mset (queue_tasks (service_queue s)) + mset (pending_tasks s)
     + mset (concat (map running_task (service_workers s)))"

definition finished :: "TaskService \<Rightarrow> QueuedTask multiset" where
  "finished s = mset (returning_tasks s) + mset (case shutdown_task s of None \<Rightarrow> [] | Some task \<Rightarrow> [task])
     + mset (concat (map returning_task (service_workers s)))"

definition answered :: "TaskService \<Rightarrow> nat list" where
  "answered s = turned_away s @ map completion_call (completions s)"

definition service_calls :: "TaskService \<Rightarrow> nat multiset" where
  "service_calls s = mset (answered s) + mset (entered_calls s) + mset (leaving_calls s)
     + image_mset fst (mset (leased_calls s)) + image_mset task_call (owned s)"

definition task_bytes :: "QueuedTask \<Rightarrow> nat" where
  "task_bytes task = lease_bytes (byte_lease task)"

text \<open>The bytes of the leases that handlers and tasks hold, and the writes that wait for their answer.\<close>

definition held_bytes :: "TaskService \<Rightarrow> nat" where
  "held_bytes s = (\<Sum>e\<in>#mset (leased_calls s). lease_bytes (snd e)) + (\<Sum>t\<in>#owned s. task_bytes t)
     + (\<Sum>t\<in>#finished s. task_bytes t)"

definition waiting_writes :: "TaskService \<Rightarrow> (nat \<times> nat) list" where
  "waiting_writes s = filter (\<lambda>w. fst w \<notin> set (answered s)) (built_writes s)"

definition writes_ok :: "TaskService \<Rightarrow> bool" where
  "writes_ok s \<longleftrightarrow> distinct (map fst (built_writes s))
     \<and> (\<forall>w\<in>set (built_writes s). fst w \<in> set (answered s) \<or> (\<exists>t\<in>#owned s. task_call t = fst w \<and> task_bytes t = snd w))"

definition service_inv :: "u64 \<Rightarrow> nat \<Rightarrow> nat \<Rightarrow> TaskService \<Rightarrow> bool" where
  "service_inv limit queue_limit worker_count s \<longleftrightarrow>
     service_calls s = mset (seen_calls s) \<and> distinct (seen_calls s) \<and> (\<forall>t\<in>#owned s. task_ok t)
     \<and> (\<forall>t\<in>#finished s. \<not> task_active t) \<and> (\<forall>e\<in>set (leased_calls s). lease_held (snd e)) \<and> writes_ok s
     \<and> unat (used_bytes (service_limiter s)) = held_bytes s
     \<and> used_bytes (service_limiter s) \<le> limit \<and> limit_bytes (service_limiter s) = limit
     \<and> queue_capacity (service_queue s) = queue_limit \<and> length (queue_tasks (service_queue s)) \<le> queue_limit
     \<and> (queue_stopped (service_queue s) \<longrightarrow> queue_tasks (service_queue s) = [] \<and> service_stopping s)
     \<and> length (service_workers s) = worker_count"

lemmas service_counts = owned_def finished_def answered_def

lemma concat_update:
  "k < length ws \<Longrightarrow> mset (concat (map f (ws[k := v]))) + mset (f (ws ! k)) = mset (concat (map f ws)) + mset (f v)"
  by (induction ws arbitrary: k) (auto simp: nth_Cons' less_Suc_eq_0_disj split: nat.splits)

lemma list_member_split:
  assumes "x \<in> set xs"
  obtains M where "mset xs = add_mset x M"
  using assms by (meson in_multiset_in_set mset_add)

lemma LeaseReset_bytes:
  assumes "lease_bytes lease \<le> unat (used_bytes lim)" "used_bytes lim \<le> limit_bytes lim"
  shows "unat (used_bytes (snd (LeaseReset lease lim))) = unat (used_bytes lim) - lease_bytes lease"
    "limit_bytes (snd (LeaseReset lease lim)) = limit_bytes lim"
    "used_bytes (snd (LeaseReset lease lim)) \<le> limit_bytes lim"
proof -
  show "unat (used_bytes (snd (LeaseReset lease lim))) = unat (used_bytes lim) - lease_bytes lease"
    using assms(1) by (auto simp: LeaseReset_def lease_bytes_def unat_sub word_le_nat_alt)
  with assms show "used_bytes (snd (LeaseReset lease lim)) \<le> limit_bytes lim" by (simp add: word_le_nat_alt)
qed (simp add: LeaseReset_def)

text \<open>Running a task to its end is its callback followed by the return of its lease.\<close>

lemma RunTask_halves:
  "task_active task \<Longrightarrow> RunTask task (lim, log) =
    (let (task, log) = FinishCallback True task log; (task, lim) = FinishLease task lim in (True, task, lim, log))"
  "task_active task \<Longrightarrow> CancelTask task (lim, log) =
    (let (task, log) = FinishCallback False task log; (task, lim) = FinishLease task lim in (True, task, lim, log))"
  by (simp_all add: RunTask_def CancelTask_def Finish_def)

lemma FinishCallback_ok:
  assumes "task_ok task"
  obtains task' c where "FinishCallback run task log = (task', log @ [c])" "completion_call c = task_call task"
    "\<not> task_active task'" "task_bytes task' = task_bytes task" "c = (if run then Executed else Cancelled) (task_call task)"
  using assms by (auto simp: FinishCallback_def task_ok_def task_bytes_def)

text \<open>What the invariant depends on.\<close>

lemma service_inv_cong:
  assumes "service_inv limit queue_limit n s" "owned s' = owned s" "finished s' = finished s" "answered s' = answered s"
    "entered_calls s' = entered_calls s" "leased_calls s' = leased_calls s" "leaving_calls s' = leaving_calls s"
    "seen_calls s' = seen_calls s" "built_writes s' = built_writes s"
    "service_limiter s' = service_limiter s" "queue_capacity (service_queue s') = queue_capacity (service_queue s)"
    "length (queue_tasks (service_queue s')) \<le> queue_limit"
    "queue_stopped (service_queue s') \<Longrightarrow> queue_tasks (service_queue s') = [] \<and> service_stopping s'"
    "length (service_workers s') = length (service_workers s)"
  shows "service_inv limit queue_limit n s'"
  using assms by (simp add: service_inv_def service_calls_def held_bytes_def writes_ok_def)

lemma service_inv_limiter:
  assumes "service_inv limit queue_limit n s"
  shows "used_bytes (service_limiter s) \<le> limit_bytes (service_limiter s)"
    "unat (used_bytes (service_limiter s)) = held_bytes s" "limit_bytes (service_limiter s) = limit"
  using assms by (simp_all add: service_inv_def)

text \<open>The two halves of the end of a task, wherever its owner keeps it.\<close>

lemma callback_inv:
  assumes inv: "service_inv limit queue_limit n s" and task: "owned s = add_mset task (owned s')"
    and task': "finished s' = add_mset task' (finished s)" "\<not> task_active task'" "task_bytes task' = task_bytes task"
    and same: "completions s' = completions s @ [c]" "completion_call c = task_call task" "turned_away s' = turned_away s"
      "entered_calls s' = entered_calls s" "leased_calls s' = leased_calls s" "leaving_calls s' = leaving_calls s"
      "seen_calls s' = seen_calls s" "built_writes s' = built_writes s" "service_limiter s' = service_limiter s"
      "service_queue s' = service_queue s" "service_stopping s' = service_stopping s"
      "length (service_workers s') = length (service_workers s)"
  shows "service_inv limit queue_limit n s'"
proof -
  have a: "answered s' = answered s @ [task_call task]" by (simp add: answered_def same)
  have "held_bytes s' = held_bytes s" by (simp add: held_bytes_def task task' same)
  moreover have "service_calls s' = service_calls s" by (simp add: service_calls_def a task same)
  moreover have "writes_ok s'" using inv by (auto simp: service_inv_def writes_ok_def a same task)
  ultimately show ?thesis using inv task'(2) unfolding service_inv_def by (clarsimp simp: same task task'(1))
qed

lemma return_inv:
  assumes inv: "service_inv limit queue_limit n s" and task: "finished s = add_mset task (finished s')"
    and same: "service_limiter s' = snd (LeaseReset (byte_lease task) (service_limiter s))" "owned s' = owned s"
      "answered s' = answered s" "entered_calls s' = entered_calls s" "leased_calls s' = leased_calls s"
      "leaving_calls s' = leaving_calls s" "seen_calls s' = seen_calls s" "built_writes s' = built_writes s"
      "service_queue s' = service_queue s" "service_stopping s' = service_stopping s"
      "length (service_workers s') = length (service_workers s)"
  shows "service_inv limit queue_limit n s'"
proof -
  note lim = service_inv_limiter [OF inv]
  have le: "lease_bytes (byte_lease task) \<le> unat (used_bytes (service_limiter s))"
    by (simp add: lim(2) held_bytes_def task task_bytes_def)
  have "held_bytes s = held_bytes s' + lease_bytes (byte_lease task)"
    by (simp add: held_bytes_def task same task_bytes_def)
  moreover have "service_calls s' = service_calls s" by (simp add: service_calls_def same)
  moreover have "writes_ok s'" using inv by (simp add: service_inv_def writes_ok_def same)
  ultimately show ?thesis
    using inv LeaseReset_bytes [OF le lim(1)] lim unfolding service_inv_def by (clarsimp simp: same task)
qed

lemma service_calls_member:
  assumes "service_inv limit queue_limit n s" "call \<in> fst ` set (leased_calls s)"
  shows "call \<notin> set (answered s)" "t \<in># owned s \<Longrightarrow> task_call t \<noteq> call" "call \<notin> set (map fst (built_writes s))"
proof -
  obtain e where e: "e \<in> set (leased_calls s)" "fst e = call" using assms(2) by auto
  obtain M where M: "mset (leased_calls s) = add_mset e M" using e(1) by (rule list_member_split)
  have "count (service_calls s) call \<le> 1"
    using assms(1) by (simp add: service_inv_def distinct_count_atmost_1)
  then have none: "count (mset (answered s)) call = 0" "count (image_mset task_call (owned s)) call = 0"
    by (simp_all add: service_calls_def M e(2))
  show a: "call \<notin> set (answered s)" using none(1) by (simp add: count_eq_zero_iff)
  show o: "task_call t \<noteq> call" if "t \<in># owned s" for t using none(2) that by (auto simp: count_eq_zero_iff)
  show "call \<notin> set (map fst (built_writes s))"
    using assms(1) a o unfolding service_inv_def writes_ok_def by auto
qed

lemma leave_inv:
  assumes inv: "service_inv limit queue_limit n s"
  shows "call \<in> set (entered_calls s) \<Longrightarrow> service_inv limit queue_limit n (TurnAway call s)"
    and "call \<in> set (leaving_calls s) \<Longrightarrow> service_inv limit queue_limit n (AnswerCall call s)"
proof -
  note defs = service_calls_def service_counts held_bytes_def writes_ok_def TurnAway_def AnswerCall_def
  show "service_inv limit queue_limit n (TurnAway call s)" if "call \<in> set (entered_calls s)"
  proof -
    obtain M where M: "mset (entered_calls s) = add_mset call M" using \<open>call \<in> set (entered_calls s)\<close> by (rule list_member_split)
    have "service_calls (TurnAway call s) = service_calls s" "owned (TurnAway call s) = owned s"
      "finished (TurnAway call s) = finished s" "held_bytes (TurnAway call s) = held_bytes s" "writes_ok (TurnAway call s) = writes_ok s"
      by (simp_all add: defs M)
    then show ?thesis using inv by (simp add: service_inv_def) (simp add: TurnAway_def)
  qed
  show "service_inv limit queue_limit n (AnswerCall call s)" if "call \<in> set (leaving_calls s)"
  proof -
    obtain M where M: "mset (leaving_calls s) = add_mset call M" using \<open>call \<in> set (leaving_calls s)\<close> by (rule list_member_split)
    have "service_calls (AnswerCall call s) = service_calls s" "owned (AnswerCall call s) = owned s"
      "finished (AnswerCall call s) = finished s" "held_bytes (AnswerCall call s) = held_bytes s"
      by (simp_all add: defs M)
    moreover have "writes_ok s \<Longrightarrow> writes_ok (AnswerCall call s)" by (auto simp: defs)
    ultimately show ?thesis using inv by (simp add: service_inv_def) (simp add: AnswerCall_def)
  qed
qed

lemma acquire_inv:
  assumes inv: "service_inv limit queue_limit n s" and call: "call \<in> set (entered_calls s)"
  shows "service_inv limit queue_limit n (AcquireCall call b s)"
proof (cases "b \<le> limit_bytes (service_limiter s) - used_bytes (service_limiter s)")
  case True
  note lim = service_inv_limiter [OF inv]
  obtain M where M: "mset (entered_calls s) = add_mset call M" using call by (rule list_member_split)
  note fits = limiter_fits [OF lim(1) True]
  let ?lease = "\<lparr>lease_held = True, lease_size = b\<rparr>"
  define s' where "s' = s\<lparr>service_limiter := service_limiter s\<lparr>used_bytes := used_bytes (service_limiter s) + b\<rparr>,
     entered_calls := remove1 call (entered_calls s), leased_calls := leased_calls s @ [(call, ?lease)]\<rparr>"
  have "service_calls s' = service_calls s" and same: "owned s' = owned s" "finished s' = finished s" "writes_ok s' = writes_ok s"
    by (simp_all add: service_calls_def service_counts writes_ok_def s'_def M)
  moreover have "held_bytes s' = held_bytes s + unat b"
    using same by (simp add: held_bytes_def lease_bytes_def s'_def)
  moreover have "used_bytes (service_limiter s) + b \<le> limit_bytes (service_limiter s)"
    using fits by (simp add: word_le_nat_alt)
  ultimately have "service_inv limit queue_limit n s'"
    using inv fits(1) lim unfolding service_inv_def by (auto simp: s'_def)
  with True show ?thesis by (simp add: AcquireCall_def TryAcquire_def s'_def linorder_not_less [symmetric])
next
  case False
  with leave_inv(1) [OF inv call] show ?thesis by (simp add: AcquireCall_def TryAcquire_def not_le)
qed

lemma abandon_inv:
  assumes inv: "service_inv limit queue_limit n s" and e: "e \<in> set (leased_calls s)"
  shows "service_inv limit queue_limit n (AbandonCall e s)"
proof -
  obtain M where m: "mset (leased_calls s) = add_mset e M" using e by (rule list_member_split)
  note lim = service_inv_limiter [OF inv]
  have le: "lease_bytes (snd e) \<le> unat (used_bytes (service_limiter s))"
    by (simp add: lim(2) held_bytes_def m)
  define s' where "s' = AbandonCall e s"
  have s': "service_limiter s' = snd (LeaseReset (snd e) (service_limiter s))" "owned s' = owned s" "finished s' = finished s"
    "leased_calls s' = remove1 e (leased_calls s)" "seen_calls s' = seen_calls s" "service_queue s' = service_queue s"
    "service_stopping s' = service_stopping s" "service_workers s' = service_workers s" "writes_ok s' = writes_ok s"
    "answered s' = answered s" "entered_calls s' = entered_calls s" "leaving_calls s' = leaving_calls s @ [fst e]"
    by (simp_all add: s'_def AbandonCall_def service_counts writes_ok_def split: prod.splits)
  have "held_bytes s = held_bytes s' + lease_bytes (snd e)" by (simp add: held_bytes_def s' m)
  moreover have "service_calls s' = service_calls s" by (simp add: service_calls_def s' m)
  moreover have "set (remove1 e (leased_calls s)) \<subseteq> set (leased_calls s)" by (rule set_remove1_subset)
  ultimately have "service_inv limit queue_limit n s'"
    using inv LeaseReset_bytes [OF le lim(1)] lim unfolding service_inv_def by (clarsimp simp: s') fastforce
  then show ?thesis by (simp add: s'_def)
qed

lemma build_write_inv:
  assumes inv: "service_inv limit queue_limit n s" and e: "e \<in> set (leased_calls s)"
  shows "service_inv limit queue_limit n (BuildWrite e s)"
proof -
  obtain M where M: "mset (leased_calls s) = add_mset e M" using e by (rule list_member_split)
  define task where "task = MakeLeasedTask (snd e) (Some (fst e)) (Some (fst e))"
  have "lease_held (snd e)" using inv e by (simp add: service_inv_def)
  then have task: "task_ok task" "task_call task = fst e" "byte_lease task = snd e" "task_bytes task = unat (lease_size (snd e))"
    by (simp_all add: task_def MakeLeasedTask_def task_ok_def task_call_def task_bytes_def lease_bytes_def)
  define s' where "s' = BuildWrite e s"
  have s': "owned s' = add_mset task (owned s)" "leased_calls s' = remove1 e (leased_calls s)" "finished s' = finished s"
    "answered s' = answered s" "built_writes s' = built_writes s @ [(fst e, task_bytes task)]"
    by (simp_all add: service_counts s'_def BuildWrite_def task task_def [symmetric])
  have new: "fst e \<notin> set (map fst (built_writes s))" using service_calls_member(3) [OF inv] e by blast
  have "writes_ok s" using inv by (simp add: service_inv_def)
  with new have "writes_ok s'" by (auto simp: writes_ok_def s' task)
  moreover have "service_calls s' = service_calls s" "held_bytes s' = held_bytes s"
    by (simp_all add: service_calls_def held_bytes_def s' task M task_bytes_def)
      (simp add: s'_def BuildWrite_def)
  moreover have "set (remove1 e (leased_calls s)) \<subseteq> set (leased_calls s)" by (rule set_remove1_subset)
  ultimately have "service_inv limit queue_limit n s'"
    using inv task(1) unfolding service_inv_def by (clarsimp simp: s'(1-3)) (auto simp: s'_def BuildWrite_def)
  then show ?thesis by (simp add: s'_def)
qed

lemma build_read_inv:
  assumes inv: "service_inv limit queue_limit n s" and call: "call \<in> set (entered_calls s)"
  shows "service_inv limit queue_limit n (BuildRead call s)"
proof -
  obtain M where M: "mset (entered_calls s) = add_mset call M" using call by (rule list_member_split)
  define task where "task = MakeTask (Some call) (Some call)"
  have task: "task_ok task" "task_call task = call" "task_bytes task = 0"
    by (simp_all add: task_def MakeTask_def task_ok_def task_call_def task_bytes_def lease_bytes_def EmptyLease_def)
  define s' where "s' = BuildRead call s"
  have s': "owned s' = add_mset task (owned s)" "finished s' = finished s" "answered s' = answered s"
    "built_writes s' = built_writes s"
    by (simp_all add: service_counts s'_def BuildRead_def task_def)
  have "service_calls s' = service_calls s" "held_bytes s' = held_bytes s"
    by (simp_all add: service_calls_def held_bytes_def s' task M)
      (simp_all add: s'_def BuildRead_def M)
  moreover have "writes_ok s \<Longrightarrow> writes_ok s'" by (auto simp: writes_ok_def s')
  ultimately have "service_inv limit queue_limit n s'"
    using inv task(1) unfolding service_inv_def by (clarsimp simp: s') (auto simp: s'_def BuildRead_def)
  then show ?thesis by (simp add: s'_def)
qed

lemma enqueue_inv:
  assumes inv: "service_inv limit queue_limit n s" and task: "task \<in> set (admitted_tasks s)"
  shows "service_inv limit queue_limit n (EnqueueCall allocated task s)"
proof -
  obtain M where M: "mset (admitted_tasks s) = add_mset task M" using task by (rule list_member_split)
  have active: "task_active task" using inv task by (simp add: service_inv_def owned_def task_ok_def)
  define s' where "s' = EnqueueCall allocated task s"
  have cases: "s' = s\<lparr>admitted_tasks := remove1 task (admitted_tasks s), refused_tasks := refused_tasks s @ [task]\<rparr>
    \<or> \<not> queue_stopped (service_queue s) \<and> length (queue_tasks (service_queue s)) < queue_capacity (service_queue s)
      \<and> s' = s\<lparr>admitted_tasks := remove1 task (admitted_tasks s),
        service_queue := service_queue s\<lparr>queue_tasks := queue_tasks (service_queue s) @ [task]\<rparr>\<rparr>"
    using active by (auto simp: s'_def EnqueueCall_def TryEnqueue_def Let_def)
  have "service_inv limit queue_limit n s'"
    by (rule service_inv_cong [OF inv]; use cases inv in \<open>auto simp: service_counts service_inv_def M\<close>)
  then show ?thesis by (simp add: s'_def)
qed

lemma refuse_inv:
  assumes inv: "service_inv limit queue_limit n s" and task: "task \<in> set (refused_tasks s)"
  shows "service_inv limit queue_limit n (CancelRefused task s)"
proof -
  obtain M where M: "mset (refused_tasks s) = add_mset task M" using task by (rule list_member_split)
  have ok: "task_ok task" using inv task by (simp add: service_inv_def owned_def)
  obtain task' c where c: "FinishCallback False task (completions s) = (task', completions s @ [c])"
    "completion_call c = task_call task" "\<not> task_active task'" "task_bytes task' = task_bytes task"
    using FinishCallback_ok [OF ok] by metis
  have active: "task_active task" using ok by (simp add: task_ok_def)
  show ?thesis
    by (rule callback_inv [OF inv, where task = task and task' = task' and c = c])
      (simp_all add: CancelRefused_def c active owned_def finished_def M Let_def)
qed

lemma refused_return_inv:
  assumes inv: "service_inv limit queue_limit n s" and task: "task \<in> set (returning_tasks s)"
  shows "service_inv limit queue_limit n (ReturnRefused task s)"
proof -
  obtain M where M: "mset (returning_tasks s) = add_mset task M" using task by (rule list_member_split)
  show ?thesis
    by (rule return_inv [OF inv, where task = task])
      (simp_all add: ReturnRefused_def FinishLease_def service_counts M split: prod.splits)
qed

lemma pop_inv:
  assumes inv: "service_inv limit queue_limit n s" and k: "k < length (service_workers s)"
    "service_workers s ! k = WaitingWorker" and pop: "WorkerPop k s = Some s'"
  shows "service_inv limit queue_limit n s'"
proof (cases "queue_tasks (service_queue s)")
  case Nil
  with pop have s': "s' = s\<lparr>service_workers := (service_workers s)[k := ExitedWorker]\<rparr>"
    by (auto simp: WorkerPop_def WaitPop_def split: if_splits)
  note update = concat_update [OF k(1), of running_task ExitedWorker] concat_update [OF k(1), of returning_task ExitedWorker]
  show ?thesis unfolding s'
    by (rule service_inv_cong [OF inv]) (use inv update k(2) in \<open>simp_all add: service_counts service_inv_def\<close>)
next
  case (Cons task rest)
  with pop have s': "s' = s\<lparr>service_queue := service_queue s\<lparr>queue_tasks := rest\<rparr>,
      service_workers := (service_workers s)[k := RunningWorker task]\<rparr>"
    by (simp add: WorkerPop_def WaitPop_def)
  note update = concat_update [OF k(1), of running_task "RunningWorker task"]
    concat_update [OF k(1), of returning_task "RunningWorker task"]
  show ?thesis unfolding s'
    by (rule service_inv_cong [OF inv]) (use Cons inv update k(2) in \<open>simp_all add: service_counts service_inv_def\<close>)
qed

lemma call_inv:
  assumes inv: "service_inv limit queue_limit n s" and k: "k < length (service_workers s)"
    "service_workers s ! k = RunningWorker task"
  shows "service_inv limit queue_limit n (WorkerCall k task s)"
proof -
  note run = concat_update [OF k(1), of running_task "ReturningWorker task'" for task', unfolded k(2), simplified]
    and ret = concat_update [OF k(1), of returning_task "ReturningWorker task'" for task', unfolded k(2), simplified]
  have "RunningWorker task \<in> set (service_workers s)" using k nth_mem by metis
  then have ok: "task_ok task" using inv by (fastforce simp: service_inv_def owned_def)
  then have active: "task_active task" by (simp add: task_ok_def)
  obtain task' c where c: "FinishCallback True task (completions s) = (task', completions s @ [c])"
    "completion_call c = task_call task" "\<not> task_active task'" "task_bytes task' = task_bytes task"
    using FinishCallback_ok [OF ok] by metis
  show ?thesis
    by (rule callback_inv [OF inv, where task = task and task' = task' and c = c])
      (simp_all add: WorkerCall_def c active owned_def finished_def ret run [symmetric, of task'])
qed

lemma worker_return_inv:
  assumes inv: "service_inv limit queue_limit n s" and k: "k < length (service_workers s)"
    "service_workers s ! k = ReturningWorker task"
  shows "service_inv limit queue_limit n (WorkerReturn k task s)"
proof -
  note run = concat_update [OF k(1), of running_task WaitingWorker, unfolded k(2), simplified]
    and ret = concat_update [OF k(1), of returning_task WaitingWorker, unfolded k(2), simplified]
  have "\<not> task_active task" using inv by (simp add: service_inv_def finished_def flip: ret)
  moreover have reset: "LeaseReset (fst (LeaseReset lease l)) l' = (fst (LeaseReset lease l), l')" for lease l l'
    by (simp add: LeaseReset_def EmptyLease_def)
  ultimately have s': "WorkerReturn k task s = s\<lparr>service_limiter := snd (LeaseReset (byte_lease task) (service_limiter s)),
      service_workers := (service_workers s)[k := WaitingWorker]\<rparr>"
    by (simp add: WorkerReturn_def FinishLease_def AssignTask_def CancelTask_def Finish_def MoveFrom_def LeaseAssign_def
        case_prod_beta)
  show ?thesis unfolding s'
    by (rule return_inv [OF inv, where task = task]) (simp_all add: service_counts run flip: ret)
qed

lemma cancel_inv:
  assumes inv: "service_inv limit queue_limit n s" and p: "pending_tasks s = task # rest" "shutdown_task s = None"
  shows "service_inv limit queue_limit n (CancelPending task s)"
proof -
  have ok: "task_ok task" using inv p by (simp add: service_inv_def owned_def)
  then have active: "task_active task" by (simp add: task_ok_def)
  obtain task' c where c: "FinishCallback False task (completions s) = (task', completions s @ [c])"
    "completion_call c = task_call task" "\<not> task_active task'" "task_bytes task' = task_bytes task"
    using FinishCallback_ok [OF ok] by metis
  show ?thesis
    by (rule callback_inv [OF inv, where task = task and task' = task' and c = c])
      (simp_all add: CancelPending_def c p active owned_def finished_def)
qed

lemma pending_return_inv:
  assumes inv: "service_inv limit queue_limit n s" and p: "shutdown_task s = Some task"
  shows "service_inv limit queue_limit n (ReturnPending task s)"
  by (rule return_inv [OF inv, where task = task])
    (simp_all add: ReturnPending_def FinishLease_def service_counts p split: prod.splits)

lemma enter_inv:
  assumes inv: "service_inv limit queue_limit n s" and "call \<notin> set (seen_calls s)"
  shows "service_inv limit queue_limit n (s\<lparr>entered_calls := entered_calls s @ [call], seen_calls := seen_calls s @ [call]\<rparr>)"
    (is "service_inv _ _ _ ?s")
proof -
  have "owned ?s = owned s" "finished ?s = finished s" "held_bytes ?s = held_bytes s" "writes_ok ?s = writes_ok s"
    by (simp_all add: service_counts held_bytes_def writes_ok_def)
  moreover from this have "service_calls ?s = add_mset call (service_calls s)" by (simp add: service_calls_def answered_def)
  ultimately show ?thesis using assms unfolding service_inv_def by clarsimp
qed

lemma stop_inv:
  assumes inv: "service_inv limit queue_limit n s"
  shows "service_inv limit queue_limit n (s\<lparr>service_stopping := True\<rparr>)"
    "service_stopping s \<Longrightarrow> service_inv limit queue_limit n (StopQueue s)"
  by (rule service_inv_cong [OF inv];
      use inv in \<open>simp add: service_counts service_inv_def StopQueue_def StopAndTakePending_def\<close>)+

lemma service_step_inv:
  assumes "service_step s s'" and inv: "service_inv limit queue_limit n s"
  shows "service_inv limit queue_limit n s'"
  using assms(1)
  by cases (use inv in \<open>simp_all add: enter_inv leave_inv acquire_inv abandon_inv build_write_inv build_read_inv enqueue_inv
      refuse_inv refused_return_inv pop_inv call_inv worker_return_inv stop_inv cancel_inv pending_return_inv\<close>)

lemma service_reachable_inv:
  assumes "service_reachable limit queue_limit n s"
  shows "service_inv limit queue_limit n s"
  using assms unfolding service_reachable_def
proof induction
  case base
  show ?case
    by (simp add: service_inv_def service_calls_def service_counts held_bytes_def writes_ok_def MakeService_def MakeLimiter_def
        MakeQueue_def)
next
  case (step s s')
  then show ?case by (rule_tac service_step_inv)
qed

lemma answered_distinct:
  assumes "mset xs \<subseteq># mset ys" "distinct ys"
  shows "distinct xs"
proof -
  obtain zs where "mset ys = mset (xs @ zs)"
    using assms(1) by (metis ex_mset mset_append subset_mset.add_diff_inverse)
  with assms(2) have "distinct (xs @ zs)" using mset_eq_imp_distinct_iff by blast
  then show ?thesis by simp
qed

text \<open>Distinct writes that all have their own task among the owned ones are covered by the held bytes.\<close>

lemma writes_covered:
  assumes "distinct (map fst ws)" "\<And>w. w \<in> set ws \<Longrightarrow> \<exists>t\<in>#M. task_call t = fst w \<and> task_bytes t = snd w"
  shows "sum_list (map snd ws) \<le> (\<Sum>t\<in>#M. task_bytes t)"
  using assms
proof (induction ws arbitrary: M)
  case (Cons w ws)
  obtain t where t: "t \<in># M" "task_call t = fst w" "task_bytes t = snd w" using Cons.prems(2) [of w] by auto
  then obtain N where N: "M = add_mset t N" by (meson mset_add)
  have "\<exists>t\<in>#N. task_call t = fst v \<and> task_bytes t = snd v" if v: "v \<in> set ws" for v
  proof -
    have "fst v \<noteq> fst w" using Cons.prems(1) v by (auto simp: image_iff)
    then show ?thesis using Cons.prems(2) [of v] v t(2) by (auto simp: N)
  qed
  then have "sum_list (map snd ws) \<le> (\<Sum>t\<in>#N. task_bytes t)" using Cons.IH [of N] Cons.prems(1) by simp
  with t(3) show ?case by (simp add: N)
qed simp

lemma waiting_writes_held:
  assumes inv: "service_inv limit queue_limit n s"
  shows "sum_list (map snd (waiting_writes s)) \<le> held_bytes s"
proof -
  have ok: "writes_ok s" using inv by (simp add: service_inv_def)
  have "sum_list (map snd (waiting_writes s)) \<le> (\<Sum>t\<in>#owned s. task_bytes t)"
  proof (rule writes_covered)
    show "distinct (map fst (waiting_writes s))"
      using ok by (simp add: writes_ok_def waiting_writes_def distinct_map_filter)
    show "\<exists>t\<in>#owned s. task_call t = fst w \<and> task_bytes t = snd w" if "w \<in> set (waiting_writes s)" for w
      using ok that by (auto simp: writes_ok_def waiting_writes_def)
  qed
  then show ?thesis by (simp add: held_bytes_def)
qed

text \<open>
  C9: In every interleaving of handlers, workers and shutdown a call is answered at most once, and
  only when it was made; the limiter charges exactly the leases that a handler or a task holds,
  within the limit; the bytes of every write that became a task stay charged until the write is
  answered, since the callback runs before the lease is returned; and the queue stays within its
  capacity.
\<close>

theorem calls_answered_once:
  assumes "service_reachable limit queue_limit worker_count s"
  shows "distinct (answered s) \<and> set (answered s) \<subseteq> set (seen_calls s)
    \<and> unat (used_bytes (service_limiter s)) = held_bytes s \<and> held_bytes s \<le> unat limit
    \<and> sum_list (map snd (waiting_writes s)) \<le> unat (used_bytes (service_limiter s))
    \<and> length (queue_tasks (service_queue s)) \<le> queue_limit"
proof -
  note inv = service_reachable_inv [OF assms]
  have "service_calls s = mset (seen_calls s)" "distinct (seen_calls s)"
    using inv by (simp_all add: service_inv_def)
  moreover have "mset (answered s) \<subseteq># service_calls s"
    by (simp add: service_calls_def add.assoc)
  ultimately have sub: "mset (answered s) \<subseteq># mset (seen_calls s)" "distinct (seen_calls s)" by simp_all
  have "set (answered s) \<subseteq> set (seen_calls s)" using set_mset_mono [OF sub(1)] by simp
  moreover have "held_bytes s \<le> unat limit" "length (queue_tasks (service_queue s)) \<le> queue_limit"
    using inv by (auto simp: service_inv_def word_le_nat_alt)
  ultimately show ?thesis
    using answered_distinct [OF sub] service_inv_limiter [OF inv] waiting_writes_held [OF inv] by simp
qed

section \<open>Shutdown\<close>

fun worker_weight :: "Worker \<Rightarrow> nat" where
  "worker_weight WaitingWorker = 1"
| "worker_weight (RunningWorker _) = 3"
| "worker_weight (ReturningWorker _) = 2"
| "worker_weight ExitedWorker = 0"

text \<open>A bound on the steps that a stopping service still takes.\<close>

definition service_weight :: "TaskService \<Rightarrow> nat" where
  "service_weight s = 6 * length (entered_calls s) + 5 * length (leased_calls s) + length (leaving_calls s)
     + 4 * length (admitted_tasks s) + 3 * length (refused_tasks s) + length (returning_tasks s)
     + 3 * length (queue_tasks (service_queue s)) + 3 * length (pending_tasks s) + (if shutdown_task s = None then 0 else 1)
     + sum_list (map worker_weight (service_workers s)) + (if queue_stopped (service_queue s) then 0 else 1)"

lemma worker_weight_update:
  "k < length ws \<Longrightarrow> sum_list (map worker_weight (ws[k := v])) + worker_weight (ws ! k)
     = sum_list (map worker_weight ws) + worker_weight v"
  by (induction ws arbitrary: k) (auto simp: nth_Cons' less_Suc_eq_0_disj split: nat.splits)

lemma remove1_length: "x \<in> set xs \<Longrightarrow> length xs = Suc (length (remove1 x xs))"
  by (metis One_nat_def Suc_pred length_pos_if_in_set length_remove1)

lemma service_step_stopping:
  assumes step: "service_step s s'" and stopping: "service_stopping s"
  shows "service_weight s' < service_weight s" "service_stopping s'" "seen_calls s' = seen_calls s"
proof -
  have "service_weight s' < service_weight s \<and> service_stopping s' \<and> seen_calls s' = seen_calls s"
    using step
  proof cases
    case (step_turn_away call)
    then show ?thesis using stopping remove1_length [of call] by (auto simp: TurnAway_def service_weight_def)
  next
    case (step_acquire call b)
    then show ?thesis using stopping remove1_length [of call "entered_calls s"]
      by (auto simp: AcquireCall_def TurnAway_def TryAcquire_def service_weight_def)
  next
    case (step_abandon e)
    then show ?thesis using stopping remove1_length [of e "leased_calls s"]
      by (auto simp: AbandonCall_def service_weight_def split: prod.splits)
  next
    case (step_answer call)
    then show ?thesis using stopping remove1_length [of call "leaving_calls s"] by (auto simp: AnswerCall_def service_weight_def)
  next
    case (step_write e)
    then show ?thesis using stopping remove1_length [of e "leased_calls s"] by (auto simp: BuildWrite_def service_weight_def)
  next
    case (step_read call)
    then show ?thesis using stopping remove1_length [of call "entered_calls s"] by (auto simp: BuildRead_def service_weight_def)
  next
    case (step_enqueue task allocated)
    then show ?thesis using stopping remove1_length [of task "admitted_tasks s"]
      by (auto simp: EnqueueCall_def TryEnqueue_def Let_def service_weight_def split: prod.splits)
  next
    case (step_refuse task)
    then show ?thesis using stopping remove1_length [of task "refused_tasks s"]
      by (auto simp: CancelRefused_def Let_def service_weight_def split: prod.splits)
  next
    case (step_return task)
    then show ?thesis using stopping remove1_length [of task "returning_tasks s"]
      by (auto simp: ReturnRefused_def service_weight_def split: prod.splits)
  next
    case (step_pop k)
    then show ?thesis using stopping worker_weight_update [of k "service_workers s" ExitedWorker]
        worker_weight_update [of k "service_workers s" "RunningWorker (hd (queue_tasks (service_queue s)))"]
      by (auto simp: WorkerPop_def WaitPop_def service_weight_def split: list.splits if_splits)
  next
    case (step_call k task)
    then show ?thesis using stopping worker_weight_update [of k "service_workers s" "ReturningWorker task"]
        worker_weight_update [of k "service_workers s" "ReturningWorker (fst (FinishCallback True task (completions s)))"]
      by (auto simp: WorkerCall_def service_weight_def split: prod.splits)
  next
    case (step_worker_return k task)
    then show ?thesis using stopping worker_weight_update [of k "service_workers s" WaitingWorker]
      by (auto simp: WorkerReturn_def service_weight_def split: prod.splits)
  next
    case step_stop
    then show ?thesis by (auto simp: StopQueue_def StopAndTakePending_def service_weight_def)
  next
    case (step_cancel task rest)
    then show ?thesis using stopping by (auto simp: CancelPending_def Let_def service_weight_def split: prod.splits)
  next
    case (step_pending_return task)
    then show ?thesis using stopping by (auto simp: ReturnPending_def service_weight_def split: prod.splits)
  qed (use stopping in auto)
  then show "service_weight s' < service_weight s" "service_stopping s'" "seen_calls s' = seen_calls s" by simp_all
qed

lemma service_steps_stopping:
  "(service_step ^^ k) s s' \<Longrightarrow> service_stopping s \<Longrightarrow>
    service_weight s' + k \<le> service_weight s \<and> service_stopping s' \<and> seen_calls s' = seen_calls s"
proof (induction k arbitrary: s')
  case (Suc k)
  then obtain t where t: "(service_step ^^ k) s t" "service_step t s'" by auto
  show ?case using Suc.IH [OF t(1) Suc.prems(2)] service_step_stopping [OF t(2)] by auto
qed auto

text \<open>A stopping service that cannot move has drained.\<close>

lemma stuck_service:
  assumes inv: "service_inv limit queue_limit n s" and stopping: "service_stopping s" and stuck: "\<And>s'. \<not> service_step s s'"
  shows "entered_calls s = [] \<and> leased_calls s = [] \<and> leaving_calls s = [] \<and> owned s = {#} \<and> finished s = {#} \<and> set (service_workers s) \<subseteq> {ExitedWorker}"
proof -
  have none: "shutdown_task s = None" using stuck step_pending_return [of s] by (metis option.exhaust)
  have lists: "entered_calls s = []" "leased_calls s = []" "leaving_calls s = []" "admitted_tasks s = []" "refused_tasks s = []"
    "returning_tasks s = []" "pending_tasks s = []"
    using stuck step_turn_away [of _ s] step_abandon [of _ s] step_answer [of _ s] step_enqueue [of _ s] step_refuse [of _ s]
      step_return [of _ s] step_cancel [OF _ none]
    by (metis list.set_intros(1) list.exhaust)+
  have stopped: "queue_stopped (service_queue s)" using stuck step_stop [OF stopping] by blast
  with inv have queue: "queue_tasks (service_queue s) = []" by (simp add: service_inv_def)
  have "service_workers s ! k = ExitedWorker" if k: "k < length (service_workers s)" for k
  proof (cases "service_workers s ! k")
    case WaitingWorker
    have "WorkerPop k s \<noteq> None" using stopped queue by (simp add: WorkerPop_def WaitPop_def)
    then show ?thesis using step_pop [OF k WaitingWorker] stuck by blast
  next
    case (RunningWorker task)
    then show ?thesis using step_call [OF k] stuck by blast
  next
    case (ReturningWorker task)
    then show ?thesis using step_worker_return [OF k] stuck by blast
  qed auto
  then have workers: "set (service_workers s) \<subseteq> {ExitedWorker}" by (auto simp: in_set_conv_nth)
  then have "concat (map running_task (service_workers s)) = []" "concat (map returning_task (service_workers s)) = []" by auto
  with lists none queue workers show ?thesis by (simp add: owned_def finished_def)
qed

text \<open>
  C10: A service whose \<^verbatim>\<open>Shutdown\<close> has begun takes a bounded number of further steps, whatever
  the interleaving, and the only states in which it cannot move are those in which every
  call that was made has been answered exactly once, no bytes are charged and every worker has
  left its loop, so that the joins return.
\<close>

theorem shutdown_completes:
  assumes "service_reachable limit queue_limit worker_count s" "service_stopping s" "(service_step ^^ k) s s'"
  shows "k \<le> service_weight s
    \<and> ((\<exists>s''. service_step s' s'')
       \<or> (mset (answered s') = mset (seen_calls s) \<and> used_bytes (service_limiter s') = 0
          \<and> service_workers s' = replicate worker_count ExitedWorker))"
proof (cases "\<exists>s''. service_step s' s''")
  case True
  then show ?thesis using service_steps_stopping [OF assms(3,2)] by simp
next
  case False
  note steps = service_steps_stopping [OF assms(3,2)]
  have "service_reachable limit queue_limit worker_count s'"
    using assms(1) relpowp_imp_rtranclp [OF assms(3)] unfolding service_reachable_def by simp
  then have inv: "service_inv limit queue_limit worker_count s'" by (rule service_reachable_inv)
  note drained = stuck_service [OF inv] steps False
  have "mset (answered s') = mset (seen_calls s)"
    using drained inv by (simp add: service_inv_def service_calls_def)
  moreover have "unat (used_bytes (service_limiter s')) = 0"
    using drained service_inv_limiter [OF inv] by (simp add: held_bytes_def)
  then have "used_bytes (service_limiter s') = 0" by (simp add: unat_eq_0)
  moreover have "service_workers s' = replicate worker_count ExitedWorker"
    using drained inv by (intro replicate_eqI) (auto simp: service_inv_def)
  ultimately show ?thesis using steps by simp
qed

section \<open>A run of the service\<close>

text \<open>A write of four bytes is queued when the shutdown begins.\<close>

definition sample_task :: QueuedTask where
  "sample_task = MakeLeasedTask \<lparr>lease_held = True, lease_size = 4\<rparr> (Some 7) (Some 7)"

definition sample_service :: "BoundedTaskQueue \<Rightarrow> u64 \<Rightarrow> Worker \<Rightarrow> bool \<Rightarrow> QueuedTask list \<Rightarrow> Completion list \<Rightarrow> TaskService" where
  "sample_service q used worker stopping pending log = \<lparr>service_limiter = \<lparr>limit_bytes = 10, used_bytes = used\<rparr>, service_queue = q,
     service_stopping = stopping, entered_calls = [], leased_calls = [], leaving_calls = [], admitted_tasks = [],
     refused_tasks = [], returning_tasks = [], service_workers = [worker], pending_tasks = pending, shutdown_task = None,
     completions = log, turned_away = [], seen_calls = [7], built_writes = [(7, 4)]\<rparr>"

definition sample_ended :: QueuedTask where
  "sample_ended = sample_task\<lparr>execute_callback := None, cancel_callback := None, task_active := False\<rparr>"

definition sample_queue :: "QueuedTask list \<Rightarrow> bool \<Rightarrow> BoundedTaskQueue" where
  "sample_queue tasks stopped = \<lparr>queue_capacity = 1, queue_tasks = tasks, queue_stopped = stopped\<rparr>"

lemmas sample_defs = sample_service_def sample_queue_def sample_task_def sample_ended_def MakeLeasedTask_def

lemma sample_queued: "service_reachable 10 1 1 (sample_service (sample_queue [sample_task] False) 4 WaitingWorker False [] [])"
proof -
  define s where "s = MakeService 10 1 1"
  define s1 where "s1 = s\<lparr>entered_calls := entered_calls s @ [7], seen_calls := seen_calls s @ [7]\<rparr>"
  define s2 where "s2 = AcquireCall 7 4 s1"
  define s3 where "s3 = BuildWrite (7, \<lparr>lease_held = True, lease_size = 4\<rparr>) s2"
  define s4 where "s4 = EnqueueCall True sample_task s3"
  note defs = s_def s1_def s2_def s3_def s4_def MakeService_def MakeLimiter_def MakeQueue_def AcquireCall_def TryAcquire_def
    BuildWrite_def EnqueueCall_def TryEnqueue_def sample_defs
  have "service_step s s1" unfolding s1_def by (rule step_enter) (simp_all add: s_def MakeService_def)
  moreover have "service_step s1 s2" unfolding s2_def by (rule step_acquire) (simp add: s1_def)
  moreover have "service_step s2 s3" unfolding s3_def by (rule step_write) (simp add: defs)
  moreover have "service_step s3 s4" unfolding s4_def by (rule step_enqueue) (simp add: defs)
  moreover have "s4 = sample_service (sample_queue [sample_task] False) 4 WaitingWorker False [] []" by (simp add: defs)
  ultimately show ?thesis unfolding service_reachable_def s_def [symmetric]
    by (metis converse_rtranclp_into_rtranclp rtranclp.rtrancl_refl)
qed

text \<open>The write waits with its bytes charged, and they are still charged when it has just been answered.\<close>

theorem calls_answered_once_witness:
  "\<exists>s s'. service_reachable 10 1 1 s \<and> waiting_writes s = [(7, 4)] \<and> service_step s s' \<and> answered s' = [7]
     \<and> held_bytes s' = 4 \<and> sum_list (map snd (waiting_writes s)) \<le> unat (used_bytes (service_limiter s))"
proof -
  let ?s = "sample_service (sample_queue [sample_task] False) 4 WaitingWorker False [] []"
  let ?t = "sample_service (sample_queue [] False) 4 (RunningWorker sample_task) False [] []"
  let ?u = "sample_service (sample_queue [] False) 4 (ReturningWorker sample_ended) False [] [Executed 7]"
  have st: "service_step ?s ?t" by (rule step_pop [of 0]) (simp_all add: WorkerPop_def WaitPop_def sample_defs)
  have "service_step ?t (WorkerCall 0 sample_task ?t)" by (rule step_call) (simp_all add: sample_service_def)
  then have tu: "service_step ?t ?u" by (simp add: WorkerCall_def FinishCallback_def sample_defs)
  have t: "service_reachable 10 1 1 ?t" using sample_queued st unfolding service_reachable_def by simp
  with tu have u: "service_reachable 10 1 1 ?u" unfolding service_reachable_def by simp
  have "waiting_writes ?t = [(7, 4)]" by (simp add: waiting_writes_def answered_def sample_service_def)
  moreover have "answered ?u = [7]" "used_bytes (service_limiter ?u) = 4" by (simp_all add: answered_def sample_service_def)
  moreover from this have "held_bytes ?u = 4" using calls_answered_once [OF u] by simp
  ultimately show ?thesis using t tu calls_answered_once [OF t] by blast
qed

theorem shutdown_completes_witness:
  "\<exists>s s'. service_reachable 10 1 1 s \<and> service_stopping s \<and> (service_step ^^ 4) s s' \<and> 4 \<le> service_weight s
     \<and> completions s' = [Cancelled 7] \<and> service_workers s' = [ExitedWorker]"
proof -
  let ?q = "sample_service (sample_queue [sample_task] False) 4 WaitingWorker False [] []"
  let ?s = "sample_service (sample_queue [sample_task] False) 4 WaitingWorker True [] []"
  let ?t = "sample_service (sample_queue [] True) 4 WaitingWorker True [sample_task] []"
  let ?u = "sample_service (sample_queue [] True) 4 WaitingWorker True [] [Cancelled 7]\<lparr>shutdown_task := Some sample_ended\<rparr>"
  let ?v = "sample_service (sample_queue [] True) 0 WaitingWorker True [] [Cancelled 7]"
  let ?w = "sample_service (sample_queue [] True) 0 ExitedWorker True [] [Cancelled 7]"
  have "service_step ?q (?q\<lparr>service_stopping := True\<rparr>)" by (rule step_stopping) (simp add: sample_service_def)
  then have "service_step ?q ?s" by (simp add: sample_service_def)
  with sample_queued have r: "service_reachable 10 1 1 ?s" unfolding service_reachable_def by simp
  have "service_step ?s (StopQueue ?s)" by (rule step_stop) (simp_all add: sample_defs)
  then have st: "service_step ?s ?t" by (simp add: StopQueue_def StopAndTakePending_def sample_defs)
  have "service_step ?t (CancelPending sample_task ?t)" by (rule step_cancel) (simp_all add: sample_service_def)
  then have tu: "service_step ?t ?u" by (simp add: CancelPending_def FinishCallback_def sample_defs)
  have "service_step ?u (ReturnPending sample_ended ?u)" by (rule step_pending_return) simp
  then have uv: "service_step ?u ?v" by (simp add: ReturnPending_def FinishLease_def LeaseReset_def sample_defs)
  have vw: "service_step ?v ?w" by (rule step_pop [of 0]) (simp_all add: WorkerPop_def WaitPop_def sample_defs)
  have steps: "(service_step ^^ 4) ?s ?w" using st tu uv vw by (auto simp: eval_nat_numeral)
  have stopping: "service_stopping ?s" by (simp add: sample_service_def)
  have "completions ?w = [Cancelled 7]" "service_workers ?w = [ExitedWorker]" by (simp_all add: sample_service_def)
  with r stopping steps shutdown_completes [OF r stopping steps] show ?thesis by blast
qed

end
