(* ===== verification/ObjectService.thy ===== *)
theory ObjectService
  imports ObjectStore RpcQueue
begin

text \<open>
  The handlers of the object service (\<^verbatim>\<open>rpc/object_service_impl.cpp\<close>) with the messages of
  \<^verbatim>\<open>rpc/object_service.proto\<close>: the checks of a call, the task that a worker executes on the backend,
  and the statuses of the answers.  The order of handlers and workers is the subject of
  \<open>RpcQueue\<close>.  Metrics and the exceptions of the standard library are not modelled.
\<close>

section \<open>Messages\<close>

datatype PutStatus =
    PUT_STATUS_OK | PUT_STATUS_INVALID_ARGUMENT | PUT_STATUS_OVERLOADED | PUT_STATUS_SERVER_STOPPING
  | PUT_STATUS_ALREADY_EXISTS | PUT_STATUS_VERSION_MISMATCH | PUT_STATUS_STORAGE_ERROR | PUT_STATUS_RESULT_UNKNOWN
  | PUT_STATUS_REQUEST_ID_CONFLICT | PUT_STATUS_LEDGER_FULL | PUT_STATUS_NOT_FOUND

datatype ReadStatus =
    READ_STATUS_OK | READ_STATUS_INVALID_ARGUMENT | READ_STATUS_OVERLOADED | READ_STATUS_SERVER_STOPPING
  | READ_STATUS_NOT_FOUND | READ_STATUS_STORAGE_ERROR

datatype PutPrecondition = PRECONDITION_NOT_SET | CreateIfAbsentCondition | ExpectedVersionCondition ObjectVersion

record PutObjectRequest =
  put_key :: bytes
  put_payload_size :: u64
  put_sha256 :: bytes
  put_timestamp_ns :: u64
  put_precondition :: PutPrecondition
  put_request_id :: bytes

record PutObjectResponse =
  put_status :: PutStatus
  put_committed_version :: "ObjectVersion option"
  put_current_version :: "ObjectVersion option"

record ReadResponse =
  read_status :: ReadStatus
  read_metadata :: "ObjectStat option"
  response_attachment :: bytes

text \<open>Responses before the handler fills them; \<^verbatim>\<open>detail\<close> strings are not modelled.\<close>

definition fresh_put :: PutObjectResponse where
  "fresh_put = \<lparr>put_status = PUT_STATUS_OK, put_committed_version = None, put_current_version = None\<rparr>"

definition fresh_read :: ReadResponse where
  "fresh_read = \<lparr>read_status = READ_STATUS_OK, read_metadata = None, response_attachment = []\<rparr>"

section \<open>Answers of the backend\<close>

definition IsAllZeroRequestId :: "bytes \<Rightarrow> bool" where
  "IsAllZeroRequestId rid \<longleftrightarrow> list_all (\<lambda>v. v = 0) rid"

definition MapMutationResult ::
  "errno + unit \<Rightarrow> IdempotentMutationResult \<Rightarrow> PutObjectResponse \<Rightarrow> PutObjectResponse" where
  "MapMutationResult result state response =
    (if disposition state = kRequestIdConflict then response\<lparr>put_status := PUT_STATUS_REQUEST_ID_CONFLICT\<rparr>
     else if disposition state = kLedgerFull then response\<lparr>put_status := PUT_STATUS_LEDGER_FULL\<rparr>
     else
       let mutation = mutation_result state
       in
       if outcome mutation = OutcomeUnknown then response\<lparr>put_status := PUT_STATUS_RESULT_UNKNOWN\<rparr>
       else if outcome mutation = OutcomeCommitted
       then response\<lparr>put_status := PUT_STATUS_OK, put_committed_version := Some (committed_version mutation)\<rparr>
       else if result = Inl EEXIST
       then response\<lparr>put_status := PUT_STATUS_ALREADY_EXISTS, put_current_version := Some (current_version mutation)\<rparr>
       else if result = Inl ESTALE
       then response\<lparr>put_status := PUT_STATUS_VERSION_MISMATCH, put_current_version := Some (current_version mutation)\<rparr>
       else if result = Inl ENOENT then response\<lparr>put_status := PUT_STATUS_NOT_FOUND\<rparr>
       else response\<lparr>put_status := PUT_STATUS_STORAGE_ERROR\<rparr>)"

definition MapReadResult :: "errno + ObjectStat \<Rightarrow> ReadResponse \<Rightarrow> ReadResponse" where
  "MapReadResult result response = (case result of
     Inr stat \<Rightarrow> response\<lparr>read_status := READ_STATUS_OK, read_metadata := Some stat\<rparr>
   | Inl e \<Rightarrow> if e = ENOENT then response\<lparr>read_status := READ_STATUS_NOT_FOUND\<rparr>
       else response\<lparr>read_status := READ_STATUS_STORAGE_ERROR\<rparr>)"

section \<open>PutObject\<close>

text \<open>The streaming digest of OpenSSL is the argument \<open>stream_digest\<close>, \<^term>\<open>None\<close> where it fails.\<close>

definition ComputeSha256 :: "(bytes \<Rightarrow> bytes option) \<Rightarrow> bytes \<Rightarrow> bytes option" where
  "ComputeSha256 stream_digest payload = (case stream_digest payload of
     None \<Rightarrow> None | Some digest \<Rightarrow> if length digest = kSha256Size then Some digest else None)"

text \<open>What the worker's closure captures.\<close>

record PutTask =
  task_key :: bytes
  task_payload :: bytes
  task_timestamp_ns :: u64
  task_precondition :: PutPrecondition
  task_identity :: RequestIdentity

definition expected_of :: "PutPrecondition \<Rightarrow> ObjectVersion" where
  "expected_of precondition = (case precondition of ExpectedVersionCondition v \<Rightarrow> v | _ \<Rightarrow> no_version)"

definition identity_input :: "PutObjectRequest \<Rightarrow> bytes \<Rightarrow> MutationIdentityInput" where
  "identity_input request digest =
    \<lparr>identity_operation = (if put_precondition request = CreateIfAbsentCondition then kCreateIfAbsent else kReplaceIfVersion),
     identity_key = put_key request, payload_size = put_payload_size request, payload_sha256 = digest,
     identity_timestamp_ns = put_timestamp_ns request,
     expected_inode = version_inode (expected_of (put_precondition request)),
     expected_generation = version_generation (expected_of (put_precondition request))\<rparr>"

text \<open>
  The handler up to the task: the status that it answers itself, or the task to enqueue.
  \<open>stopping\<close> is the value of \<^verbatim>\<open>stopping_\<close> and \<open>leased\<close> says whether the byte limiter granted a lease.
\<close>

definition PutObject ::
  "(bytes \<Rightarrow> bytes option) \<Rightarrow> (bytes \<Rightarrow> bytes option) \<Rightarrow> bool \<Rightarrow> bool \<Rightarrow> PutObjectRequest \<Rightarrow> bytes \<Rightarrow> PutStatus + PutTask" where
  "PutObject stream_digest evp_digest stopping leased request attachment =
    (if stopping then Inl PUT_STATUS_SERVER_STOPPING
     else if put_key request = [] \<or> unat (put_payload_size request) \<noteq> length attachment
       \<or> length (put_sha256 request) \<noteq> kSha256Size \<or> length (put_request_id request) \<noteq> kRequestIdSize
       \<or> IsAllZeroRequestId (put_request_id request) \<or> put_precondition request = PRECONDITION_NOT_SET
     then Inl PUT_STATUS_INVALID_ARGUMENT
     else if length (put_key request) > kMaxNameLength \<or> length attachment > unat kMaxFileSize
     then Inl PUT_STATUS_INVALID_ARGUMENT
     else if \<not> leased then Inl PUT_STATUS_OVERLOADED
     else case ComputeSha256 stream_digest attachment of
       None \<Rightarrow> Inl PUT_STATUS_STORAGE_ERROR
     | Some actual_digest \<Rightarrow>
       if actual_digest \<noteq> put_sha256 request then Inl PUT_STATUS_INVALID_ARGUMENT
       else case BuildRequestFingerprint evp_digest (identity_input request actual_digest) of
         Inl _ \<Rightarrow> Inl PUT_STATUS_INVALID_ARGUMENT
       | Inr fp \<Rightarrow> Inr \<lparr>task_key = put_key request, task_payload = attachment, task_timestamp_ns = put_timestamp_ns request,
           task_precondition = put_precondition request,
           task_identity = \<lparr>identity_request_id = put_request_id request, identity_fingerprint = fp\<rparr>\<rparr>)"

text \<open>The worker's closure; \<open>flattened\<close> says whether the attachment could be copied.\<close>

definition PutExecute ::
  "os_answers \<Rightarrow> bool \<Rightarrow> bool \<Rightarrow> PutTask \<Rightarrow> ObjectBackend \<Rightarrow> PutObjectResponse \<times> ObjectBackend" where
  "PutExecute ans node_allocated flattened task b =
    (if \<not> flattened then (fresh_put\<lparr>put_status := PUT_STATUS_STORAGE_ERROR\<rparr>, b)
     else if task_precondition task = CreateIfAbsentCondition then
       (case PutIfAbsentIdempotent ans node_allocated (task_key task) (task_payload task) (task_timestamp_ns task)
           (task_identity task) b of
          (result, mutation, b) \<Rightarrow> (MapMutationResult result mutation fresh_put, b))
     else
       (case ReplaceIfVersionIdempotent ans node_allocated (task_key task) (expected_of (task_precondition task))
           (task_payload task) (task_timestamp_ns task) (task_identity task) b of
          (result, mutation, b) \<Rightarrow> (MapMutationResult result mutation fresh_put, b)))"

section \<open>GetObject and StatObject\<close>

definition ReadAdmission :: "bool \<Rightarrow> bytes \<Rightarrow> ReadStatus option" where
  "ReadAdmission stopping key =
    (if stopping then Some READ_STATUS_SERVER_STOPPING
     else if key = [] then Some READ_STATUS_INVALID_ARGUMENT else None)"

definition GetExecute :: "bytes \<Rightarrow> ObjectBackend \<Rightarrow> ReadResponse" where
  "GetExecute key b = (case GetObjectData key b of
     Inr (payload, stat) \<Rightarrow> MapReadResult (Inr stat) (fresh_read\<lparr>response_attachment := payload\<rparr>)
   | Inl e \<Rightarrow> MapReadResult (Inl e) fresh_read)"

definition StatExecute :: "bytes \<Rightarrow> ObjectBackend \<Rightarrow> ReadResponse" where
  "StatExecute key b = MapReadResult (StatObjectData key b) fresh_read"

section \<open>Refused tasks\<close>

text \<open>The status of a task that the queue did not accept, or that was cancelled.\<close>

definition put_cancel_status :: "EnqueueResult \<Rightarrow> PutStatus" where
  "put_cancel_status result = (case result of
     kFull \<Rightarrow> PUT_STATUS_OVERLOADED | kResourceExhausted \<Rightarrow> PUT_STATUS_OVERLOADED
   | kStopped \<Rightarrow> PUT_STATUS_SERVER_STOPPING | kInvalid \<Rightarrow> PUT_STATUS_STORAGE_ERROR | kAccepted \<Rightarrow> PUT_STATUS_SERVER_STOPPING)"

definition read_cancel_status :: "EnqueueResult \<Rightarrow> ReadStatus" where
  "read_cancel_status result = (case result of
     kFull \<Rightarrow> READ_STATUS_OVERLOADED | kResourceExhausted \<Rightarrow> READ_STATUS_OVERLOADED
   | kStopped \<Rightarrow> READ_STATUS_SERVER_STOPPING | kInvalid \<Rightarrow> READ_STATUS_STORAGE_ERROR | kAccepted \<Rightarrow> READ_STATUS_SERVER_STOPPING)"

section \<open>Calls of the backend\<close>

definition task_call_of :: "PutTask \<Rightarrow> backend_call" where
  "task_call_of task = (if task_precondition task = CreateIfAbsentCondition
     then PutCall (task_key task) (task_payload task) (task_timestamp_ns task) (task_identity task)
     else ReplaceCall (task_key task) (expected_of (task_precondition task)) (task_payload task) (task_timestamp_ns task)
       (task_identity task))"

lemma PutExecute_step:
  "backend_step (ans, node_allocated) (task_call_of task) b = (result, mutation, b') \<Longrightarrow>
    PutExecute ans node_allocated True task b = (MapMutationResult result mutation fresh_put, b')"
  by (auto simp: PutExecute_def task_call_of_def backend_step_def split: if_splits)

lemma task_call_identity:
  "call_identity (task_call_of task) = Some (task_identity task)"
  "call_operation (task_call_of task) = (if task_precondition task = CreateIfAbsentCondition then kCreateIfAbsent else kReplaceIfVersion)"
  by (simp_all add: task_call_of_def call_identity_def call_operation_def)

text \<open>What an admitted task says about its request.\<close>

lemma PutObject_admitted:
  assumes "PutObject stream_digest evp_digest stopping leased request attachment = Inr task"
  shows "stream_digest attachment = Some (put_sha256 request)"
    "BuildRequestFingerprint evp_digest (identity_input request (put_sha256 request)) = Inr (identity_fingerprint (task_identity task))"
    "identity_request_id (task_identity task) = put_request_id request" "HasNonzeroRequestId (put_request_id request)"
    "task_precondition task = put_precondition request" "put_precondition request \<noteq> PRECONDITION_NOT_SET"
    "task_key task = put_key request" "task_payload task = attachment" "task_timestamp_ns task = put_timestamp_ns request"
    "length (put_sha256 request) = kSha256Size" "length (put_key request) \<le> 255" "unat (put_payload_size request) = length attachment"
  using assms
  by (auto simp: PutObject_def ComputeSha256_def IsAllZeroRequestId_def HasNonzeroRequestId_def list_ex_iff list_all_iff
      split: if_splits option.splits sum.splits)

lemma fingerprint_digest: "BuildRequestFingerprint evp_digest v = Inr fp \<Longrightarrow> evp_digest (CanonicalIdentity v) = Some fp"
  by (auto simp: BuildRequestFingerprint_def Let_def split: option.splits if_splits)

text \<open>Two admitted requests have the same fingerprint exactly when they ask for the same mutation.\<close>

definition same_mutation :: "PutTask \<Rightarrow> PutTask \<Rightarrow> bool" where
  "same_mutation a b \<longleftrightarrow> task_key a = task_key b \<and> task_payload a = task_payload b
     \<and> task_timestamp_ns a = task_timestamp_ns b \<and> task_precondition a = task_precondition b"

lemma identity_input_inject:
  assumes "identity_input p d = identity_input q e"
    and "put_precondition p \<noteq> PRECONDITION_NOT_SET" "put_precondition q \<noteq> PRECONDITION_NOT_SET"
  shows "put_key p = put_key q \<and> put_timestamp_ns p = put_timestamp_ns q \<and> d = e \<and> put_precondition p = put_precondition q"
  using assms
  by (cases "put_precondition p"; cases "put_precondition q") (auto simp: identity_input_def expected_of_def split: if_splits)

lemma same_fingerprint:
  assumes p: "PutObject stream_digest evp_digest stopping leased p attachment = Inr task"
    and q: "PutObject stream_digest evp_digest stopping' leased' q attachment' = Inr task'"
    and payloads: "stream_digest attachment = stream_digest attachment' \<longrightarrow> attachment = attachment'"
    and encodings: "\<And>v w. v = CanonicalIdentity (identity_input p (put_sha256 p)) \<Longrightarrow>
      w = CanonicalIdentity (identity_input q (put_sha256 q)) \<Longrightarrow> evp_digest v = evp_digest w \<longrightarrow> v = w"
  shows "identity_fingerprint (task_identity task) = identity_fingerprint (task_identity task') \<longleftrightarrow> same_mutation task task'"
proof
  note P = PutObject_admitted [OF p] and Q = PutObject_admitted [OF q]
  let ?p = "identity_input p (put_sha256 p)" and ?q = "identity_input q (put_sha256 q)"
  {
    assume "identity_fingerprint (task_identity task) = identity_fingerprint (task_identity task')"
    then have "CanonicalIdentity ?p = CanonicalIdentity ?q"
      using encodings [OF refl refl] fingerprint_digest [OF P(2)] fingerprint_digest [OF Q(2)] by simp
    moreover have "identity_ok ?p" "identity_ok ?q" using P(10,11) Q(10,11) by (simp_all add: identity_ok_def identity_input_def)
    ultimately have "?p = ?q" by (simp add: CanonicalIdentity_inject)
    from identity_input_inject [OF this P(6) Q(6)] show "same_mutation task task'"
      using P Q payloads by (simp add: same_mutation_def)
  }
  assume same: "same_mutation task task'"
  then have "put_sha256 p = put_sha256 q" using P(1,8) Q(1,8) by (simp add: same_mutation_def)
  moreover have "put_payload_size p = put_payload_size q"
    using same P(8,12) Q(8,12) by (simp add: same_mutation_def word_unat_eq_iff)
  ultimately have "?p = ?q" using same P Q by (simp add: same_mutation_def identity_input_def)
  then show "identity_fingerprint (task_identity task) = identity_fingerprint (task_identity task')" using P(2) Q(2) by simp
qed

lemma MapMutationResult_OK:
  "put_status (MapMutationResult result state fresh_put) = PUT_STATUS_OK \<longleftrightarrow>
    disposition state \<notin> {kRequestIdConflict, kLedgerFull} \<and> outcome (mutation_result state) = OutcomeCommitted"
  by (cases "outcome (mutation_result state)") (auto simp: MapMutationResult_def Let_def)

text \<open>
  C5: request identifiers make retries safe.  Let a \<^verbatim>\<open>PutObject\<close> call be admitted and answered OK, and
  let any calls follow, with any failures of the operating system.  Every later \<^verbatim>\<open>PutObject\<close> call that
  is admitted with the same request identifier, on a backend that is still usable, changes nothing.
  If it asks for the same mutation, it gets the same answer with the same committed version; if
  its key, payload, timestamp or precondition differ, it is refused as a conflict.  (The digests
  of the two payloads and of the two canonical encodings must not collide.)
\<close>

theorem PutObject_idempotent:
  assumes "PutObject stream_digest evp_digest stopping leased p attachment = Inr task"
    and "PutExecute ans alloc True task b = (response, b1)" "put_status response = PUT_STATUS_OK"
    and "backend_usable (backend_run calls b1)"
    and "PutObject stream_digest evp_digest stopping' leased' q attachment' = Inr task'" "put_request_id q = put_request_id p"
    and "stream_digest attachment = stream_digest attachment' \<longrightarrow> attachment = attachment'"
    and "evp_digest (CanonicalIdentity (identity_input p (put_sha256 p))) = evp_digest (CanonicalIdentity (identity_input q (put_sha256 q)))
      \<longrightarrow> CanonicalIdentity (identity_input p (put_sha256 p)) = CanonicalIdentity (identity_input q (put_sha256 q))"
  shows "PutExecute ans' alloc' True task' (backend_run calls b1) =
    (if same_mutation task task' then response else fresh_put\<lparr>put_status := PUT_STATUS_REQUEST_ID_CONFLICT\<rparr>, backend_run calls b1)"
proof -
  note P = PutObject_admitted [OF assms(1)] and Q = PutObject_admitted [OF assms(5)]
  let ?b2 = "backend_run calls b1" and ?id = "task_identity task" and ?id' = "task_identity task'"
  obtain result mutation b' where "backend_step (ans, alloc) (task_call_of task) b = (result, mutation, b')" by (metis prod_cases3)
  then have step: "backend_step (ans, alloc) (task_call_of task) b = (result, mutation, b1)"
    and response: "response = MapMutationResult result mutation fresh_put" using PutExecute_step assms(2) by auto
  have ok: "disposition mutation \<notin> {kRequestIdConflict, kLedgerFull}" "outcome (mutation_result mutation) = OutcomeCommitted"
    using assms(3) unfolding response MapMutationResult_OK by simp_all
  note u = usable_before [OF step assms(4)]
  have "\<not> isl result" using backend_step_ok [OF u(2) step] u(1) ok(2) by (simp add: outcome_ok_def)
  then obtain rec where rec: "ledger_find b1 (identity_request_id ?id) = Some rec"
      "recorded_answer (call_operation (task_call_of task)) ?id rec result (mutation_result mutation)"
    using recorded_call [OF step task_call_identity(1) u(2)] P(3,4) ok(1) by auto
  have find: "ledger_find ?b2 (identity_request_id ?id') = Some rec"
    using backend_run_ledger [OF rec(1)] P(3) Q(3) assms(6) by simp
  have nz: "HasNonzeroRequestId (identity_request_id ?id')" using Q(3,4) by simp
  note replay = recorded_replay [OF assms(4) task_call_identity(1) nz find, of "(ans', alloc')"]
  have fp: "fingerprint rec = identity_fingerprint ?id" "operation rec = call_operation (task_call_of task)"
    "outcome (replay_mutation rec) = OutcomeCommitted" "committed_version (replay_mutation rec) = committed_version (mutation_result mutation)"
    using rec(2) ok(2) by (simp_all add: recorded_answer_def)
  have same: "fingerprint rec = identity_fingerprint ?id' \<longleftrightarrow> same_mutation task task'"
    using same_fingerprint [OF assms(1,5,7)] assms(8) unfolding fp(1) by simp
  show ?thesis
  proof (cases "same_mutation task task'")
    case True
    then have "operation rec = call_operation (task_call_of task')" by (simp add: fp(2) task_call_identity same_mutation_def)
    with True same replay show ?thesis
      using PutExecute_step [of ans' alloc' task' ?b2 "replay_result rec"] fp(3,4) ok
      by (simp add: response MapMutationResult_def Let_def)
  next
    case False
    with same replay show ?thesis
      using PutExecute_step [of ans' alloc' task' ?b2 "Inl EALREADY"] by (simp add: MapMutationResult_def)
  qed
qed

section \<open>A retry on the sample volume\<close>

definition retry_request :: PutObjectRequest where
  "retry_request = \<lparr>put_key = [0x61], put_payload_size = 1, put_sha256 = replicate 32 5, put_timestamp_ns = 5,
     put_precondition = CreateIfAbsentCondition, put_request_id = replicate 16 1\<rparr>"

definition sample_stream :: "bytes \<Rightarrow> bytes option" where
  "sample_stream payload = Some (if payload = [7] then replicate 32 5 else replicate 32 6)"

definition sample_evp :: "bytes \<Rightarrow> bytes option" where
  "sample_evp v = Some (if v = CanonicalIdentity (identity_input retry_request (replicate 32 5)) then replicate 32 2 else replicate 32 3)"

definition retry_task :: PutTask where
  "retry_task = \<lparr>task_key = [0x61], task_payload = [7], task_timestamp_ns = 5, task_precondition = CreateIfAbsentCondition,
     task_identity = backend_identity\<rparr>"

lemma retry_admitted: "PutObject sample_stream sample_evp False True retry_request [7] = Inr retry_task"
  by (simp add: PutObject_def ComputeSha256_def IsAllZeroRequestId_def BuildRequestFingerprint_def sample_stream_def retry_task_def
      backend_identity_def sample_evp_def)
    (simp add: retry_request_def identity_input_def expected_of_def no_version_def kMaxFileSize_def list_all_iff sample_evp_def)

lemma other_admitted:
  "PutObject sample_stream sample_evp False True (retry_request\<lparr>put_key := [0x62]\<rparr>) [7] = Inr (retry_task\<lparr>task_key := [0x62],
     task_identity := backend_identity\<lparr>identity_fingerprint := replicate 32 3\<rparr>\<rparr>)"
proof -
  have "identity_input (retry_request\<lparr>put_key := [0x62]\<rparr>) (replicate 32 5) \<noteq> identity_input retry_request (replicate 32 5)"
    by (simp add: identity_input_def retry_request_def)
  then have "CanonicalIdentity (identity_input (retry_request\<lparr>put_key := [0x62]\<rparr>) (replicate 32 5))
      \<noteq> CanonicalIdentity (identity_input retry_request (replicate 32 5))"
    using CanonicalIdentity_inject [of "identity_input (retry_request\<lparr>put_key := [0x62]\<rparr>) (replicate 32 5)"
        "identity_input retry_request (replicate 32 5)"]
    by (auto simp: identity_ok_def identity_input_def retry_request_def)
  then show ?thesis
    by (simp add: PutObject_def ComputeSha256_def IsAllZeroRequestId_def BuildRequestFingerprint_def sample_stream_def retry_task_def
        backend_identity_def sample_evp_def)
      (simp add: retry_request_def identity_input_def expected_of_def no_version_def kMaxFileSize_def list_all_iff sample_evp_def)
qed

lemma retry_executed:
  "PutExecute quiet_answers True True retry_task volume_backend
    = (fresh_put\<lparr>put_committed_version := Some \<lparr>version_inode = 3, version_generation = 1\<rparr>\<rparr>, volume_backend)"
  using PutExecute_step [of quiet_answers True retry_task volume_backend, unfolded task_call_of_def]
    volume_put_replayed [of "(quiet_answers, True)" "[0x61]" "[7]" 5]
  by (simp add: retry_task_def MapMutationResult_def backend_replay_def fresh_put_def)

theorem PutObject_idempotent_witness:
  "\<exists>b task. b = backend_run [((quiet_answers, True), replace_call)] volume_backend
    \<and> PutExecute quiet_answers True True retry_task b
      = (fresh_put\<lparr>put_committed_version := Some \<lparr>version_inode = 3, version_generation = 1\<rparr>\<rparr>, b)
    \<and> PutObject sample_stream sample_evp False True (retry_request\<lparr>put_key := [0x62]\<rparr>) [7] = Inr task
    \<and> PutExecute quiet_answers True True task b = (fresh_put\<lparr>put_status := PUT_STATUS_REQUEST_ID_CONFLICT\<rparr>, b)"
proof -
  define b where "b = backend_run [((quiet_answers, True), replace_call)] volume_backend"
  define other where "other = retry_task\<lparr>task_key := [0x62], task_identity := backend_identity\<lparr>identity_fingerprint := replicate 32 3\<rparr>\<rparr>"
  have ok: "put_status (fresh_put\<lparr>put_committed_version := Some \<lparr>version_inode = 3, version_generation = 1\<rparr>\<rparr>) = PUT_STATUS_OK"
    by (simp add: fresh_put_def)
  note retry = PutObject_idempotent [OF retry_admitted retry_executed ok volume_run_usable]
  have "same_mutation retry_task retry_task" "\<not> same_mutation retry_task other"
    by (simp_all add: same_mutation_def other_def retry_task_def)
  then have first: "PutExecute quiet_answers True True retry_task b
      = (fresh_put\<lparr>put_committed_version := Some \<lparr>version_inode = 3, version_generation = 1\<rparr>\<rparr>, b)"
    and second: "sample_evp (CanonicalIdentity (identity_input retry_request (put_sha256 retry_request)))
        = sample_evp (CanonicalIdentity (identity_input (retry_request\<lparr>put_key := [0x62]\<rparr>) (put_sha256 retry_request)))
        \<longrightarrow> CanonicalIdentity (identity_input retry_request (put_sha256 retry_request))
          = CanonicalIdentity (identity_input (retry_request\<lparr>put_key := [0x62]\<rparr>) (put_sha256 retry_request)) \<Longrightarrow>
      PutExecute quiet_answers True True other b = (fresh_put\<lparr>put_status := PUT_STATUS_REQUEST_ID_CONFLICT\<rparr>, b)"
    using retry [OF retry_admitted, of quiet_answers True] retry [OF other_admitted, of quiet_answers True]
    by (simp_all add: b_def other_def retry_request_def)
  have "sample_evp (CanonicalIdentity (identity_input retry_request (put_sha256 retry_request)))
        = sample_evp (CanonicalIdentity (identity_input (retry_request\<lparr>put_key := [0x62]\<rparr>) (put_sha256 retry_request)))
        \<longrightarrow> CanonicalIdentity (identity_input retry_request (put_sha256 retry_request))
          = CanonicalIdentity (identity_input (retry_request\<lparr>put_key := [0x62]\<rparr>) (put_sha256 retry_request))"
    by (auto simp: sample_evp_def retry_request_def replicate_eq_replicate)
  from first second [OF this] other_admitted show ?thesis unfolding other_def [symmetric] b_def by blast
qed

end
