(* ===== verification/Mkfs.thy ===== *)
theory Mkfs
  imports RequestLedger Planning
begin

text \<open>
  Formatting an image (\<^verbatim>\<open>src/src/storage/mkfs.{h,cpp}\<close>): the geometry of the optional
  request ledger, the bitmaps, the root directory, the two control copies, and the order
  of the writes with the superblock last.

  The image file is a byte list.  The system enters through \<open>MkfsEnv\<close>: the random bytes,
  the clock, the user, the answers of \<^verbatim>\<open>open\<close> and \<^verbatim>\<open>flock\<close>, and a script of outcomes for
  the file operations; a failing write stores a prefix of its bytes.  Error texts of
  system calls are cut to the name of the operation.
\<close>

section \<open>Data\<close>

record MkfsOptions =
  option_image_path :: bytes
  option_image_size_bytes :: u64
  option_total_inodes :: u32
  option_journal_blocks :: u32
  option_request_ledger_entries :: u32
  option_force :: bool

record RequestLedgerGeometry =
  ledger_entry_count :: u32
  data_block_count :: u32
  root_directory_block :: u32
  first_data_block :: u32
  ledger_indirect_block :: u32
  ledger_file_size :: u64

definition geometry_enabled :: "RequestLedgerGeometry \<Rightarrow> bool" where
  "geometry_enabled g \<longleftrightarrow> ledger_entry_count g \<noteq> 0"

record MkfsEnv =
  env_random :: "errno + bytes"
  env_clock :: "errno + int \<times> nat"
  env_uid :: u32
  env_gid :: u32
  env_open :: "errno option"
  env_flock :: "errno option"
  env_script :: "io_outcome list"

section \<open>File operations\<close>

datatype mkfs_op = MkWrite nat bytes | MkSync | MkTruncate nat | MkFallocate nat

definition file_write :: "nat \<Rightarrow> bytes \<Rightarrow> bytes \<Rightarrow> bytes" where
  "file_write offset bs f = put_bytes offset bs (f @ replicate (offset + length bs - length f) 0)"

definition file_truncate :: "nat \<Rightarrow> bytes \<Rightarrow> bytes" where
  "file_truncate n f = take n f @ replicate (n - length f) 0"

definition file_extend :: "nat \<Rightarrow> bytes \<Rightarrow> bytes" where
  "file_extend n f = f @ replicate (n - length f) 0"

fun mkfs_effect :: "mkfs_op \<Rightarrow> bytes \<Rightarrow> bytes" where
  "mkfs_effect (MkWrite offset bs) f = file_write offset bs f"
| "mkfs_effect MkSync f = f"
| "mkfs_effect (MkTruncate n) f = file_truncate n f"
| "mkfs_effect (MkFallocate n) f = file_extend n f"

fun mkfs_failed_effect :: "nat \<Rightarrow> mkfs_op \<Rightarrow> bytes \<Rightarrow> bytes" where
  "mkfs_failed_effect k (MkWrite offset bs) f = file_write offset (take k bs) f"
| "mkfs_failed_effect k op f = f"

fun run_mkfs_ops :: "mkfs_op list \<Rightarrow> io_outcome list \<Rightarrow> bytes \<Rightarrow> bool \<times> io_outcome list \<times> bytes" where
  "run_mkfs_ops [] script f = (True, script, f)"
| "run_mkfs_ops (op # ops) [] f = run_mkfs_ops ops [] (mkfs_effect op f)"
| "run_mkfs_ops (op # ops) (IoOk # script) f = run_mkfs_ops ops script (mkfs_effect op f)"
| "run_mkfs_ops (op # ops) (IoFail e k # script) f = (False, script, mkfs_failed_effect k op f)"

section \<open>Bitmaps\<close>

definition SetBitmapBit :: "u32 \<Rightarrow> bytes \<Rightarrow> bytes" where
  "SetBitmapBit i bitmap = bitmap[unat i div 8 := bitmap ! (unat i div 8) OR push_bit (unat i mod 8) 1]"

definition SetBitmapPrefix :: "u32 \<Rightarrow> bytes \<Rightarrow> bytes" where
  "SetBitmapPrefix used_bits bitmap =
    (let full_bytes = unat used_bits div 8;
         bitmap = replicate full_bytes 0xFF @ drop full_bytes bitmap;
         remaining_bits = unat used_bits mod 8
     in if remaining_bits \<noteq> 0 then bitmap[full_bytes := push_bit remaining_bits 1 - 1] else bitmap)"

definition ReserveBitmapTail :: "u32 \<Rightarrow> bytes \<Rightarrow> bytes" where
  "ReserveBitmapTail valid bitmap =
    (let first_tail_byte = unat valid div 8;
         valid_bits_in_byte = unat valid mod 8
     in
     if valid_bits_in_byte \<noteq> 0 then
       let tail_mask = push_bit valid_bits_in_byte 0xFF;
           bitmap = bitmap[first_tail_byte := bitmap ! first_tail_byte OR tail_mask]
       in take (first_tail_byte + 1) bitmap @ replicate (length bitmap - (first_tail_byte + 1)) 0xFF
     else take first_tail_byte bitmap @ replicate (length bitmap - first_tail_byte) 0xFF)"

section \<open>Ledger geometry\<close>

definition BuildRequestLedgerGeometry :: "Superblock \<Rightarrow> u32 \<Rightarrow> string + RequestLedgerGeometry" where
  "BuildRequestLedgerGeometry sb entry_count_arg =
    (if entry_count_arg = 0 then
       Inr \<lparr>ledger_entry_count = 0, data_block_count = 0, root_directory_block = 0,
            first_data_block = 0, ledger_indirect_block = 0, ledger_file_size = 0\<rparr>
     else if entry_count_arg mod 32 \<noteq> 0 then Inl ''request ledger entry count must fill complete blocks''
     else
       let data_blocks = entry_count_arg div 32
       in
       if data_blocks = 0 \<or> data_blocks > 1036 then Inl ''request ledger exceeds the v1 inode mapping limit''
       else if total_inodes sb \<le> kRequestLedgerInodeNumber
         then Inl ''request ledger requires at least three inodes''
       else
         let needs_indirect = data_blocks > 12;
             occupied_data_blocks = 1 + data_blocks + (if needs_indirect then 1 else 0)
         in
         if occupied_data_blocks \<ge> block_count (data sb)
           then Inl ''image data region is too small for request ledger''
         else
           let first = start_block (data sb) + 1
           in Inr \<lparr>ledger_entry_count = entry_count_arg, data_block_count = data_blocks,
                root_directory_block = start_block (data sb), first_data_block = first,
                ledger_indirect_block = (if needs_indirect then first + data_blocks else 0),
                ledger_file_size = ucast entry_count_arg * 128\<rparr>)"

section \<open>Contents of a fresh image\<close>

definition ledger_block_numbers :: "RequestLedgerGeometry \<Rightarrow> u32 list" where
  "ledger_block_numbers g = map (\<lambda>logical. first_data_block g + of_nat logical) [0..<unat (data_block_count g)]"

definition FreshInodeBitmap :: "Superblock \<Rightarrow> RequestLedgerGeometry \<Rightarrow> bytes" where
  "FreshInodeBitmap sb g =
    (let bitmap = replicate (unat (block_count (inode_bitmap sb)) * kBlockSize) 0;
         bitmap = SetBitmapBit (root_inode sb - 1) bitmap;
         bitmap = (if geometry_enabled g then SetBitmapBit (kRequestLedgerInodeNumber - 1) bitmap else bitmap)
     in ReserveBitmapTail (total_inodes sb) bitmap)"

definition FreshBlockBitmap :: "Superblock \<Rightarrow> RequestLedgerGeometry \<Rightarrow> bytes" where
  "FreshBlockBitmap sb g =
    (let bitmap = replicate (unat (block_count (block_bitmap sb)) * kBlockSize) 0;
         bitmap = SetBitmapPrefix (start_block (data sb)) bitmap;
         bitmap =
           (if geometry_enabled g then
              let bitmap = SetBitmapBit (root_directory_block g) bitmap;
                  bitmap = fold SetBitmapBit (ledger_block_numbers g) bitmap
              in if ledger_indirect_block g \<noteq> 0 then SetBitmapBit (ledger_indirect_block g) bitmap else bitmap
            else bitmap)
     in ReserveBitmapTail (total_blocks sb) bitmap)"

definition FreshRootInode :: "Superblock \<Rightarrow> RequestLedgerGeometry \<Rightarrow> u32 \<Rightarrow> u32 \<Rightarrow> InodeRecord" where
  "FreshRootInode sb g user grp =
    (let root = \<lparr>inode_number = root_inode sb, mode = 0x41ED, uid = user, gid = grp, link_count = 2,
           file_size = 0, atime_ns = created_time_ns sb, mtime_ns = created_time_ns sb,
           ctime_ns = created_time_ns sb, flags = 0, generation = 1, direct_blocks = replicate 12 0,
           indirect_block = 0\<rparr>
     in if geometry_enabled g
        then root\<lparr>file_size := 4096, direct_blocks := (direct_blocks root)[0 := root_directory_block g]\<rparr>
        else root)"

definition FreshLedgerInode :: "Superblock \<Rightarrow> RequestLedgerGeometry \<Rightarrow> u32 \<Rightarrow> u32 \<Rightarrow> InodeRecord" where
  "FreshLedgerInode sb g user grp =
    \<lparr>inode_number = kRequestLedgerInodeNumber, mode = 0x8180, uid = user, gid = grp, link_count = 1,
     file_size = ledger_file_size g, atime_ns = created_time_ns sb, mtime_ns = created_time_ns sb,
     ctime_ns = created_time_ns sb, flags = 0, generation = 1,
     direct_blocks = take 12 (ledger_block_numbers g) @ replicate (12 - unat (data_block_count g)) 0,
     indirect_block = ledger_indirect_block g\<rparr>"

definition FreshLedgerIndirect :: "RequestLedgerGeometry \<Rightarrow> bytes" where
  "FreshLedgerIndirect g =
    fold (\<lambda>logical. PutLe32 ((logical - 12) * 4) (first_data_block g + of_nat logical))
      [12..<unat (data_block_count g)] (replicate kBlockSize 0)"

definition FreshDirectory :: "string + bytes" where
  "FreshDirectory = EncodeDirectoryEntry
     \<lparr>entry_inode = kRequestLedgerInodeNumber, file_type = kRegular, entry_name = kRequestLedgerName,
      record_length = 0\<rparr> 4096 (replicate kBlockSize 0)"

definition FreshControl :: "Superblock \<Rightarrow> JournalControl" where
  "FreshControl sb = \<lparr>ring_blocks = block_count (journal sb) - kJournalControlBlockCount,
     control_uuid = filesystem_uuid sb, control_generation = 0, head = 0, tail = 0, used_blocks = 0,
     state_flags = 0, next_transaction_id = 1, control_feature_compat = 0,
     control_feature_ro_compat = 0, control_feature_incompat = 0, control_checksum = 0\<rparr>"

text \<open>The writes of the body of the file system, in the order of the source.\<close>

definition block_offset :: "u32 \<Rightarrow> nat" where
  "block_offset b = unat b * kBlockSize"

definition FormatBody :: "Superblock \<Rightarrow> RequestLedgerGeometry \<Rightarrow> u32 \<Rightarrow> u32 \<Rightarrow> string + (nat \<times> bytes) list" where
  "FormatBody sb g user grp =
    bind_result (if geometry_enabled g
        then bind_result FreshDirectory (\<lambda>directory.
             bind_result (EncodeInode (FreshLedgerInode sb g user grp)) (\<lambda>ledger. Inr (directory, ledger)))
        else Inr (replicate kBlockSize 0, replicate kInodeRecordSize 0)) (\<lambda>(directory, ledger).
    bind_result (EncodeInode (FreshRootInode sb g user grp)) (\<lambda>root.
    bind_result (EncodeControl (FreshControl sb)) (\<lambda>(control_bytes, _).
      Inr ([(block_offset (start_block (inode_bitmap sb)), FreshInodeBitmap sb g),
            (block_offset (start_block (block_bitmap sb)), FreshBlockBitmap sb g),
            (block_offset (start_block (inode_table sb)), root),
            (block_offset (start_block (journal sb)), control_bytes),
            (block_offset (start_block (journal sb) + 1), control_bytes)]
         @ (if geometry_enabled g then
              [(block_offset (start_block (inode_table sb)) + kInodeRecordSize, ledger),
               (block_offset (root_directory_block g), directory)]
              @ map (\<lambda>b. (block_offset b, replicate kBlockSize 0)) (ledger_block_numbers g)
              @ (if ledger_indirect_block g \<noteq> 0
                 then [(block_offset (ledger_indirect_block g), FreshLedgerIndirect g)] else [])
            else [])))))"

section \<open>Formatting\<close>

definition CurrentTimeNs :: "errno + int \<times> nat \<Rightarrow> string + u64" where
  "CurrentTimeNs clock = (case clock of
     Inl _ \<Rightarrow> Inl ''clock_gettime''
   | Inr (tv_sec, tv_nsec) \<Rightarrow>
     if tv_sec < 0 \<or> tv_sec > int ((2 ^ 64 - 1 - tv_nsec) div 1000000000)
       then Inl ''current time does not fit the on-disk timestamp''
     else Inr (of_int tv_sec * 1000000000 + of_nat tv_nsec))"

definition uuid_of_random :: "bytes \<Rightarrow> bytes" where
  "uuid_of_random bs = (let bs = bs[6 := bs ! 6 AND 0x0F OR 0x40] in bs[8 := bs ! 8 AND 0x3F OR 0x80])"

definition FormatSuperblock :: "MkfsOptions \<Rightarrow> MkfsEnv \<Rightarrow> string + Superblock \<times> RequestLedgerGeometry" where
  "FormatSuperblock opts env =
    (let size_bytes = option_image_size_bytes opts
     in
     if option_image_path opts = [] \<or> size_bytes = 0 \<or> size_bytes mod 4096 \<noteq> 0
       then Inl ''image path and block-aligned image size are required''
     else
       let total_blocks64 = size_bytes div 4096
       in
       if total_blocks64 > 0xFFFFFFFF \<or> size_bytes > 0x7FFFFFFFFFFFFFFF
         then Inl ''image exceeds the v1 block-number or host offset limit''
       else
         bind_result (BuildSuperblockLayout (ucast total_blocks64) (option_total_inodes opts)
             (option_journal_blocks opts)) (\<lambda>sb.
         bind_result (BuildRequestLedgerGeometry sb (option_request_ledger_entries opts)) (\<lambda>g.
           let sb = (if geometry_enabled g
                 then sb\<lparr>feature_incompat := feature_incompat sb OR kFeatureIncompatRequestLedger\<rparr> else sb)
           in
           case env_random env of
             Inl _ \<Rightarrow> Inl ''getrandom''
           | Inr random \<Rightarrow>
             bind_result (CurrentTimeNs (env_clock env)) (\<lambda>now.
               Inr (sb\<lparr>filesystem_uuid := uuid_of_random random, created_time_ns := now\<rparr>, g)))))"

text \<open>
  \<^term>\<open>existing\<close> is the file at the path before the call, if there is one; the second
  component of the result is the file at the path afterwards.  A failed format of a new
  path removes the file again.
\<close>

definition FormatImage :: "MkfsOptions \<Rightarrow> MkfsEnv \<Rightarrow> bytes option \<Rightarrow> (string + Superblock) \<times> bytes option" where
  "FormatImage opts env existing =
    (case FormatSuperblock opts env of
       Inl e \<Rightarrow> (Inl e, existing)
     | Inr (sb, g) \<Rightarrow>
       if env_open env \<noteq> None \<or> existing \<noteq> None \<and> \<not> option_force opts then (Inl ''open image'', existing)
       else
         let f = (case existing of None \<Rightarrow> [] | Some f \<Rightarrow> f);
             left_behind = (\<lambda>f. if option_force opts then Some f else None)
         in
         if env_flock env \<noteq> None then (Inl ''lock image'', left_behind f)
         else
           let prepare = (if option_force opts then [MkWrite 0 (replicate kBlockSize 0), MkSync] else [])
                 @ [MkTruncate (unat (option_image_size_bytes opts)), MkFallocate (unat (option_image_size_bytes opts))]
           in
           case run_mkfs_ops prepare (env_script env) f of
             (False, _, f) \<Rightarrow> (Inl ''prepare image'', left_behind f)
           | (True, script, f) \<Rightarrow>
             (case FormatBody sb g (env_uid env) (env_gid env) of
                Inl e \<Rightarrow> (Inl e, left_behind f)
              | Inr writes \<Rightarrow>
                (case run_mkfs_ops (map (\<lambda>(offset, bs). MkWrite offset bs) writes @ [MkSync]) script f of
                   (False, _, f) \<Rightarrow> (Inl ''write filesystem body'', left_behind f)
                 | (True, script, f) \<Rightarrow>
                   (case EncodeSuperblock sb of
                      Inl e \<Rightarrow> (Inl e, left_behind f)
                    | Inr superblock_bytes \<Rightarrow>
                      (case run_mkfs_ops [MkWrite 0 superblock_bytes, MkSync] script f of
                         (False, _, f) \<Rightarrow> (Inl ''write superblock'', left_behind f)
                       | (True, _, f) \<Rightarrow> (Inr sb, Some f))))))"

section \<open>Bitmap lemmas\<close>

lemma SetBitmapBit_eq: "SetBitmapBit i bm = SetBit bm (unat i)"
  by (simp add: SetBitmapBit_def SetBit_def)

lemma length_SetBitmapBit [simp]: "length (SetBitmapBit i bm) = length bm"
  by (simp add: SetBitmapBit_def)

lemma BitmapBit_SetBitmapBit:
  "unat i < 8 * length bm \<Longrightarrow> BitmapBit (SetBitmapBit i bm) j \<longleftrightarrow> j = unat i \<or> BitmapBit bm j"
  by (simp add: BitmapBit_TestBit SetBitmapBit_eq TestBit_SetBit mult.commute)

lemma fold_SetBitmapBit:
  assumes "\<forall>i \<in> set is. unat i < 8 * length bm"
  shows "length (fold SetBitmapBit is bm) = length bm"
    "BitmapBit (fold SetBitmapBit is bm) j \<longleftrightarrow> j \<in> unat ` set is \<or> BitmapBit bm j"
  using assms by (induction "is" arbitrary: bm) (auto simp: BitmapBit_SetBitmapBit)

lemma BitmapBit_zeros [simp]: "j < 8 * n \<Longrightarrow> \<not> BitmapBit (replicate n 0) j"
  by (simp add: BitmapBit_def)

lemma bit_all_ones: "bit (0xFF :: byte) k \<longleftrightarrow> k < 8"
proof -
  have "(0xFF :: byte) = mask 8" by (simp add: mask_eq_exp_minus_1)
  then show ?thesis by (simp only: bit_mask_iff) simp
qed

lemma length_SetBitmapPrefix:
  "unat n \<le> 8 * length bm \<Longrightarrow> length (SetBitmapPrefix n bm) = length bm"
  by (auto simp: SetBitmapPrefix_def Let_def)

lemma BitmapBit_SetBitmapPrefix:
  assumes "unat n \<le> 8 * k" "j < 8 * k"
  shows "BitmapBit (SetBitmapPrefix n (replicate k 0)) j \<longleftrightarrow> j < unat n"
proof -
  let ?q = "unat n div 8" and ?m = "unat n mod 8"
  have q: "?q \<le> k" using assms(1) by simp
  have jk: "j div 8 < k" using assms(2) by simp
  consider "j div 8 < ?q" | "j div 8 = ?q" "?m \<noteq> 0" | "j div 8 \<ge> ?q" "?m = 0" | "j div 8 > ?q" by linarith
  then show ?thesis
  proof cases
    case 1
    then have "j < unat n" by (metis div_le_mono not_le)
    moreover have "SetBitmapPrefix n (replicate k 0) ! (j div 8) = 0xFF"
      using 1 by (auto simp: SetBitmapPrefix_def Let_def nth_append)
    ultimately show ?thesis by (simp only: BitmapBit_iff bit_all_ones) simp
  next
    case 2
    have "j < unat n \<longleftrightarrow> j mod 8 < ?m" using 2(1) by (metis add_less_cancel_left div_mult_mod_eq)
    moreover have "SetBitmapPrefix n (replicate k 0) ! (j div 8) = push_bit ?m 1 - 1"
      using 2 jk by (auto simp: SetBitmapPrefix_def Let_def nth_append)
    moreover have "bit (push_bit ?m 1 - 1 :: byte) (j mod 8) \<longleftrightarrow> j mod 8 < ?m"
    proof -
      have "(push_bit ?m 1 - 1 :: byte) = mask ?m" by (simp add: mask_eq_exp_minus_1 push_bit_eq_mult)
      then show ?thesis by (simp only: bit_mask_iff) auto
    qed
    ultimately show ?thesis by (simp add: BitmapBit_iff)
  next
    case 3
    then have "\<not> j < unat n" by (metis div_mult_mod_eq add_0_right div_le_mono not_le div_le_dividend leD less_imp_le_nat less_mult_imp_div_less)
    moreover have "SetBitmapPrefix n (replicate k 0) ! (j div 8) = 0"
      using 3 jk by (auto simp: SetBitmapPrefix_def Let_def nth_append)
    ultimately show ?thesis by (simp add: BitmapBit_iff)
  next
    case 4
    then have "\<not> j < unat n" by (metis div_le_mono leD less_imp_le_nat)
    moreover have "SetBitmapPrefix n (replicate k 0) ! (j div 8) = 0"
      using 4 jk by (auto simp: SetBitmapPrefix_def Let_def nth_append)
    ultimately show ?thesis by (simp add: BitmapBit_iff)
  qed
qed

lemma length_ReserveBitmapTail [simp]:
  "unat n \<le> 8 * length bm \<Longrightarrow> length (ReserveBitmapTail n bm) = length bm"
  by (auto simp: ReserveBitmapTail_def Let_def)

lemma BitmapBit_ReserveBitmapTail:
  assumes "unat n \<le> 8 * length bm" "j < 8 * length bm"
  shows "BitmapBit (ReserveBitmapTail n bm) j \<longleftrightarrow> unat n \<le> j \<or> BitmapBit bm j"
proof -
  let ?q = "unat n div 8" and ?m = "unat n mod 8"
  have jk: "j div 8 < length bm" using assms(2) by simp
  consider "j div 8 < ?q" | "j div 8 = ?q" "?m \<noteq> 0" | "j div 8 \<ge> ?q" "?m = 0" | "j div 8 > ?q" "?m \<noteq> 0" by linarith
  then show ?thesis
  proof cases
    case 1
    then have "j < unat n" by (metis div_le_mono not_le)
    moreover have "ReserveBitmapTail n bm ! (j div 8) = bm ! (j div 8)"
      using 1 jk by (auto simp: ReserveBitmapTail_def Let_def nth_append)
    ultimately show ?thesis by (simp add: BitmapBit_iff)
  next
    case 2
    have "unat n \<le> j \<longleftrightarrow> ?m \<le> j mod 8" using 2(1) by (metis add_le_cancel_left div_mult_mod_eq)
    moreover have "ReserveBitmapTail n bm ! (j div 8) = bm ! (j div 8) OR push_bit ?m 0xFF"
      using 2 jk by (auto simp: ReserveBitmapTail_def Let_def nth_append)
    moreover have "bit (push_bit ?m 0xFF :: byte) (j mod 8) \<longleftrightarrow> ?m \<le> j mod 8"
      by (simp only: bit_push_bit_iff bit_all_ones) (auto simp: less_imp_diff_less)
    ultimately show ?thesis by (auto simp: BitmapBit_iff bit_or_iff)
  next
    case 3
    then have "unat n \<le> j" by (metis div_mult_mod_eq add_0_right div_mult2_eq times_div_less_eq_dividend mult_le_mono1 le_trans mult.commute)
    moreover have "ReserveBitmapTail n bm ! (j div 8) = 0xFF"
      using 3 jk by (auto simp: ReserveBitmapTail_def Let_def nth_append)
    ultimately show ?thesis by (simp only: BitmapBit_iff bit_all_ones) simp
  next
    case 4
    then have "unat n \<le> j" by (metis div_le_mono leD leI less_imp_le_nat)
    moreover have "ReserveBitmapTail n bm ! (j div 8) = 0xFF"
      using 4 jk by (auto simp: ReserveBitmapTail_def Let_def nth_append)
    ultimately show ?thesis by (simp only: BitmapBit_iff bit_all_ones) simp
  qed
qed

section \<open>The written file\<close>

definition put_all :: "(nat \<times> bytes) list \<Rightarrow> bytes \<Rightarrow> bytes" where
  "put_all ws f = fold (\<lambda>(offset, bs). put_bytes offset bs) ws f"

definition apart :: "nat \<times> bytes \<Rightarrow> nat \<times> bytes \<Rightarrow> bool" where
  "apart x y \<longleftrightarrow> fst x + length (snd x) \<le> fst y \<or> fst y + length (snd y) \<le> fst x"

definition inside :: "nat \<Rightarrow> nat \<times> bytes \<Rightarrow> bool" where
  "inside n x \<longleftrightarrow> fst x + length (snd x) \<le> n"

lemma length_put_all [simp]: "length (put_all ws f) = length f"
  by (induction ws arbitrary: f) (auto simp: put_all_def)

lemma put_all_other:
  assumes "\<forall>w \<in> set ws. fst w + length (snd w) \<le> offset \<or> offset + k \<le> fst w"
    and "\<forall>w \<in> set ws. inside (length f) w" "offset + k \<le> length f"
  shows "get_bytes offset k (put_all ws f) = get_bytes offset k f"
  using assms
proof (induction ws arbitrary: f)
  case (Cons w ws)
  obtain o' b where w: "w = (o', b)" by (cases w)
  have "get_bytes offset k (put_all (w # ws) f) = get_bytes offset k (put_bytes o' b f)"
    using Cons by (simp add: put_all_def w)
  also have "\<dots> = get_bytes offset k f"
    using Cons.prems by (intro get_put_other) (auto simp: w inside_def)
  finally show ?case .
qed (simp add: put_all_def)

lemma put_all_get:
  assumes "sorted_wrt apart ws" "(offset, b) \<in> set ws" "\<forall>w \<in> set ws. inside (length f) w"
  shows "get_bytes offset (length b) (put_all ws f) = b"
  using assms
proof (induction ws arbitrary: f)
  case (Cons w ws)
  show ?case
  proof (cases "(offset, b) \<in> set ws")
    case True
    then show ?thesis using Cons by (auto simp: put_all_def split: prod.splits)
  next
    case False
    then have w: "w = (offset, b)" using Cons.prems(2) by simp
    have "get_bytes offset (length b) (put_all ws (put_bytes offset b f)) = get_bytes offset (length b) (put_bytes offset b f)"
      using Cons.prems w by (intro put_all_other) (auto simp: apart_def inside_def)
    then show ?thesis using Cons.prems(3) w by (simp add: put_all_def get_put_same inside_def)
  qed
qed simp

lemma run_mkfs_ops_success:
  "run_mkfs_ops ops script f = (True, script', f') \<Longrightarrow> f' = fold mkfs_effect ops f"
  by (induction ops script f rule: run_mkfs_ops.induct) auto

lemma file_write_inside: "offset + length bs \<le> length f \<Longrightarrow> file_write offset bs f = put_bytes offset bs f"
  by (simp add: file_write_def)

lemma fold_mkfs_writes:
  assumes "\<forall>w \<in> set ws. inside (length f) w"
  shows "fold mkfs_effect (map (\<lambda>(offset, bs). MkWrite offset bs) ws @ [MkSync]) f = put_all ws f"
  using assms
proof (induction ws arbitrary: f)
  case (Cons w ws)
  obtain o' b where w: "w = (o', b)" by (cases w)
  then show ?case using Cons by (simp add: put_all_def file_write_inside inside_def)
qed (simp add: put_all_def)

text \<open>What a read of a whole block of the file yields.\<close>

definition file_pread :: "bytes \<Rightarrow> nat \<Rightarrow> errno + bytes" where
  "file_pread f n = (if (n + 1) * kBlockSize \<le> length f then Inr (get_bytes (n * kBlockSize) kBlockSize f) else Inl EIO)"

lemma get_bytes_in_block:
  assumes "offset mod s + k \<le> s" "(offset div s + 1) * s \<le> length f"
  shows "get_bytes (offset mod s) k (get_bytes (offset div s * s) s f) = get_bytes offset k f"
proof -
  have "offset div s * s + offset mod s = offset" by simp
  with assms show ?thesis by (simp add: get_bytes_def drop_take add.commute min_def)
qed

lemma ReadExact_file:
  assumes "reader_pread r = file_pread f" "reader_image_size r = length f"
    and "offset mod 4096 + k \<le> 4096" "(offset div 4096 + 1) * 4096 \<le> length f"
  shows "ReadExact r offset k = Inr (get_bytes offset k f)"
proof -
  have "offset + k \<le> (offset div 4096 + 1) * 4096" using assms(3) by (rule end_inside)
  then have le: "offset + k \<le> length f" using assms(4) by linarith
  have "file_pread f (offset div 4096) = Inr (get_bytes (offset div 4096 * 4096) 4096 f)"
    using assms(4) by (simp add: file_pread_def)
  moreover have "length (get_bytes (offset div 4096 * 4096) 4096 f) = 4096" using assms(4) by simp
  ultimately show ?thesis using assms le get_bytes_in_block [OF assms(3,4)] by (simp add: ReadExact_def)
qed

lemma ReadRegionBlocks_file:
  assumes "(first + n) * 4096 \<le> length f"
  shows "ReadRegionBlocks (file_pread f) first n = Inr (get_bytes (first * 4096) (n * 4096) f)"
  using assms
proof (induction n arbitrary: first)
  case (Suc n)
  have "file_pread f first = Inr (get_bytes (first * 4096) 4096 f)"
    using Suc.prems by (simp add: file_pread_def)
  moreover have "length (get_bytes (first * 4096) 4096 f) = 4096" using Suc.prems by simp
  moreover have "ReadRegionBlocks (file_pread f) (first + 1) n = Inr (get_bytes ((first + 1) * 4096) (n * 4096) f)"
    using Suc.prems by (intro Suc.IH) simp
  moreover have "get_bytes (first * 4096) (Suc n * 4096) f
      = get_bytes (first * 4096) 4096 f @ get_bytes ((first + 1) * 4096) (n * 4096) f"
    using get_bytes_add [of "first * 4096" 4096 "n * 4096" f] by (simp add: add.commute)
  ultimately show ?case by simp
qed (simp add: get_bytes_def)

section \<open>Geometry of a fresh image\<close>

lemma ValidateSuperblock_identity [simp]:
  "ValidateSuperblock (v\<lparr>feature_incompat := x\<rparr>) = ValidateSuperblock v"
  "ValidateSuperblock (v\<lparr>filesystem_uuid := u\<rparr>) = ValidateSuperblock v"
  "ValidateSuperblock (v\<lparr>created_time_ns := t\<rparr>) = ValidateSuperblock v"
  by (simp_all add: ValidateSuperblock_def Let_def cong: if_cong)

text \<open>The blocks of the root directory and of the ledger follow the metadata one after the other.\<close>

definition geometry_ok :: "Superblock \<Rightarrow> RequestLedgerGeometry \<Rightarrow> bool" where
  "geometry_ok sb g \<longleftrightarrow>
    (let n = unat (data_block_count g); start = unat (start_block (data sb))
     in 1 \<le> n \<and> n \<le> 1036 \<and> unat (ledger_entry_count g) = 32 * n \<and> 3 \<le> unat (total_inodes sb)
        \<and> unat (root_directory_block g) = start \<and> unat (first_data_block g) = start + 1
        \<and> unat (ledger_indirect_block g) = (if n > 12 then start + 1 + n else 0)
        \<and> unat (ledger_file_size g) = n * 4096
        \<and> start + 1 + n + (if n > 12 then 1 else 0) < unat (total_blocks sb))"

lemma BuildRequestLedgerGeometry_ok:
  assumes "BuildRequestLedgerGeometry sb m = Inr g" "geometry_enabled g" "ValidateSuperblock sb = Inr ()"
  shows "geometry_ok sb g" "ledger_entry_count g = m"
proof -
  have en: "m \<noteq> 0" using assms(1,2) by (auto simp: BuildRequestLedgerGeometry_def geometry_enabled_def)
  define d where "d = m div 32"
  define start where "start = unat (start_block (data sb))"
  from en assms(1) have c: "m mod 32 = 0" "d \<noteq> 0" "\<not> 1036 < d" "\<not> total_inodes sb \<le> 2"
    "\<not> block_count (data sb) \<le> 1 + d + (if 12 < d then 1 else 0)"
    and g: "g = \<lparr>ledger_entry_count = m, data_block_count = d,
       root_directory_block = start_block (data sb), first_data_block = start_block (data sb) + 1,
       ledger_indirect_block = (if 12 < d then start_block (data sb) + 1 + d else 0),
       ledger_file_size = ucast m * 128\<rparr>"
    unfolding BuildRequestLedgerGeometry_def Let_def d_def kRequestLedgerInodeNumber_def
    by (auto split: if_splits simp del: mod_0_imp_dvd)
  have n: "1 \<le> unat d" "unat d \<le> 1036" using c(2,3) by (simp_all add: unat_gt_0 Suc_le_eq word_less_nat_alt)
  have "unat (m mod 32) = 0" using c(1) by simp
  then have m: "unat m = 32 * unat d" unfolding d_def unat_div unat_mod using mult_div_mod_eq [of 32 "unat m"] by simp
  have "unat (1 + d + (if 12 < d then 1 else 0)) = 1 + unat d + (if 12 < unat d then 1 else 0)"
    using n by (simp add: unat_word_ariths word_less_nat_alt)
  then have dc: "1 + unat d + (if 12 < unat d then 1 else 0) < unat (block_count (data sb))"
    using c(5) by (simp add: word_le_nat_alt)
  have tot: "start + unat (block_count (data sb)) = unat (total_blocks sb)"
    using ValidateSuperblock_layout_aux(6) [OF assms(3)] by (simp add: region_end_def start_def)
  have b: "start + 1 + unat d + (if 12 < unat d then 1 else 0) < unat (total_blocks sb)" using dc tot by simp
  have bound: "unat (total_blocks sb) < 4294967296" by (rule u32_bound)
  have f: "unat (start_block (data sb) + 1) = start + 1"
    using b bound unfolding start_def by (subst unat_add_u32) auto
  have i: "12 < unat d \<Longrightarrow> unat (start_block (data sb) + 1 + d) = start + 1 + unat d"
    using b bound f by (subst unat_add_u32) auto
  have s: "unat (ucast m * 128 :: u64) = unat d * 4096"
    using m n by (simp add: unat_word_ariths)
  show "geometry_ok sb g"
    using n m f i s b c(4) by (simp add: geometry_ok_def g Let_def start_def word_less_nat_alt word_le_nat_alt)
  show "ledger_entry_count g = m" by (simp add: g)
qed

lemma FormatSuperblock_ok:
  assumes "FormatSuperblock opts env = Inr (sb, g)" "env_random env = Inr random" "length random = 16"
  shows "ValidateSuperblock sb = Inr ()" "length (filesystem_uuid sb) = 16" "root_inode sb = 1"
    "unat (option_image_size_bytes opts) = unat (total_blocks sb) * 4096"
    "feature_incompat sb = (if geometry_enabled g then 1 else 0)"
    "geometry_enabled g \<Longrightarrow> geometry_ok sb g" "ledger_entry_count g = option_request_ledger_entries opts"
proof -
  let ?s = "option_image_size_bytes opts"
  obtain sb0 g0 now where s: "\<not> (option_image_path opts = [] \<or> ?s = 0 \<or> ?s mod 4096 \<noteq> 0)"
      "\<not> (0xFFFFFFFF < ?s div 4096 \<or> 0x7FFFFFFFFFFFFFFF < ?s)"
    and b: "BuildSuperblockLayout (ucast (?s div 4096)) (option_total_inodes opts) (option_journal_blocks opts) = Inr sb0"
    and g0: "BuildRequestLedgerGeometry sb0 (option_request_ledger_entries opts) = Inr g0" "g0 = g"
    and sb0: "(if geometry_enabled g0 then sb0\<lparr>feature_incompat := feature_incompat sb0 OR kFeatureIncompatRequestLedger\<rparr>
        else sb0)\<lparr>filesystem_uuid := uuid_of_random random, created_time_ns := now\<rparr> = sb"
    using assms(1)
    unfolding FormatSuperblock_def Let_def guard_Inr bind_result_Inr_iff assms(2) sum.case sum.inject prod.inject
    by (elim conjE exE) (rule that)
  note g = g0(1) [unfolded g0(2)] and sb = sb0 [symmetric, unfolded g0(2)]
  have v: "ValidateSuperblock sb0 = Inr ()" "total_blocks sb0 = ucast (?s div 4096)" "root_inode sb0 = 1"
    "feature_incompat sb0 = 0"
    using b by (auto simp: BuildSuperblockLayout_def Let_def bind_result_Inr_iff)
  show "ValidateSuperblock sb = Inr ()" using v by (simp add: sb)
  show "length (filesystem_uuid sb) = 16" using assms(3) by (simp add: sb uuid_of_random_def Let_def)
  show "root_inode sb = 1" using v by (simp add: sb)
  have "unat ?s mod 4096 = 0" using s(1) unat_mod [of ?s 4096] by simp
  moreover have "unat (ucast (?s div 4096) :: u32) = unat ?s div 4096"
    using s(2) by (subst unat_ucast_u32) (simp_all add: word_less_nat_alt unat_div)
  ultimately show "unat ?s = unat (total_blocks sb) * 4096" using v by (simp add: sb mod_0_imp_dvd)
  show "feature_incompat sb = (if geometry_enabled g then 1 else 0)"
    using v by (simp add: sb kFeatureIncompatRequestLedger_def)
  show "geometry_ok sb g" if "geometry_enabled g"
    using BuildRequestLedgerGeometry_ok(1) [OF g that v(1)] that by (simp add: sb geometry_ok_def Let_def)
  show "ledger_entry_count g = option_request_ledger_entries opts"
    using g by (auto simp: BuildRequestLedgerGeometry_def Let_def split: if_splits)
qed

lemma ledger_block_numbers_ok:
  assumes "geometry_ok sb g"
  shows "length (ledger_block_numbers g) = unat (data_block_count g)"
    "\<And>i. i < unat (data_block_count g) \<Longrightarrow> unat (ledger_block_numbers g ! i) = unat (start_block (data sb)) + 1 + i"
    "unat ` set (ledger_block_numbers g)
      = {unat (start_block (data sb)) + 1..<unat (start_block (data sb)) + 1 + unat (data_block_count g)}"
proof -
  let ?n = "unat (data_block_count g)" and ?start = "unat (start_block (data sb))"
  show len: "length (ledger_block_numbers g) = ?n" by (simp add: ledger_block_numbers_def)
  show nth: "unat (ledger_block_numbers g ! i) = ?start + 1 + i" if "i < ?n" for i
  proof -
    have u: "unat (of_nat i :: u32) = i" using that assms by (intro unat_of_nat_small) (simp add: geometry_ok_def Let_def)
    have "unat (first_data_block g + of_nat i) = ?start + 1 + i"
      using that assms u u32_bound [of "total_blocks sb"]
      by (subst unat_add_u32) (auto simp: geometry_ok_def Let_def split: if_splits)
    then show ?thesis using that by (simp add: ledger_block_numbers_def)
  qed
  have "unat ` set (ledger_block_numbers g) = (\<lambda>i. ?start + 1 + i) ` {0..<?n}"
    unfolding set_conv_nth len using nth by force
  also have "\<dots> = {?start + 1..<?start + 1 + ?n}"
  proof (intro set_eqI iffI)
    fix x assume "x \<in> {?start + 1..<?start + 1 + ?n}"
    then have "x = ?start + 1 + (x - (?start + 1))" "x - (?start + 1) \<in> {0..<?n}" by auto
    then show "x \<in> (\<lambda>i. ?start + 1 + i) ` {0..<?n}" by (rule image_eqI)
  qed auto
  finally show "unat ` set (ledger_block_numbers g) = {?start + 1..<?start + 1 + ?n}" .
qed

section \<open>The file of a fresh image\<close>

definition ledger_entry :: DirectoryEntry where
  "ledger_entry = \<lparr>entry_inode = kRequestLedgerInodeNumber, file_type = kRegular,
     entry_name = kRequestLedgerName, record_length = 4096\<rparr>"

definition fresh_file :: "Superblock \<Rightarrow> RequestLedgerGeometry \<Rightarrow> u32 \<Rightarrow> u32 \<Rightarrow> bytes \<Rightarrow> bool" where
  "fresh_file sb g user grp f \<longleftrightarrow> length f = unat (total_blocks sb) * 4096
    \<and> DecodeSuperblock (get_bytes 0 4096 f) = Inr sb
    \<and> get_bytes (region_start (inode_bitmap sb) * 4096) (unat (block_count (inode_bitmap sb)) * 4096) f
        = FreshInodeBitmap sb g
    \<and> get_bytes (region_start (block_bitmap sb) * 4096) (unat (block_count (block_bitmap sb)) * 4096) f
        = FreshBlockBitmap sb g
    \<and> DecodeInode (get_bytes (region_start (inode_table sb) * 4096) 128 f) 1 = Inr (FreshRootInode sb g user grp)
    \<and> (\<exists>k. DecodeControl (get_bytes (region_start (journal sb) * 4096) 4096 f)
          = Inr ((FreshControl sb)\<lparr>control_checksum := k\<rparr>))
    \<and> get_bytes ((region_start (journal sb) + 1) * 4096) 4096 f = get_bytes (region_start (journal sb) * 4096) 4096 f
    \<and> (geometry_enabled g \<longrightarrow>
        DecodeInode (get_bytes (region_start (inode_table sb) * 4096 + 128) 128 f) 2
          = Inr (FreshLedgerInode sb g user grp)
        \<and> DecodeDirectoryEntry (get_bytes (region_start (data sb) * 4096) 4096 f) = Inr ledger_entry
        \<and> (\<forall>i < unat (data_block_count g).
             get_bytes ((region_start (data sb) + 1 + i) * 4096) 4096 f = replicate 4096 0)
        \<and> (unat (data_block_count g) > 12 \<longrightarrow>
             get_bytes ((region_start (data sb) + 1 + unat (data_block_count g)) * 4096) 4096 f = FreshLedgerIndirect g))"

lemma bitmap_bits:
  assumes "ValidateSuperblock sb = Inr ()"
  shows "unat (total_inodes sb) \<le> 8 * (unat (block_count (inode_bitmap sb)) * 4096)"
    "unat (total_blocks sb) \<le> 8 * (unat (block_count (block_bitmap sb)) * 4096)"
proof -
  have "x \<le> (x + 32767) div 32768 * 32768" for x :: nat
    using mult_div_mod_eq [of 32768 "x + 32767"] mod_less_divisor [of 32768 "x + 32767"] by linarith
  then show "unat (total_inodes sb) \<le> 8 * (unat (block_count (inode_bitmap sb)) * 4096)"
    "unat (total_blocks sb) \<le> 8 * (unat (block_count (block_bitmap sb)) * 4096)"
    unfolding ValidateSuperblock_layout_aux(7,8) [OF assms] by (simp_all add: mult.commute)
qed

lemma length_FreshInodeBitmap:
  assumes "ValidateSuperblock sb = Inr ()"
  shows "length (FreshInodeBitmap sb g) = unat (block_count (inode_bitmap sb)) * 4096"
  using bitmap_bits(1) [OF assms] by (simp add: FreshInodeBitmap_def Let_def)

lemma ledger_numbers_small:
  assumes "ValidateSuperblock sb = Inr ()" "geometry_ok sb g"
  shows "\<forall>b \<in> set (ledger_block_numbers g). unat b < unat (total_blocks sb)"
proof
  fix b assume "b \<in> set (ledger_block_numbers g)"
  then have "unat b \<in> unat ` set (ledger_block_numbers g)" by blast
  then have "unat b < unat (start_block (data sb)) + 1 + unat (data_block_count g)"
    unfolding ledger_block_numbers_ok(3) [OF assms(2)] by simp
  then show "unat b < unat (total_blocks sb)" using assms(2) by (simp add: geometry_ok_def Let_def split: if_splits)
qed

lemma FreshBlockBitmap_ok:
  assumes "ValidateSuperblock sb = Inr ()" "geometry_enabled g \<Longrightarrow> geometry_ok sb g"
  shows "length (FreshBlockBitmap sb g) = unat (block_count (block_bitmap sb)) * 4096"
    "j < 8 * (unat (block_count (block_bitmap sb)) * 4096) \<Longrightarrow> BitmapBit (FreshBlockBitmap sb g) j \<longleftrightarrow>
      unat (total_blocks sb) \<le> j \<or> j < unat (start_block (data sb))
      \<or> geometry_enabled g \<and> j < unat (start_block (data sb)) + 1 + unat (data_block_count g)
          + (if unat (data_block_count g) > 12 then 1 else 0)"
proof -
  let ?k = "unat (block_count (block_bitmap sb)) * 4096"
  let ?s = "unat (start_block (data sb))"
  note tot = bitmap_bits(2) [OF assms(1)]
  have s: "?s \<le> unat (total_blocks sb)"
    using ValidateSuperblock_layout_aux(6) [OF assms(1)] by (simp add: region_end_def)
  define b0 :: bytes where "b0 = SetBitmapPrefix (start_block (data sb)) (replicate ?k 0)"
  have l0: "length b0 = ?k" unfolding b0_def using tot s by (subst length_SetBitmapPrefix) simp_all
  have t0: "BitmapBit b0 j \<longleftrightarrow> j < ?s" if "j < 8 * ?k" for j
    unfolding b0_def using tot s that by (intro BitmapBit_SetBitmapPrefix) simp_all
  define b1 where "b1 = (if geometry_enabled g then
      let b = fold SetBitmapBit (ledger_block_numbers g) (SetBitmapBit (root_directory_block g) b0)
      in if ledger_indirect_block g \<noteq> 0 then SetBitmapBit (ledger_indirect_block g) b else b else b0)"
  have fresh: "FreshBlockBitmap sb g = ReserveBitmapTail (total_blocks sb) b1"
    by (simp add: FreshBlockBitmap_def b1_def b0_def Let_def)
  have one: "length b1 = ?k \<and> (\<forall>j < 8 * ?k. BitmapBit b1 j \<longleftrightarrow> j < ?s
      \<or> geometry_enabled g \<and> j < ?s + 1 + unat (data_block_count g) + (if unat (data_block_count g) > 12 then 1 else 0))"
  proof (cases "geometry_enabled g")
    case True
    note ok = assms(2) [OF True]
    note u = ok [unfolded geometry_ok_def Let_def]
    have inb: "unat (root_directory_block g) < 8 * length b0" "unat (ledger_indirect_block g) < 8 * length b0"
      using u tot l0 by (auto split: if_splits)
    have rd: "unat (root_directory_block g) = ?s" and ind: "unat (data_block_count g) > 12 \<Longrightarrow>
        unat (ledger_indirect_block g) = ?s + 1 + unat (data_block_count g)" using u by simp_all
    have ls: "\<forall>b \<in> set (ledger_block_numbers g). unat b < 8 * length (SetBitmapBit (root_directory_block g) b0)"
      using ledger_numbers_small [OF assms(1) ok] tot l0 by force
    note fs = fold_SetBitmapBit [OF ls]
    define b where "b = fold SetBitmapBit (ledger_block_numbers g) (SetBitmapBit (root_directory_block g) b0)"
    have lb: "length b = ?k" unfolding b_def using fs(1) l0 by simp
    have tb: "BitmapBit b j \<longleftrightarrow> j < ?s + 1 + unat (data_block_count g)" if "j < 8 * ?k" for j
    proof -
      have "BitmapBit (SetBitmapBit (root_directory_block g) b0) j \<longleftrightarrow> j = ?s \<or> j < ?s"
        using t0 [OF that] rd by (simp add: BitmapBit_SetBitmapBit [OF inb(1)])
      then show ?thesis unfolding b_def fs(2) ledger_block_numbers_ok(3) [OF ok] by auto
    qed
    have nz: "ledger_indirect_block g \<noteq> 0 \<longleftrightarrow> unat (data_block_count g) > 12"
      using u by (auto simp: unat_eq_0 split: if_splits)
    have iff: "BitmapBit (SetBitmapBit (ledger_indirect_block g) b) j
        \<longleftrightarrow> j < ?s + 1 + unat (data_block_count g) + 1" if "j < 8 * ?k" "unat (data_block_count g) > 12" for j
      using tb [OF that(1)] ind [OF that(2)] inb(2) lb l0 BitmapBit_SetBitmapBit [of "ledger_indirect_block g" b j]
      by auto
    have "b1 = (if ledger_indirect_block g \<noteq> 0 then SetBitmapBit (ledger_indirect_block g) b else b)"
      using True by (simp add: b1_def b_def)
    then show ?thesis using True lb tb iff nz by auto
  next
    case False
    then show ?thesis using l0 t0 by (simp add: b1_def)
  qed
  show "length (FreshBlockBitmap sb g) = ?k" unfolding fresh using one tot by simp
  show "BitmapBit (FreshBlockBitmap sb g) j \<longleftrightarrow>
      unat (total_blocks sb) \<le> j \<or> j < ?s
      \<or> geometry_enabled g \<and> j < ?s + 1 + unat (data_block_count g)
          + (if unat (data_block_count g) > 12 then 1 else 0)" if "j < 8 * ?k"
    unfolding fresh using one that tot by (subst BitmapBit_ReserveBitmapTail) auto
qed

lemma FreshInodeBitmap_bits:
  assumes "ValidateSuperblock sb = Inr ()" "root_inode sb = 1" "geometry_enabled g \<Longrightarrow> geometry_ok sb g"
    and "j < 8 * (unat (block_count (inode_bitmap sb)) * 4096)"
  shows "BitmapBit (FreshInodeBitmap sb g) j \<longleftrightarrow> unat (total_inodes sb) \<le> j \<or> j = 0 \<or> geometry_enabled g \<and> j = 1"
proof -
  let ?k = "unat (block_count (inode_bitmap sb)) * 4096"
  note tot = bitmap_bits(1) [OF assms(1)] ValidateSuperblock_layout_aux(12,13) [OF assms(1)]
  define b where "b = SetBitmapBit (root_inode sb - 1) (replicate ?k 0)"
  have lb: "length b = ?k" by (simp add: b_def)
  have b: "BitmapBit b j \<longleftrightarrow> j = 0"
    unfolding b_def using tot assms(2,4) by (subst BitmapBit_SetBitmapBit) auto
  define b1 where "b1 = (if geometry_enabled g then SetBitmapBit (kRequestLedgerInodeNumber - 1) b else b)"
  have "BitmapBit b1 j \<longleftrightarrow> j = 0 \<or> geometry_enabled g \<and> j = 1"
  proof (cases "geometry_enabled g")
    case True
    have "3 \<le> unat (total_inodes sb)" using assms(3) [OF True] by (simp add: geometry_ok_def Let_def)
    then show ?thesis
      using True b tot lb BitmapBit_SetBitmapBit [of "kRequestLedgerInodeNumber - 1" b j]
      by (auto simp: b1_def kRequestLedgerInodeNumber_def)
  qed (use b in \<open>simp add: b1_def\<close>)
  moreover have "FreshInodeBitmap sb g = ReserveBitmapTail (total_inodes sb) b1"
    by (simp add: FreshInodeBitmap_def b1_def b_def Let_def)
  moreover have "length b1 = ?k" by (simp add: b1_def lb)
  ultimately show ?thesis using tot assms(4) BitmapBit_ReserveBitmapTail [of "total_inodes sb" b1 j] by auto
qed

lemma FreshDirectory_ok:
  "\<exists>d. FreshDirectory = Inr d \<and> length d = 4096 \<and> DecodeDirectoryEntry d = Inr ledger_entry"
proof -
  let ?v = "\<lparr>entry_inode = kRequestLedgerInodeNumber, file_type = kRegular, entry_name = kRequestLedgerName,
      record_length = 0\<rparr>"
  have n: "IsValidName kRequestLedgerName" "length kRequestLedgerName = 20"
    by (simp_all add: IsValidName_def kRequestLedgerName_def)
  then obtain d where d: "FreshDirectory = Inr d"
    by (simp add: FreshDirectory_def EncodeDirectoryEntry_def IsKnownDirectoryFileType_def Let_def
        kRequestLedgerInodeNumber_def MinimumDirectoryRecordLength_eq)
  then show ?thesis using directory_entry_codec [of ?v 4096 "replicate 4096 0" d]
    by (simp add: FreshDirectory_def ledger_entry_def)
qed

lemma FreshRootInode_codec:
  assumes "root_inode sb = 1"
  shows "\<exists>bs. EncodeInode (FreshRootInode sb g user grp) = Inr bs \<and> length bs = 128
    \<and> DecodeInode bs 1 = Inr (FreshRootInode sb g user grp)"
proof -
  let ?v = "FreshRootInode sb g user grp"
  have "inode_number ?v = 1" "IsKnownMode (mode ?v)" "file_size ?v \<le> kMaxFileSize" "length (direct_blocks ?v) = 12"
    using assms by (simp_all add: FreshRootInode_def IsKnownMode_def kMaxFileSize_def Let_def)
  then show ?thesis using inode_roundtrip [of ?v] by simp
qed

lemma FreshLedgerInode_codec:
  assumes "geometry_ok sb g"
  shows "\<exists>bs. EncodeInode (FreshLedgerInode sb g user grp) = Inr bs \<and> length bs = 128
    \<and> DecodeInode bs 2 = Inr (FreshLedgerInode sb g user grp)"
proof -
  let ?v = "FreshLedgerInode sb g user grp"
  have "ledger_file_size g \<le> kMaxFileSize"
    using assms by (simp add: geometry_ok_def Let_def word_le_nat_alt kMaxFileSize_def)
  then have "inode_number ?v = 2" "IsKnownMode (mode ?v)" "file_size ?v \<le> kMaxFileSize" "length (direct_blocks ?v) = 12"
    using ledger_block_numbers_ok(1) [OF assms]
    by (simp_all add: FreshLedgerInode_def IsKnownMode_def kRequestLedgerInodeNumber_def)
  then show ?thesis using inode_roundtrip [of ?v] by simp
qed

lemma FreshControl_codec:
  assumes "ValidateSuperblock sb = Inr ()" "length (filesystem_uuid sb) = 16"
  obtains cb k where "EncodeControl (FreshControl sb) = Inr (cb, k)" "length cb = 4096"
    "DecodeControl cb = Inr ((FreshControl sb)\<lparr>control_checksum := k\<rparr>)"
proof -
  have "unat (block_count (journal sb) - 2) = unat (block_count (journal sb)) - 2"
    using ValidateSuperblock_layout_aux(10) [OF assms(1)] by (subst unat_sub) (simp_all add: word_le_nat_alt)
  then have "ValidateControlFields (FreshControl sb) = Inr ()"
    using ValidateSuperblock_layout_aux(10) [OF assms(1)] by (simp add: ValidateControlFields_nat FreshControl_def)
  then show ?thesis using control_roundtrip [of "FreshControl sb"] assms(2) that by (auto simp: FreshControl_def)
qed

lemma length_FreshLedgerIndirect:
  assumes "unat (data_block_count g) \<le> 1036"
  shows "length (FreshLedgerIndirect g) = 4096"
proof -
  have "length (fold (\<lambda>logical. PutLe32 ((logical - 12) * 4) (first_data_block g + of_nat logical)) xs d) = length d" for xs d
    by (induction xs arbitrary: d) auto
  then show ?thesis by (simp add: FreshLedgerIndirect_def)
qed

lemma apart_blocks: "sorted_wrt apart (map (\<lambda>i. ((s + i) * 4096, replicate 4096 x)) [0..<n])"
  unfolding sorted_wrt_map by (rule sorted_wrt_mono_rel [OF _ sorted_wrt_upt]) (auto simp: apart_def)

text \<open>
  The body of a fresh image at its block numbers: the metadata, the root directory with
  the ledger inode, and the ledger itself.
\<close>

definition fresh_metadata :: "Superblock \<Rightarrow> RequestLedgerGeometry \<Rightarrow> bytes \<Rightarrow> bytes \<Rightarrow> (nat \<times> bytes) list" where
  "fresh_metadata sb g root cb = [(region_start (inode_bitmap sb) * 4096, FreshInodeBitmap sb g),
      (region_start (block_bitmap sb) * 4096, FreshBlockBitmap sb g),
      (region_start (inode_table sb) * 4096, root), (region_start (journal sb) * 4096, cb),
      ((region_start (journal sb) + 1) * 4096, cb)]"

definition fresh_directory :: "Superblock \<Rightarrow> RequestLedgerGeometry \<Rightarrow> bytes \<Rightarrow> bytes \<Rightarrow> (nat \<times> bytes) list" where
  "fresh_directory sb g l d = (if geometry_enabled g
     then [(region_start (inode_table sb) * 4096 + 128, l), (region_start (data sb) * 4096, d)] else [])"

definition fresh_ledger :: "Superblock \<Rightarrow> RequestLedgerGeometry \<Rightarrow> (nat \<times> bytes) list" where
  "fresh_ledger sb g = (let n = unat (data_block_count g); ds = region_start (data sb) in
     if geometry_enabled g
     then map (\<lambda>i. ((ds + 1 + i) * 4096, replicate 4096 0)) [0..<n]
       @ (if n > 12 then [((ds + 1 + n) * 4096, FreshLedgerIndirect g)] else []) else [])"

text \<open>The encodings of a fresh image.\<close>

definition fresh_codes :: "Superblock \<Rightarrow> RequestLedgerGeometry \<Rightarrow> u32 \<Rightarrow> u32 \<Rightarrow> bytes \<Rightarrow> bytes \<Rightarrow> bytes \<Rightarrow> bytes \<Rightarrow> bool" where
  "fresh_codes sb g user grp root cb l d \<longleftrightarrow> length cb = 4096 \<and> length root = 128 \<and> length d = 4096
    \<and> (\<exists>k. DecodeControl cb = Inr ((FreshControl sb)\<lparr>control_checksum := k\<rparr>))
    \<and> DecodeInode root 1 = Inr (FreshRootInode sb g user grp) \<and> DecodeDirectoryEntry d = Inr ledger_entry
    \<and> (geometry_enabled g \<longrightarrow> length l = 128 \<and> DecodeInode l 2 = Inr (FreshLedgerInode sb g user grp))"

definition format_ok :: "Superblock \<Rightarrow> RequestLedgerGeometry \<Rightarrow> bool" where
  "format_ok sb g \<longleftrightarrow> ValidateSuperblock sb = Inr () \<and> length (filesystem_uuid sb) = 16 \<and> root_inode sb = 1
    \<and> (geometry_enabled g \<longrightarrow> geometry_ok sb g)"

lemma fresh_positions:
  assumes "format_ok sb g"
  shows "region_start (inode_bitmap sb) = 1" "region_start (inode_table sb) + 1 \<le> region_start (journal sb)"
    "region_start (journal sb) + 2 \<le> region_start (data sb)" "region_start (data sb) < unat (total_blocks sb)"
    "region_start (block_bitmap sb) * 4096 = 4096 + length (FreshInodeBitmap sb g)"
    "region_start (inode_table sb) * 4096 = region_start (block_bitmap sb) * 4096 + length (FreshBlockBitmap sb g)"
    "unat (start_block (journal sb) + 1) = region_start (journal sb) + 1"
proof -
  have v: "ValidateSuperblock sb = Inr ()" and g: "geometry_enabled g \<Longrightarrow> geometry_ok sb g"
    using assms by (simp_all add: format_ok_def)
  note reg = ValidateSuperblock_layout_aux [OF v, unfolded region_end_def region_start_def]
  have "1 \<le> (unat (total_inodes sb) * 128 + 4095) div 4096"
    using reg(12,13) div_le_mono [of 4096 "unat (total_inodes sb) * 128 + 4095" 4096] by simp
  then show "region_start (inode_table sb) + 1 \<le> region_start (journal sb)"
    using reg(4,9) by (simp add: region_start_def)
  show "region_start (inode_bitmap sb) = 1"
    "region_start (journal sb) + 2 \<le> region_start (data sb)" "region_start (data sb) < unat (total_blocks sb)"
    "region_start (block_bitmap sb) * 4096 = 4096 + length (FreshInodeBitmap sb g)"
    "region_start (inode_table sb) * 4096 = region_start (block_bitmap sb) * 4096 + length (FreshBlockBitmap sb g)"
    using reg length_FreshInodeBitmap [OF v] FreshBlockBitmap_ok(1) [OF v g] by (simp_all add: region_start_def)
  show "unat (start_block (journal sb) + 1) = region_start (journal sb) + 1"
    using reg u32_bound [of "total_blocks sb"] by (subst unat_add_u32) (simp_all add: region_start_def)
qed

lemma FormatBody_shape:
  assumes "FormatBody sb g user grp = Inr ws" "format_ok sb g"
  obtains root cb l d where "fresh_codes sb g user grp root cb l d"
    "ws = fresh_metadata sb g root cb @ fresh_directory sb g l d @ fresh_ledger sb g"
proof -
  have v: "ValidateSuperblock sb = Inr ()" "length (filesystem_uuid sb) = 16" "root_inode sb = 1"
    and g: "geometry_enabled g \<Longrightarrow> geometry_ok sb g" using assms(2) by (simp_all add: format_ok_def)
  obtain cb k where c: "EncodeControl (FreshControl sb) = Inr (cb, k)" "length cb = 4096"
    "DecodeControl cb = Inr ((FreshControl sb)\<lparr>control_checksum := k\<rparr>)"
    using FreshControl_codec [OF v(1,2)] .
  obtain root where r: "EncodeInode (FreshRootInode sb g user grp) = Inr root" "length root = 128"
    "DecodeInode root 1 = Inr (FreshRootInode sb g user grp)"
    using FreshRootInode_codec [OF v(3)] by blast
  obtain d where d: "FreshDirectory = Inr d" "length d = 4096" "DecodeDirectoryEntry d = Inr ledger_entry"
    using FreshDirectory_ok by blast
  define l where "l = projr (EncodeInode (FreshLedgerInode sb g user grp))"
  have l: "EncodeInode (FreshLedgerInode sb g user grp) = Inr l" "length l = 128"
    "DecodeInode l 2 = Inr (FreshLedgerInode sb g user grp)" if "geometry_enabled g"
    using FreshLedgerInode_codec [OF g [OF that], of user grp] by (auto simp: l_def)
  let ?n = "unat (data_block_count g)" and ?ds = "region_start (data sb)"
  note j1 = fresh_positions(7) [OF assms(2)]
  have "ws = fresh_metadata sb g root cb @ fresh_directory sb g l d @ fresh_ledger sb g"
  proof (cases "geometry_enabled g")
    case True
    have lb: "map (\<lambda>b. (block_offset b, replicate 4096 (0 :: byte))) (ledger_block_numbers g)
        = map (\<lambda>i. ((?ds + 1 + i) * 4096, replicate 4096 0)) [0..<?n]"
      using ledger_block_numbers_ok [OF g [OF True]]
      by (intro nth_equalityI) (simp_all add: block_offset_def region_start_def)
    have nz: "ledger_indirect_block g \<noteq> 0 \<longleftrightarrow> ?n > 12" and
      ind: "?n > 12 \<Longrightarrow> block_offset (ledger_indirect_block g) = (?ds + 1 + ?n) * 4096" and
      rd: "block_offset (root_directory_block g) = ?ds * 4096"
      using g [OF True, unfolded geometry_ok_def Let_def]
      by (auto simp: block_offset_def region_start_def unat_eq_0 split: if_splits)
    show ?thesis using assms(1) unfolding FormatBody_def fresh_metadata_def fresh_directory_def fresh_ledger_def
      by (simp add: True lb nz ind rd l(1) [OF True] c(1) r(1) d(1) Let_def cong: if_cong)
        (auto simp: block_offset_def region_start_def j1)
  next
    case False
    then show ?thesis using assms(1) c(1) r(1) j1
      by (simp add: FormatBody_def fresh_metadata_def fresh_directory_def fresh_ledger_def block_offset_def region_start_def)
  qed
  moreover have "fresh_codes sb g user grp root cb l d" using c r d l by (auto simp: fresh_codes_def)
  ultimately show ?thesis using that by blast
qed

lemma fresh_writes_arranged:
  assumes "format_ok sb g" "fresh_codes sb g user grp root cb l d" "length f = unat (total_blocks sb) * 4096"
    and "ws = fresh_metadata sb g root cb @ fresh_directory sb g l d @ fresh_ledger sb g"
  shows "sorted_wrt apart ws" "\<forall>w \<in> set ws. inside (length f) w \<and> 4096 \<le> fst w"
proof -
  let ?n = "unat (data_block_count g)" and ?ds = "region_start (data sb)"
  let ?head = "fresh_metadata sb g root cb @ fresh_directory sb g l d"
  note pos = fresh_positions [OF assms(1)]
  have codes: "length cb = 4096" "length root = 128" "length d = 4096" "geometry_enabled g \<Longrightarrow> length l = 128"
    using assms(2) by (auto simp: fresh_codes_def)
  have n: "?ds + 1 + ?n + (if ?n > 12 then 1 else 0) < unat (total_blocks sb)" "?n \<le> 1036" if "geometry_enabled g"
    using assms(1) that by (simp_all add: format_ok_def geometry_ok_def Let_def region_start_def)
  have third: "sorted_wrt apart (fresh_ledger sb g)"
    "\<forall>w \<in> set (fresh_ledger sb g). ?ds * 4096 + 4096 \<le> fst w \<and> inside (length f) w"
    using n length_FreshLedgerIndirect [of g] apart_blocks [of "?ds + 1" 0 ?n] assms(3)
    by (auto simp: fresh_ledger_def sorted_wrt_append apart_def inside_def Let_def)
  have ends: "region_start (inode_table sb) * 4096 + 4096 \<le> region_start (journal sb) * 4096"
    "region_start (journal sb) * 4096 + 8192 \<le> ?ds * 4096" "?ds * 4096 + 4096 \<le> length f"
    using pos assms(3) by simp_all
  have head: "sorted_wrt apart ?head"
    "\<forall>w \<in> set ?head. 4096 \<le> fst w \<and> fst w + length (snd w) \<le> ?ds * 4096 + 4096"
    using ends pos(1,5,6) codes by (auto simp: fresh_metadata_def fresh_directory_def apart_def)
  have le: "inside (length f) w" if "fst w + length (snd w) \<le> ?ds * 4096 + 4096" for w
    using that ends(3) by (simp add: inside_def)
  have "sorted_wrt apart (?head @ fresh_ledger sb g)"
    unfolding sorted_wrt_append [of _ ?head "fresh_ledger sb g"] using head third unfolding apart_def by fastforce
  then show "sorted_wrt apart ws" by (simp add: assms(4))
  show "\<forall>w \<in> set ws. inside (length f) w \<and> 4096 \<le> fst w" using le head(2) third(2) unfolding assms(4) by fastforce
qed

lemma fresh_writes_file:
  assumes "format_ok sb g" "fresh_codes sb g user grp root cb l d" "length f = unat (total_blocks sb) * 4096"
    and "ws = fresh_metadata sb g root cb @ fresh_directory sb g l d @ fresh_ledger sb g"
    and "length sbb = 4096" "DecodeSuperblock sbb = Inr sb"
  shows "fresh_file sb g user grp (put_all (ws @ [(0, sbb)]) f)"
proof -
  let ?n = "unat (data_block_count g)" and ?ds = "region_start (data sb)"
  let ?f = "put_all (ws @ [(0, sbb)]) f"
  note arr = fresh_writes_arranged [OF assms(1-4)]
  have tb: "4096 \<le> length f" using fresh_positions(4) [OF assms(1)] assms(3) by simp
  have 1: "sorted_wrt apart (ws @ [(0, sbb)])" using arr assms(5) by (auto simp: sorted_wrt_append apart_def)
  have 2: "\<forall>w \<in> set (ws @ [(0, sbb)]). inside (length f) w" using arr(2) assms(5) tb by (auto simp: inside_def)
  have got: "get_bytes (fst w) (length (snd w)) ?f = snd w" if "w \<in> set ws \<or> w = (0, sbb)" for w
    using put_all_get [OF 1 _ 2, of "fst w" "snd w"] that by auto
  have base: "\<forall>w \<in> set (fresh_metadata sb g root cb). get_bytes (fst w) (length (snd w)) ?f = snd w"
    "\<forall>w \<in> set (fresh_directory sb g l d). get_bytes (fst w) (length (snd w)) ?f = snd w"
    and blk: "\<forall>w \<in> set (fresh_ledger sb g). get_bytes (fst w) (length (snd w)) ?f = snd w"
    using got by (simp_all add: assms(4))
  have zero: "get_bytes ((?ds + 1 + i) * 4096) 4096 ?f = replicate 4096 0" if "geometry_enabled g" "i < ?n" for i
  proof -
    have "((?ds + 1 + i) * 4096, replicate 4096 0) \<in> set (fresh_ledger sb g)" using that by (simp add: fresh_ledger_def Let_def)
    then show ?thesis using blk by force
  qed
  have ind: "get_bytes ((?ds + 1 + ?n) * 4096) 4096 ?f = FreshLedgerIndirect g" if "geometry_enabled g" "12 < ?n"
  proof -
    have "((?ds + 1 + ?n) * 4096, FreshLedgerIndirect g) \<in> set (fresh_ledger sb g)" using that by (simp add: fresh_ledger_def Let_def)
    moreover have "?n \<le> 1036" using assms(1) that by (simp add: format_ok_def geometry_ok_def Let_def)
    ultimately show ?thesis using blk length_FreshLedgerIndirect [of g] by force
  qed
  have v: "ValidateSuperblock sb = Inr ()" "geometry_enabled g \<Longrightarrow> geometry_ok sb g"
    using assms(1) by (simp_all add: format_ok_def)
  show ?thesis
    using base zero ind got [of "(0, sbb)"] length_FreshInodeBitmap [OF v(1)] FreshBlockBitmap_ok(1) [OF v] assms(2,3,5,6)
    by (auto simp: fresh_file_def fresh_codes_def fresh_metadata_def fresh_directory_def)
qed

lemma prepared_length:
  "length (fold mkfs_effect (xs @ [MkTruncate n, MkFallocate n]) f) = n"
  by (simp add: file_truncate_def file_extend_def)

lemma FormatImage_fresh:
  assumes "FormatImage opts env existing = (Inr sb, left)" "env_random env = Inr random" "length random = 16"
  obtains g f where "FormatSuperblock opts env = Inr (sb, g)" "left = Some f" "format_ok sb g"
    "fresh_file sb g (env_uid env) (env_gid env) f"
proof -
  let ?n = "unat (option_image_size_bytes opts)"
  let ?prepare = "(if option_force opts then [MkWrite 0 (replicate kBlockSize 0), MkSync] else [])
    @ [MkTruncate ?n, MkFallocate ?n]"
  obtain g f0 f1 s1 ws f2 s2 sbb f3 s3 where
    sbg: "FormatSuperblock opts env = Inr (sb, g)"
    and p: "run_mkfs_ops ?prepare (env_script env) f0 = (True, s1, f1)"
    and b: "FormatBody sb g (env_uid env) (env_gid env) = Inr ws"
      "run_mkfs_ops (map (\<lambda>(offset, bs). MkWrite offset bs) ws @ [MkSync]) s1 f1 = (True, s2, f2)"
    and e: "EncodeSuperblock sb = Inr sbb" "run_mkfs_ops [MkWrite 0 sbb, MkSync] s2 f2 = (True, s3, f3)"
    and res: "left = Some f3"
    using assms(1) unfolding FormatImage_def Let_def
    by (auto split: sum.splits if_splits prod.splits bool.splits option.splits)
  note sb = FormatSuperblock_ok [OF sbg assms(2,3)]
  have ok: "format_ok sb g" using sb by (simp add: format_ok_def)
  obtain root cb l d where codes: "fresh_codes sb g (env_uid env) (env_gid env) root cb l d"
    and ws: "ws = fresh_metadata sb g root cb @ fresh_directory sb g l d @ fresh_ledger sb g"
    using FormatBody_shape [OF b(1) ok] .
  have l1: "length f1 = unat (total_blocks sb) * 4096"
    using run_mkfs_ops_success [OF p] prepared_length sb(4) by metis
  note arr = fresh_writes_arranged [OF ok codes l1 ws]
  have f2: "f2 = put_all ws f1"
    using run_mkfs_ops_success [OF b(2)] fold_mkfs_writes [of ws f1] arr(2) by simp
  have sbb: "length sbb = 4096" "DecodeSuperblock sbb = Inr sb"
    using superblock_roundtrip [OF sb(1,2)] e(1) by auto
  have "4096 \<le> length f1" using fresh_positions(4) [OF ok] l1 by simp
  then have "f3 = put_bytes 0 sbb (put_all ws f1)"
    using run_mkfs_ops_success [OF e(2)] sbb(1) f2 by (simp add: file_write_inside)
  then have "f3 = put_all (ws @ [(0, sbb)]) f1" by (simp add: put_all_def)
  then have "fresh_file sb g (env_uid env) (env_gid env) f3" using fresh_writes_file [OF ok codes l1 ws sbb] by simp
  with that [OF sbg res ok] show ?thesis by blast
qed

section \<open>Opening a fresh image\<close>

definition fresh_reader :: "Superblock \<Rightarrow> RequestLedgerGeometry \<Rightarrow> bytes \<Rightarrow> u32 \<Rightarrow> ImageReader" where
  "fresh_reader sb g f k = \<lparr>reader_pread = file_pread f, reader_image_size = length f, superblock = sb,
     journal_control = (FreshControl sb)\<lparr>control_checksum := k\<rparr>, journal_control_copy = kA,
     inode_bitmap_bytes = FreshInodeBitmap sb g, block_bitmap_bytes = FreshBlockBitmap sb g\<rparr>"

lemma fresh_reader_fields [simp]:
  "superblock (fresh_reader sb g f k) = sb" "reader_pread (fresh_reader sb g f k) = file_pread f"
  "reader_image_size (fresh_reader sb g f k) = length f"
  "inode_bitmap_bytes (fresh_reader sb g f k) = FreshInodeBitmap sb g"
  "block_bitmap_bytes (fresh_reader sb g f k) = FreshBlockBitmap sb g"
  "journal_control (fresh_reader sb g f k) = (FreshControl sb)\<lparr>control_checksum := k\<rparr>"
  by (simp_all add: fresh_reader_def)

lemma fresh_file_block_ok:
  assumes "format_ok sb g" "geometry_enabled g" "region_start (data sb) \<le> unat b"
    and "unat b < region_start (data sb) + 1 + unat (data_block_count g) + (if unat (data_block_count g) > 12 then 1 else 0)"
  shows "file_block_ok (fresh_reader sb g f k) b"
proof -
  have v: "ValidateSuperblock sb = Inr ()" "geometry_enabled g \<Longrightarrow> geometry_ok sb g"
    using assms(1) by (simp_all add: format_ok_def)
  have tot: "unat b < unat (total_blocks sb)"
    using assms v(2) by (simp add: geometry_ok_def Let_def region_start_def split: if_splits)
  have pos: "0 < region_start (data sb)" using fresh_positions(3) [OF assms(1)] by simp
  have "BitmapBit (FreshBlockBitmap sb g) (unat b)"
    using FreshBlockBitmap_ok(2) [OF v, of "unat b"] bitmap_bits(2) [OF v(1)] tot assms(2,4) by (simp add: region_start_def)
  then show ?thesis
    using tot pos assms(3)
    by (auto simp: file_block_ok_def IsBlockAllocated_def word_less_nat_alt word_le_nat_alt region_start_def)
qed

lemma fresh_inode_allocated:
  assumes "format_ok sb g" "n = 1 \<or> geometry_enabled g \<and> n = 2"
  shows "IsInodeAllocated (fresh_reader sb g f k) n"
proof -
  have v: "ValidateSuperblock sb = Inr ()" "root_inode sb = 1" "geometry_enabled g \<Longrightarrow> geometry_ok sb g"
    using assms(1) by (simp_all add: format_ok_def)
  have ti: "unat n \<le> unat (total_inodes sb)" "1 \<le> unat n"
    using assms(2) v ValidateSuperblock_layout_aux(12,13) [OF v(1)] by (auto simp: geometry_ok_def Let_def)
  have "unat (n - 1) < 8 * (unat (block_count (inode_bitmap sb)) * 4096)"
    using bitmap_bits(1) [OF v(1)] ti assms(2) by auto
  then have "BitmapBit (FreshInodeBitmap sb g) (unat (n - 1))"
    using FreshInodeBitmap_bits [OF v] assms(2) by auto
  then show ?thesis using ti by (simp add: IsInodeAllocated_def word_le_nat_alt)
qed

lemma fresh_read:
  assumes "format_ok sb g" "fresh_file sb g user grp f"
  shows "\<And>n. n < unat (total_blocks sb) \<Longrightarrow> ReadExact (fresh_reader sb g f k) (n * 4096) 4096 = Inr (get_bytes (n * 4096) 4096 f)"
    "ReadExact (fresh_reader sb g f k) (region_start (inode_table sb) * 4096) 128
      = Inr (get_bytes (region_start (inode_table sb) * 4096) 128 f)"
    "ReadExact (fresh_reader sb g f k) (region_start (inode_table sb) * 4096 + 128) 128
      = Inr (get_bytes (region_start (inode_table sb) * 4096 + 128) 128 f)"
proof -
  have l: "length f = unat (total_blocks sb) * 4096" using assms(2) by (simp add: fresh_file_def)
  have t: "region_start (inode_table sb) < unat (total_blocks sb)" using fresh_positions [OF assms(1)] by simp
  show "ReadExact (fresh_reader sb g f k) (n * 4096) 4096 = Inr (get_bytes (n * 4096) 4096 f)"
    if "n < unat (total_blocks sb)" for n
    using that l by (intro ReadExact_file) simp_all
  show "ReadExact (fresh_reader sb g f k) (region_start (inode_table sb) * 4096) 128
      = Inr (get_bytes (region_start (inode_table sb) * 4096) 128 f)"
    "ReadExact (fresh_reader sb g f k) (region_start (inode_table sb) * 4096 + 128) 128
      = Inr (get_bytes (region_start (inode_table sb) * 4096 + 128) 128 f)"
    using t l by (intro ReadExact_file; simp)+
qed

lemma fresh_root:
  assumes "format_ok sb g" "fresh_file sb g user grp f"
  shows "ReadInode (fresh_reader sb g f k) 1 = Inr (FreshRootInode sb g user grp)"
proof (rule ReadInode_intro)
  let ?r = "fresh_reader sb g f k" and ?i = "FreshRootInode sb g user grp"
  show "IsInodeAllocated ?r 1" using assms(1) by (intro fresh_inode_allocated) simp_all
  show "ReadExact ?r (unat (start_block (inode_table (superblock ?r))) * 4096 + unat (1 - 1 :: u32) * 128) 128
      = Inr (get_bytes (region_start (inode_table sb) * 4096) 128 f)"
    using fresh_read(2) [OF assms] by (simp add: region_start_def)
  show "DecodeInode (get_bytes (region_start (inode_table sb) * 4096) 128 f) 1 = Inr ?i"
    using assms(2) by (simp add: fresh_file_def)
  have rb: "RequiredBlocks ?i = (if geometry_enabled g then 1 else 0)"
    by (simp add: RequiredBlocks_def FreshRootInode_def Let_def)
  have fields: "file_size ?i \<le> kMaxFileSize" "length (direct_blocks ?i) = 12" "file_size ?i mod 4096 = 0" "indirect_block ?i = 0"
    by (simp_all add: FreshRootInode_def Let_def kMaxFileSize_def)
  have ptr: "file_pointer ?r ?i 0 = root_directory_block g" if "geometry_enabled g"
    using that by (simp add: file_pointer_def FreshRootInode_def Let_def)
  have "file_block_ok ?r (root_directory_block g)" if "geometry_enabled g"
    using assms(1) that by (intro fresh_file_block_ok) (auto simp: format_ok_def geometry_ok_def Let_def region_start_def)
  then show "inode_ok ?r ?i" using rb fields ptr by (simp add: inode_ok_def split: if_splits)
  show "direct_blocks ?i ! i = 0" if "unat (RequiredBlocks ?i) \<le> i" "i < 12" for i
    using that rb by (auto simp: FreshRootInode_def Let_def nth_list_update split: if_splits)
  show "indirect_pointer b i = 0" if "\<not> RequiredBlocks ?i \<le> 12" for b i
    using that rb by (auto split: if_splits)
qed

lemma FreshLedgerInode_fields:
  assumes "geometry_ok sb g"
  shows "unat (RequiredBlocks (FreshLedgerInode sb g user grp)) = unat (data_block_count g)"
    "file_size (FreshLedgerInode sb g user grp) \<le> kMaxFileSize"
    "length (direct_blocks (FreshLedgerInode sb g user grp)) = 12"
    "indirect_block (FreshLedgerInode sb g user grp) = ledger_indirect_block g"
    "file_size (FreshLedgerInode sb g user grp) = ledger_file_size g"
proof -
  let ?i = "FreshLedgerInode sb g user grp"
  note u = assms [unfolded geometry_ok_def Let_def]
  show fs: "file_size ?i = ledger_file_size g" "indirect_block ?i = ledger_indirect_block g"
    by (simp_all add: FreshLedgerInode_def)
  show m: "file_size ?i \<le> kMaxFileSize" using u fs by (simp add: word_le_nat_alt kMaxFileSize_def)
  show "unat (RequiredBlocks ?i) = unat (data_block_count g)" using u fs by (simp add: unat_RequiredBlocks [OF m])
  show "length (direct_blocks ?i) = 12"
    using ledger_block_numbers_ok(1) [OF assms] by (simp add: FreshLedgerInode_def)
qed

lemma fresh_ledger_pointers:
  assumes "format_ok sb g" "fresh_file sb g user grp f" "geometry_enabled g"
  shows "\<And>l. l < unat (data_block_count g) \<Longrightarrow>
      unat (file_pointer (fresh_reader sb g f k) (FreshLedgerInode sb g user grp) l) = region_start (data sb) + 1 + l"
    "12 < unat (data_block_count g) \<Longrightarrow> ReadExact (fresh_reader sb g f k) (unat (ledger_indirect_block g) * 4096) 4096
      = Inr (FreshLedgerIndirect g)"
proof -
  let ?r = "fresh_reader sb g f k" and ?i = "FreshLedgerInode sb g user grp" and ?n = "unat (data_block_count g)"
  have ok: "geometry_ok sb g" using assms by (simp add: format_ok_def)
  note u = ok [unfolded geometry_ok_def Let_def]
  have n: "?n \<le> 1036" using u by simp
  note nums = ledger_block_numbers_ok [OF ok]
  show ind: "ReadExact ?r (unat (ledger_indirect_block g) * 4096) 4096 = Inr (FreshLedgerIndirect g)" if "12 < ?n"
    using fresh_read(1) [OF assms(1,2), of "unat (ledger_indirect_block g)"] that u assms(2,3)
    by (simp add: fresh_file_def region_start_def)
  show "unat (file_pointer ?r ?i l) = region_start (data sb) + 1 + l" if l: "l < ?n" for l
  proof (cases "l < 12")
    case True
    then have "direct_blocks ?i ! l = ledger_block_numbers g ! l"
      using l nums(1) by (simp add: FreshLedgerInode_def nth_append)
    then show ?thesis using True nums(2) [OF l] by (simp add: file_pointer_def region_start_def)
  next
    case False
    have "indirect_pointer (FreshLedgerIndirect g) (l - 12) = first_data_block g + of_nat l"
      using False l n unfolding FreshLedgerIndirect_def by (subst indirect_fold) auto
    moreover have "ledger_block_numbers g ! l = first_data_block g + of_nat l"
      using l by (simp add: ledger_block_numbers_def)
    ultimately show ?thesis using False l ind nums(2) [OF l]
      by (simp add: file_pointer_def FreshLedgerInode_fields(4) [OF ok] region_start_def)
  qed
qed

lemma fresh_ledger_inode:
  assumes "format_ok sb g" "fresh_file sb g user grp f" "geometry_enabled g"
  shows "ReadInode (fresh_reader sb g f k) 2 = Inr (FreshLedgerInode sb g user grp)"
proof (rule ReadInode_intro)
  let ?r = "fresh_reader sb g f k" and ?i = "FreshLedgerInode sb g user grp" and ?n = "unat (data_block_count g)"
  have ok: "geometry_ok sb g" using assms by (simp add: format_ok_def)
  note u = ok [unfolded geometry_ok_def Let_def] and fl = FreshLedgerInode_fields [OF ok, of user grp]
  note ptr = fresh_ledger_pointers [OF assms, where k = k]
  show "IsInodeAllocated ?r 2" using assms by (intro fresh_inode_allocated) simp_all
  show "ReadExact ?r (unat (start_block (inode_table (superblock ?r))) * 4096 + unat (2 - 1 :: u32) * 128) 128
      = Inr (get_bytes (region_start (inode_table sb) * 4096 + 128) 128 f)"
    using fresh_read(3) [OF assms(1,2)] by (simp add: region_start_def)
  show "DecodeInode (get_bytes (region_start (inode_table sb) * 4096 + 128) 128 f) 2 = Inr ?i"
    using assms(2,3) by (simp add: fresh_file_def)
  have le: "RequiredBlocks ?i \<le> 12 \<longleftrightarrow> ?n \<le> 12" using fl(1) by (simp add: word_le_nat_alt)
  have blocks: "file_block_ok ?r (file_pointer ?r ?i l)" if "l < ?n" for l
    using ptr(1) [OF that] that by (intro fresh_file_block_ok [OF assms(1,3)]) auto
  have ind: "file_block_ok ?r (ledger_indirect_block g)" if "12 < ?n"
    using that u by (intro fresh_file_block_ok [OF assms(1,3)]) (auto simp: region_start_def)
  have zero: "\<not> 12 < ?n \<Longrightarrow> ledger_indirect_block g = 0" using u by (auto simp: unat_eq_0)
  show "inode_ok ?r ?i"
    using blocks ind ptr(2) zero fl le
    by (auto simp: inode_ok_def S_ISDIR_def not_le) (simp_all add: FreshLedgerInode_def)
  show "direct_blocks ?i ! i = 0" if "unat (RequiredBlocks ?i) \<le> i" "i < 12" for i
    using that fl(1) ledger_block_numbers_ok(1) [OF ok] by (simp add: FreshLedgerInode_def nth_append)
  show "indirect_pointer b i = 0" if b: "ReadExact ?r (unat (indirect_block ?i) * 4096) 4096 = Inr b"
    "unat (RequiredBlocks ?i) - 12 \<le> i" "i < 1024" "\<not> RequiredBlocks ?i \<le> 12" for b i
  proof -
    have "b = FreshLedgerIndirect g" using b(1,4) ptr(2) le fl(4) by simp
    then show ?thesis 
      using b(2-) fl(1) le u unfolding FreshLedgerIndirect_def by (auto simp: indirect_fold)
  qed
qed

lemma fresh_list:
  assumes "format_ok sb g" "fresh_file sb g user grp f"
  shows "ListDirectory (fresh_reader sb g f k) 1 = Inr (if geometry_enabled g then [ledger_entry] else [])"
proof -
  let ?r = "fresh_reader sb g f k" and ?i = "FreshRootInode sb g user grp"
  note root = fresh_root [OF assms, of k]
  have dir: "S_ISDIR (mode ?i)" by (simp add: S_ISDIR_def FreshRootInode_def Let_def)
  show ?thesis
  proof (cases "geometry_enabled g")
    case False
    then have "file_size ?i = 0" by (simp add: FreshRootInode_def Let_def)
    then show ?thesis using root dir False by (simp add: ListDirectory_def)
  next
    case True
    have size: "file_size ?i = 4096" and rb: "RequiredBlocks ?i = 1"
      using True by (simp_all add: FreshRootInode_def RequiredBlocks_def Let_def)
    have ptr: "file_pointer ?r ?i 0 = root_directory_block g"
      using True by (simp add: file_pointer_def FreshRootInode_def Let_def)
    have map: "MapLogicalBlock ?r ?i 0 = Inr (root_directory_block g)"
      using MapLogicalBlock_ok [OF ReadInode_ok(1) [OF root], of 0] by (simp add: rb ptr)
    have "unat (root_directory_block g) = region_start (data sb)"
      using assms(1) True by (simp add: format_ok_def geometry_ok_def Let_def region_start_def)
    then have block: "ReadExact ?r (unat (root_directory_block g) * 4096) 4096 = Inr (get_bytes (region_start (data sb) * 4096) 4096 f)"
      using fresh_read(1) [OF assms, of "region_start (data sb)"] fresh_positions(4) [OF assms(1)] by simp
    define b where "b = get_bytes (region_start (data sb) * 4096) 4096 f"
    have b: "length b = 4096" "DecodeDirectoryEntry b = Inr ledger_entry"
      using assms fresh_positions(4) [OF assms(1)] True by (simp_all add: b_def fresh_file_def)
    have led: "ReadInode ?r (entry_inode ledger_entry) = Inr (FreshLedgerInode sb g user grp)"
      using fresh_ledger_inode [OF assms True] by (simp add: ledger_entry_def kRequestLedgerInodeNumber_def)
    have e: "record_length ledger_entry = 4096" "entry_inode ledger_entry \<noteq> 0" "IsDirectoryType (file_type ledger_entry) (mode (FreshLedgerInode sb g user grp))"
      by (simp_all add: ledger_entry_def kRequestLedgerInodeNumber_def IsDirectoryType_def S_ISREG_def FreshLedgerInode_def)
    have "ScanDirectoryBlock ?r b 0 {} [] = Inr ({entry_name ledger_entry}, [ledger_entry])"
      using b e led by (subst ScanDirectoryBlock.simps) (simp, simp add: ScanDirectoryBlock.simps)
    then show ?thesis
      using root dir True map block by (simp add: ListDirectory_def size upt_rec flip: b_def)
  qed
qed

lemma fresh_adopt:
  assumes "format_ok sb g" "fresh_file sb g user grp f" "feature_incompat sb = (if geometry_enabled g then 1 else 0)"
  obtains k where "ReaderAdoptLockedFd (Inr False) (Inr (length f)) (file_pread f) = Inr (fresh_reader sb g f k)"
proof -
  have v: "ValidateSuperblock sb = Inr ()" "root_inode sb = 1" "geometry_enabled g \<Longrightarrow> geometry_ok sb g"
    using assms(1) by (simp_all add: format_ok_def)
  note pos = fresh_positions [OF assms(1)] and lay = ValidateSuperblock_layout_aux [OF v(1)]
  have l: "length f = unat (total_blocks sb) * 4096" using assms(2) by (simp add: fresh_file_def)
  have whole: "ReadWholeBlock (file_pread f) n = Inr (get_bytes (n * 4096) 4096 f)" if "n < unat (total_blocks sb)" for n
    using that l by (simp add: ReadWholeBlock_def file_pread_def)
  have region: "ReadRegion (file_pread f) reg
      = Inr (get_bytes (region_start reg * 4096) (unat (block_count reg) * 4096) f)"
    if "region_end reg \<le> unat (total_blocks sb)" for reg
    using that l unfolding ReadRegion_def by (subst ReadRegionBlocks_file) (simp_all add: region_start_def region_end_def)
  obtain k where k: "DecodeControl (get_bytes (region_start (journal sb) * 4096) 4096 f)
      = Inr ((FreshControl sb)\<lparr>control_checksum := k\<rparr>)" using assms(2) by (auto simp: fresh_file_def)
  have "unat (block_count (journal sb) - 2) = unat (block_count (journal sb)) - 2"
    using lay(10) by (subst unat_sub) (simp_all add: word_le_nat_alt)
  then have ring: "\<not> block_count (journal sb) - 2 < 3" using lay(10) by (simp add: word_less_nat_alt)
  have copy: "valid_copy (get_bytes (region_start (journal sb) * 4096) 4096 f) (filesystem_uuid sb) (block_count (journal sb) - 2)
      = Some ((FreshControl sb)\<lparr>control_checksum := k\<rparr>)"
    using k by (simp add: valid_copy_def FreshControl_def)
  have sel: "SelectControl (get_bytes (region_start (journal sb) * 4096) 4096 f)
      (get_bytes ((region_start (journal sb) + 1) * 4096) 4096 f) (filesystem_uuid sb) (block_count (journal sb) - 2)
      = Inr ((FreshControl sb)\<lparr>control_checksum := k\<rparr>, kA)"
    using copy ring assms(2) by (simp add: SelectControl_def fresh_file_def CompareGenerations_def ControlsEquivalent_def)
  have ib: "ReadRegion (file_pread f) (inode_bitmap sb) = Inr (FreshInodeBitmap sb g)"
    and bb: "ReadRegion (file_pread f) (block_bitmap sb) = Inr (FreshBlockBitmap sb g)"
    using region assms(2) lay pos by (simp_all add: fresh_file_def)
  have bits: "BitmapBit (FreshInodeBitmap sb g) 0"
    "\<And>i. i < unat (start_block (data sb)) \<Longrightarrow> BitmapBit (FreshBlockBitmap sb g) i"
    "\<And>i. unat (total_inodes sb) \<le> i \<Longrightarrow> i < length (FreshInodeBitmap sb g) * 8 \<Longrightarrow> BitmapBit (FreshInodeBitmap sb g) i"
    "\<And>i. unat (total_blocks sb) \<le> i \<Longrightarrow> i < length (FreshBlockBitmap sb g) * 8 \<Longrightarrow> BitmapBit (FreshBlockBitmap sb g) i"
    using FreshInodeBitmap_bits [OF v] FreshBlockBitmap_ok [OF v(1,3)] bitmap_bits [OF v(1)] lay(12,13) pos(4)
      length_FreshInodeBitmap [OF v(1)]
    by (auto simp: region_start_def)
  have root: "ReadInode (fresh_reader sb g f k) 1 = Inr (FreshRootInode sb g user grp)" by (rule fresh_root [OF assms(1,2)])
  have dir: "S_ISDIR (mode (FreshRootInode sb g user grp))" by (simp add: S_ISDIR_def FreshRootInode_def Let_def)
  have sb: "DecodeSuperblock (get_bytes 0 4096 f) = Inr sb" using assms(2) by (simp add: fresh_file_def)
  have feat: "feature_incompat sb AND NOT kSupportedFeatureIncompat = 0"
    by (simp add: assms(3) kSupportedFeatureIncompat_def kFeatureIncompatRequestLedger_def)
  have "4096 \<le> length f" "length f mod 4096 = 0" using l pos(4) by simp_all
  then have "ReaderAdoptLockedFd (Inr False) (Inr (length f)) (file_pread f) = Inr (fresh_reader sb g f k)"
    using whole [of 0] whole [of "region_start (journal sb)"] whole [of "region_start (journal sb) + 1"]
      pos(2,3,4) sel ib bb bits root dir sb feat l v(2)
    by (simp add: ReaderAdoptLockedFd_def fresh_reader_def list_all_iff region_start_def)
  then show ?thesis using that by blast
qed

lemma fresh_resolve:
  assumes "format_ok sb g" "fresh_file sb g user grp f" "geometry_enabled g"
  shows "ResolvePath (fresh_reader sb g f k) ledger_path = Inr (2, FreshLedgerInode sb g user grp)"
proof -
  let ?r = "fresh_reader sb g f k"
  have r1: "root_inode sb = 1" using assms(1) by (simp add: format_ok_def)
  have n: "takeWhile (\<lambda>c. c \<noteq> 47) kRequestLedgerName = kRequestLedgerName"
    "dropWhile (\<lambda>c. c \<noteq> 47) kRequestLedgerName = []" "kRequestLedgerName \<noteq> []" "last kRequestLedgerName \<noteq> 47"
    "kRequestLedgerName \<noteq> [46]" "kRequestLedgerName \<noteq> [46, 46]"
    by (simp_all add: kRequestLedgerName_def)
  have "ResolveComponents ?r 1 kRequestLedgerName = Inr 2"
    using n(3-) fresh_list [OF assms(1,2), of k] assms(3) unfolding ResolveComponents.simps [of ?r 1] n(1,2) Let_def
    by (simp add: ledger_entry_def kRequestLedgerInodeNumber_def)
  then show ?thesis using n fresh_ledger_inode [OF assms] by (simp add: ResolvePath_def ledger_path_def r1)
qed

lemma fresh_scan:
  assumes "format_ok sb g" "fresh_file sb g user grp f" "geometry_enabled g" "feature_incompat sb = 1"
  shows "ScanRequestLedger (fresh_reader sb g f k) = Inr \<lparr>capacity = ucast (ledger_entry_count g), next_sequence = 1, records = []\<rparr>"
    "file_readable (fresh_reader sb g f k) (FreshLedgerInode sb g user grp)"
    "ledger_blocks_distinct (fresh_reader sb g f k) (FreshLedgerInode sb g user grp)"
proof -
  let ?r = "fresh_reader sb g f k" and ?i = "FreshLedgerInode sb g user grp" and ?n = "unat (data_block_count g)"
  have ok: "geometry_ok sb g" using assms(1,3) by (simp add: format_ok_def)
  note u = ok [unfolded geometry_ok_def Let_def] and fl = FreshLedgerInode_fields [OF ok, of user grp]
  note ptr = fresh_ledger_pointers(1) [OF assms(1-3), where k = k]
  have tot: "region_start (data sb) + 1 + l < unat (total_blocks sb)" if "l < ?n" for l
    using that u by (simp add: region_start_def split: if_splits)
  have blk: "ReadExact ?r (unat (file_pointer ?r ?i l) * 4096) 4096 = Inr (replicate 4096 0)" if "l < ?n" for l
    using fresh_read(1) [OF assms(1,2) tot [OF that]] ptr [OF that] assms(2,3) that by (simp add: fresh_file_def)
  show rd: "file_readable ?r ?i" using blk fl(1) by (simp add: file_readable_def list_all_iff)
  have c: "block_content ?r ?i l = replicate 4096 0" if "l < ?n" for l using blk [OF that] by (simp add: block_content_def)
  have "block_slots (replicate 4096 0) = replicate 32 zero_slot"
    by (rule nth_equalityI) (simp_all add: zero_slot_def byte_simps)
  then have "map (\<lambda>l. block_slots (block_content ?r ?i l)) [0..<?n] = replicate ?n (replicate 32 zero_slot)"
    using c by (intro nth_equalityI) simp_all
  moreover have "concat (replicate m (replicate 32 zero_slot)) = replicate (m * 32) zero_slot" for m
    by (induction m) (simp_all add: replicate_add)
  ultimately have slots: "ledger_slots ?r ?i = ledger_layout [] (?n * 32)"
    by (simp add: ledger_slots_def fl(1) ledger_layout_def)
  have geo: "\<not> ledger_geometry_bad 2 ?i"
  proof -
    have "unat (ledger_file_size g mod 4096) = 0" "unat (ledger_file_size g mod 128) = 0" "ledger_file_size g \<noteq> 0"
      using u by (auto simp: unat_mod)
    then show ?thesis
      by (simp add: ledger_geometry_bad_def fl(5) kRequestLedgerInodeNumber_def unat_eq_0)
        (simp add: FreshLedgerInode_def S_ISREG_def)
  qed
  have cap: "(of_nat (?n * 32) :: u64) = ucast (ledger_entry_count g)"
    using u by (simp add: word_unat_eq_iff unat_of_nat unat_word_ariths)
  have "ledger_features ?r"
    by (simp add: ledger_features_def assms(4) kSupportedFeatureIncompat_def kFeatureIncompatRequestLedger_def)
  then show "ScanRequestLedger ?r = Inr \<lparr>capacity = ucast (ledger_entry_count g), next_sequence = 1, records = []\<rparr>"
    unfolding ScanRequestLedger_layout [OF fresh_resolve [OF assms(1-3)]]
    using geo rd slots cap by (auto simp: index_entries_def intro!: exI [of _ "[]"] exI [of _ "?n * 32"])
  have inj: "inj_on (file_pointer ?r ?i) {0..<?n}" using ptr by (intro inj_onI) (metis add_left_cancel atLeastLessThan_iff)
  have "indirect_block ?i \<noteq> file_pointer ?r ?i l" if "l < ?n" for l
    using ptr [OF that] that u fl(4) by (auto simp: region_start_def split: if_splits)
  then have "indirect_block ?i \<notin> file_pointer ?r ?i ` {0..<?n}" by (metis imageE atLeastLessThan_iff)
  then show "ledger_blocks_distinct ?r ?i"
    using inj by (simp add: ledger_blocks_distinct_def fl(1) distinct_map)
qed

section \<open>Interrupted formatting\<close>

definition unpublished :: "bytes \<Rightarrow> bool" where
  "unpublished f \<longleftrightarrow> 4096 \<le> length f \<and> get_bytes 0 4096 f = replicate 4096 0"

fun spares_superblock :: "mkfs_op \<Rightarrow> bool" where
  "spares_superblock (MkWrite offset bs) \<longleftrightarrow> 4096 \<le> offset"
| "spares_superblock (MkTruncate n) \<longleftrightarrow> 4096 \<le> n"
| "spares_superblock _ \<longleftrightarrow> True"

lemma unpublished_write: "unpublished f \<Longrightarrow> 4096 \<le> offset \<Longrightarrow> unpublished (file_write offset bs f)"
  unfolding unpublished_def file_write_def by (auto simp: get_put_other) (simp add: get_bytes_def)

lemma unpublished_effect:
  assumes "unpublished f" "spares_superblock op"
  shows "unpublished (mkfs_effect op f)" "unpublished (mkfs_failed_effect k op f)"
  using assms unpublished_write
  by (cases op; auto simp: unpublished_def file_truncate_def file_extend_def get_bytes_def min_def)+

lemma unpublished_run:
  "unpublished f \<Longrightarrow> list_all spares_superblock ops \<Longrightarrow> unpublished (snd (snd (run_mkfs_ops ops script f)))"
  by (induction ops script f rule: run_mkfs_ops.induct) (auto simp: unpublished_effect)

lemma run_mkfs_ops_first_ok:
  assumes "set (take n script) \<subseteq> {IoOk}" "length ops = n"
  shows "run_mkfs_ops (ops @ rest) script f = run_mkfs_ops rest (drop n script) (fold mkfs_effect ops f)"
  using assms
proof (induction ops arbitrary: n script f)
  case (Cons op ops)
  then obtain m where n: "n = Suc m" by (cases n) auto
  show ?case
    using Cons.IH [of m "tl script" "mkfs_effect op f"] Cons.prems n by (cases script) auto
qed simp

lemma unpublished_refused:
  assumes "unpublished f"
  shows "isl (ReaderAdoptLockedFd getfl st_size (file_pread f))"
proof -
  have "ReadWholeBlock (file_pread f) 0 = Inr (replicate 4096 0)"
    using assms by (simp add: ReadWholeBlock_def file_pread_def unpublished_def)
  moreover have "get_bytes 0 8 (replicate 4096 (0 :: byte)) \<noteq> kMagic"
    by (auto simp: kMagic_def byte_simps dest!: arg_cong [where f = "\<lambda>l. l ! 0"])
  then have "DecodeSuperblock (replicate 4096 0) = Inl ''superblock magic mismatch''"
    by (simp add: DecodeSuperblock_def)
  ultimately show ?thesis
    by (cases getfl; cases st_size) (auto simp: ReaderAdoptLockedFd_def isl_def)
qed

lemma body_spares_superblock:
  assumes "FormatBody sb g user grp = Inr ws" "format_ok sb g"
  shows "list_all spares_superblock (map (\<lambda>(offset, bs). MkWrite offset bs) ws @ [MkSync])"
proof -
  obtain root cb l d where "fresh_codes sb g user grp root cb l d"
    "ws = fresh_metadata sb g root cb @ fresh_directory sb g l d @ fresh_ledger sb g"
    using FormatBody_shape [OF assms] .
  from fresh_writes_arranged(2) [OF assms(2) this(1) _ this(2), of "replicate (unat (total_blocks sb) * 4096) 0"]
  show ?thesis by (auto simp: list_all_iff)
qed

lemma run_mkfs_ops_quiet: "run_mkfs_ops ops [] f = (True, [], fold mkfs_effect ops f)"
  by (induction ops arbitrary: f) auto

lemma FormatBody_total:
  assumes "format_ok sb g"
  shows "\<exists>ws. FormatBody sb g user grp = Inr ws"
proof -
  have v: "ValidateSuperblock sb = Inr ()" "length (filesystem_uuid sb) = 16" "root_inode sb = 1"
    and g: "geometry_enabled g \<Longrightarrow> geometry_ok sb g" using assms by (simp_all add: format_ok_def)
  obtain cb k where "EncodeControl (FreshControl sb) = Inr (cb, k)" using FreshControl_codec [OF v(1,2)] by blast
  moreover obtain root where "EncodeInode (FreshRootInode sb g user grp) = Inr root"
    using FreshRootInode_codec [OF v(3)] by blast
  moreover obtain d where d: "FreshDirectory = Inr d" using FreshDirectory_ok by blast
  moreover have "geometry_enabled g \<Longrightarrow> \<exists>l. EncodeInode (FreshLedgerInode sb g user grp) = Inr l"
    using FreshLedgerInode_codec [OF g] by blast
  ultimately show ?thesis by (cases "geometry_enabled g") (auto simp: FormatBody_def d)
qed

lemma FormatImage_total:
  assumes "FormatSuperblock opts env = Inr (sb, g)" "env_random env = Inr random" "length random = 16"
    and "env_open env = None" "env_flock env = None" "env_script env = []" "existing = None \<or> option_force opts"
  shows "\<exists>f. FormatImage opts env existing = (Inr sb, Some f)"
proof -
  note sb = FormatSuperblock_ok [OF assms(1-3)]
  then have "format_ok sb g" by (simp add: format_ok_def)
  then obtain ws where "FormatBody sb g (env_uid env) (env_gid env) = Inr ws" using FormatBody_total by blast
  moreover obtain sbb where "EncodeSuperblock sb = Inr sbb" using superblock_roundtrip [OF sb(1,2)] by blast
  ultimately show ?thesis
    using assms by (auto simp: FormatImage_def Let_def run_mkfs_ops_quiet)
qed

definition sample_options :: MkfsOptions where
  "sample_options = \<lparr>option_image_path = [97], option_image_size_bytes = 262144, option_total_inodes = 16,
     option_journal_blocks = 5, option_request_ledger_entries = 32, option_force = False\<rparr>"

definition sample_env :: MkfsEnv where
  "sample_env = \<lparr>env_random = Inr (replicate 16 7), env_clock = Inr (1, 0), env_uid = 0, env_gid = 0,
     env_open = None, env_flock = None, env_script = []\<rparr>"

definition sample_geometry :: RequestLedgerGeometry where
  "sample_geometry = \<lparr>ledger_entry_count = 32, data_block_count = 1, root_directory_block = 9,
     first_data_block = 10, ledger_indirect_block = 0, ledger_file_size = 4096\<rparr>"

lemma sample_format: "\<exists>sb. FormatSuperblock sample_options sample_env = Inr (sb, sample_geometry)"
  by (simp add: FormatSuperblock_def sample_options_def sample_env_def BuildSuperblockLayout_def
      ValidateSuperblock_def CeilDivide_def RegionEndsAt_def Let_def BuildRequestLedgerGeometry_def geometry_enabled_def
      kRequestLedgerInodeNumber_def CurrentTimeNs_def sample_geometry_def)

section \<open>Properties\<close>

text \<open>
  C14: A successful format produces an image that mounts.  The file has the requested
  size, the reader opens it with exactly the superblock that was returned and an empty
  journal, the root directory lists nothing or just the request ledger, the ledger scans
  as empty with the requested capacity, and a data block is allocated only when it
  belongs to the root directory or the ledger.
\<close>

theorem FormatImage_mounts:
  assumes "FormatImage opts env existing = (Inr sb, left)" "env_random env = Inr random" "length random = 16"
  shows "\<exists>f r g. left = Some f \<and> length f = unat (option_image_size_bytes opts)
    \<and> FormatSuperblock opts env = Inr (sb, g)
    \<and> ReaderAdoptLockedFd (Inr False) (Inr (length f)) (file_pread f) = Inr r \<and> superblock r = sb
    \<and> used_blocks (journal_control r) = 0 \<and> next_transaction_id (journal_control r) = 1
    \<and> ListDirectory r (root_inode sb) = Inr (if option_request_ledger_entries opts = 0 then [] else [ledger_entry])
    \<and> (option_request_ledger_entries opts \<noteq> 0 \<longrightarrow> ScanRequestLedger r
         = Inr \<lparr>capacity = ucast (option_request_ledger_entries opts), next_sequence = 1, records = []\<rparr>)
    \<and> (\<forall>b. IsBlockAllocated r b \<and> start_block (data sb) \<le> b \<longrightarrow> option_request_ledger_entries opts \<noteq> 0
         \<and> unat b \<le> unat (start_block (data sb)) + unat (data_block_count g)
             + (if unat (data_block_count g) > 12 then 1 else 0))"
proof -
  obtain g f where g: "FormatSuperblock opts env = Inr (sb, g)" and f: "left = Some f" and ok: "format_ok sb g"
    and fresh: "fresh_file sb g (env_uid env) (env_gid env) f"
    using FormatImage_fresh [OF assms] .
  note sb = FormatSuperblock_ok [OF g assms(2,3)]
  obtain k where r: "ReaderAdoptLockedFd (Inr False) (Inr (length f)) (file_pread f) = Inr (fresh_reader sb g f k)"
    using fresh_adopt [OF ok fresh sb(5)] .
  have en: "geometry_enabled g \<longleftrightarrow> option_request_ledger_entries opts \<noteq> 0"
    using sb(7) by (simp add: geometry_enabled_def)
  have len: "length f = unat (option_image_size_bytes opts)" using fresh sb(4) by (simp add: fresh_file_def)
  have scan: "option_request_ledger_entries opts \<noteq> 0 \<longrightarrow> ScanRequestLedger (fresh_reader sb g f k)
      = Inr \<lparr>capacity = ucast (option_request_ledger_entries opts), next_sequence = 1, records = []\<rparr>"
    using fresh_scan(1) [OF ok fresh] en sb(5,7) by simp
  have alloc: "option_request_ledger_entries opts \<noteq> 0 \<and> unat b \<le> unat (start_block (data sb)) + unat (data_block_count g)
      + (if unat (data_block_count g) > 12 then 1 else 0)"
    if b: "IsBlockAllocated (fresh_reader sb g f k) b" "start_block (data sb) \<le> b" for b
  proof -
    have "unat b < 8 * (unat (block_count (block_bitmap sb)) * 4096)"
      using b(1) bitmap_bits(2) [OF sb(1)] by (simp add: IsBlockAllocated_def word_less_nat_alt)
    from FreshBlockBitmap_ok(2) [OF sb(1,6) this] show ?thesis
      using b en by (auto simp: IsBlockAllocated_def word_less_nat_alt word_le_nat_alt)
  qed
  show ?thesis
    using g f r len scan alloc [THEN conjunct1] alloc [THEN conjunct2] fresh_list [OF ok fresh, of k] en sb(3)
    by (intro exI [of _ f] exI [of _ "fresh_reader sb g f k"] exI [of _ g] conjI allI impI)
      (auto simp: FreshControl_def)
qed

theorem FormatImage_mounts_witness:
  "\<exists>sb f r. FormatImage sample_options sample_env None = (Inr sb, Some f)
    \<and> ReaderAdoptLockedFd (Inr False) (Inr (length f)) (file_pread f) = Inr r \<and> superblock r = sb
    \<and> ScanRequestLedger r = Inr \<lparr>capacity = 32, next_sequence = 1, records = []\<rparr>"
proof -
  have e: "env_random sample_env = Inr (replicate 16 7)" "length (replicate 16 (7 :: u8)) = 16"
    "env_open sample_env = None" "env_flock sample_env = None" "env_script sample_env = []"
    "option_request_ledger_entries sample_options = 32" by (simp_all add: sample_env_def sample_options_def)
  obtain sb where "FormatSuperblock sample_options sample_env = Inr (sb, sample_geometry)" using sample_format by blast
  from FormatImage_total [OF this e(1-5), of None]
  obtain f where f: "FormatImage sample_options sample_env None = (Inr sb, Some f)" by auto
  show ?thesis using FormatImage_mounts [OF f e(1,2)] f e(6) by auto
qed

lemma failed_run_unpublished:
  assumes "run_mkfs_ops ops script f = (b, script', f')" "unpublished f" "list_all spares_superblock ops"
  shows "unpublished f'"
  using unpublished_run [OF assms(2,3), of script] assms(1) by simp

lemma drop_file_write: "length bs \<le> 4096 \<Longrightarrow> drop 4096 (file_write 0 bs f) = drop 4096 f"
  by (simp add: file_write_def put_bytes_def)

text \<open>The file when the old superblock could not be invalidated, and when the new one could not be written.\<close>

lemma invalidation_fails:
  assumes "\<not> set (take 2 script) \<subseteq> {IoOk}"
  shows "\<exists>s f'. run_mkfs_ops (MkWrite 0 (replicate 4096 0) # MkSync # rest) script f = (False, s, f') \<and> drop 4096 f' = drop 4096 f"
proof (cases script)
  case (Cons x xs)
  then show ?thesis
    using assms by (cases x; cases xs; cases "hd xs") (auto simp: numeral_2_eq_2 drop_file_write)
qed (use assms in simp)

lemma publication_fails:
  assumes "run_mkfs_ops [MkWrite 0 bs, MkSync] script f = (False, s, f')" "length bs = 4096"
  shows "drop 4096 f' = drop 4096 f"
proof (cases script)
  case (Cons x xs)
  then show ?thesis
    using assms by (cases x; cases xs; cases "hd xs") (auto simp: drop_file_write)
qed (use assms in simp)

lemma FormatSuperblock_script: "FormatSuperblock opts (env\<lparr>env_script := script\<rparr>) = FormatSuperblock opts env"
  by (simp add: FormatSuperblock_def Let_def cong: if_cong sum.case_cong)

text \<open>A forced format that got the lock fails in one of three ways.\<close>

lemma forced_failure:
  assumes "FormatImage opts env existing = (Inl e, left)" "env_random env = Inr random" "length random = 16"
    and force: "option_force opts" and sbg: "FormatSuperblock opts env = Inr (sb, g)"
    and env: "env_open env = None" "env_flock env = None"
  defines "old \<equiv> (case existing of None \<Rightarrow> [] | Some f \<Rightarrow> f)"
  shows "\<exists>f. left = Some f
    \<and> (if \<not> set (take 2 (env_script env)) \<subseteq> {IoOk} then drop 4096 f = drop 4096 old
       else if e \<noteq> ''write superblock'' then unpublished f
       else \<exists>f'. FormatImage opts (env\<lparr>env_script := []\<rparr>) existing = (Inr sb, Some f') \<and> drop 4096 f = drop 4096 f')"
proof -
  let ?n = "unat (option_image_size_bytes opts)"
  let ?rest = "[MkTruncate ?n, MkFallocate ?n]" and ?zero = "[MkWrite 0 (replicate 4096 0), MkSync]"
  note sb = FormatSuperblock_ok [OF sbg assms(2,3)]
  have ok: "format_ok sb g" using sb by (simp add: format_ok_def)
  have n: "4096 \<le> ?n" using sb(4) fresh_positions(4) [OF ok] by simp
  obtain ws where ws: "FormatBody sb g (env_uid env) (env_gid env) = Inr ws" using FormatBody_total [OF ok] by blast
  obtain sbb where sbb: "EncodeSuperblock sb = Inr sbb" "length sbb = 4096" using superblock_roundtrip [OF sb(1,2)] by blast
  let ?body = "map (\<lambda>(offset, bs). MkWrite offset bs) ws @ [MkSync]"
  obtain b1 s1 f1 where p: "run_mkfs_ops (?zero @ ?rest) (env_script env) old = (b1, s1, f1)" by (metis prod_cases3)
  obtain b2 s2 f2 where q: "run_mkfs_ops ?body s1 f1 = (b2, s2, f2)" by (metis prod_cases3)
  obtain b3 s3 f3 where r: "run_mkfs_ops [MkWrite 0 sbb, MkSync] s2 f2 = (b3, s3, f3)" by (metis prod_cases3)
  have res: "(Inl e, left) = (if \<not> b1 then (Inl ''prepare image'', Some f1)
      else if \<not> b2 then (Inl ''write filesystem body'', Some f2)
      else if \<not> b3 then (Inl ''write superblock'', Some f3) else (Inr sb, Some f3))"
    using assms(1) force sbg env ws sbb(1) p q r unfolding FormatImage_def Let_def old_def by (cases b1; cases b2; cases b3) simp_all
  show ?thesis
  proof (cases "set (take 2 (env_script env)) \<subseteq> {IoOk}")
    case False
    obtain s f' where f': "run_mkfs_ops (?zero @ ?rest) (env_script env) old = (False, s, f')" "drop 4096 f' = drop 4096 old"
      using invalidation_fails [OF False, of ?rest old] by auto
    then show ?thesis using res p False by auto
  next
    case True
    have u0: "unpublished (fold mkfs_effect ?zero old)" by (simp add: unpublished_def file_write_def get_put_same)
    have "run_mkfs_ops ?rest (drop 2 (env_script env)) (fold mkfs_effect ?zero old) = (b1, s1, f1)"
      using run_mkfs_ops_first_ok [OF True, of ?zero ?rest old] p by simp
    then have u1: "unpublished f1" using failed_run_unpublished [OF _ u0] n by simp
    have u2: "unpublished f2" using failed_run_unpublished [OF q u1 body_spares_superblock [OF ws ok]] .
    show ?thesis
    proof (cases "b1 \<and> b2")
      case False
      then show ?thesis using res True u1 u2 by (auto split: if_splits)
    next
      case complete: True
      then have b3: "\<not> b3" "e = ''write superblock''" "left = Some f3" using res by (auto split: if_splits)
      have "run_mkfs_ops (?zero @ ?rest) (env_script env) old = (True, s1, f1)" "run_mkfs_ops ?body s1 f1 = (True, s2, f2)"
        using p q complete by simp_all
      then have f1: "f1 = fold mkfs_effect (?zero @ ?rest) old" "f2 = fold mkfs_effect ?body f1"
        by - (erule run_mkfs_ops_success)+
      have "FormatImage opts (env\<lparr>env_script := []\<rparr>) existing = (Inr sb, Some (file_write 0 sbb f2))"
        using force sbg env ws sbb(1) f1 by (simp add: FormatImage_def Let_def FormatSuperblock_script run_mkfs_ops_quiet old_def)
      moreover have "drop 4096 f3 = drop 4096 (file_write 0 sbb f2)"
        using publication_fails [OF _ sbb(2), of s2 f2 s3 f3] r b3(1) sbb(2) by (simp add: drop_file_write)
      ultimately show ?thesis using b3 True by auto
    qed
  qed
qed

text \<open>
  C16: A failed format never leaves an image that mounts with a half written body.  Without force
  the path is left as it was, a new file is removed again.  With force, a format that fails before
  it has the lock leaves the contents of the file as they were.  If the old superblock cannot be
  invalidated and synced, at most the first block has changed.  Every later failure before the
  final superblock write leaves a file which the reader refuses.  If only the final superblock
  write or its sync fails, everything behind the first block is what a successful format writes.
\<close>

theorem FormatImage_failure_refused:
  assumes "FormatImage opts env existing = (Inl e, left)" "env_random env = Inr random" "length random = 16"
  shows "if \<not> option_force opts \<or> isl (FormatSuperblock opts env) \<or> env_open env \<noteq> None then left = existing
    else let old = (case existing of None \<Rightarrow> [] | Some f \<Rightarrow> f) in
      \<exists>f. left = Some f
      \<and> (if env_flock env \<noteq> None then f = old
         else if \<not> set (take 2 (env_script env)) \<subseteq> {IoOk} then drop 4096 f = drop 4096 old
         else if e \<noteq> ''write superblock'' then isl (ReaderAdoptLockedFd getfl st_size (file_pread f))
         else \<exists>sb f'. FormatImage opts (env\<lparr>env_script := []\<rparr>) existing = (Inr sb, Some f') \<and> drop 4096 f = drop 4096 f')"
proof (cases "option_force opts \<and> \<not> isl (FormatSuperblock opts env) \<and> env_open env = None \<and> env_flock env = None")
  case True
  then obtain sb g where sbg: "FormatSuperblock opts env = Inr (sb, g)" by (cases "FormatSuperblock opts env") auto
  from forced_failure [OF assms _ sbg] True unpublished_refused show ?thesis
    by (fastforce simp: Let_def split: if_splits)
next
  case False
  then show ?thesis
    using assms(1) unfolding FormatImage_def Let_def
    by (auto split: sum.splits if_splits prod.splits bool.splits option.splits)
qed

definition sample_forced :: MkfsOptions where
  "sample_forced = sample_options\<lparr>option_force := True\<rparr>"

definition sample_broken_env :: MkfsEnv where
  "sample_broken_env = sample_env\<lparr>env_script := [IoOk, IoOk, IoFail EIO 0]\<rparr>"

lemma FormatSuperblock_forced:
  "FormatSuperblock (opts\<lparr>option_force := b\<rparr>) (env\<lparr>env_script := script\<rparr>) = FormatSuperblock opts env"
  by (simp add: FormatSuperblock_def Let_def cong: if_cong sum.case_cong)

theorem FormatImage_failure_refused_witness:
  "FormatImage sample_forced sample_broken_env None = (Inl ''prepare image'', Some (replicate 4096 0))
    \<and> isl (ReaderAdoptLockedFd (Inr False) (Inr 4096) (file_pread (replicate 4096 0)))"
proof -
  have e: "env_random sample_broken_env = Inr (replicate 16 7)" "length (replicate 16 (7 :: u8)) = 16"
    by (simp_all add: sample_broken_env_def sample_env_def)
  obtain sb where sb: "FormatSuperblock sample_forced sample_broken_env = Inr (sb, sample_geometry)"
    using sample_format by (auto simp: FormatSuperblock_forced sample_forced_def sample_broken_env_def)
  have w: "file_write 0 (replicate 4096 0) [] = replicate 4096 0"
    by (simp add: file_write_def put_bytes_def)
  have f: "FormatImage sample_forced sample_broken_env None = (Inl ''prepare image'', Some (replicate 4096 0))"
    using sb w by (simp add: FormatImage_def Let_def sample_forced_def sample_broken_env_def sample_env_def)
  then show ?thesis
    using FormatImage_failure_refused [OF f e] sb
    by (simp add: sample_forced_def sample_broken_env_def sample_env_def numeral_2_eq_2)
qed

section \<open>A formatted sample image\<close>

lemma sample_image:
  obtains sb f k where "format_ok sb sample_geometry" "fresh_file sb sample_geometry 0 0 f"
    "geometry_enabled sample_geometry" "feature_incompat sb = 1"
    "ReaderAdoptLockedFd (Inr False) (Inr (length f)) (file_pread f) = Inr (fresh_reader sb sample_geometry f k)"
proof -
  have e: "env_random sample_env = Inr (replicate 16 7)" "length (replicate 16 (7 :: u8)) = 16"
    "env_open sample_env = None" "env_flock sample_env = None" "env_script sample_env = []"
    "env_uid sample_env = 0" "env_gid sample_env = 0" by (simp_all add: sample_env_def)
  obtain sb where sb: "FormatSuperblock sample_options sample_env = Inr (sb, sample_geometry)" using sample_format by blast
  from FormatImage_total [OF this e(1-5), of None]
  obtain f where f: "FormatImage sample_options sample_env None = (Inr sb, Some f)" by auto
  from FormatImage_fresh [OF f e(1,2)] have ok: "format_ok sb sample_geometry" "fresh_file sb sample_geometry 0 0 f"
    using sb e by auto
  have en: "geometry_enabled sample_geometry" by (simp add: sample_geometry_def geometry_enabled_def)
  note fi = FormatSuperblock_ok(5) [OF sb e(1,2)]
  obtain k where k: "ReaderAdoptLockedFd (Inr False) (Inr (length f)) (file_pread f) = Inr (fresh_reader sb sample_geometry f k)"
    using fresh_adopt [OF ok fi] .
  show ?thesis using that [OF ok en _ k] fi en by simp
qed

theorem ledger_scan_contents_witness:
  "\<exists>r inode recs m. ResolvePath r ledger_path = Inr (2, inode)
    \<and> file_contents r inode = concat (map slot_of recs) @ replicate (m * kRequestLedgerRecordSize) 0
    \<and> ScanRequestLedger r = Inr \<lparr>capacity = 32, next_sequence = 1, records = index_entries recs\<rparr>"
proof -
  obtain sb f where s: "format_ok sb sample_geometry" "fresh_file sb sample_geometry 0 0 f"
    "geometry_enabled sample_geometry" "feature_incompat sb = 1"
    using sample_image by metis
  let ?r = "fresh_reader sb sample_geometry f 0" and ?i = "FreshLedgerInode sb sample_geometry 0 0"
  note res = fresh_resolve [OF s(1-3), of 0] and scan = fresh_scan [OF s, of 0]
  have c: "ledger_features ?r" "\<not> ledger_geometry_bad 2 ?i"
    using scan(1) ScanRequestLedger_layout [OF res] by blast+
  have "(ucast (ledger_entry_count sample_geometry) :: u64) = 32" by (simp add: sample_geometry_def)
  with iffD1 [OF ledger_scan_contents [OF res c scan(2)] scan(1)] scan(1) res show ?thesis by fastforce
qed

end
