(* ===== verification/Spec2Isabelle.thy ===== *)
theory Spec2Isabelle
  imports ObjectService Mkfs
begin

text \<open>
  Verification of eufs, a crash consistent user space file system with a physical redo journal
  and an object store on top.  Source names below are relative to \<^verbatim>\<open>src/src\<close>.

  \<^bold>\<open>The program.\<close>  An image is a file of 4096 byte blocks: superblock, inode bitmap, block bitmap,
  inode table, journal and data.  \<^verbatim>\<open>storage/mkfs.cpp\<close> writes a fresh image,
  \<^verbatim>\<open>storage/image_reader.cpp\<close> opens one and reads inodes, directories and file contents from it.
  The planners under \<^verbatim>\<open>metadata\<close> and \<^verbatim>\<open>object\<close> turn a request and a reader into the blocks that
  have to change.  \<^verbatim>\<open>journal\<close> carries these blocks to their place atomically: ordered data and the
  body of the transaction are written and synced, a control block exposes the body, a COMMIT
  record makes it count, the home blocks are written, and a last control empties the journal;
  recovery replays or discards what a crash left.  \<^verbatim>\<open>storage/mounted_image_session.cpp\<close> owns the
  locked descriptor.  Two front ends use it: \<^verbatim>\<open>fuse\<close> serves the callbacks of the kernel, and
  \<^verbatim>\<open>object/object_backend.cpp\<close> stores whole objects under versions, with a ledger of request
  identifiers that makes retries safe.  \<^verbatim>\<open>rpc\<close> puts the object backend behind a bounded queue and a
  byte limiter.

  \<^bold>\<open>Conventions.\<close>  Integers of the source keep their width as words, sizes and positions of
  containers are natural numbers.  A negative errno is the left side of a sum.  A block device is
  a record with its contents, a script that says which system call fails or is short, and a log
  of its writes and syncs; an empty script is a device without faults.  Answers of other system
  calls, the clock, random bytes and the SHA-256 digest are arguments.  Detail strings, null
  pointer checks and mutexes are left out: every locked operation is one step.

  \<^bold>\<open>Theories.\<close>
  \<^item> \<open>Prelude\<close>: words, byte strings, little endian integers, results and their automation.
  \<^item> \<open>OnDiskFormat\<close>, \<open>OnDiskJournal\<close> (\<^verbatim>\<open>metadata/ondisk_format\<close>, \<^verbatim>\<open>journal/ondisk_journal\<close>): CRC-32C and the
    codecs of all blocks and records, the region layout, and the choice between the two control
    copies.  Codecs are inverse to each other on valid values, and a changed byte is detected.
  \<^item> \<open>RingReservation\<close>, \<open>BitmapAllocator\<close> (\<^verbatim>\<open>journal/ring_reservation\<close>, \<^verbatim>\<open>storage/bitmap_allocator\<close>):
    positions of a transaction in the ring; first fit allocation, as an instance of the locale
    \<open>bit_allocator\<close>, whose lemmas show that reservations are complete and roll back.
  \<^item> \<open>BlockDevice\<close>, \<open>JournalStore\<close>, \<open>JournalRecovery\<close> (\<^verbatim>\<open>journal/journal_control_store\<close>,
    \<^verbatim>\<open>journal/journal_recovery\<close>, \<^verbatim>\<open>journal/journal_transaction_executor\<close>): the scripted device and the
    steps of a transaction and of recovery with every error branch.
  \<^item> \<open>TransactionImages\<close>, \<open>TransactionExecution\<close>, \<open>CrashSafety\<close>, \<open>JournalAtomicity\<close>: the writes of a
    transaction as data, what each prefix of them leaves on disk, and the proof that crashes at
    any prefix followed by any number of interrupted recoveries give the old or the new blocks.
    \<open>journal_run\<close> refines sequences of atomic updates.
  \<^item> \<open>ImageReader\<close>, \<open>ReaderFrame\<close> (\<^verbatim>\<open>storage/image_reader\<close>): opening, block mapping, paths and reads; what
    a reader returns depends on few blocks, so writes elsewhere leave it alone.
  \<^item> \<open>Planning\<close>, \<open>FileMutation\<close>, \<open>NewObject\<close> (\<^verbatim>\<open>metadata/*_plan\<close>): the planners, with the invariants of
    their allocation and copy-on-write loops.
  \<^item> \<open>VolumeTransactions\<close>: consistency of a volume, the effect of a planned mutation on it, and the
    end to end crash safety of a file mutation.
  \<^item> \<open>RequestLedgerFormat\<close>, \<open>RequestLedger\<close> (\<^verbatim>\<open>object/request_*\<close>): fingerprints, ledger records, the scan
    that rebuilds the index, and the plan that appends a record.
  \<^item> \<open>Mkfs\<close> (\<^verbatim>\<open>storage/mkfs\<close>): the writes of a format, that the result mounts, and what a failure leaves.
  \<^item> \<open>ImageSession\<close>, \<open>FuseMount\<close> (\<^verbatim>\<open>storage/mounted_image_session\<close>, \<^verbatim>\<open>fuse\<close>): the session, the mount
    state and the callbacks; a transaction that succeeds has written exactly its images outside the
    journal, a write is read back, and every failure leaves the mount as it was or closed for good.
  \<^item> \<open>ObjectStore\<close> (\<^verbatim>\<open>object/object_backend\<close>): the operations of the backend; a request is executed at most
    once and keeps its answer, the reported outcome is what happened to the blocks of the image, an
    uncertain outcome closes the backend, and a replacement is read back.
  \<^item> \<open>RpcQueue\<close> (\<^verbatim>\<open>rpc/inflight_byte_limiter\<close>, \<^verbatim>\<open>rpc/bounded_task_queue\<close>): limiter, tasks and queue as
    instances of the locales \<open>byte_budget\<close> and \<open>bounded_fifo\<close>, and the interleaving of handlers, workers
    and shutdown as the step relation \<open>service_step\<close>, in which the callback of a task and the return of
    its lease are separate steps; every call is answered once, a write is charged until it is answered,
    and shutdown drains.
  \<^item> \<open>ObjectService\<close> (\<^verbatim>\<open>rpc/object_service_impl\<close>, \<^verbatim>\<open>rpc/object_service.proto\<close>): the checks and closures of the
    handlers; a retried call gets the answer of the first one.

  \<^bold>\<open>Bounds.\<close>  No definition uses fuel.  Loops are structural recursions over lists, or recursions
  with a proved measure, such as the bytes that a read still has to return.  A device retries an
  interrupted call as often as its finite script says.

  \<^bold>\<open>Crashes.\<close>  A crash keeps every synced write and leaves any mixture of old and new bytes of the
  writes since the last sync, so torn and reordered writes are covered.  The journal relies on its
  checksums here: \<open>tears_detected\<close> assumes that a torn journal block is neither a control nor a COMMIT.
  Theorems that execute a transaction also assume that its metadata blocks do not decode as a
  COMMIT record; the code writes them into the ring where recovery looks for one.

  \<^bold>\<open>Limits.\<close>  Crash safety and the effect on the volume are proved for file mutations, which cover FUSE
  writes and object replacements.  The planners of new objects, empty files and ledger appends are
  modelled in full, \<open>JournalAtomicity\<close> covers their transactions, and \<open>ObjectStore\<close> shows that a reported
  commit has written the planned blocks, but that these blocks make a consistent volume is not proved.

  \<^bold>\<open>Not modelled.\<close>  \<^verbatim>\<open>checker\<close> only reads an image and prints what it finds.  The counters of
  \<^verbatim>\<open>rpc/object_service_metrics.cpp\<close> are never read back.  The programs under \<^verbatim>\<open>app\<close> parse arguments and call
  the libraries, and the observer of \<^verbatim>\<open>journal/durable_stage_failpoint.cpp\<close> kills the process.
  Exceptions of the standard library, brpc and protobuf are outside the model.
\<close>

end
